(* ===== verification/Prelude.thy ===== *)
theory Prelude
  imports Complex_Main "HOL-Library.AList" "HOL-Library.Char_ord" "HOL-Library.List_Lexorder"
begin

text \<open>
  What every component shares: the Go types the model uses, the clock, the ASCII string
  operations of package \<open>strings\<close>, Go maps as association lists, and the generic lemmas on
  them.

  A Go \<open>int\<close> or \<open>int64\<close> that is only compared, or counted far below its range, is an
  \<open>int\<close>; where the 64-bit wrap matters the component says so.
  A \<open>time.Time\<close> is the number of nanoseconds since the Unix epoch, a \<open>time.Duration\<close> is a
  number of nanoseconds, and the clock reading of an operation is an argument of it.
  A string is the list of its bytes; \<open>strings.ToLower\<close>, \<open>strings.EqualFold\<close> are modelled
  on ASCII text (a byte above 127 is left as it is).
\<close>

named_theorems go_defs \<open>unfoldings of the small Go operations\<close>
named_theorems gok_intros \<open>operations keep the keys of a Go map distinct\<close>

section \<open>Time\<close>

type_synonym gotime = int
type_synonym duration = int

abbreviation (input) ns_second :: int where "ns_second \<equiv> 1000000000"
abbreviation (input) ns_minute :: int where "ns_minute \<equiv> 60000000000"
abbreviation (input) ns_hour :: int where "ns_hour \<equiv> 3600000000000"

text \<open>\<open>t.Unix()\<close>: whole seconds; the zero \<open>time.Time\<close> is the first instant of year 1.\<close>

definition unix :: "gotime \<Rightarrow> int" where
  "unix t = t div 1000000000"

definition zero_time :: gotime where
  "zero_time = - 62135596800 * 1000000000"

lemma unix_mono: "s \<le> t \<Longrightarrow> unix s \<le> unix t"
  by (simp add: unix_def zdiv_mono1)

lemma unix_of_seconds [simp]: "unix (s * 1000000000) = s"
  by (simp add: unix_def)

section \<open>ASCII strings\<close>

definition lower_char :: "char \<Rightarrow> char" where
  "lower_char c = (if 65 \<le> (of_char c :: nat) \<and> (of_char c :: nat) \<le> 90
                   then char_of ((of_char c :: nat) + 32) else c)"

definition to_lower :: "string \<Rightarrow> string" where
  "to_lower s = map lower_char s"

definition equal_fold :: "string \<Rightarrow> string \<Rightarrow> bool" where
  "equal_fold s t \<longleftrightarrow> to_lower s = to_lower t"

definition replace_char :: "char \<Rightarrow> char \<Rightarrow> string \<Rightarrow> string" where
  "replace_char a b s = map (\<lambda>c. if c = a then b else c) s"

lemma lower_char_idem [simp]: "lower_char (lower_char c) = lower_char c"
proof (cases "65 \<le> (of_char c :: nat) \<and> (of_char c :: nat) \<le> 90")
  case True
  then have "(of_char (char_of ((of_char c :: nat) + 32)) :: nat) = of_char c + 32"
    by (simp add: of_char_mod_256 of_char_of)
  with True show ?thesis by (simp add: lower_char_def)
next
  case False
  then have "lower_char c = c" by (auto simp add: lower_char_def)
  then show ?thesis by simp
qed

lemma to_lower_idem [simp]: "to_lower (to_lower s) = to_lower s"
  by (simp add: to_lower_def)

lemma to_lower_Nil_iff [simp]: "to_lower s = [] \<longleftrightarrow> s = []"
  by (simp add: to_lower_def)

lemma to_lower_append [simp]: "to_lower (s @ t) = to_lower s @ to_lower t"
  by (simp add: to_lower_def)

lemma length_to_lower [simp]: "length (to_lower s) = length s"
  by (simp add: to_lower_def)

lemma equal_fold_refl [simp]: "equal_fold s s"
  by (simp add: equal_fold_def)

lemma equal_fold_sym: "equal_fold s t \<Longrightarrow> equal_fold t s"
  by (simp add: equal_fold_def)

lemma equal_fold_trans: "equal_fold s t \<Longrightarrow> equal_fold t u \<Longrightarrow> equal_fold s u"
  by (simp add: equal_fold_def)

text \<open>\<open>strings.HasPrefix\<close>, \<open>Contains\<close>, \<open>Index\<close>, \<open>TrimPrefix\<close>, \<open>TrimSuffix\<close>.\<close>

definition has_prefix :: "string \<Rightarrow> string \<Rightarrow> bool" where
  "has_prefix s p \<longleftrightarrow> take (length p) s = p"

fun str_index :: "string \<Rightarrow> string \<Rightarrow> nat option" where
  "str_index [] sub = (if sub = [] then Some 0 else None)"
| "str_index (c # cs) sub = (if has_prefix (c # cs) sub then Some 0 else map_option Suc (str_index cs sub))"

definition str_contains :: "string \<Rightarrow> string \<Rightarrow> bool" where
  "str_contains s sub \<longleftrightarrow> str_index s sub \<noteq> None"

definition trim_prefix :: "string \<Rightarrow> string \<Rightarrow> string" where
  "trim_prefix s p = (if has_prefix s p then drop (length p) s else s)"

definition trim_suffix :: "string \<Rightarrow> string \<Rightarrow> string" where
  "trim_suffix s p = rev (trim_prefix (rev s) (rev p))"

text \<open>\<open>strconv.Itoa\<close>: the decimal digits, with a minus sign for a negative number.\<close>

definition digit_char :: "nat \<Rightarrow> char" where "digit_char n = char_of (48 + n)"

fun digits_of :: "nat \<Rightarrow> string" where
  "digits_of n = (if n < 10 then [digit_char n] else digits_of (n div 10) @ [digit_char (n mod 10)])"

declare digits_of.simps [simp del]

definition itoa :: "int \<Rightarrow> string" where
  "itoa n = (if n < 0 then CHR ''-'' # digits_of (nat (- n)) else digits_of (nat n))"

fun undigits :: "string \<Rightarrow> nat" where
  "undigits s = (if s = [] then 0 else 10 * undigits (butlast s) + ((of_char (last s) :: nat) - 48))"

declare undigits.simps [simp del]

lemma of_char_digit: "n < 10 \<Longrightarrow> (of_char (digit_char n) :: nat) = 48 + n"
  by (simp add: digit_char_def of_char_of)

lemma digits_of_Nil [simp]: "digits_of n \<noteq> []"
  by (subst digits_of.simps) simp

lemma undigits_digits [simp]: "undigits (digits_of n) = n"
proof (induction n rule: digits_of.induct)
  case (1 n)
  show ?case
  proof (cases "n < 10")
    case True
    then show ?thesis by (subst digits_of.simps) (simp add: undigits.simps of_char_digit)
  next
    case False
    then have "digits_of n = digits_of (n div 10) @ [digit_char (n mod 10)]" by (subst digits_of.simps) simp
    then show ?thesis using "1.IH" False by (subst undigits.simps) (simp add: of_char_digit)
  qed
qed

lemma digits_of_head: "hd (digits_of n) \<noteq> CHR ''-''"
proof (induction n rule: digits_of.induct)
  case (1 n)
  have d: "digit_char k \<noteq> CHR ''-''" if "k < 10" for k
  proof
    assume "digit_char k = CHR ''-''"
    then have "(of_char (digit_char k) :: nat) = of_char (CHR ''-'')" by simp
    with that show False by (simp add: of_char_digit)
  qed
  show ?case
    using "1.IH" d by (subst digits_of.simps) simp
qed

lemma itoa_inj: "itoa m = itoa n \<longleftrightarrow> m = n"
proof
  assume eq: "itoa m = itoa n"
  have digits: "digits_of a = digits_of b \<Longrightarrow> a = b" for a b by (metis undigits_digits)
  consider "m < 0" "n < 0" | "0 \<le> m" "0 \<le> n" | "m < 0" "0 \<le> n" | "0 \<le> m" "n < 0" by linarith
  then show "m = n"
  proof cases
    case 1
    with eq digits [of "nat (- m)" "nat (- n)"] show ?thesis by (simp add: itoa_def)
  next
    case 2
    with eq digits [of "nat m" "nat n"] show ?thesis by (simp add: itoa_def)
  next
    case 3
    with eq have "CHR ''-'' # digits_of (nat (- m)) = digits_of (nat n)" by (simp add: itoa_def)
    with digits_of_head [of "nat n"] show ?thesis by (metis list.sel(1))
  next
    case 4
    with eq have "CHR ''-'' # digits_of (nat (- n)) = digits_of (nat m)" by (simp add: itoa_def)
    with digits_of_head [of "nat m"] show ?thesis by (metis list.sel(1))
  qed
qed simp

section \<open>Lists\<close>

text \<open>A loop that keeps the elements passing every \<open>continue\<close> guard is a \<open>filter\<close>; these
  lemmas relate a loop that also records the keys it has seen to the filtered list.\<close>

fun dedup_by :: "('a \<Rightarrow> 'k) \<Rightarrow> 'k set \<Rightarrow> 'a list \<Rightarrow> 'a list" where
  "dedup_by f seen [] = []"
| "dedup_by f seen (x # xs) =
     (if f x \<in> seen then dedup_by f seen xs else x # dedup_by f (insert (f x) seen) xs)"

lemma dedup_by_subset: "set (dedup_by f seen xs) \<subseteq> set xs"
  by (induction xs arbitrary: seen) auto

lemma dedup_by_keys: "f ` set (dedup_by f seen xs) = f ` set xs - seen"
  by (induction xs arbitrary: seen) auto

lemma dedup_by_distinct: "distinct (map f (dedup_by f seen xs))"
proof (induction xs arbitrary: seen)
  case (Cons x xs)
  have "f x \<notin> f ` set (dedup_by f (insert (f x) seen) xs)"
    by (simp add: dedup_by_keys)
  with Cons show ?case by simp
qed simp

lemma dedup_by_first:
  assumes "x \<in> set (dedup_by f {} xs)"
  shows "\<exists>ys zs. xs = ys @ x # zs \<and> f x \<notin> f ` set ys"
proof -
  have "x \<in> set (dedup_by f seen xs) \<Longrightarrow>
      \<exists>ys zs. xs = ys @ x # zs \<and> f x \<notin> f ` set ys \<and> f x \<notin> seen" for seen
  proof (induction xs arbitrary: seen)
    case (Cons y ys)
    show ?case
    proof (cases "f y \<in> seen")
      case True
      with Cons.prems have "x \<in> set (dedup_by f seen ys)" by simp
      from Cons.IH [OF this] obtain us vs where
        "ys = us @ x # vs" "f x \<notin> f ` set us" "f x \<notin> seen" by blast
      with True show ?thesis
        by (intro exI [of _ "y # us"] exI [of _ vs]) auto
    next
      case False
      show ?thesis
      proof (cases "x = y")
        case True
        with False show ?thesis by (intro exI [of _ "[]"] exI [of _ ys]) auto
      next
        case neq: False
        with False Cons.prems have "x \<in> set (dedup_by f (insert (f y) seen) ys)" by simp
        from Cons.IH [OF this] obtain us vs where
          "ys = us @ x # vs" "f x \<notin> f ` set us" "f x \<notin> insert (f y) seen" by blast
        then show ?thesis by (intro exI [of _ "y # us"] exI [of _ vs]) auto
      qed
    qed
  qed simp
  from this [OF assms] show ?thesis by blast
qed

lemma dedup_by_mem: "f x \<notin> f ` set ys \<Longrightarrow> x \<in> set (dedup_by f {} (ys @ x # zs))"
proof -
  have "f x \<notin> seen \<Longrightarrow> f x \<notin> f ` set ys \<Longrightarrow> x \<in> set (dedup_by f seen (ys @ x # zs))" for seen
    by (induction ys arbitrary: seen) auto
  then show "f x \<notin> f ` set ys \<Longrightarrow> x \<in> set (dedup_by f {} (ys @ x # zs))" by simp
qed

section \<open>Go maps\<close>

text \<open>
  A Go map is an association list with distinct keys (\<open>gok\<close>); the order of the list stands
  for the (unspecified) iteration order of \<open>range\<close>. \<open>gkeep\<close> is the loop that deletes, while it
  ranges over the map, the entries that fail a test.
\<close>

type_synonym ('k, 'v) gomap = "('k \<times> 'v) list"

definition gget :: "('k, 'v) gomap \<Rightarrow> 'k \<Rightarrow> 'v option" where
  "gget m k = map_of m k"

definition gput :: "'k \<Rightarrow> 'v \<Rightarrow> ('k, 'v) gomap \<Rightarrow> ('k, 'v) gomap" where
  "gput k v m = AList.update k v m"

definition gdel :: "'k \<Rightarrow> ('k, 'v) gomap \<Rightarrow> ('k, 'v) gomap" where
  "gdel k m = filter (\<lambda>(k', _). k' \<noteq> k) m"

definition gkeep :: "('k \<Rightarrow> 'v \<Rightarrow> bool) \<Rightarrow> ('k, 'v) gomap \<Rightarrow> ('k, 'v) gomap" where
  "gkeep P m = filter (\<lambda>(k, v). P k v) m"

definition gok :: "('k, 'v) gomap \<Rightarrow> bool" where
  "gok m \<longleftrightarrow> distinct (map fst m)"

definition gget_or :: "'v \<Rightarrow> ('k, 'v) gomap \<Rightarrow> 'k \<Rightarrow> 'v" where
  "gget_or d m k = (case gget m k of None \<Rightarrow> d | Some v \<Rightarrow> v)"

text \<open>\<open>m[k] = append(m[k], xs...)\<close>, and the loop that replaces every value while it ranges.\<close>

definition gappend :: "'k \<Rightarrow> 'a list \<Rightarrow> ('k, 'a list) gomap \<Rightarrow> ('k, 'a list) gomap" where
  "gappend k xs m = gput k (gget_or [] m k @ xs) m"

definition gmapv :: "('v \<Rightarrow> 'w) \<Rightarrow> ('k, 'v) gomap \<Rightarrow> ('k, 'w) gomap" where
  "gmapv f m = map (\<lambda>(k, v). (k, f v)) m"

lemma gget_Nil [simp]: "gget [] k = None"
  by (simp add: gget_def)

lemma gget_Cons: "gget ((a, b) # m) k = (if k = a then Some b else gget m k)"
  by (simp add: gget_def)

lemma gget_put: "gget (gput k v m) k' = (if k' = k then Some v else gget m k')"
  by (simp add: gget_def gput_def update_conv)

lemma gget_del: "gget (gdel k m) k' = (if k' = k then None else gget m k')"
  by (induction m) (auto simp: gget_def gdel_def)

lemma gok_Nil [simp, gok_intros]: "gok []"
  by (simp add: gok_def)

lemma gok_Cons: "gok ((a, b) # m) \<longleftrightarrow> gget m a = None \<and> gok m"
  by (simp add: gok_def gget_def map_of_eq_None_iff)

lemma gok_put [gok_intros]: "gok m \<Longrightarrow> gok (gput k v m)"
  by (simp add: gok_def gput_def distinct_update)

lemma gok_keep [gok_intros]: "gok m \<Longrightarrow> gok (gkeep P m)"
  by (induction m) (auto simp: gok_def gkeep_def)

lemma gok_del [gok_intros]: "gok m \<Longrightarrow> gok (gdel k m)"
  by (induction m) (auto simp: gok_def gdel_def)

lemma gget_keep:
  assumes "gok m"
  shows "gget (gkeep P m) k = (case gget m k of None \<Rightarrow> None | Some v \<Rightarrow> if P k v then Some v else None)"
  using assms
proof (induction m)
  case (Cons a m)
  obtain k' v' where a: "a = (k', v')" by (cases a)
  from Cons.prems have none: "gget m k' = None" and ok: "gok m"
    by (simp_all add: a gok_Cons)
  show ?case
  proof (cases "k = k'")
    case True
    with Cons.IH [OF ok] none show ?thesis
      by (auto simp: a gkeep_def gget_Cons)
  next
    case False
    with Cons.IH [OF ok] show ?thesis by (auto simp: a gkeep_def gget_Cons)
  qed
qed (simp add: gkeep_def)

lemma gget_keep_Some:
  "gok m \<Longrightarrow> gget (gkeep P m) k = Some v \<longleftrightarrow> gget m k = Some v \<and> P k v"
  by (auto simp: gget_keep split: option.splits)

lemma gmem_iff: "gok m \<Longrightarrow> (k, v) \<in> set m \<longleftrightarrow> gget m k = Some v"
  by (simp add: gok_def gget_def map_of_eq_Some_iff)

lemma gget_mem: "gget m k = Some v \<Longrightarrow> (k, v) \<in> set m"
  by (simp add: gget_def map_of_SomeD)

lemma gget_in_keys: "gget m k \<noteq> None \<longleftrightarrow> k \<in> fst ` set m"
  by (metis gget_def map_of_eq_None_iff)

lemma gput_mem: "(a, b) \<in> set (gput k v m) \<Longrightarrow> (a, b) = (k, v) \<or> (a, b) \<in> set m"
  by (induction m) (auto simp: gput_def split: if_splits)

lemma keys_gput: "fst ` set (gput k v m) = insert k (fst ` set m)"
  by (induction m) (auto simp: gput_def)

lemma length_gput: "length (gput k v m) = (if gget m k = None then Suc (length m) else length m)"
  by (induction m) (auto simp: gput_def gget_def)

lemma gkeep_gkeep: "gkeep P (gkeep Q m) = gkeep (\<lambda>k v. Q k v \<and> P k v) m"
  by (induction m) (auto simp: gkeep_def)

lemma gkeep_mem: "(k, v) \<in> set (gkeep P m) \<longleftrightarrow> (k, v) \<in> set m \<and> P k v"
  by (auto simp: gkeep_def)

lemma length_gkeep: "length (gkeep P m) \<le> length m"
  by (simp add: gkeep_def)

lemma gkeep_all: "(\<And>k v. (k, v) \<in> set m \<Longrightarrow> P k v) \<Longrightarrow> gkeep P m = m"
  by (induction m) (auto simp: gkeep_def)

lemma gget_or_Nil [simp]: "gget_or d [] k = d"
  by (simp add: gget_or_def)

lemma gget_or_put: "gget_or d (gput k v m) k' = (if k' = k then v else gget_or d m k')"
  by (simp add: gget_or_def gget_put)

lemma gok_gappend [gok_intros]: "gok m \<Longrightarrow> gok (gappend k xs m)"
  by (simp add: gappend_def gok_put)

lemma gget_or_gappend: "gget_or [] (gappend k xs m) k' = (if k' = k then gget_or [] m k @ xs else gget_or [] m k')"
  by (simp add: gappend_def gget_or_put)

lemma gget_mapv: "gget (gmapv f m) k = map_option f (gget m k)"
  by (induction m) (auto simp: gmapv_def gget_def)

lemma gget_or_mapv: "f d = d \<Longrightarrow> gget_or d (gmapv f m) k = f (gget_or d m k)"
  by (simp add: gget_or_def gget_mapv split: option.split)

lemma gok_mapv [gok_intros]: "gok m \<Longrightarrow> gok (gmapv f m)"
  by (simp add: gok_def gmapv_def o_def case_prod_unfold)

lemmas gmap_simps = gget_put gget_del gget_keep gget_Cons

text \<open>The interface of a Go map: the laws its users rely on.\<close>

locale go_map =
  fixes look :: "'m \<Rightarrow> 'k \<Rightarrow> 'v option"
    and store :: "'k \<Rightarrow> 'v \<Rightarrow> 'm \<Rightarrow> 'm"
    and drop_key :: "'k \<Rightarrow> 'm \<Rightarrow> 'm"
    and retain :: "('k \<Rightarrow> 'v \<Rightarrow> bool) \<Rightarrow> 'm \<Rightarrow> 'm"
    and okm :: "'m \<Rightarrow> bool"
  assumes look_store: "look (store k v m) k' = (if k' = k then Some v else look m k')"
    and look_drop: "look (drop_key k m) k' = (if k' = k then None else look m k')"
    and look_retain: "okm m \<Longrightarrow>
      look (retain P m) k = (case look m k of None \<Rightarrow> None | Some v \<Rightarrow> if P k v then Some v else None)"
    and ok_store: "okm m \<Longrightarrow> okm (store k v m)"
    and ok_drop: "okm m \<Longrightarrow> okm (drop_key k m)"
    and ok_retain: "okm m \<Longrightarrow> okm (retain P m)"
begin

text \<open>Two maps agree on what is still live: the relation every lazily expiring store uses.\<close>

definition live_eq :: "('k \<Rightarrow> 'v \<Rightarrow> bool) \<Rightarrow> 'm \<Rightarrow> 'm \<Rightarrow> bool" where
  "live_eq L m m' \<longleftrightarrow> okm m \<and> okm m' \<and>
     (\<forall>k v. L k v \<longrightarrow> (look m k = Some v \<longleftrightarrow> look m' k = Some v))"

lemma live_eq_refl: "okm m \<Longrightarrow> live_eq L m m"
  by (simp add: live_eq_def)

lemma live_eq_sym: "live_eq L m m' \<Longrightarrow> live_eq L m' m"
  by (simp add: live_eq_def)

lemma live_eq_trans: "live_eq L m m' \<Longrightarrow> live_eq L m' m'' \<Longrightarrow> live_eq L m m''"
  by (simp add: live_eq_def)

lemma live_eq_look:
  assumes "live_eq L m m'"
  shows "(case look m k of None \<Rightarrow> None | Some v \<Rightarrow> if L k v then Some v else None)
       = (case look m' k of None \<Rightarrow> None | Some v \<Rightarrow> if L k v then Some v else None)"
proof -
  have "\<And>v. L k v \<Longrightarrow> look m k = Some v \<longleftrightarrow> look m' k = Some v"
    using assms by (simp add: live_eq_def)
  then show ?thesis by (cases "look m k"; cases "look m' k") fastforce+
qed

lemma live_eq_retain: "okm m \<Longrightarrow> (\<And>k v. L k v \<Longrightarrow> P k v) \<Longrightarrow> live_eq L (retain P m) m"
  by (auto simp: live_eq_def look_retain ok_retain split: option.splits)

lemma live_eq_store: "live_eq L m m' \<Longrightarrow> live_eq L (store k v m) (store k v m')"
  by (auto simp: live_eq_def look_store ok_store)

lemma live_eq_drop: "live_eq L m m' \<Longrightarrow> live_eq L (drop_key k m) (drop_key k m')"
  by (auto simp: live_eq_def look_drop ok_drop)

lemma live_eq_weaken: "live_eq L m m' \<Longrightarrow> (\<And>k v. L' k v \<Longrightarrow> L k v) \<Longrightarrow> live_eq L' m m'"
  by (auto simp: live_eq_def)

end

interpretation gm: go_map gget gput gdel gkeep gok
  by unfold_locales (auto simp: gget_put gget_del gget_keep intro: gok_intros split: option.splits)

lemma map_filter_append: "List.map_filter f (xs @ ys) = List.map_filter f xs @ List.map_filter f ys"
  by (simp add: List.map_filter_def)

end
