(* ===== verification/Float64.thy ===== *)
theory Float64
  imports Prelude
begin

text \<open>
  Go's \<open>float64\<close>: a finite double is the real number it denotes, and every arithmetic
  operation rounds the exact result to the nearest double, ties to even (\<open>f64_round\<close>, with
  the exponent range of the format at the small end). Overflow to infinity is outside the
  model: every value here stays far below \<open>2 ^ 1023\<close>. A NaN is written out where the code can
  meet one. The functions of package \<open>math\<close> round the exact real value.
\<close>

type_synonym f64 = real

text \<open>The binary exponent: \<open>2 powi fexp x \<le> x < 2 powi (fexp x + 1)\<close> for positive \<open>x\<close>.\<close>

function fexp :: "real \<Rightarrow> int" where
  "fexp x = (if x \<le> 0 then 0
             else if x < 1 then fexp (2 * x) - 1
             else if 2 \<le> x then fexp (x / 2) + 1 else 0)"
  by pat_completeness auto
termination
proof (relation "measure (\<lambda>x. nat \<bar>\<lfloor>log 2 x\<rfloor>\<bar>)")
  fix x :: real
  assume "\<not> x \<le> 0" "x < 1"
  then have "\<lfloor>log 2 (2 * x)\<rfloor> = \<lfloor>log 2 x\<rfloor> + 1" and "\<lfloor>log 2 x\<rfloor> < 0"
    by (simp_all add: log_mult floor_less_zero)
  then have "nat \<bar>\<lfloor>log 2 (2 * x)\<rfloor>\<bar> < nat \<bar>\<lfloor>log 2 x\<rfloor>\<bar>" by linarith
  then show "(2 * x, x) \<in> measure (\<lambda>x. nat \<bar>\<lfloor>log 2 x\<rfloor>\<bar>)" by simp
next
  fix x :: real
  assume "\<not> x \<le> 0" "\<not> x < 1" and ge2: "2 \<le> x"
  then have "\<lfloor>log 2 (x / 2)\<rfloor> = \<lfloor>log 2 x\<rfloor> - 1" by (simp add: log_divide)
  moreover from ge2 have "1 \<le> \<lfloor>log 2 x\<rfloor>" by (simp add: le_floor_iff le_log_iff)
  ultimately show "(x / 2, x) \<in> measure (\<lambda>x. nat \<bar>\<lfloor>log 2 x\<rfloor>\<bar>)" by simp
qed simp

declare fexp.simps [simp del]

lemma fexp_bounds:
  assumes "0 < x"
  shows "2 powi (fexp x) \<le> x" and "x < 2 powi (fexp x + 1)"
proof -
  have "0 < x \<longrightarrow> 2 powi (fexp x) \<le> x \<and> x < 2 powi (fexp x + 1)"
  proof (induction x rule: fexp.induct)
    case (1 x)
    show ?case
    proof (cases "0 < x")
      case pos: True
      consider "x < 1" | "2 \<le> x" | "1 \<le> x" "x < 2" by linarith
      then show ?thesis
      proof cases
        case 1
        with "1.IH"(1) pos have "2 powi (fexp (2 * x)) \<le> 2 * x" "2 * x < 2 powi (fexp (2 * x) + 1)"
          by simp_all
        with 1 pos show ?thesis
          by (simp add: fexp.simps [of x] power_int_diff power_int_add)
      next
        case 2
        with "1.IH"(2) pos have "2 powi (fexp (x / 2)) \<le> x / 2" "x / 2 < 2 powi (fexp (x / 2) + 1)"
          by simp_all
        with 2 pos show ?thesis
          by (simp add: fexp.simps [of x] power_int_add)
      next
        case 3
        with pos show ?thesis by (simp add: fexp.simps [of x])
      qed
    qed simp
  qed
  with assms show "2 powi (fexp x) \<le> x" and "x < 2 powi (fexp x + 1)" by simp_all
qed

lemma powi_less_cancel: "(2::real) powi a < 2 powi b \<Longrightarrow> a < b"
  by (metis linorder_not_less one_le_numeral power_int_increasing)

lemma fexp_unique:
  assumes "2 powi e \<le> x" and "x < 2 powi (e + 1)"
  shows "fexp x = e"
proof -
  have "0 < x" using assms(1) by (smt (verit) zero_less_power_int)
  from fexp_bounds [OF this] assms have "2 powi (fexp x) < (2::real) powi (e + 1)"
    and "(2::real) powi e < 2 powi (fexp x + 1)" by linarith+
  then show ?thesis by (auto dest!: powi_less_cancel)
qed

lemma fexp_mono:
  assumes "0 < x" and "x \<le> y"
  shows "fexp x \<le> fexp y"
proof -
  from assms fexp_bounds(1) [of x] fexp_bounds(2) [of y]
  have "(2::real) powi (fexp x) < 2 powi (fexp y + 1)" by linarith
  then show ?thesis by (auto dest: powi_less_cancel)
qed

section \<open>Rounding to nearest, ties to even\<close>

definition rhe :: "real \<Rightarrow> int" where
  "rhe x = (let f = \<lfloor>x\<rfloor>; d = x - of_int f
            in if d < 1 / 2 then f else if 1 / 2 < d then f + 1 else if even f then f else f + 1)"

lemma rhe_of_int [simp]: "rhe (of_int k) = k"
  by (simp add: rhe_def)

lemma rhe_floor: "\<lfloor>x\<rfloor> \<le> rhe x" "rhe x \<le> \<lfloor>x\<rfloor> + 1"
  by (simp_all add: rhe_def Let_def)

lemma rhe_mono:
  assumes "x \<le> y"
  shows "rhe x \<le> rhe y"
proof (cases "\<lfloor>x\<rfloor> = \<lfloor>y\<rfloor>")
  case True
  with assms show ?thesis by (auto simp: rhe_def Let_def)
next
  case False
  with floor_mono [OF assms] have "\<lfloor>x\<rfloor> + 1 \<le> \<lfloor>y\<rfloor>" by simp
  with rhe_floor [of x] rhe_floor [of y] show ?thesis by linarith
qed

lemma rhe_minus: "rhe (- x) = - rhe x"
proof (cases "x = of_int \<lfloor>x\<rfloor>")
  case True
  then obtain k where k: "x = of_int k" by blast
  then have "rhe (- x) = rhe (of_int (- k))" by simp
  with k show ?thesis by (simp only: rhe_of_int)
next
  case False
  then have "\<lfloor>- x\<rfloor> = - \<lfloor>x\<rfloor> - 1" by (simp add: floor_minus ceiling_altdef)
  then show ?thesis by (auto simp: rhe_def Let_def)
qed

text \<open>The spacing of the doubles around \<open>x\<close>.\<close>

definition fquantum :: "real \<Rightarrow> real" where
  "fquantum x = 2 powi (max (fexp \<bar>x\<bar> - 52) (- 1074))"

definition f64_round :: "real \<Rightarrow> f64" where
  "f64_round x = (if x = 0 then 0 else of_int (rhe (x / fquantum x)) * fquantum x)"

lemma fquantum_pos [simp]: "0 < fquantum x"
  by (simp add: fquantum_def)

lemma f64_round_0 [simp]: "f64_round 0 = 0"
  by (simp add: f64_round_def)

lemma f64_round_minus [simp]: "f64_round (- x) = - f64_round x"
proof -
  have "fquantum (- x) = fquantum x" by (simp add: fquantum_def)
  then show ?thesis using rhe_minus [of "x / fquantum x"] by (simp add: f64_round_def)
qed

lemma powi_split: "b \<le> a \<Longrightarrow> (2::real) powi a = of_int (2 ^ nat (a - b)) * 2 powi b"
  by (simp add: power_int_add [symmetric] flip: power_int_of_nat)

text \<open>Numbers with at most 53 significant bits are doubles: rounding leaves them alone.\<close>

lemma f64_round_exact:
  assumes k: "\<bar>k\<bar> < 2 ^ 53" and e: "- 1074 \<le> e"
  shows "f64_round (of_int k * 2 powi e) = of_int k * 2 powi e"
proof (cases "k = 0")
  case False
  let ?x = "of_int k * 2 powi e :: real"
  define c where "c = max (fexp \<bar>?x\<bar> - 52) (- 1074)"
  have "\<bar>?x\<bar> < 2 powi (53 + e)"
  proof -
    have "(of_int \<bar>k\<bar> :: real) < of_int (2 ^ 53)" using k by (simp only: of_int_less_iff)
    then show ?thesis by (simp add: abs_mult power_int_add)
  qed
  moreover have "2 powi (fexp \<bar>?x\<bar>) \<le> \<bar>?x\<bar>"
    using False by (intro fexp_bounds) simp
  ultimately have "(2::real) powi (fexp \<bar>?x\<bar>) < 2 powi (53 + e)" by linarith
  then have "fexp \<bar>?x\<bar> < 53 + e" by (rule powi_less_cancel)
  with e have "c \<le> e" by (simp add: c_def)
  then have "?x = of_int (k * 2 ^ nat (e - c)) * 2 powi c" by (simp add: powi_split)
  then have "?x / 2 powi c = of_int (k * 2 ^ nat (e - c))" by (simp only: nonzero_mult_div_cancel_right) simp
  then have "rhe (?x / 2 powi c) = k * 2 ^ nat (e - c)" by (metis rhe_of_int)
  then have "of_int (rhe (?x / 2 powi c)) * 2 powi c = (of_int (k * 2 ^ nat (e - c)) * 2 powi c :: real)"
    by (simp only:)
  then have "of_int (rhe (?x / 2 powi c)) * 2 powi c = ?x"
    by (simp only: \<open>?x = _\<close> [symmetric])
  with False show ?thesis by (simp add: f64_round_def fquantum_def c_def)
qed simp

lemma f64_round_int [simp]: "\<bar>k\<bar> < 2 ^ 53 \<Longrightarrow> f64_round (of_int k) = of_int k"
  using f64_round_exact [of k 0] by simp

lemma f64_round_pow2:
  assumes "- 1074 \<le> e"
  shows "f64_round (2 powi e) = 2 powi e"
  using f64_round_exact [of 1 e] assms by simp

lemma f64_round_nonneg: "0 \<le> x \<Longrightarrow> 0 \<le> f64_round x"
  using rhe_mono [of 0 "x / fquantum x"] rhe_of_int [of 0]
  by (simp add: f64_round_def less_imp_le)

lemma f64_round_mono_pos:
  assumes "0 < x" and le: "x \<le> y"
  shows "f64_round x \<le> f64_round y"
proof -
  define cx cy where "cx = max (fexp x - 52) (- 1074)" and "cy = max (fexp y - 52) (- 1074)"
  have pos: "0 < x" "0 < y" using assms by simp_all
  have rx: "f64_round x = of_int (rhe (x / 2 powi cx)) * 2 powi cx"
    and ry: "f64_round y = of_int (rhe (y / 2 powi cy)) * 2 powi cy"
    using pos by (simp_all add: f64_round_def fquantum_def cx_def cy_def)
  have "cx \<le> cy" using fexp_mono [OF assms] by (simp add: cx_def cy_def)
  then consider "cx = cy" | "cx < cy" by linarith
  then show ?thesis
  proof cases
    case 1
    have "rhe (x / 2 powi cy) \<le> rhe (y / 2 powi cy)"
      using le by (intro rhe_mono) (simp add: divide_right_mono)
    then show ?thesis by (simp add: rx ry 1)
  next
    case 2
    have "x \<le> 2 powi (cx + 53)"
    proof -
      have "x \<le> 2 powi (fexp x + 1)" using fexp_bounds(2) [OF pos(1)] by simp
      also have "\<dots> \<le> 2 powi (cx + 53)" by (rule power_int_increasing) (simp_all add: cx_def)
      finally show ?thesis .
    qed
    then have "x / 2 powi cx \<le> of_int (2 ^ 53)" by (simp add: power_int_add field_simps)
    from rhe_mono [OF this] have ux: "rhe (x / 2 powi cx) \<le> 2 ^ 53" by (simp only: rhe_of_int)
    have cy: "cy = fexp y - 52" using 2 by (auto simp: cx_def cy_def)
    have "2 powi (cy + 52) \<le> y" using fexp_bounds(1) [OF pos(2)] by (simp add: cy)
    then have "of_int (2 ^ 52) \<le> y / 2 powi cy" by (simp add: power_int_add field_simps)
    from rhe_mono [OF this] have ly: "2 ^ 52 \<le> rhe (y / 2 powi cy)" by (simp only: rhe_of_int)
    have "f64_round x \<le> of_int (2 ^ 53) * 2 powi cx"
      unfolding rx by (intro mult_right_mono) (use ux in \<open>simp_all only: of_int_le_iff\<close>, simp)
    also have "\<dots> = 2 powi (cx + 53)" by (simp add: power_int_add)
    also have "\<dots> \<le> 2 powi (cy + 52)" by (rule power_int_increasing) (use 2 in simp_all)
    also have "\<dots> = of_int (2 ^ 52) * 2 powi cy" by (simp add: power_int_add)
    also have "\<dots> \<le> f64_round y"
      unfolding ry by (intro mult_right_mono) (use ly in \<open>simp_all only: of_int_le_iff\<close>, simp)
    finally show ?thesis .
  qed
qed

lemma f64_round_mono:
  assumes "x \<le> y"
  shows "f64_round x \<le> f64_round y"
proof -
  consider "0 < x" | "x \<le> 0" "0 \<le> y" | "y < 0" by linarith
  then show ?thesis
  proof cases
    case 1
    then show ?thesis using assms by (rule f64_round_mono_pos)
  next
    case 2
    have "0 \<le> f64_round (- x)" and "0 \<le> f64_round y"
      using 2 by (auto intro: f64_round_nonneg simp del: f64_round_minus)
    then show ?thesis by simp
  next
    case 3
    then have "f64_round (- y) \<le> f64_round (- x)"
      using assms by (intro f64_round_mono_pos) simp_all
    then show ?thesis by simp
  qed
qed

text \<open>Comparing a rounded value with a small integer: rounding never crosses an integer.\<close>

lemma f64_round_ge_int: "of_int n \<le> x \<Longrightarrow> \<bar>n\<bar> < 2 ^ 53 \<Longrightarrow> of_int n \<le> f64_round x"
  using f64_round_mono [of "of_int n" x] by simp

lemma f64_round_le_int: "x \<le> of_int n \<Longrightarrow> \<bar>n\<bar> < 2 ^ 53 \<Longrightarrow> f64_round x \<le> of_int n"
  using f64_round_mono [of x "of_int n"] by simp

section \<open>The operations\<close>

definition fadd :: "f64 \<Rightarrow> f64 \<Rightarrow> f64" where [go_defs]: "fadd x y = f64_round (x + y)"
definition fsub :: "f64 \<Rightarrow> f64 \<Rightarrow> f64" where [go_defs]: "fsub x y = f64_round (x - y)"
definition fmul :: "f64 \<Rightarrow> f64 \<Rightarrow> f64" where [go_defs]: "fmul x y = f64_round (x * y)"
definition fdiv :: "f64 \<Rightarrow> f64 \<Rightarrow> f64" where [go_defs]: "fdiv x y = f64_round (x / y)"

text \<open>The bundle that evaluates double arithmetic on literals.\<close>

lemmas f64_eval = fadd_def fsub_def fmul_def fdiv_def f64_round_def fquantum_def fexp.simps rhe_def Let_def

text \<open>\<open>float64(n)\<close>, \<open>int(x)\<close> (towards zero) and \<open>math.Round\<close> (halves away from zero).\<close>

definition f64_of_int :: "int \<Rightarrow> f64" where
  "f64_of_int n = f64_round (of_int n)"

definition int_of_f64 :: "f64 \<Rightarrow> int" where
  "int_of_f64 x = (if x < 0 then \<lceil>x\<rceil> else \<lfloor>x\<rfloor>)"

definition math_round :: "f64 \<Rightarrow> int" where
  "math_round x = (if x < 0 then - \<lfloor>- x + 1 / 2\<rfloor> else \<lfloor>x + 1 / 2\<rfloor>)"

lemma f64_of_int_small [simp]: "\<bar>n\<bar> < 2 ^ 53 \<Longrightarrow> f64_of_int n = of_int n"
  by (simp add: f64_of_int_def)

lemma f64_of_int_mono: "m \<le> n \<Longrightarrow> f64_of_int m \<le> f64_of_int n"
  by (simp add: f64_of_int_def f64_round_mono)

lemma int_of_f64_mono:
  assumes "x \<le> y"
  shows "int_of_f64 x \<le> int_of_f64 y"
proof (cases "x < 0 \<and> 0 \<le> y")
  case True
  then have "\<lceil>x\<rceil> \<le> 0" and "0 \<le> \<lfloor>y\<rfloor>" by (simp_all add: ceiling_le_iff)
  then have "\<lceil>x\<rceil> \<le> \<lfloor>y\<rfloor>" by linarith
  with True show ?thesis by (simp add: int_of_f64_def)
next
  case False
  with assms show ?thesis by (auto simp: int_of_f64_def intro: ceiling_mono floor_mono)
qed

lemma int_of_f64_of_int [simp]: "int_of_f64 (of_int n) = n"
  by (simp add: int_of_f64_def)

lemma fsub_le: "0 \<le> y \<Longrightarrow> x = of_int n \<Longrightarrow> \<bar>n\<bar> < 2 ^ 53 \<Longrightarrow> fsub x y \<le> x"
  unfolding fsub_def by (simp add: f64_round_le_int)

text \<open>\<open>time.Duration.Seconds\<close>: whole seconds plus the rounded fraction.\<close>

definition dur_seconds :: "duration \<Rightarrow> f64" where
  "dur_seconds d = fadd (f64_of_int (sgn d * (\<bar>d\<bar> div 1000000000)))
                        (fdiv (f64_of_int (sgn d * (\<bar>d\<bar> mod 1000000000))) 1000000000)"

lemma dur_seconds_nonneg: "0 \<le> d \<Longrightarrow> 0 \<le> dur_seconds d"
  unfolding dur_seconds_def fadd_def fdiv_def f64_of_int_def
  by (intro f64_round_nonneg add_nonneg_nonneg divide_nonneg_nonneg) (simp_all add: sgn_if)

lemma dur_seconds_whole: "0 \<le> n \<Longrightarrow> n < 2 ^ 53 \<Longrightarrow> dur_seconds (n * 1000000000) = of_int n"
  by (cases "n = 0") (simp_all add: dur_seconds_def fadd_def fdiv_def abs_mult)

end
