(* ===== verification/Json.thy ===== *)
theory Json
  imports Prelude
begin

text \<open>
  What the sources use of \<open>encoding/json\<close>: \<open>json.Unmarshal\<close> of a text into a \<open>[]string\<close>.
  The text is scanned as a whole first (a syntax error leaves the target alone); then null
  gives the nil slice, an array gives a slice with one string per element, and an element or a
  value of another kind is a type error, which leaves the element empty and is reported after the
  rest is decoded. Text is valid UTF-8; the decoder's nesting limit of 10000 is not modelled.
\<close>

datatype json = JNull | JBool bool | JNum string | JStr string | JArr "json list"
  | JObj "(string \<times> json) list"

section \<open>Scanning\<close>

abbreviation (input) ascii :: "nat \<Rightarrow> char" where "ascii n \<equiv> char_of n"

definition is_ws :: "char \<Rightarrow> bool" where
  "is_ws c \<longleftrightarrow> (of_char c :: nat) \<in> {9, 10, 13, 32}"

fun skip_ws :: "string \<Rightarrow> string" where
  "skip_ws [] = []"
| "skip_ws (c # cs) = (if is_ws c then skip_ws cs else c # cs)"

definition is_digit :: "char \<Rightarrow> bool" where
  "is_digit c \<longleftrightarrow> 48 \<le> (of_char c :: nat) \<and> (of_char c :: nat) \<le> 57"

definition hex_digit :: "char \<Rightarrow> nat option" where
  "hex_digit c = (let n = (of_char c :: nat) in
     if 48 \<le> n \<and> n \<le> 57 then Some (n - 48)
     else if 65 \<le> n \<and> n \<le> 70 then Some (n - 55)
     else if 97 \<le> n \<and> n \<le> 102 then Some (n - 87) else None)"

definition hex4 :: "char \<Rightarrow> char \<Rightarrow> char \<Rightarrow> char \<Rightarrow> nat option" where
  "hex4 a b c d = (case (hex_digit a, hex_digit b, hex_digit c, hex_digit d) of
     (Some w, Some x, Some y, Some z) \<Rightarrow> Some (4096 * w + 256 * x + 16 * y + z) | _ \<Rightarrow> None)"

definition utf8 :: "nat \<Rightarrow> string" where
  "utf8 n = map char_of
     (if n < 128 then [n]
      else if n < 2048 then [192 + n div 64, 128 + n mod 64]
      else if n < 65536 then [224 + n div 4096, 128 + n div 64 mod 64, 128 + n mod 64]
      else [240 + n div 262144, 128 + n div 4096 mod 64, 128 + n div 64 mod 64, 128 + n mod 64])"

definition escape_char :: "char \<Rightarrow> char option" where
  "escape_char c =
     (if c \<in> {CHR 0x22, CHR 0x5C, CHR 0x2F} then Some c
      else if c = CHR ''b'' then Some (CHR 0x08) else if c = CHR ''f'' then Some (CHR 0x0C)
      else if c = CHR ''n'' then Some (CHR 0x0A) else if c = CHR ''r'' then Some (CHR 0x0D)
      else if c = CHR ''t'' then Some (CHR 0x09) else None)"

text \<open>The low half of a surrogate pair, when the text goes on with one.\<close>

fun low_surrogate :: "string \<Rightarrow> (nat \<times> string) option" where
  "low_surrogate (s # u # a # b # c # d # r) =
     (if s = CHR 0x5C \<and> u = CHR ''u''
      then (case hex4 a b c d of None \<Rightarrow> None
            | Some n \<Rightarrow> if 56320 \<le> n \<and> n < 57344 then Some (n, r) else None)
      else None)"
| "low_surrogate _ = None"

definition unquote_u :: "nat \<Rightarrow> string \<Rightarrow> string \<times> string" where
  "unquote_u n r =
     (if 55296 \<le> n \<and> n < 57344
      then (case low_surrogate r of
              Some (m, r') \<Rightarrow> if n < 56320 then (utf8 (65536 + (n - 55296) * 1024 + (m - 56320)), r')
                             else (utf8 65533, r)
            | None \<Rightarrow> (utf8 65533, r))
      else (utf8 n, r))"

lemma low_surrogate_length: "low_surrogate r = Some (m, r') \<Longrightarrow> length r' < length r"
  by (induction r rule: low_surrogate.induct) (auto split: if_splits option.splits)

lemma unquote_u_length: "length (snd (unquote_u n r)) \<le> length r"
  by (auto simp: unquote_u_def split: option.splits dest: low_surrogate_length)

text \<open>A string, after its opening quote: its value and the text after its closing quote.\<close>

function scan_string :: "string \<Rightarrow> (string \<times> string) option" where
  "scan_string s = (case s of [] \<Rightarrow> None
     | c # cs \<Rightarrow>
         if c = CHR 0x22 then Some ([], cs)
         else if (of_char c :: nat) < 32 then None
         else if c = CHR 0x5C then
           (case cs of [] \<Rightarrow> None
            | e # r \<Rightarrow>
                if e = CHR ''u'' then
                  (case r of x # y # z # w # r' \<Rightarrow>
                     (case hex4 x y z w of None \<Rightarrow> None
                      | Some n \<Rightarrow> (case scan_string (snd (unquote_u n r')) of None \<Rightarrow> None
                                  | Some (v, t) \<Rightarrow> Some (fst (unquote_u n r') @ v, t)))
                   | _ \<Rightarrow> None)
                else (case escape_char e of None \<Rightarrow> None
                      | Some ch \<Rightarrow> map_option (\<lambda>(v, t). (ch # v, t)) (scan_string r)))
         else map_option (\<lambda>(v, t). (c # v, t)) (scan_string cs))"
  by pat_completeness auto
termination
  by (relation "measure length") (auto simp: le_imp_less_Suc unquote_u_length le_SucI)

declare scan_string.simps [simp del]

fun span_digits :: "string \<Rightarrow> string \<times> string" where
  "span_digits [] = ([], [])"
| "span_digits (c # cs) = (if is_digit c then (let (d, r) = span_digits cs in (c # d, r)) else ([], c # cs))"

definition scan_frac :: "string \<Rightarrow> (string \<times> string) option" where
  "scan_frac s = (case s of c # cs \<Rightarrow>
       if c = CHR ''.'' then (let (d, r) = span_digits cs in if d = [] then None else Some (c # d, r))
       else Some ([], s)
     | [] \<Rightarrow> Some ([], []))"

definition scan_exp :: "string \<Rightarrow> (string \<times> string) option" where
  "scan_exp s = (case s of c # cs \<Rightarrow>
       if c = CHR ''e'' \<or> c = CHR ''E'' then
         (let (sg, cs') = (case cs of x # r \<Rightarrow> if x = CHR ''+'' \<or> x = CHR ''-'' then ([x], r) else ([], cs)
                           | [] \<Rightarrow> ([], []));
              (d, r) = span_digits cs'
          in if d = [] then None else Some (c # sg @ d, r))
       else Some ([], s)
     | [] \<Rightarrow> Some ([], []))"

definition scan_number :: "string \<Rightarrow> (string \<times> string) option" where
  "scan_number s =
     (let (sg, s1) = (case s of x # r \<Rightarrow> if x = CHR ''-'' then ([x], r) else ([], s) | [] \<Rightarrow> ([], []));
          (d, s2) = span_digits s1
      in if d = [] then None
         else let (d, s2) = (if hd d = CHR ''0'' then ([hd d], tl d @ s2) else (d, s2))
              in (case scan_frac s2 of None \<Rightarrow> None
                  | Some (f, s3) \<Rightarrow> (case scan_exp s3 of None \<Rightarrow> None
                                     | Some (e, s4) \<Rightarrow> Some (sg @ d @ f @ e, s4))))"

definition strip_prefix :: "string \<Rightarrow> string \<Rightarrow> string option" where
  "strip_prefix p s = (if take (length p) s = p then Some (drop (length p) s) else None)"

section \<open>Values\<close>

text \<open>The fuel bounds the nesting and the length of arrays; the length of the text is enough
  because every step of the scanner consumes a byte.\<close>

fun scan_value :: "nat \<Rightarrow> string \<Rightarrow> (json \<times> string) option"
and scan_elems :: "nat \<Rightarrow> string \<Rightarrow> (json list \<times> string) option"
and scan_members :: "nat \<Rightarrow> string \<Rightarrow> ((string \<times> json) list \<times> string) option" where
  "scan_value 0 s = None"
| "scan_value (Suc n) s = (case skip_ws s of [] \<Rightarrow> None
     | c # cs \<Rightarrow>
         if c = CHR 0x22 then map_option (\<lambda>(v, t). (JStr v, t)) (scan_string cs)
         else if c = CHR ''['' then
           (case skip_ws cs of [] \<Rightarrow> None
            | d # ds \<Rightarrow> if d = CHR '']'' then Some (JArr [], ds)
                       else map_option (\<lambda>(v, t). (JArr v, t)) (scan_elems n cs))
         else if c = CHR ''{'' then
           (case skip_ws cs of [] \<Rightarrow> None
            | d # ds \<Rightarrow> if d = CHR ''}'' then Some (JObj [], ds)
                       else map_option (\<lambda>(v, t). (JObj v, t)) (scan_members n cs))
         else if c = CHR ''t'' then map_option (\<lambda>t. (JBool True, t)) (strip_prefix ''rue'' cs)
         else if c = CHR ''f'' then map_option (\<lambda>t. (JBool False, t)) (strip_prefix ''alse'' cs)
         else if c = CHR ''n'' then map_option (\<lambda>t. (JNull, t)) (strip_prefix ''ull'' cs)
         else map_option (\<lambda>(v, t). (JNum v, t)) (scan_number (c # cs)))"
| "scan_elems 0 s = None"
| "scan_elems (Suc n) s = (case scan_value n s of None \<Rightarrow> None
     | Some (v, t) \<Rightarrow>
         (case skip_ws t of [] \<Rightarrow> None
          | c # cs \<Rightarrow> if c = CHR '']'' then Some ([v], cs)
                     else if c = CHR '','' then map_option (\<lambda>(vs, r). (v # vs, r)) (scan_elems n cs)
                     else None))"
| "scan_members 0 s = None"
| "scan_members (Suc n) s = (case skip_ws s of [] \<Rightarrow> None
     | q # qs \<Rightarrow>
         if q \<noteq> CHR 0x22 then None
         else (case scan_string qs of None \<Rightarrow> None
           | Some (k, t) \<Rightarrow>
               (case skip_ws t of [] \<Rightarrow> None
                | c # cs \<Rightarrow>
                    if c \<noteq> CHR '':'' then None
                    else (case scan_value n cs of None \<Rightarrow> None
                      | Some (v, u) \<Rightarrow>
                          (case skip_ws u of [] \<Rightarrow> None
                           | d # ds \<Rightarrow> if d = CHR ''}'' then Some ([(k, v)], ds)
                                      else if d = CHR '','' then
                                        map_option (\<lambda>(kvs, r). ((k, v) # kvs, r)) (scan_members n ds)
                                      else None)))))"

definition parse_json :: "string \<Rightarrow> json option" where
  "parse_json s = (case scan_value (2 * length s + 2) s of None \<Rightarrow> None
     | Some (v, t) \<Rightarrow> if skip_ws t = [] then Some v else None)"

section \<open>Decoding into a slice of strings\<close>

text \<open>The slice left in the target (\<open>None\<close> for nil), and whether \<open>Unmarshal\<close> returned no error.\<close>

fun elem_string :: "json \<Rightarrow> string \<times> bool" where
  "elem_string (JStr s) = (s, True)"
| "elem_string JNull = ([], True)"
| "elem_string _ = ([], False)"

definition unmarshal_strings :: "string \<Rightarrow> string list option \<times> bool" where
  "unmarshal_strings text =
     (case parse_json text of
        None \<Rightarrow> (None, False)
      | Some (JArr vs) \<Rightarrow> (Some (map (fst \<circ> elem_string) vs), list_all (snd \<circ> elem_string) vs)
      | Some JNull \<Rightarrow> (None, True)
      | Some _ \<Rightarrow> (None, False))"

section \<open>The fuel is enough\<close>

lemma skip_ws_length: "length (skip_ws s) \<le> length s"
  by (induction s) auto

lemma skip_ws_Cons_length: "skip_ws s = c # cs \<Longrightarrow> length cs < length s"
  using skip_ws_length [of s] by simp

lemma skip_ws_idem [simp]: "skip_ws (skip_ws s) = skip_ws s"
  by (induction s) auto

lemma map_option_pair_Some:
  "map_option (\<lambda>(v, t). (f v, t)) x = Some (w, t) \<longleftrightarrow> (\<exists>v. x = Some (v, t) \<and> w = f v)"
  by (cases x) auto

lemma map_option_const_Some: "map_option (\<lambda>t. (w, t)) x = Some (w', t) \<longleftrightarrow> x = Some t \<and> w' = w"
  by (cases x) auto

text \<open>A simpler reading of one step of \<open>scan_string\<close>: it ends, or goes on with a shorter text.\<close>

lemma scan_string_step:
  assumes "scan_string s = Some (v, t)"
  shows "length t < length s \<or> (\<exists>s' v'. scan_string s' = Some (v', t) \<and> length s' < length s)"
proof (cases s)
  case Nil
  with assms show ?thesis by (simp add: scan_string.simps [of "[]"])
next
  case (Cons c cs)
  note eq = assms [unfolded Cons scan_string.simps [of "c # cs"], simplified list.case]
  consider "c = CHR 0x22" | "c \<noteq> CHR 0x22" "c = CHR 0x5C" | "c \<noteq> CHR 0x22" "c \<noteq> CHR 0x5C" by blast
  then show ?thesis
  proof cases
    case 1
    with eq Cons show ?thesis by simp
  next
    case 2
    with eq obtain e r where cs: "cs = e # r" by (auto split: list.splits)
    show ?thesis
    proof (cases "e = CHR ''u''")
      case True
      with eq 2 cs obtain x y z w r' where r: "r = x # y # z # w # r'" by (auto split: list.splits)
      with eq 2 cs True obtain n v' where "scan_string (snd (unquote_u n r')) = Some (v', t)"
        by (auto split: option.splits)
      moreover have "length (snd (unquote_u n r')) < length s"
        using unquote_u_length [of n r'] by (simp add: Cons cs r)
      ultimately show ?thesis by blast
    next
      case False
      with eq 2 cs obtain v' where "scan_string r = Some (v', t)" by (auto split: option.splits)
      then show ?thesis using Cons cs by force
    qed
  next
    case 3
    with eq obtain v' where "scan_string cs = Some (v', t)" by (auto split: if_splits)
    then show ?thesis using Cons by force
  qed
qed

lemma scan_string_length: "scan_string s = Some (v, t) \<Longrightarrow> length t < length s"
proof (induction s arbitrary: v rule: length_induct)
  case (1 s)
  from scan_string_step [OF "1.prems"] show ?case
  proof
    assume "\<exists>s' v'. scan_string s' = Some (v', t) \<and> length s' < length s"
    with "1.IH" show ?case by (meson less_trans)
  qed
qed

lemma span_digits_length: "span_digits s = (d, r) \<Longrightarrow> length s = length d + length r"
  by (induction s arbitrary: d r) (auto split: if_splits prod.splits)

lemma scan_frac_length: "scan_frac s = Some (f, r) \<Longrightarrow> length r \<le> length s"
  by (auto simp: scan_frac_def Let_def split: list.splits if_splits prod.splits dest!: span_digits_length)

lemma scan_exp_length: "scan_exp s = Some (f, r) \<Longrightarrow> length r \<le> length s"
  by (auto simp: scan_exp_def Let_def split: list.splits if_splits prod.splits dest!: span_digits_length)

lemma scan_number_length: "scan_number s = Some (v, t) \<Longrightarrow> length t < length s"
proof -
  assume eq: "scan_number s = Some (v, t)"
  obtain sg s1 where 1: "(case s of x # r \<Rightarrow> if x = CHR ''-'' then ([x], r) else ([], s) | [] \<Rightarrow> ([], [])) = (sg, s1)"
    by fastforce
  then have l1: "length s1 \<le> length s" by (auto split: list.splits if_splits)
  obtain d s2 where 2: "span_digits s1 = (d, s2)" by fastforce
  obtain d' s2' where 3: "(if hd d = CHR ''0'' then ([hd d], tl d @ s2) else (d, s2)) = (d', s2')" by fastforce
  have d: "d \<noteq> []" using eq by (auto simp: scan_number_def 1 2 Let_def)
  have l2: "length s2' < length s1"
    using 3 d span_digits_length [OF 2] by (cases d) (auto split: if_splits)
  from eq d obtain f s3 where 4: "scan_frac s2' = Some (f, s3)"
    by (auto simp: scan_number_def 1 2 3 split: option.splits)
  from eq d have "length t \<le> length s3"
    by (auto simp: scan_number_def 1 2 3 4 split: option.splits dest: scan_exp_length)
  with l1 l2 scan_frac_length [OF 4] show ?thesis by simp
qed

lemma strip_prefix_length: "strip_prefix p s = Some t \<Longrightarrow> length t \<le> length s"
  by (auto simp: strip_prefix_def split: if_splits)

text \<open>One step of the three scanners, with the nested cases flattened.\<close>

lemma scan_value_SucE:
  assumes "scan_value (Suc n) s = Some (v, t)"
  obtains (leaf) "length t < length s"
    | (elems) c cs vs where "skip_ws s = c # cs" "scan_elems n cs = Some (vs, t)"
    | (members) c cs kvs where "skip_ws s = c # cs" "scan_members n cs = Some (kvs, t)"
proof -
  from assms obtain c cs where w: "skip_ws s = c # cs" by (auto split: list.splits)
  note len = skip_ws_Cons_length [OF w]
  note eq = assms [simplified w scan_value.simps list.case]
  consider (str) "c = CHR 0x22" | (arr) "c = CHR ''[''" | (obj) "c = CHR ''{''" | (t) "c = CHR ''t''"
    | (f) "c = CHR ''f''" | (n) "c = CHR ''n''"
    | (num) "c \<notin> {CHR 0x22, CHR ''['', CHR ''{'', CHR ''t'', CHR ''f'', CHR ''n''}" by blast
  then show thesis
  proof cases
    case str
    with eq have "\<exists>w. scan_string cs = Some (w, t)" by (auto simp: map_option_pair_Some)
    with len show thesis by (auto dest!: scan_string_length intro!: leaf)
  next
    case arr
    show thesis
    proof (cases "skip_ws cs")
      case Nil
      with eq arr show thesis by simp
    next
      case (Cons d ds)
      show thesis
      proof (cases "d = CHR '']''")
        case True
        with eq arr Cons have "t = ds" by simp
        with len skip_ws_Cons_length [OF Cons] show thesis by (intro leaf) simp
      next
        case False
        with eq arr Cons obtain vs where "scan_elems n cs = Some (vs, t)"
          by (auto simp: map_option_pair_Some)
        with w show thesis by (rule elems)
      qed
    qed
  next
    case obj
    show thesis
    proof (cases "skip_ws cs")
      case Nil
      with eq obj show thesis by simp
    next
      case (Cons d ds)
      show thesis
      proof (cases "d = CHR ''}''")
        case True
        with eq obj Cons have "t = ds" by simp
        with len skip_ws_Cons_length [OF Cons] show thesis by (intro leaf) simp
      next
        case False
        with eq obj Cons obtain vs where "scan_members n cs = Some (vs, t)"
          by (auto simp: map_option_pair_Some)
        with w show thesis by (rule members)
      qed
    qed
  next
    case t
    with eq have "strip_prefix ''rue'' cs = Some t" by (auto simp: map_option_const_Some)
    with len show thesis by (auto dest!: strip_prefix_length intro!: leaf)
  next
    case f
    with eq have "strip_prefix ''alse'' cs = Some t" by (auto simp: map_option_const_Some)
    with len show thesis by (auto dest!: strip_prefix_length intro!: leaf)
  next
    case n
    with eq have "strip_prefix ''ull'' cs = Some t" by (auto simp: map_option_const_Some)
    with len show thesis by (auto dest!: strip_prefix_length intro!: leaf)
  next
    case num
    with eq have "\<exists>w. scan_number (c # cs) = Some (w, t)" by (auto simp: map_option_pair_Some)
    with len show thesis by (auto dest!: scan_number_length intro!: leaf)
  qed
qed

lemma scan_elems_SucE:
  assumes "scan_elems (Suc n) s = Some (vs, t)"
  obtains v u c cs where "scan_value n s = Some (v, u)" "skip_ws u = c # cs"
    "t = cs \<or> (\<exists>ws. scan_elems n cs = Some (ws, t))"
  using assms by (auto simp: map_option_pair_Some split: option.splits list.splits if_splits prod.splits)

lemma scan_members_SucE:
  assumes "scan_members (Suc n) s = Some (vs, t)"
  obtains q qs k u c cs v w d ds where "skip_ws s = q # qs" "scan_string qs = Some (k, u)"
    "skip_ws u = c # cs" "scan_value n cs = Some (v, w)" "skip_ws w = d # ds"
    "t = ds \<or> (\<exists>ws. scan_members n ds = Some (ws, t))"
  using assms by (auto split: option.splits list.splits if_splits prod.splits)

lemma scan_length:
  "(\<forall>s v t. scan_value n s = Some (v, t) \<longrightarrow> length t < length s) \<and>
   (\<forall>s v t. scan_elems n s = Some (v, t) \<longrightarrow> length t < length s) \<and>
   (\<forall>s v t. scan_members n s = Some (v, t) \<longrightarrow> length t < length s)"
proof (induction n)
  case (Suc n)
  have V: "length t < length s" if "scan_value n s = Some (v, t)" for s v t using Suc that by blast
  have E: "length t < length s" if "scan_elems n s = Some (v, t)" for s v t using Suc that by blast
  have M: "length t < length s" if "scan_members n s = Some (v, t)" for s v t using Suc that by blast
  show ?case
  proof (intro conjI allI impI)
    fix s v t assume "scan_value (Suc n) s = Some (v, t)"
    then show "length t < length s"
      by (rule scan_value_SucE) (auto dest!: skip_ws_Cons_length E M)
  next
    fix s v t assume "scan_elems (Suc n) s = Some (v, t)"
    then show "length t < length s"
      by (rule scan_elems_SucE) (auto dest!: skip_ws_Cons_length V E)
  next
    fix s v t assume "scan_members (Suc n) s = Some (v, t)"
    then show "length t < length s"
      by (rule scan_members_SucE) (auto dest!: skip_ws_Cons_length scan_string_length V M)
  qed
qed simp

lemma scan_fuel_step:
  "(\<forall>s. 2 * length s + 1 \<le> n \<longrightarrow> scan_value (Suc n) s = scan_value n s) \<and>
   (\<forall>s. 2 * length s + 2 \<le> n \<longrightarrow> scan_elems (Suc n) s = scan_elems n s) \<and>
   (\<forall>s. 2 * length s + 2 \<le> n \<longrightarrow> scan_members (Suc n) s = scan_members n s)"
proof (induction n)
  case (Suc n)
  have V: "scan_value (Suc n) s = scan_value n s" if "2 * length s + 1 \<le> n" for s :: string using Suc that by blast
  have E: "scan_elems (Suc n) s = scan_elems n s" if "2 * length s + 2 \<le> n" for s :: string using Suc that by blast
  have M: "scan_members (Suc n) s = scan_members n s" if "2 * length s + 2 \<le> n" for s :: string using Suc that by blast
  have len: "length t < length s" if "scan_value m s = Some (v, t)" for m s v t using scan_length that by blast
  show ?case
  proof (intro conjI allI impI)
    fix s :: string assume n: "2 * length s + 1 \<le> Suc n"
    show "scan_value (Suc (Suc n)) s = scan_value (Suc n) s"
    proof (cases "skip_ws s")
      case (Cons c cs)
      with n have "2 * length cs + 2 \<le> n" using skip_ws_Cons_length by fastforce
      then show ?thesis
        by (simp only: scan_value.simps(2) [of "Suc n"] scan_value.simps(2) [of n] Cons list.case E M)
    qed simp
  next
    fix s :: string assume n: "2 * length s + 2 \<le> Suc n"
    show "scan_elems (Suc (Suc n)) s = scan_elems (Suc n) s"
    proof (cases "scan_value n s")
      case None
      then show ?thesis using V [of s] n by (simp del: scan_value.simps)
    next
      case (Some a)
      obtain v t where a: "a = (v, t)" by (cases a)
      show ?thesis
      proof (cases "skip_ws t")
        case (Cons c cs)
        with n len [OF Some [unfolded a]] have "2 * length cs + 2 \<le> n"
          using skip_ws_Cons_length by fastforce
        then have e: "scan_elems (Suc n) cs = scan_elems n cs" by (rule E)
        have v: "scan_value (Suc n) s = Some (v, t)" using V [of s] n Some a by simp
        show ?thesis
          unfolding scan_elems.simps(2) [of "Suc n" s] scan_elems.simps(2) [of n s] v Some a
            option.case prod.case Cons list.case e ..
      qed (use V [of s] n Some a in simp)
    qed
  next
    fix s :: string assume n: "2 * length s + 2 \<le> Suc n"
    show "scan_members (Suc (Suc n)) s = scan_members (Suc n) s"
    proof -
      have v: "scan_value (Suc n) cs = scan_value n cs"
        if "skip_ws s = q # qs" "scan_string qs = Some (k, u)" "skip_ws u = c # cs" for q qs k u c cs
        using that n by (intro V) (auto dest!: skip_ws_Cons_length scan_string_length)
      have m: "scan_members (Suc n) ds = scan_members n ds"
        if "skip_ws s = q # qs" "scan_string qs = Some (k, u)" "skip_ws u = c # cs"
          "scan_value n cs = Some (x, w)" "skip_ws w = d # ds" for q qs k u c cs x w d ds
        using that n by (intro M) (auto dest!: skip_ws_Cons_length scan_string_length len)
      show ?thesis
        unfolding scan_members.simps(2) [of "Suc n" s] scan_members.simps(2) [of n s]
        by (auto simp del: scan_value.simps scan_members.simps simp: v m split: list.split option.split)
    qed
  qed
qed simp

text \<open>The fuel \<open>parse_json\<close> gives is enough: more of it never changes the result.\<close>

lemma parse_json_fuel:
  assumes "2 * length s + 2 \<le> n"
  shows "parse_json s = (case scan_value n s of None \<Rightarrow> None
     | Some (v, t) \<Rightarrow> if skip_ws t = [] then Some v else None)"
proof -
  have "scan_value n s = scan_value (2 * length s + 2) s"
    using assms by (induction n rule: dec_induct) (use scan_fuel_step in auto)
  then show ?thesis by (simp add: parse_json_def)
qed

lemma unmarshal_strings_eval:
  "unmarshal_strings ''[\"a_B\", null, 1]'' = (Some [''a_B'', [], []], False)"
  "unmarshal_strings ''[]'' = (Some [], True)"
  "unmarshal_strings ''null'' = (None, True)"
  "unmarshal_strings ''[1'' = (None, False)"
  by code_simp+

end
