(* ===== verification/GeoMath.thy ===== *)
theory GeoMath
  imports Float64
begin

text \<open>
  \<open>processor/internal/matching/haversine.go\<close>: distance, bearing and compass direction.
  \<open>math.Pi\<close> is the constant rounded to a double; \<open>math.Sin\<close>, \<open>math.Cos\<close>, \<open>math.Sqrt\<close> and
  \<open>math.Atan2\<close> are modelled as correctly rounded. Where the argument of a square root is
  negative Go computes a NaN, which stays a NaN up to the conversion to \<open>int\<close>; that
  conversion is \<open>nan_int\<close>, the value the amd64 instruction gives.
\<close>

definition f_pi :: f64 where "f_pi = f64_round pi"
definition m_sin :: "f64 \<Rightarrow> f64" where "m_sin x = f64_round (sin x)"
definition m_cos :: "f64 \<Rightarrow> f64" where "m_cos x = f64_round (cos x)"
definition m_sqrt :: "f64 \<Rightarrow> f64" where "m_sqrt x = f64_round (sqrt x)"

definition atan2 :: "real \<Rightarrow> real \<Rightarrow> real" where
  "atan2 y x = (if 0 < x then arctan (y / x)
                else if x < 0 then (if 0 \<le> y then arctan (y / x) + pi else arctan (y / x) - pi)
                else if 0 < y then pi / 2 else if y < 0 then - (pi / 2) else 0)"

definition m_atan2 :: "f64 \<Rightarrow> f64 \<Rightarrow> f64" where
  "m_atan2 y x = f64_round (atan2 y x)"

text \<open>\<open>math.Mod\<close> is exact and truncates towards zero.\<close>

definition m_mod :: "f64 \<Rightarrow> f64 \<Rightarrow> f64" where
  "m_mod x y = x - y * of_int (int_of_f64 (x / y))"

definition nan_int :: int where "nan_int = - 9223372036854775808"

definition earth_radius_metres :: f64 where "earth_radius_metres = 6371000"

definition to_rad :: "f64 \<Rightarrow> f64" where
  "to_rad x = fdiv (fmul x f_pi) 180"

text \<open>The haversine \<open>a\<close> and the distance, in the order the code multiplies.\<close>

definition haversine_a :: "f64 \<Rightarrow> f64 \<Rightarrow> f64 \<Rightarrow> f64 \<Rightarrow> f64" where
  "haversine_a lat1 lon1 lat2 lon2 =
     (let phi1 = to_rad lat1; phi2 = to_rad lat2;
          dphi = to_rad (fsub lat2 lat1); dlam = to_rad (fsub lon2 lon1);
          sp = m_sin (fdiv dphi 2); sl = m_sin (fdiv dlam 2)
      in fadd (fmul sp sp) (fmul (fmul (fmul (m_cos phi1) (m_cos phi2)) sl) sl))"

definition haversine_distance :: "f64 \<Rightarrow> f64 \<Rightarrow> f64 \<Rightarrow> f64 \<Rightarrow> int" where
  "haversine_distance lat1 lon1 lat2 lon2 =
     (let a = haversine_a lat1 lon1 lat2 lon2; b = fsub 1 a
      in if a < 0 \<or> b < 0 then nan_int
         else let c = fmul 2 (m_atan2 (m_sqrt a) (m_sqrt b));
                  d = fmul earth_radius_metres c
              in \<lceil>d\<rceil>)"

definition bearing :: "f64 \<Rightarrow> f64 \<Rightarrow> f64 \<Rightarrow> f64 \<Rightarrow> f64" where
  "bearing lat1 lon1 lat2 lon2 =
     (let phi1 = to_rad lat1; phi2 = to_rad lat2; lam1 = to_rad lon1; lam2 = to_rad lon2;
          y = fmul (m_sin (fsub lam2 lam1)) (m_cos phi2);
          x = fsub (fmul (m_cos phi1) (m_sin phi2))
                   (fmul (fmul (m_sin phi1) (m_cos phi2)) (m_cos (fsub lam2 lam1)));
          theta = m_atan2 y x
      in m_mod (fadd (fdiv (fmul theta 180) f_pi) 360) 360)"

definition cardinal_direction :: "f64 \<Rightarrow> string" where
  "cardinal_direction brng =
     (if brng < 45 / 2 then ''north''
      else if brng < 135 / 2 then ''northeast''
      else if brng < 225 / 2 then ''east''
      else if brng < 315 / 2 then ''southeast''
      else if brng < 405 / 2 then ''south''
      else if brng < 495 / 2 then ''southwest''
      else if brng < 585 / 2 then ''west''
      else if brng < 675 / 2 then ''northwest''
      else ''north'')"

section \<open>Lemmas\<close>

lemma fsub_swap: "fsub x y = - fsub y x"
  using f64_round_minus [of "y - x"] by (simp add: fsub_def)

lemma fmul_comm: "fmul x y = fmul y x"
  by (simp add: fmul_def mult.commute)

lemma to_rad_minus: "to_rad (- x) = - to_rad x"
  by (simp add: to_rad_def fmul_def fdiv_def)

lemma to_rad_0 [simp]: "to_rad 0 = 0"
  by (simp add: to_rad_def fmul_def fdiv_def)

lemma m_sin_minus: "m_sin (- x) = - m_sin x"
  by (simp add: m_sin_def)

lemma fmul_minus: "fmul (- x) y = - fmul x y" "fmul x (- y) = - fmul x y"
  by (simp_all add: fmul_def)

lemma fdiv_minus: "fdiv (- x) y = - fdiv x y"
  by (simp add: fdiv_def)

lemma haversine_a_sym: "haversine_a lat1 lon1 lat2 lon2 = haversine_a lat2 lon2 lat1 lon1"
  by (simp add: haversine_a_def Let_def fsub_swap [of lat2 lat1] fsub_swap [of lon2 lon1]
      to_rad_minus fdiv_minus m_sin_minus fmul_minus fmul_comm [of "m_cos (to_rad lat1)"])

lemma haversine_a_self [simp]: "haversine_a lat lon lat lon = 0"
  by (simp add: haversine_a_def Let_def fsub_def fdiv_def m_sin_def fmul_def fadd_def)

lemma haversine_self [simp]: "haversine_distance lat lon lat lon = 0"
proof -
  have "f64_round 1 = 1" using f64_round_int [of 1] by simp
  then show ?thesis
    by (simp add: haversine_distance_def fsub_def m_sqrt_def m_atan2_def atan2_def fmul_def)
qed

lemma f_pi_bounds: "2 \<le> f_pi" "f_pi \<le> 4"
  using f64_round_ge_int [of 2 pi] f64_round_le_int [of pi 4] pi_ge_two pi_less_4
  by (simp_all add: f_pi_def)

lemma atan2_bounds: "- pi \<le> atan2 y x" "atan2 y x \<le> pi"
proof -
  have b: "- (pi / 2) < arctan (y / x)" "arctan (y / x) < pi / 2"
    using arctan [of "y / x"] by auto
  have neg: "x < 0 \<Longrightarrow> 0 \<le> y \<Longrightarrow> arctan (y / x) \<le> 0"
    by (simp add: divide_nonneg_neg)
  have pos: "x < 0 \<Longrightarrow> y < 0 \<Longrightarrow> 0 \<le> arctan (y / x)"
    by (simp add: divide_nonpos_neg)
  show "- pi \<le> atan2 y x" "atan2 y x \<le> pi"
    using b neg pos pi_gt_zero by (auto simp: atan2_def)
qed

lemma m_atan2_bounds: "- f_pi \<le> m_atan2 y x" "m_atan2 y x \<le> f_pi"
  using f64_round_mono [OF atan2_bounds(1) [of y x]] f64_round_mono [OF atan2_bounds(2) [of y x]]
  by (simp_all add: m_atan2_def f_pi_def)

lemma bearing_arg_nonneg: "0 \<le> fadd (fdiv (fmul (m_atan2 y x) 180) f_pi) 360"
proof -
  let ?t = "m_atan2 y x"
  have "- 720 \<le> ?t * 180" using m_atan2_bounds(1) [of y x] f_pi_bounds(2) by simp
  then have "- 720 \<le> fmul ?t 180"
    using f64_round_ge_int [of "- 720" "?t * 180"] by (simp add: fmul_def)
  then have "- 360 \<le> fmul ?t 180 / f_pi"
    using f_pi_bounds(1) by (simp add: le_divide_eq)
  then have "- 360 \<le> fdiv (fmul ?t 180) f_pi"
    using f64_round_ge_int [of "- 360" "fmul ?t 180 / f_pi"] by (simp add: fdiv_def)
  then show ?thesis by (simp add: fadd_def f64_round_nonneg)
qed

lemma floor_div_bounds:
  "0 < c \<Longrightarrow> c * of_int \<lfloor>x / c\<rfloor> \<le> x \<and> x < c * of_int \<lfloor>x / c\<rfloor> + (c::real)"
proof -
  assume c: "0 < c"
  have "c * of_int \<lfloor>x / c\<rfloor> \<le> c * (x / c)" using c by (intro mult_left_mono) simp_all
  moreover have "x / c < of_int \<lfloor>x / c\<rfloor> + 1" by linarith
  ultimately show ?thesis using c by (simp add: pos_divide_less_eq algebra_simps)
qed

lemma m_mod_range: "0 \<le> x \<Longrightarrow> 0 \<le> m_mod x 360 \<and> m_mod x 360 < 360"
proof -
  assume "0 \<le> x"
  then have m: "m_mod x 360 = x - 360 * of_int \<lfloor>x / 360\<rfloor>"
    by (simp add: m_mod_def int_of_f64_def)
  show ?thesis using floor_div_bounds [of 360 x] unfolding m by linarith
qed

text \<open>The eight sectors, numbered clockwise from north, each centred on its direction.\<close>

definition sectors :: "string list" where
  "sectors = [''north'', ''northeast'', ''east'', ''southeast'', ''south'', ''southwest'', ''west'', ''northwest'']"

section \<open>Properties\<close>

text \<open>the distance between two points does not depend on their order, and a point is at
  distance 0 from itself (in double arithmetic, rounding included).\<close>

theorem haversine_metric:
  "haversine_distance lat1 lon1 lat2 lon2 = haversine_distance lat2 lon2 lat1 lon1
   \<and> haversine_distance lat1 lon1 lat1 lon1 = 0"
  by (simp add: haversine_distance_def [of lat1] haversine_distance_def [of lat2]
      haversine_a_sym [of lat1 lon1 lat2 lon2])

lemma cardinal_sector:
  assumes "0 \<le> b" and "b < 360"
  shows "cardinal_direction b = sectors ! (nat \<lfloor>(b + 45 / 2) / 45\<rfloor> mod 8)"
proof -
  define k where "k = \<lfloor>(b + 45 / 2) / 45\<rfloor>"
  have lo: "45 * of_int k \<le> b + 45 / 2" and hi: "b + 45 / 2 < 45 * of_int k + 45"
    using floor_div_bounds [of 45 "b + 45 / 2"] unfolding k_def by simp_all
  from lo hi assms have "0 \<le> k" and "k \<le> 8" by linarith+
  then have "k \<in> {0, 1, 2, 3, 4, 5, 6, 7, 8}" by auto
  then show ?thesis unfolding k_def [symmetric]
    using lo hi by (auto simp: cardinal_direction_def sectors_def)
qed

text \<open>the bearing is in [0, 360) whatever the two points, and the compass label is the one
  of the 45 degree sector, centred on the direction, that holds the bearing.\<close>

theorem bearing_sector:
  "0 \<le> bearing lat1 lon1 lat2 lon2 \<and> bearing lat1 lon1 lat2 lon2 < 360 \<and>
   cardinal_direction (bearing lat1 lon1 lat2 lon2)
     = sectors ! (nat \<lfloor>(bearing lat1 lon1 lat2 lon2 + 45 / 2) / 45\<rfloor> mod 8)"
  using m_mod_range [OF bearing_arg_nonneg] by (simp add: bearing_def Let_def cardinal_sector)

end
