(* ===== verification/Geofence.thy ===== *)
theory Geofence
  imports Float64 "HOL-Library.Multiset"
begin

text \<open>
  Package \<open>geofence\<close>: the point-in-polygon test (\<open>pip.go\<close>), the spatial index and its
  queries (\<open>rtree.go\<close>), and the comment stripper of the fence loader (\<open>geofence.go\<close>).
  The R-tree itself is the third-party \<open>tidwall/rtree\<close>: \<open>search entries lat lon\<close> is a
  parameter, the entries its \<open>Search\<close> visits. What the code relies on (\<open>rtree_search\<close>) is its
  documented behaviour: every entry whose box contains the point is visited once, in some order.
\<close>

type_synonym point = "f64 \<times> f64"
type_synonym box = "f64 \<times> f64 \<times> f64 \<times> f64"

record fence =
  fc_name :: string
  fc_normalized_name :: string
  fc_description :: string
  fc_group :: string
  fc_display_in_matches :: bool
  fc_path :: "point list"
  fc_multipath :: "point list list"

record matched_area =
  ma_name :: string
  ma_description :: string
  ma_display_in_matches :: bool
  ma_group :: string

section \<open>Point in polygon\<close>

text \<open>The longitude at which the edge from \<open>pj\<close> to \<open>pi\<close> meets the latitude, as computed.\<close>

definition edge_lon :: "f64 \<Rightarrow> point \<Rightarrow> point \<Rightarrow> f64" where
  "edge_lon lat p q =
     (let (yi, xi) = p; (yj, xj) = q
      in fadd (fdiv (fmul (fsub xj xi) (fsub lat yi)) (fsub yj yi)) xi)"

definition straddles :: "f64 \<Rightarrow> point \<Rightarrow> point \<Rightarrow> bool" where
  "straddles lat p q \<longleftrightarrow> (fst p > lat) \<noteq> (fst q > lat)"

definition crosses :: "f64 \<Rightarrow> f64 \<Rightarrow> point \<Rightarrow> point \<Rightarrow> bool" where
  "crosses lat lon p q \<longleftrightarrow> straddles lat p q \<and> lon < edge_lon lat p q"

fun pip_loop :: "f64 \<Rightarrow> f64 \<Rightarrow> point \<Rightarrow> point list \<Rightarrow> bool \<Rightarrow> bool" where
  "pip_loop lat lon q [] inside = inside"
| "pip_loop lat lon q (p # ps) inside =
     pip_loop lat lon p ps (if crosses lat lon p q then \<not> inside else inside)"

definition point_in_polygon :: "f64 \<Rightarrow> f64 \<Rightarrow> point list \<Rightarrow> bool" where
  "point_in_polygon lat lon polygon =
     (if length polygon < 3 then False else pip_loop lat lon (last polygon) polygon False)"

section \<open>The spatial index\<close>

text \<open>\<open>boundingBox\<close>; on an empty path the code would panic (\<open>None\<close>), its callers exclude it.\<close>

fun box_step :: "box \<Rightarrow> point \<Rightarrow> box" where
  "box_step (x0, y0, x1, y1) (px, py) =
     ((if px < x0 then px else x0), (if py < y0 then py else y0),
      (if px > x1 then px else x1), (if py > y1 then py else y1))"

fun bounding_box :: "point list \<Rightarrow> box option" where
  "bounding_box [] = None"
| "bounding_box ((a, b) # ps) = Some (foldl box_step (a, b, a, b) ps)"

definition box_contains :: "box \<Rightarrow> f64 \<Rightarrow> f64 \<Rightarrow> bool" where
  "box_contains bb lat lon =
     (case bb of (x0, y0, x1, y1) \<Rightarrow> x0 \<le> lat \<and> lat \<le> x1 \<and> y0 \<le> lon \<and> lon \<le> y1)"

record fence_entry =
  fe_box :: box
  fe_fence :: fence
  fe_path :: "point list"

definition normalize_area :: "string \<Rightarrow> string" where
  "normalize_area s = to_lower (replace_char (CHR ''_'') (CHR '' '') s)"

definition index_path :: "fence \<Rightarrow> point list \<Rightarrow> fence_entry list" where
  "index_path f path =
     (case bounding_box path of
        None \<Rightarrow> []
      | Some bb \<Rightarrow> [\<lparr>fe_box = bb, fe_fence = f, fe_path = path\<rparr>])"

definition index_fence :: "fence \<Rightarrow> fence_entry list" where
  "index_fence f0 =
     (let f = f0\<lparr>fc_normalized_name := normalize_area (fc_name f0)\<rparr>
      in index_path f (fc_path f) @ concat (map (index_path f) (fc_multipath f)))"

definition new_spatial_index :: "fence list \<Rightarrow> fence_entry list" where
  "new_spatial_index fences = concat (map index_fence fences)"

definition area_of :: "fence \<Rightarrow> matched_area" where
  "area_of f = \<lparr>ma_name = fc_name f, ma_description = fc_description f,
                ma_display_in_matches = fc_display_in_matches f, ma_group = fc_group f\<rparr>"

text \<open>The iterator callback of \<open>PointAreasAndNames\<close>, run over the entries the search visits.\<close>

fun areas_loop ::
    "f64 \<Rightarrow> f64 \<Rightarrow> fence_entry list \<Rightarrow> string set \<Rightarrow> matched_area list \<Rightarrow> string set
     \<Rightarrow> matched_area list \<times> string set" where
  "areas_loop lat lon [] seen results names = (results, names)"
| "areas_loop lat lon (e # es) seen results names =
     (if fc_name (fe_fence e) \<notin> seen \<and> point_in_polygon lat lon (fe_path e)
      then areas_loop lat lon es (insert (fc_name (fe_fence e)) seen)
             (results @ [area_of (fe_fence e)]) (insert (fc_normalized_name (fe_fence e)) names)
      else areas_loop lat lon es seen results names)"

fun in_areas_loop ::
    "f64 \<Rightarrow> f64 \<Rightarrow> fence_entry list \<Rightarrow> string set \<Rightarrow> matched_area list \<Rightarrow> matched_area list" where
  "in_areas_loop lat lon [] seen results = results"
| "in_areas_loop lat lon (e # es) seen results =
     (if fc_name (fe_fence e) \<notin> seen \<and> point_in_polygon lat lon (fe_path e)
      then in_areas_loop lat lon es (insert (fc_name (fe_fence e)) seen)
             (results @ [area_of (fe_fence e)])
      else in_areas_loop lat lon es seen results)"

fun area_names_loop ::
    "f64 \<Rightarrow> f64 \<Rightarrow> fence_entry list \<Rightarrow> string set \<Rightarrow> string set \<Rightarrow> string set" where
  "area_names_loop lat lon [] seen names = names"
| "area_names_loop lat lon (e # es) seen names =
     (if fc_name (fe_fence e) \<notin> seen \<and> point_in_polygon lat lon (fe_path e)
      then area_names_loop lat lon es (insert (fc_name (fe_fence e)) seen)
             (insert (fc_normalized_name (fe_fence e)) names)
      else area_names_loop lat lon es seen names)"

text \<open>A nil index (no fences loaded) is \<open>None\<close>.\<close>

type_synonym rtree_search = "fence_entry list \<Rightarrow> f64 \<Rightarrow> f64 \<Rightarrow> fence_entry list"
type_synonym spatial_index = "fence_entry list option"

definition point_areas_and_names ::
    "rtree_search \<Rightarrow> spatial_index \<Rightarrow> f64 \<Rightarrow> f64 \<Rightarrow> matched_area list \<times> string set" where
  "point_areas_and_names search si lat lon =
     (case si of None \<Rightarrow> ([], {})
      | Some es \<Rightarrow> areas_loop lat lon (search es lat lon) {} [] {})"

definition point_in_areas ::
    "rtree_search \<Rightarrow> spatial_index \<Rightarrow> f64 \<Rightarrow> f64 \<Rightarrow> matched_area list" where
  "point_in_areas search si lat lon =
     (case si of None \<Rightarrow> []
      | Some es \<Rightarrow> in_areas_loop lat lon (search es lat lon) {} [])"

definition matched_area_names ::
    "rtree_search \<Rightarrow> spatial_index \<Rightarrow> f64 \<Rightarrow> f64 \<Rightarrow> string set" where
  "matched_area_names search si lat lon =
     (case si of None \<Rightarrow> {}
      | Some es \<Rightarrow> area_names_loop lat lon (search es lat lon) {} {})"

definition rtree_search_ok :: "rtree_search \<Rightarrow> bool" where
  "rtree_search_ok search \<longleftrightarrow>
     (\<forall>es lat lon. mset (search es lat lon) = mset (filter (\<lambda>e. box_contains (fe_box e) lat lon) es))"

section \<open>Stripping comments\<close>

text \<open>The inner loop of a block comment, from behind \<open>/*\<close>: at the end of the text it stops one
  byte short, so an unterminated comment leaves its last byte behind.\<close>

fun skip_block :: "string \<Rightarrow> string" where
  "skip_block [] = []"
| "skip_block [c] = [c]"
| "skip_block (a # b # cs) = (if a = CHR ''*'' \<and> b = CHR ''/'' then cs else skip_block (b # cs))"

text \<open>The inner loop of a string literal, from behind the quote: what it copies, what is left.\<close>

fun copy_string :: "string \<Rightarrow> string \<times> string" where
  "copy_string [] = ([], [])"
| "copy_string (c # cs) =
     (if c = CHR 0x22 then ([c], cs)
      else if c = CHR 0x5C then
        (case cs of [] \<Rightarrow> ([c], [])
         | d # ds \<Rightarrow> (let (w, r) = copy_string ds in (c # d # w, r)))
      else (let (w, r) = copy_string cs in (c # w, r)))"

lemma skip_block_length: "length (skip_block cs) \<le> length cs"
  by (induction cs rule: skip_block.induct) auto

lemma copy_string_length: "copy_string cs = (w, r) \<Longrightarrow> length r \<le> length cs"
  by (induction cs arbitrary: w r rule: copy_string.induct)
     (auto simp: Let_def split: prod.splits if_splits list.splits, fastforce+)

definition is_line_comment :: "string \<Rightarrow> bool" where
  "is_line_comment s \<longleftrightarrow> take 2 s = [CHR ''/'', CHR ''/'']"

definition is_block_comment :: "string \<Rightarrow> bool" where
  "is_block_comment s \<longleftrightarrow> take 2 s = [CHR ''/'', CHR ''*'']"

function strip_json_comments :: "string \<Rightarrow> string" where
  "strip_json_comments [] = []"
| "strip_json_comments (c # cs) =
     (if is_line_comment (c # cs) then strip_json_comments (dropWhile (\<lambda>d. d \<noteq> CHR 0x0A) cs)
      else if is_block_comment (c # cs) then strip_json_comments (skip_block (drop 1 cs))
      else if c = CHR 0x22 then
        c # fst (copy_string cs) @ strip_json_comments (snd (copy_string cs))
      else c # strip_json_comments cs)"
  by pat_completeness auto
termination
proof (relation "measure length")
  fix c :: char and cs
  show "(skip_block (drop 1 cs), c # cs) \<in> measure length"
    using skip_block_length [of "drop 1 cs"] by simp
  show "(snd (copy_string cs), c # cs) \<in> measure length"
    using copy_string_length [of cs] by (cases "copy_string cs") (simp add: le_imp_less_Suc)
  show "(dropWhile (\<lambda>d. d \<noteq> CHR 0x0A) cs, c # cs) \<in> measure length"
    using length_dropWhile_le [of "\<lambda>d. d \<noteq> CHR 0x0A" cs] by (simp add: le_imp_less_Suc)
qed simp_all

section \<open>The box test loses no polygon\<close>

fun edges :: "point \<Rightarrow> point list \<Rightarrow> (point \<times> point) list" where
  "edges q [] = []"
| "edges q (p # ps) = (p, q) # edges p ps"

lemma pip_loop_parity:
  "pip_loop lat lon q ps b \<longleftrightarrow> b \<noteq> odd (length (filter (\<lambda>(p, q). crosses lat lon p q) (edges q ps)))"
  by (induction ps arbitrary: q b) auto

lemma straddle_parity:
  "odd (length (filter (\<lambda>(p, q). straddles lat p q) (edges q ps)))
   \<longleftrightarrow> (fst q > lat) \<noteq> (fst (last (q # ps)) > lat)"
  by (induction ps arbitrary: q) (auto simp: straddles_def)

lemma box_step_min_max:
  "box_step (x0, y0, x1, y1) (px, py) = (min px x0, min py y0, max px x1, max py y1)"
  by (auto simp: min_def max_def)

lemma box_step_grows:
  assumes "bb = (x0, y0, x1, y1)" and "foldl box_step bb ps = (a0, b0, a1, b1)"
  shows "a0 \<le> x0 \<and> b0 \<le> y0 \<and> x1 \<le> a1 \<and> y1 \<le> b1 \<and>
    (\<forall>p \<in> set ps. a0 \<le> fst p \<and> fst p \<le> a1 \<and> b0 \<le> snd p \<and> snd p \<le> b1)"
  using assms
proof (induction ps arbitrary: bb x0 y0 x1 y1)
  case (Cons p ps)
  obtain px py where p: "p = (px, py)" by (cases p)
  from Cons.prems have "foldl box_step (min px x0, min py y0, max px x1, max py y1) ps = (a0, b0, a1, b1)"
    by (simp only: foldl_Cons p box_step_min_max)
  from Cons.IH [OF refl this] show ?case by (simp add: p)
qed simp

lemma bounding_box_bounds:
  assumes "bounding_box ps = Some (x0, y0, x1, y1)" and "p \<in> set ps"
  shows "x0 \<le> fst p \<and> fst p \<le> x1 \<and> y0 \<le> snd p \<and> snd p \<le> y1"
proof -
  obtain a b qs where ps: "ps = (a, b) # qs" using assms(2) by (cases ps) auto
  with assms(1) have "foldl box_step (a, b, a, b) qs = (x0, y0, x1, y1)" by simp
  from box_step_grows [OF refl this] assms(2) ps show ?thesis by auto
qed

lemma edges_mem: "(p, r) \<in> set (edges q ps) \<Longrightarrow> p \<in> set ps \<and> (r = q \<or> r \<in> set ps)"
  by (induction ps arbitrary: q) auto

text \<open>The rounded abscissa of an edge lies between the edge's end points. It does so whenever the
  three operations are exact, and the hypothesis excludes only an overshoot by rounding.\<close>

definition edge_between :: "f64 \<Rightarrow> point \<Rightarrow> point \<Rightarrow> bool" where
  "edge_between lat p q \<longleftrightarrow> (straddles lat p q \<longrightarrow>
     min (snd p) (snd q) \<le> edge_lon lat p q \<and> edge_lon lat p q \<le> max (snd p) (snd q))"

definition polygon_sound :: "f64 \<Rightarrow> point list \<Rightarrow> bool" where
  "polygon_sound lat ps \<longleftrightarrow> (ps \<noteq> [] \<longrightarrow> list_all (\<lambda>(p, q). edge_between lat p q) (edges (last ps) ps))"

lemma straddle_between:
  fixes yi :: real
  assumes "(yi > lat) \<noteq> (yj > lat)"
  shows "min xi xj \<le> (xj - xi) * (lat - yi) / (yj - yi) + xi"
    and "(xj - xi) * (lat - yi) / (yj - yi) + xi \<le> max xi xj"
proof -
  define t where "t = (lat - yi) / (yj - yi)"
  have t: "0 \<le> t" "t \<le> 1"
    using assms by (auto simp: t_def divide_simps)
  have e: "(xj - xi) * (lat - yi) / (yj - yi) + xi = (1 - t) * xi + t * xj"
  proof -
    have "(xj - xi) * (lat - yi) / (yj - yi) = (xj - xi) * t" by (simp add: t_def)
    then show ?thesis by (simp add: algebra_simps)
  qed
  have "(1 - t) * min xi xj + t * min xi xj \<le> (1 - t) * xi + t * xj"
    using t by (intro add_mono mult_left_mono) auto
  moreover have "(1 - t) * xi + t * xj \<le> (1 - t) * max xi xj + t * max xi xj"
    using t by (intro add_mono mult_left_mono) auto
  ultimately show "min xi xj \<le> (xj - xi) * (lat - yi) / (yj - yi) + xi"
    and "(xj - xi) * (lat - yi) / (yj - yi) + xi \<le> max xi xj"
    unfolding e by (simp_all add: algebra_simps)
qed

lemma pip_in_box:
  assumes inside: "point_in_polygon lat lon ps" and bb: "bounding_box ps = Some bb"
    and sound: "polygon_sound lat ps"
  shows "box_contains bb lat lon"
proof -
  obtain x0 y0 x1 y1 where bb': "bb = (x0, y0, x1, y1)" by (cases bb)
  note bounds = bounding_box_bounds [OF bb [unfolded bb']]
  let ?E = "edges (last ps) ps"
  have ps: "ps \<noteq> []" using inside by (auto simp: point_in_polygon_def split: if_splits)
  have mem: "p \<in> set ps \<and> q \<in> set ps" if "(p, q) \<in> set ?E" for p q
    using edges_mem [OF that] ps by auto
  have odd: "odd (length (filter (\<lambda>(p, q). crosses lat lon p q) ?E))"
    using inside by (auto simp: point_in_polygon_def pip_loop_parity split: if_splits)
  have even: "even (length (filter (\<lambda>(p, q). straddles lat p q) ?E))"
    using straddle_parity [of lat "last ps" ps] ps by simp
  have btw: "edge_between lat p q" if "(p, q) \<in> set ?E" for p q
    using sound that ps by (auto simp: polygon_sound_def list_all_iff)
  from odd have "filter (\<lambda>(p, q). crosses lat lon p q) ?E \<noteq> []" by (metis even_zero list.size(3))
  then obtain p q where pq: "(p, q) \<in> set ?E" "crosses lat lon p q"
    by (auto simp: filter_empty_conv)
  have lat: "x0 \<le> lat \<and> lat \<le> x1"
  proof -
    have "x0 \<le> fst p" "fst p \<le> x1" "x0 \<le> fst q" "fst q \<le> x1"
      using bounds mem [OF pq(1)] by blast+
    moreover have "(fst p > lat) \<noteq> (fst q > lat)"
      using pq(2) by (simp add: crosses_def straddles_def)
    ultimately show ?thesis by (cases "fst p > lat") linarith+
  qed
  have hi: "lon \<le> y1"
  proof -
    have "lon < max (snd p) (snd q)"
      using btw [OF pq(1)] pq(2) by (auto simp: crosses_def edge_between_def)
    moreover have "snd p \<le> y1" "snd q \<le> y1" using bounds mem [OF pq(1)] by blast+
    ultimately show ?thesis by simp
  qed
  have lo: "y0 \<le> lon"
  proof (rule ccontr)
    assume "\<not> y0 \<le> lon"
    have "crosses lat lon r t \<longleftrightarrow> straddles lat r t" if "(r, t) \<in> set ?E" for r t
    proof -
      have "y0 \<le> min (snd r) (snd t)" using bounds mem [OF that] by auto
      with btw [OF that] \<open>\<not> y0 \<le> lon\<close> show ?thesis
        by (auto simp: crosses_def edge_between_def)
    qed
    then have "filter (\<lambda>(p, q). crosses lat lon p q) ?E = filter (\<lambda>(p, q). straddles lat p q) ?E"
      by (intro filter_cong) auto
    with odd even show False by simp
  qed
  from lat lo hi show ?thesis by (simp add: box_contains_def bb')
qed

section \<open>The queries\<close>

lemma areas_loop_eq:
  "areas_loop lat lon es seen results names =
     (let hits = dedup_by (\<lambda>e. fc_name (fe_fence e)) seen (filter (\<lambda>e. point_in_polygon lat lon (fe_path e)) es)
      in (results @ map (\<lambda>e. area_of (fe_fence e)) hits,
          names \<union> (\<lambda>e. fc_normalized_name (fe_fence e)) ` set hits))"
  by (induction es arbitrary: seen results names) (auto simp: Let_def)

lemma in_areas_loop_eq: "in_areas_loop lat lon es seen results = fst (areas_loop lat lon es seen results names)"
  by (induction es arbitrary: seen results names) auto

lemma area_names_loop_eq: "area_names_loop lat lon es seen names = snd (areas_loop lat lon es seen results names)"
  by (induction es arbitrary: seen results names) auto

definition fence_paths :: "fence \<Rightarrow> point list list" where
  "fence_paths f = fc_path f # fc_multipath f"

definition fence_contains :: "fence \<Rightarrow> f64 \<Rightarrow> f64 \<Rightarrow> bool" where
  "fence_contains f lat lon \<longleftrightarrow> list_ex (point_in_polygon lat lon) (fence_paths f)"

lemma index_path_mem:
  "e \<in> set (index_path f path) \<longleftrightarrow>
     (\<exists>bb. bounding_box path = Some bb \<and> e = \<lparr>fe_box = bb, fe_fence = f, fe_path = path\<rparr>)"
  by (auto simp: index_path_def split: option.splits)

lemma index_fence_mem:
  "e \<in> set (index_fence f) \<longleftrightarrow>
     (\<exists>path \<in> set (fence_paths f). \<exists>bb. bounding_box path = Some bb \<and>
        e = \<lparr>fe_box = bb, fe_fence = f\<lparr>fc_normalized_name := normalize_area (fc_name f)\<rparr>, fe_path = path\<rparr>)"
  by (auto simp: index_fence_def Let_def index_path_mem fence_paths_def)

lemma pip_nonempty:
  assumes "point_in_polygon lat lon path"
  shows "\<exists>bb. bounding_box path = Some bb"
proof -
  obtain a b qs where "path = (a, b) # qs"
    using assms by (cases path) (auto simp: point_in_polygon_def)
  then have "bounding_box path = Some (foldl box_step (a, b, a, b) qs)" by simp
  then show ?thesis by blast
qed

lemma rtree_search_mem:
  assumes "rtree_search_ok search"
  shows "set (search es lat lon) = {e \<in> set es. box_contains (fe_box e) lat lon}"
proof -
  have "mset (search es lat lon) = mset (filter (\<lambda>e. box_contains (fe_box e) lat lon) es)"
    using assms by (simp add: rtree_search_ok_def)
  from mset_eq_setD [OF this] show ?thesis by auto
qed

text \<open>The entries that pass the polygon test are the same with and without the R-tree.\<close>

lemma search_hits:
  assumes ok: "rtree_search_ok search"
    and sound: "\<And>f path. f \<in> set fences \<Longrightarrow> path \<in> set (fence_paths f) \<Longrightarrow> polygon_sound lat path"
  shows "{e \<in> set (search (new_spatial_index fences) lat lon). point_in_polygon lat lon (fe_path e)}
       = {e \<in> set (new_spatial_index fences). point_in_polygon lat lon (fe_path e)}"
proof -
  have "box_contains (fe_box e) lat lon"
    if "e \<in> set (new_spatial_index fences)" and pip: "point_in_polygon lat lon (fe_path e)" for e
  proof -
    from that(1) obtain f path bb where f: "f \<in> set fences" and path: "path \<in> set (fence_paths f)"
      and bb: "bounding_box path = Some bb" and e: "fe_box e = bb" "fe_path e = path"
      by (auto simp: new_spatial_index_def index_fence_mem)
    from pip_in_box [OF pip [unfolded e(2)] bb sound [OF f path]] show ?thesis by (simp add: e)
  qed
  then show ?thesis by (auto simp: rtree_search_mem [OF ok])
qed

lemma index_hit_names:
  "(\<lambda>e. fc_name (fe_fence e)) ` {e \<in> set (new_spatial_index fences). point_in_polygon lat lon (fe_path e)}
   = fc_name ` {f \<in> set fences. fence_contains f lat lon}" (is "?L = ?R")
proof
  show "?L \<subseteq> ?R"
  proof
    fix n assume "n \<in> ?L"
    then obtain e where e: "e \<in> set (new_spatial_index fences)" "point_in_polygon lat lon (fe_path e)"
      and n: "n = fc_name (fe_fence e)" by blast
    from e(1) obtain f where f: "f \<in> set fences" and "fe_path e \<in> set (fence_paths f)"
      and "fc_name (fe_fence e) = fc_name f"
      by (auto simp: new_spatial_index_def index_fence_mem)
    with e(2) n have "fence_contains f lat lon" "n = fc_name f"
      by (auto simp: fence_contains_def list_ex_iff)
    with f show "n \<in> ?R" by blast
  qed
  show "?R \<subseteq> ?L"
  proof
    fix n assume "n \<in> ?R"
    then obtain f path where f: "f \<in> set fences" "n = fc_name f" and path: "path \<in> set (fence_paths f)"
      and pip: "point_in_polygon lat lon path"
      by (auto simp: fence_contains_def list_ex_iff)
    from pip_nonempty [OF pip] obtain bb where bb: "bounding_box path = Some bb" by blast
    let ?e = "\<lparr>fe_box = bb, fe_fence = f\<lparr>fc_normalized_name := normalize_area (fc_name f)\<rparr>, fe_path = path\<rparr>"
    have "?e \<in> set (index_fence f)" unfolding index_fence_mem using path bb by blast
    then have "?e \<in> set (new_spatial_index fences)" using f by (auto simp: new_spatial_index_def)
    with f pip show "n \<in> ?L" by (force intro: image_eqI [of _ _ ?e])
  qed
qed

lemma index_normalized:
  "e \<in> set (new_spatial_index fences) \<Longrightarrow>
     fc_normalized_name (fe_fence e) = normalize_area (fc_name (fe_fence e))"
  by (auto simp: new_spatial_index_def index_fence_mem)

section \<open>Stripping is stable\<close>

lemma copy_string_again:
  "copy_string cs = (w, r) \<Longrightarrow>
     (\<forall>t. copy_string (w @ t) = (w, t)) \<or> r = [] \<and> copy_string w = (w, [])"
proof (induction cs arbitrary: w r rule: copy_string.induct)
  case (2 c cs)
  consider "c = CHR 0x22" | "c = CHR 0x5C" "cs = []" | d ds where "c = CHR 0x5C" "cs = d # ds"
    | "c \<noteq> CHR 0x22" "c \<noteq> CHR 0x5C"
    by (cases cs) auto
  then show ?case
  proof cases
    case 3
    obtain w' r' where c: "copy_string ds = (w', r')" by (cases "copy_string ds")
    with 3 "2.prems" have "w = c # d # w'" "r = r'" by auto
    with "2.IH"(1) [OF _ 3(1) 3(2) c] 3 show ?thesis by auto
  next
    case 4
    obtain w' r' where c: "copy_string cs = (w', r')" by (cases "copy_string cs")
    with 4 "2.prems" have "w = c # w'" "r = r'" by auto
    with "2.IH"(2) [OF 4 c] 4 show ?thesis by auto
  qed (use "2.prems" in auto)
qed simp

lemma strip_plain:
  "d \<noteq> CHR ''/'' \<Longrightarrow> \<exists>t. strip_json_comments (d # ds) = d # t"
  by (simp add: is_line_comment_def is_block_comment_def)

lemma strip_keeps_plain:
  assumes "\<not> is_line_comment (c # cs)" and "\<not> is_block_comment (c # cs)"
  shows "\<not> is_line_comment (c # strip_json_comments cs)"
    and "\<not> is_block_comment (c # strip_json_comments cs)"
proof -
  have "c \<noteq> CHR ''/'' \<or> cs = [] \<or> (\<exists>d ds t. cs = d # ds \<and> d \<noteq> CHR ''/'' \<and> d \<noteq> CHR ''*''
      \<and> strip_json_comments cs = d # t)"
    using assms strip_plain
    by (cases cs) (auto simp: is_line_comment_def is_block_comment_def simp del: strip_json_comments.simps)
  then show "\<not> is_line_comment (c # strip_json_comments cs)"
    and "\<not> is_block_comment (c # strip_json_comments cs)"
    by (auto simp: is_line_comment_def is_block_comment_def)
qed

lemma strip_idem: "strip_json_comments (strip_json_comments s) = strip_json_comments s"
proof (induction s rule: strip_json_comments.induct)
  case (2 c cs)
  consider "is_line_comment (c # cs)" | "\<not> is_line_comment (c # cs)" "is_block_comment (c # cs)"
    | "\<not> is_line_comment (c # cs)" "\<not> is_block_comment (c # cs)" "c = CHR 0x22"
    | "\<not> is_line_comment (c # cs)" "\<not> is_block_comment (c # cs)" "c \<noteq> CHR 0x22"
    by blast
  then show ?case
  proof cases
    case 3
    obtain w r where wr: "copy_string cs = (w, r)" by (cases "copy_string cs")
    then have "copy_string (w @ strip_json_comments r) = (w, strip_json_comments r)"
      using copy_string_again [OF wr] by auto
    moreover have "strip_json_comments (strip_json_comments r) = strip_json_comments r"
      using "2.IH"(3) [OF 3] by (simp add: wr)
    ultimately show ?thesis
      using 3 wr by (simp add: is_line_comment_def is_block_comment_def)
  next
    case 4
    with "2.IH"(4) [OF 4] strip_keeps_plain [of c cs] show ?thesis by simp
  qed (use "2.IH" in simp_all)
qed simp

lemma copy_string_body:
  "list_all (\<lambda>c. c \<noteq> CHR 0x22 \<and> c \<noteq> CHR 0x5C) body \<Longrightarrow>
     copy_string (body @ CHR 0x22 # rest) = (body @ [CHR 0x22], rest)"
  by (induction body) auto

lemma strip_unterminated_comment: "strip_json_comments ''/* ab'' = ''b''"
  by (simp add: is_line_comment_def is_block_comment_def)

section \<open>Properties\<close>

text \<open>C10: the R-tree query finds exactly the areas a scan of every fence would find: the set of
  normalised names is that of the fences with a polygon (path or sub-polygon) that contains the
  point, and no area is listed twice. The hypotheses: the R-tree visits every entry whose box holds
  the point, and no rounded edge abscissa overshoots its edge.\<close>

theorem area_query_complete:
  assumes ok: "rtree_search_ok search"
    and sound: "\<forall>f \<in> set fences. \<forall>path \<in> set (fence_paths f). polygon_sound lat path"
  shows "snd (point_areas_and_names search (Some (new_spatial_index fences)) lat lon)
           = normalize_area ` fc_name ` {f \<in> set fences. fence_contains f lat lon}
    \<and> set (map ma_name (fst (point_areas_and_names search (Some (new_spatial_index fences)) lat lon)))
           = fc_name ` {f \<in> set fences. fence_contains f lat lon}
    \<and> distinct (map ma_name (fst (point_areas_and_names search (Some (new_spatial_index fences)) lat lon)))"
proof -
  let ?name = "\<lambda>e. fc_name (fe_fence e)"
  let ?es = "search (new_spatial_index fences) lat lon"
  let ?hits = "filter (\<lambda>e. point_in_polygon lat lon (fe_path e)) ?es"
  let ?ded = "dedup_by ?name {} ?hits"
  have hits: "?name ` set ?hits = fc_name ` {f \<in> set fences. fence_contains f lat lon}"
    using search_hits [OF ok, of fences lat lon] sound by (simp add: index_hit_names)
  have keys: "?name ` set ?ded = ?name ` set ?hits" by (simp add: dedup_by_keys)
  have "set ?ded \<subseteq> set (new_spatial_index fences)"
    using dedup_by_subset [of ?name "{}" ?hits] by (auto simp: rtree_search_mem [OF ok])
  then have norm: "(\<lambda>e. fc_normalized_name (fe_fence e)) ` set ?ded = normalize_area ` ?name ` set ?ded"
    by (force simp: image_image intro!: image_cong index_normalized)
  have names: "map ma_name (map (\<lambda>e. area_of (fe_fence e)) ?ded) = map ?name ?ded"
    by (simp add: area_of_def)
  have q: "point_areas_and_names search (Some (new_spatial_index fences)) lat lon
      = (map (\<lambda>e. area_of (fe_fence e)) ?ded, (\<lambda>e. fc_normalized_name (fe_fence e)) ` set ?ded)"
    by (simp add: point_areas_and_names_def areas_loop_eq Let_def)
  show ?thesis
    unfolding q fst_conv snd_conv norm names keys hits set_map
    by (intro conjI) (simp_all only: keys hits dedup_by_distinct)
qed

text \<open>A square and a point inside it: both hypotheses hold.\<close>

theorem area_query_complete_witness:
  "snd (point_areas_and_names (\<lambda>es lat lon. filter (\<lambda>e. box_contains (fe_box e) lat lon) es)
     (Some (new_spatial_index [\<lparr>fc_name = ''My_Park'', fc_normalized_name = [], fc_description = [], fc_group = [],
        fc_display_in_matches = True, fc_path = [(0, 0), (0, 2), (2, 2), (2, 0)], fc_multipath = []\<rparr>])) 1 1)
   = {''my park''}"
proof -
  let ?f = "\<lparr>fc_name = ''My_Park'', fc_normalized_name = [], fc_description = [], fc_group = [],
        fc_display_in_matches = True, fc_path = [(0, 0), (0, 2), (2, 2), (2, 0)], fc_multipath = []\<rparr> :: fence"
  have ok: "rtree_search_ok (\<lambda>es lat lon. filter (\<lambda>e. box_contains (fe_box e) lat lon) es)"
    by (simp add: rtree_search_ok_def)
  have "polygon_sound 1 (fc_path ?f)"
    by (simp add: polygon_sound_def edge_between_def straddles_def edge_lon_def f64_eval)
  then have sound: "\<forall>f \<in> set [?f]. \<forall>path \<in> set (fence_paths f). polygon_sound 1 path"
    by (simp add: fence_paths_def)
  have "point_in_polygon 1 1 (fc_path ?f)"
    by (simp add: point_in_polygon_def crosses_def straddles_def edge_lon_def f64_eval)
  then have "{f \<in> set [?f]. fence_contains f 1 1} = {?f}"
    by (auto simp: fence_contains_def fence_paths_def)
  moreover have "normalize_area ''My_Park'' = ''my park''" by code_simp
  ultimately show ?thesis
    using conjunct1 [OF area_query_complete [OF ok sound, of 1]] by simp
qed

text \<open>the three queries of the index agree: \<open>PointInAreas\<close> lists the areas and
  \<open>MatchedAreaNames\<close> the names that \<open>PointAreasAndNames\<close> returns in one walk.\<close>

theorem area_queries_agree:
  "point_areas_and_names search si lat lon = (point_in_areas search si lat lon, matched_area_names search si lat lon)"
  by (cases si)
     (simp_all add: point_areas_and_names_def point_in_areas_def matched_area_names_def
       in_areas_loop_eq [where names = "{}"] area_names_loop_eq [where results = "[]"])

text \<open>stripping the comments twice is stripping them once, and the bytes of a string literal
  survive it: a URL inside quotes is not taken for a comment.\<close>

theorem strip_comments_stable:
  assumes "list_all (\<lambda>c. c \<noteq> CHR 0x22 \<and> c \<noteq> CHR 0x5C) body"
  shows "strip_json_comments (strip_json_comments s) = strip_json_comments s
    \<and> strip_json_comments (CHR 0x22 # body @ CHR 0x22 # rest)
        = CHR 0x22 # body @ CHR 0x22 # strip_json_comments rest"
  using copy_string_body [OF assms, of rest]
  by (simp add: strip_idem is_line_comment_def is_block_comment_def)

theorem strip_comments_stable_witness:
  "strip_json_comments (CHR 0x22 # ''http://a'' @ CHR 0x22 # ''//b'') = CHR 0x22 # ''http://a'' @ CHR 0x22 # []"
proof -
  have b: "list_all (\<lambda>c. c \<noteq> CHR 0x22 \<and> c \<noteq> CHR 0x5C) ''http://a''" by simp
  have "strip_json_comments ''//b'' = []" by (simp add: is_line_comment_def)
  with strip_comments_stable [OF b, of "[]" "''//b''"] show ?thesis by simp
qed

end
