(* ===== verification/Pvp.thy ===== *)
theory Pvp
  imports Prelude "HOL-Library.Multiset"
begin

text \<open>
  Package \<open>pvp\<close> (\<open>processor/internal/pvp/rankcalculator.go\<close>): from the ranking entries of a
  pokemon webhook, the best rank per league, evolution slot and level cap, and the entries of
  other species for direct evolution tracking. Go maps are association lists in the order
  \<open>range\<close> visits them.
\<close>

record pvp_rank_entry =
  pe_pokemon :: int
  pe_form :: int
  pe_cap :: int
  pe_capped :: bool
  pe_rank :: int
  pe_cp :: int
  pe_evolution :: int

record league_rank =
  lr_rank :: int
  lr_cp :: int
  lr_caps :: "int list"
  lr_form :: int
  lr_evolution :: int

record pvp_config =
  pc_level_caps :: "int list"
  pc_filter_max_rank :: int
  pc_evolution_direct_tracking :: bool
  pc_filter_great_min_cp :: int
  pc_filter_ultra_min_cp :: int
  pc_filter_little_min_cp :: int

text \<open>The PVP fields of the webhook: \<open>pvp\<close> by league name, and the three legacy lists (\<open>None\<close>
  for nil).\<close>

record pvp_fields =
  pf_pvp :: "(string, pvp_rank_entry list) gomap"
  pf_great :: "pvp_rank_entry list option"
  pf_ultra :: "pvp_rank_entry list option"
  pf_little :: "pvp_rank_entry list option"

type_synonym league_map = "(int, pvp_rank_entry list) gomap"
type_synonym best_map = "(int, (int, int \<times> int) gomap) gomap"
type_synonym evo_data = "(int, (int, league_rank list) gomap) gomap"

section \<open>Collecting the leagues\<close>

definition league_cp_of_name :: "string \<Rightarrow> int option" where
  "league_cp_of_name n =
     (if n = ''little'' then Some 500
      else if n = ''great'' then Some 1500
      else if n = ''ultra'' then Some 2500 else None)"

definition collect_leagues :: "pvp_fields \<Rightarrow> league_map" where
  "collect_leagues p =
     (let m0 = foldl (\<lambda>m (name, es). case league_cp_of_name name of None \<Rightarrow> m
                        | Some cp \<Rightarrow> gappend cp es m) [] (pf_pvp p);
          m1 = (case pf_great p of None \<Rightarrow> m0 | Some es \<Rightarrow> gappend 1500 es m0);
          m2 = (case pf_ultra p of None \<Rightarrow> m1 | Some es \<Rightarrow> gappend 2500 es m1)
      in (case pf_little p of None \<Rightarrow> m2 | Some es \<Rightarrow> gappend 500 es m2))"

definition caps_considered :: "pvp_config \<Rightarrow> int list" where
  "caps_considered cfg = (if pc_level_caps cfg = [] then [50] else pc_level_caps cfg)"

definition min_cp_of_league :: "pvp_config \<Rightarrow> int \<Rightarrow> int" where
  "min_cp_of_league cfg league =
     (if league = 500 then pc_filter_little_min_cp cfg
      else if league = 1500 then pc_filter_great_min_cp cfg
      else if league = 2500 then pc_filter_ultra_min_cp cfg else 0)"

section \<open>One league\<close>

definition entry_caps :: "int list \<Rightarrow> pvp_rank_entry \<Rightarrow> int list" where
  "entry_caps caps e =
     (if pe_cap e = 0 \<and> \<not> pe_capped e then [50]
      else if pe_capped e then filter (\<lambda>c. pe_cap e \<le> c) caps
      else [pe_cap e])"

definition fresh_caps :: "int list \<Rightarrow> (int, int \<times> int) gomap" where
  "fresh_caps caps = foldl (\<lambda>m c. gput c (4096, 0) m) [] caps"

definition better :: "pvp_rank_entry \<Rightarrow> int \<times> int \<Rightarrow> int \<times> int" where
  "better e b =
     (if 0 < pe_rank e \<and> pe_rank e < fst b then (pe_rank e, pe_cp e)
      else if 0 < pe_rank e \<and> 0 < pe_cp e \<and> pe_rank e = fst b \<and> snd b < pe_cp e
      then (fst b, pe_cp e) else b)"

definition update_caps :: "pvp_rank_entry \<Rightarrow> int list \<Rightarrow> (int, int \<times> int) gomap \<Rightarrow> (int, int \<times> int) gomap" where
  "update_caps e caps m =
     foldl (\<lambda>m cap. case gget m cap of None \<Rightarrow> m | Some b \<Rightarrow> gput cap (better e b) m) m caps"

definition best_step :: "int list \<Rightarrow> best_map \<Rightarrow> pvp_rank_entry \<Rightarrow> best_map" where
  "best_step caps best e =
     (let cap_map = (case gget best (pe_evolution e) of None \<Rightarrow> fresh_caps caps | Some m \<Rightarrow> m)
      in gput (pe_evolution e) (update_caps e (entry_caps caps e) cap_map) best)"

definition evo_caps :: "int list \<Rightarrow> pvp_rank_entry \<Rightarrow> int list" where
  "evo_caps caps e =
     (if pe_capped e then filter (\<lambda>c. pe_cap e \<le> c) caps
      else if 0 < pe_cap e then filter (\<lambda>c. c = pe_cap e) caps else [])"

definition evo_step ::
    "pvp_config \<Rightarrow> int \<Rightarrow> int \<Rightarrow> int list \<Rightarrow> int \<Rightarrow> evo_data \<Rightarrow> pvp_rank_entry \<Rightarrow> evo_data" where
  "evo_step cfg league min_cp caps pokemon_id evo e =
     (if pc_evolution_direct_tracking cfg \<and> 0 < pe_rank e \<and> 0 < pe_cp e \<and>
         pe_pokemon e \<noteq> pokemon_id \<and> pe_rank e \<le> pc_filter_max_rank cfg \<and> min_cp \<le> pe_cp e
      then gput (pe_pokemon e)
             (gappend league
                [\<lparr>lr_rank = pe_rank e, lr_cp = pe_cp e, lr_caps = evo_caps caps e,
                  lr_form = pe_form e, lr_evolution = pe_evolution e\<rparr>]
                (gget_or [] evo (pe_pokemon e))) evo
      else evo)"

text \<open>Merging the caps of one evolution slot that share their rank and CP.\<close>

fun merge_cap :: "int \<Rightarrow> int \<Rightarrow> int \<times> int \<Rightarrow> league_rank list \<Rightarrow> league_rank list" where
  "merge_cap evo cap (r, cp) [] =
     [\<lparr>lr_rank = r, lr_cp = cp, lr_caps = [cap], lr_form = 0, lr_evolution = evo\<rparr>]"
| "merge_cap evo cap (r, cp) (x # xs) =
     (if lr_cp x = cp \<and> lr_rank x = r then x\<lparr>lr_caps := lr_caps x @ [cap]\<rparr> # xs
      else x # merge_cap evo cap (r, cp) xs)"

definition evo_ranks :: "int \<Rightarrow> (int, int \<times> int) gomap \<Rightarrow> league_rank list" where
  "evo_ranks evo cap_map =
     foldl (\<lambda>rs (cap, d). if 4096 \<le> fst d then rs else merge_cap evo cap d rs) [] cap_map"

definition best_ranks :: "best_map \<Rightarrow> league_rank list" where
  "best_ranks best = concat (map (\<lambda>(evo, cap_map). evo_ranks evo cap_map) best)"

definition calculate_league ::
    "int \<Rightarrow> pvp_rank_entry list \<Rightarrow> int list \<Rightarrow> int \<Rightarrow> pvp_config \<Rightarrow> int \<Rightarrow> evo_data
     \<Rightarrow> league_rank list \<times> evo_data" where
  "calculate_league league data caps pokemon_id cfg min_cp evo =
     (best_ranks (foldl (best_step caps) [] data),
      foldl (evo_step cfg league min_cp caps pokemon_id) evo data)"

definition calculate ::
    "int \<Rightarrow> pvp_fields \<Rightarrow> pvp_config \<Rightarrow> (int, league_rank list) gomap \<times> evo_data" where
  "calculate pokemon_id p cfg =
     foldl (\<lambda>(br, evo) (league, data).
              let (ranks, evo') = calculate_league league data (caps_considered cfg) pokemon_id cfg
                                    (min_cp_of_league cfg league) evo
              in (gput league ranks br, evo'))
           ([], []) (collect_leagues p)"

definition caps_contain :: "int list \<Rightarrow> int \<Rightarrow> bool" where
  "caps_contain caps target \<longleftrightarrow> target \<in> set caps"

section \<open>The best entry per cap\<close>

text \<open>What the loop keeps for one evolution slot and cap: the fold of \<open>better\<close> over the entries
  that count for them.\<close>

definition counts_for :: "int list \<Rightarrow> int \<Rightarrow> int \<Rightarrow> pvp_rank_entry \<Rightarrow> bool" where
  "counts_for caps evo cap e \<longleftrightarrow> pe_evolution e = evo \<and> cap \<in> set (entry_caps caps e)"

definition cap_best :: "int list \<Rightarrow> int \<Rightarrow> int \<Rightarrow> pvp_rank_entry list \<Rightarrow> int \<times> int" where
  "cap_best caps evo cap es = foldl (\<lambda>b e. better e b) (4096, 0) (filter (counts_for caps evo cap) es)"

lemma better_idem [simp]: "better e (better e b) = better e b"
  by (auto simp: better_def)

lemma update_caps_Nil [simp]: "update_caps e [] m = m"
  by (simp add: update_caps_def)

lemma update_caps_Cons [simp]:
  "update_caps e (c # cs) m =
     update_caps e cs (case gget m c of None \<Rightarrow> m | Some b \<Rightarrow> gput c (better e b) m)"
  by (simp add: update_caps_def)

lemma gget_update_caps:
  "gget (update_caps e caps m) c =
     (if c \<in> set caps then map_option (better e) (gget m c) else gget m c)"
proof (induction caps arbitrary: m)
  case (Cons a caps)
  show ?case
    by (cases "gget m a") (auto simp: Cons.IH gget_put option.map_comp o_def)
qed simp

lemma gok_update_caps: "gok m \<Longrightarrow> gok (update_caps e caps m)"
  by (induction caps arbitrary: m) (auto intro: gok_intros split: option.splits)

lemma fresh_caps_gen:
  fixes m :: "(int, int \<times> int) gomap"
  shows "gget (foldl (\<lambda>m c. gput c (4096, 0) m) m caps) c = (if c \<in> set caps then Some (4096, 0) else gget m c)
   \<and> (gok m \<longrightarrow> gok (foldl (\<lambda>m c. gput c (4096, 0) m) m caps))"
  by (induction caps arbitrary: m) (auto simp: gget_put intro: gok_intros)

lemma gget_fresh_caps: "gget (fresh_caps caps) c = (if c \<in> set caps then Some (4096, 0) else None)"
  using fresh_caps_gen [of "[]" caps c] by (simp add: fresh_caps_def)

lemma gok_fresh_caps: "gok (fresh_caps caps)"
  using fresh_caps_gen [of "[]" caps] by (simp add: fresh_caps_def)

lemma cap_best_Nil [simp]: "cap_best caps evo cap [] = (4096, 0)"
  by (simp add: cap_best_def)

lemma cap_best_snoc:
  "cap_best caps evo cap (es @ [e]) =
     (if counts_for caps evo cap e then better e (cap_best caps evo cap es) else cap_best caps evo cap es)"
  by (simp add: cap_best_def)

text \<open>The invariant of the loop over the entries.\<close>

definition best_inv :: "int list \<Rightarrow> pvp_rank_entry list \<Rightarrow> best_map \<Rightarrow> bool" where
  "best_inv caps es best \<longleftrightarrow> gok best \<and>
     (\<forall>evo. case gget best evo of
        None \<Rightarrow> \<forall>e \<in> set es. pe_evolution e \<noteq> evo
      | Some m \<Rightarrow> gok m \<and> (\<forall>c. gget m c = (if c \<in> set caps then Some (cap_best caps evo c es) else None)))"

lemma cap_best_unseen: "\<forall>e \<in> set es. pe_evolution e \<noteq> evo \<Longrightarrow> cap_best caps evo c es = (4096, 0)"
proof -
  assume "\<forall>e \<in> set es. pe_evolution e \<noteq> evo"
  then have "filter (counts_for caps evo c) es = []"
    by (auto simp: filter_empty_conv counts_for_def)
  then show ?thesis by (simp add: cap_best_def)
qed

lemma best_inv_step:
  assumes inv: "best_inv caps es best"
  shows "best_inv caps (es @ [e]) (best_step caps best e)"
proof -
  define m where "m = (case gget best (pe_evolution e) of None \<Rightarrow> fresh_caps caps | Some m \<Rightarrow> m)"
  have ok: "gok best" using inv by (simp add: best_inv_def)
  have m: "gok m \<and> (\<forall>c. gget m c = (if c \<in> set caps then Some (cap_best caps (pe_evolution e) c es) else None))"
  proof (cases "gget best (pe_evolution e)")
    case None
    from inv have "case gget best (pe_evolution e) of
        None \<Rightarrow> \<forall>x \<in> set es. pe_evolution x \<noteq> pe_evolution e | Some m \<Rightarrow> True"
      unfolding best_inv_def by (auto split: option.splits dest!: spec [of _ "pe_evolution e"])
    with None have "\<forall>x \<in> set es. pe_evolution x \<noteq> pe_evolution e" by simp
    with None show ?thesis by (simp add: m_def gget_fresh_caps gok_fresh_caps cap_best_unseen)
  next
    case (Some x)
    with inv show ?thesis by (auto simp: m_def best_inv_def dest!: spec [of _ "pe_evolution e"])
  qed
  have upd: "gget (update_caps e (entry_caps caps e) m) c
      = (if c \<in> set caps then Some (cap_best caps (pe_evolution e) c (es @ [e])) else None)" for c
    using m by (simp add: gget_update_caps cap_best_snoc counts_for_def)
  have new: "gok (update_caps e (entry_caps caps e) m)" using m by (simp add: gok_update_caps)
  have step: "best_step caps best e = gput (pe_evolution e) (update_caps e (entry_caps caps e) m) best"
    by (simp add: best_step_def m_def)
  have other: "cap_best caps evo c (es @ [e]) = cap_best caps evo c es" if "evo \<noteq> pe_evolution e" for evo c
    using that by (simp add: cap_best_snoc counts_for_def)
  show ?thesis
    unfolding best_inv_def step
  proof (intro conjI allI)
    show "gok (gput (pe_evolution e) (update_caps e (entry_caps caps e) m) best)"
      using ok by (rule gok_put)
    fix evo
    show "case gget (gput (pe_evolution e) (update_caps e (entry_caps caps e) m) best) evo of
        None \<Rightarrow> \<forall>x \<in> set (es @ [e]). pe_evolution x \<noteq> evo
      | Some m' \<Rightarrow> gok m' \<and> (\<forall>c. gget m' c = (if c \<in> set caps then Some (cap_best caps evo c (es @ [e])) else None))"
    proof (cases "evo = pe_evolution e")
      case True
      with upd new show ?thesis by (simp add: gget_put)
    next
      case False
      with inv other [OF False] show ?thesis
        by (auto simp: best_inv_def gget_put split: option.splits dest!: spec [of _ evo])
    qed
  qed
qed

lemma best_inv_fold: "best_inv caps es (foldl (best_step caps) [] es)"
proof (induction es rule: rev_induct)
  case Nil
  show ?case by (simp add: best_inv_def)
next
  case (snoc e es)
  then show ?case by (simp add: best_inv_step)
qed

text \<open>The fold of \<open>better\<close> keeps a best rank, and among the entries of that rank the highest CP.\<close>

definition best_of :: "pvp_rank_entry list \<Rightarrow> int \<times> int \<Rightarrow> bool" where
  "best_of es b \<longleftrightarrow> fst b \<le> 4096 \<and> 0 \<le> snd b \<and> (\<forall>e \<in> set es. 0 < pe_rank e \<longrightarrow> fst b \<le> pe_rank e)
    \<and> (fst b < 4096 \<longrightarrow> (\<exists>e \<in> set es. 0 < pe_rank e \<and> pe_rank e = fst b \<and> pe_cp e = snd b))
    \<and> (fst b < 4096 \<longrightarrow> (\<forall>e \<in> set es. pe_rank e = fst b \<longrightarrow> pe_cp e \<le> snd b))"

lemma best_of_better:
  assumes c: "best_of xs c" and x: "0 \<le> pe_cp x"
  shows "best_of (xs @ [x]) (better x c)"
proof -
  consider "0 < pe_rank x" "pe_rank x < fst c" | "0 < pe_rank x" "pe_rank x = fst c" "snd c < pe_cp x"
    | "\<not> (0 < pe_rank x \<and> pe_rank x < fst c)" "\<not> (0 < pe_rank x \<and> pe_rank x = fst c \<and> snd c < pe_cp x)"
    by blast
  then show ?thesis
  proof cases
    case 1
    then have "better x c = (pe_rank x, pe_cp x)" by (simp add: better_def)
    with 1 c x show ?thesis by (fastforce simp: best_of_def)
  next
    case 2
    with c have "better x c = (fst c, pe_cp x)" by (simp add: better_def best_of_def)
    with 2 c x show ?thesis by (fastforce simp: best_of_def)
  next
    case 3
    then have "better x c = c" using c x by (auto simp: better_def best_of_def)
    moreover have "fst c < 4096 \<Longrightarrow> 0 < fst c" using c by (fastforce simp: best_of_def)
    ultimately show ?thesis using 3 c x by (fastforce simp: best_of_def)
  qed
qed

lemma better_fold:
  "\<forall>e \<in> set es. 0 \<le> pe_cp e \<Longrightarrow> best_of es (foldl (\<lambda>b e. better e b) (4096, 0) es)"
proof (induction es rule: rev_induct)
  case Nil
  show ?case by (simp add: best_of_def)
next
  case (snoc x xs)
  then show ?case using best_of_better [of xs _ x] by simp
qed

text \<open>Merging loses no cap: the triples of cap, rank and CP are those of the cap map.\<close>

definition cap_triples :: "league_rank list \<Rightarrow> (int \<times> int \<times> int) list" where
  "cap_triples rs = concat (map (\<lambda>x. map (\<lambda>c. (c, lr_rank x, lr_cp x)) (lr_caps x)) rs)"

lemma merge_cap_triples:
  "mset (cap_triples (merge_cap evo cap d rs)) = add_mset (cap, d) (mset (cap_triples rs))"
  by (induction evo cap d rs rule: merge_cap.induct) (auto simp: cap_triples_def)

lemma merge_cap_evolution:
  "\<forall>x \<in> set rs. lr_evolution x = evo \<Longrightarrow> \<forall>x \<in> set (merge_cap evo cap d rs). lr_evolution x = evo"
  by (induction evo cap d rs rule: merge_cap.induct) auto

lemma evo_ranks_snoc:
  "evo_ranks evo (m @ [(cap, d)]) =
     (if 4096 \<le> fst d then evo_ranks evo m else merge_cap evo cap d (evo_ranks evo m))"
  by (simp add: evo_ranks_def)

lemma evo_ranks_triples:
  "mset (cap_triples (evo_ranks evo m)) = mset (filter (\<lambda>(c, d). fst d < 4096) m)
   \<and> (\<forall>x \<in> set (evo_ranks evo m). lr_evolution x = evo)"
proof (induction m rule: rev_induct)
  case Nil
  show ?case by (simp add: evo_ranks_def cap_triples_def)
next
  case (snoc a m)
  obtain cap d where a: "a = (cap, d)" by (cases a)
  show ?case using snoc merge_cap_evolution [of "evo_ranks evo m" evo cap d]
    by (simp add: a evo_ranks_snoc merge_cap_triples)
qed

lemma best_ranks_mem: "x \<in> set (best_ranks best) \<longleftrightarrow> (\<exists>(evo, m) \<in> set best. x \<in> set (evo_ranks evo m))"
  by (auto simp: best_ranks_def)

lemma league_ranks_iff:
  fixes es :: "pvp_rank_entry list" and caps :: "int list"
  defines "R \<equiv> best_ranks (foldl (best_step caps) [] es)"
  shows "(\<exists>x \<in> set R. lr_evolution x = evo \<and> c \<in> set (lr_caps x) \<and> lr_rank x = fst d \<and> lr_cp x = snd d)
     \<longleftrightarrow> (\<exists>e \<in> set es. pe_evolution e = evo) \<and> c \<in> set caps \<and> d = cap_best caps evo c es \<and> fst d < 4096"
    (is "?L \<longleftrightarrow> ?R")
proof -
  let ?best = "foldl (best_step caps) [] es"
  have ok: "gok ?best" using best_inv_fold [of caps es] by (simp add: best_inv_def)
  have mem: "(c, r, cp) \<in> set (cap_triples (evo_ranks evo m)) \<longleftrightarrow> (c, r, cp) \<in> set m \<and> r < 4096" for r cp m
    using mset_eq_setD [OF conjunct1 [OF evo_ranks_triples [of evo m]]] by auto
  have unfold: "(\<exists>x \<in> set (evo_ranks evo m). c \<in> set (lr_caps x) \<and> lr_rank x = fst d \<and> lr_cp x = snd d)
      \<longleftrightarrow> (c, d) \<in> set m \<and> fst d < 4096" for m
  proof -
    obtain r cp where d: "d = (r, cp)" by (cases d)
    have "(c, r, cp) \<in> set (cap_triples (evo_ranks evo m)) \<longleftrightarrow>
        (\<exists>x \<in> set (evo_ranks evo m). c \<in> set (lr_caps x) \<and> lr_rank x = r \<and> lr_cp x = cp)"
      by (auto simp: cap_triples_def)
    then show ?thesis using mem [of r cp m] by (simp add: d)
  qed
  have "?L \<longleftrightarrow> (\<exists>m. gget ?best evo = Some m \<and> (c, d) \<in> set m \<and> fst d < 4096)"
  proof
    assume ?L
    then obtain x evo' m where x: "lr_evolution x = evo" "c \<in> set (lr_caps x)" "lr_rank x = fst d" "lr_cp x = snd d"
      and m: "(evo', m) \<in> set ?best" "x \<in> set (evo_ranks evo' m)"
      by (auto simp: R_def best_ranks_mem)
    from m(2) x(1) evo_ranks_triples [of evo' m] have "evo' = evo" by auto
    with m x unfold [of m] ok show "\<exists>m. gget ?best evo = Some m \<and> (c, d) \<in> set m \<and> fst d < 4096"
      by (auto simp: gmem_iff)
  next
    assume "\<exists>m. gget ?best evo = Some m \<and> (c, d) \<in> set m \<and> fst d < 4096"
    then obtain m where m: "gget ?best evo = Some m" "(c, d) \<in> set m \<and> fst d < 4096" by blast
    with unfold [of m] obtain x where "x \<in> set (evo_ranks evo m)" "c \<in> set (lr_caps x)"
      "lr_rank x = fst d" "lr_cp x = snd d" by blast
    with gget_mem [OF m(1)] evo_ranks_triples [of evo m] show ?L
      by (force simp: R_def best_ranks_mem)
  qed
  also have "\<dots> \<longleftrightarrow> ?R"
  proof (cases "gget ?best evo")
    case None
    with best_inv_fold [of caps es] show ?thesis
      by (auto simp: best_inv_def split: option.splits dest!: spec [of _ evo])
  next
    case (Some m)
    with best_inv_fold [of caps es]
    have m: "gok m \<and> (\<forall>c. gget m c = (if c \<in> set caps then Some (cap_best caps evo c es) else None))"
      by (auto simp: best_inv_def dest!: spec [of _ evo])
    have "\<exists>e \<in> set es. pe_evolution e = evo"
    proof (rule ccontr)
      assume none: "\<not> ?thesis"
      have "evo \<notin> fst ` set (foldl (best_step caps) acc es)" if "evo \<notin> fst ` set acc" for acc
        using none that
        by (induction es arbitrary: acc) (auto simp: best_step_def Let_def keys_gput)
      from this [of "[]"] Some show False using gget_in_keys [of ?best evo] by simp
    qed
    with Some m show ?thesis by (auto simp: gmem_iff split: if_splits)
  qed
  finally show ?thesis .
qed

text \<open>C6: the best rank the calculator reports for an evolution slot and a level cap is the minimal
  positive rank among the entries that count for them, with the highest CP of that rank; a cap
  is reported exactly when it is configured and some entry below rank 4096 counts for it.\<close>

theorem pvp_best_rank_exact:
  assumes "\<forall>e \<in> set es. 0 \<le> pe_cp e"
  shows "(\<exists>x \<in> set (fst (calculate_league league es caps pid cfg min_cp evo_data)).
            lr_evolution x = evo \<and> cap \<in> set (lr_caps x) \<and> lr_rank x = r \<and> lr_cp x = cp)
     \<longleftrightarrow> cap \<in> set caps \<and> r < 4096 \<and>
         (\<exists>e \<in> set es. counts_for caps evo cap e \<and> 0 < pe_rank e \<and> pe_rank e = r \<and> pe_cp e = cp) \<and>
         (\<forall>e \<in> set es. counts_for caps evo cap e \<and> 0 < pe_rank e \<longrightarrow>
            r \<le> pe_rank e \<and> (pe_rank e = r \<longrightarrow> pe_cp e \<le> cp))"
    (is "?L \<longleftrightarrow> ?R")
proof -
  define fs where "fs = filter (counts_for caps evo cap) es"
  have bo: "best_of fs (cap_best caps evo cap es)"
    unfolding cap_best_def fs_def [symmetric] by (rule better_fold) (use assms in \<open>auto simp: fs_def\<close>)
  have L: "?L \<longleftrightarrow> (\<exists>e \<in> set es. pe_evolution e = evo) \<and> cap \<in> set caps \<and> (r, cp) = cap_best caps evo cap es \<and> r < 4096"
    using league_ranks_iff [of caps es evo cap "(r, cp)"] by (simp add: calculate_league_def)
  have fs: "e \<in> set fs \<longleftrightarrow> e \<in> set es \<and> counts_for caps evo cap e" for e by (auto simp: fs_def)
  show ?thesis
  proof
    assume ?L
    with L have c: "cap_best caps evo cap es = (r, cp)" "r < 4096" "cap \<in> set caps" by auto
    with bo show ?R by (auto simp: best_of_def fs)
  next
    assume R: ?R
    then obtain e where e: "e \<in> set fs" "0 < pe_rank e" "pe_rank e = r" "pe_cp e = cp" by (auto simp: fs)
    obtain b c where bc: "cap_best caps evo cap es = (b, c)" by fastforce
    have "b \<le> r" using bo e by (auto simp: best_of_def bc)
    with R have lt: "b < 4096" by simp
    then obtain e' where e': "e' \<in> set fs" "0 < pe_rank e'" "pe_rank e' = b" "pe_cp e' = c"
      using bo by (auto simp: best_of_def bc)
    with R fs have "r \<le> b" by auto
    with \<open>b \<le> r\<close> have eq: "b = r" by simp
    have "cp \<le> c" using bo e eq lt by (auto simp: best_of_def bc)
    moreover have "c \<le> cp" using R e' eq fs by auto
    ultimately have "(r, cp) = cap_best caps evo cap es" by (simp add: bc eq)
    then show ?L unfolding L using R e fs by (auto simp: counts_for_def)
  qed
qed

definition sample_pvp_config :: pvp_config where
  "sample_pvp_config = \<lparr>pc_level_caps = [40, 50], pc_filter_max_rank = 100, pc_evolution_direct_tracking = False,
     pc_filter_great_min_cp = 0, pc_filter_ultra_min_cp = 0, pc_filter_little_min_cp = 0\<rparr>"

lemma pvp_best_rank_exact_witness:
  "\<exists>x \<in> set (fst (calculate_league 1500
      [\<lparr>pe_pokemon = 1, pe_form = 0, pe_cap = 50, pe_capped = False, pe_rank = 7, pe_cp = 1490, pe_evolution = 0\<rparr>,
       \<lparr>pe_pokemon = 1, pe_form = 0, pe_cap = 40, pe_capped = True, pe_rank = 3, pe_cp = 1480, pe_evolution = 0\<rparr>]
      [40, 50] 1 sample_pvp_config 0 [])).
     lr_evolution x = 0 \<and> 50 \<in> set (lr_caps x) \<and> lr_rank x = 3 \<and> lr_cp x = 1480"
  by (subst pvp_best_rank_exact) (auto simp: counts_for_def entry_caps_def)

text \<open>Entries of one evolution slot that name a cap: at most one.\<close>

lemma filter_caps_le_1:
  "distinct (map fst (cap_triples rs)) \<Longrightarrow> length (filter (\<lambda>x. c \<in> set (lr_caps x)) rs) \<le> 1"
proof (induction rs)
  case (Cons z rs)
  have caps: "map fst (cap_triples (z # rs)) = lr_caps z @ map fst (cap_triples rs)"
    by (simp add: cap_triples_def map_concat o_def)
  have "filter (\<lambda>x. c \<in> set (lr_caps x)) rs = []" if "c \<in> set (lr_caps z)"
    using that Cons.prems unfolding caps by (force simp: filter_empty_conv cap_triples_def)
  with Cons show ?case unfolding caps by auto
qed simp

lemma filter_best_ranks:
  "gok best \<Longrightarrow> filter (\<lambda>x. lr_evolution x = evo \<and> P x) (best_ranks best) =
     (case gget best evo of None \<Rightarrow> [] | Some m \<Rightarrow> filter P (evo_ranks evo m))"
proof (induction best)
  case (Cons a best)
  obtain e m where a: "a = (e, m)" by (cases a)
  have ev: "\<forall>x \<in> set (evo_ranks e m). lr_evolution x = e" using evo_ranks_triples by blast
  have "filter (\<lambda>x. lr_evolution x = evo \<and> P x) (evo_ranks e m) = (if e = evo then filter P (evo_ranks e m) else [])"
    using ev by (induction "evo_ranks e m") (auto intro!: filter_cong simp: filter_empty_conv)
  moreover have "best_ranks (a # best) = evo_ranks e m @ best_ranks best" by (simp add: best_ranks_def a)
  ultimately show ?case using Cons by (auto simp: a gok_Cons gget_Cons split: option.splits)
qed (simp add: best_ranks_def)

text \<open>within one evolution slot every level cap is reported at most once: merging the caps
  that share a rank and CP never duplicates a cap.\<close>

theorem pvp_caps_unique:
  "length (filter (\<lambda>x. lr_evolution x = evo \<and> caps_contain (lr_caps x) cap)
     (fst (calculate_league league es caps pid cfg min_cp evo_data))) \<le> 1"
proof -
  let ?best = "foldl (best_step caps) [] es"
  have inv: "best_inv caps es ?best" by (rule best_inv_fold)
  then have ok: "gok ?best" by (simp add: best_inv_def)
  show ?thesis
  proof (cases "gget ?best evo")
    case None
    then show ?thesis by (simp add: calculate_league_def filter_best_ranks [OF ok])
  next
    case (Some m)
    with inv have "gok m" by (auto simp: best_inv_def dest!: spec [of _ evo])
    then have "distinct (map fst (filter (\<lambda>(c, d). fst d < 4096) m))"
      by (simp add: gok_def distinct_map_filter)
    moreover have "mset (map fst (cap_triples (evo_ranks evo m))) = mset (map fst (filter (\<lambda>(c, d). fst d < 4096) m))"
      using evo_ranks_triples [of evo m] by (metis mset_map)
    ultimately have "distinct (map fst (cap_triples (evo_ranks evo m)))"
      using mset_eq_imp_distinct_iff by blast
    from filter_caps_le_1 [OF this] Some show ?thesis
      by (simp add: calculate_league_def filter_best_ranks [OF ok] caps_contain_def)
  qed
qed

section \<open>Direct evolution tracking\<close>

definition evo_qualifies :: "pvp_config \<Rightarrow> int \<Rightarrow> int \<Rightarrow> pvp_rank_entry \<Rightarrow> bool" where
  "evo_qualifies cfg league pid e \<longleftrightarrow> pc_evolution_direct_tracking cfg \<and> 0 < pe_rank e \<and> 0 < pe_cp e \<and>
     pe_pokemon e \<noteq> pid \<and> pe_rank e \<le> pc_filter_max_rank cfg \<and> min_cp_of_league cfg league \<le> pe_cp e"

definition evo_rank_of :: "int list \<Rightarrow> pvp_rank_entry \<Rightarrow> league_rank" where
  "evo_rank_of caps e = \<lparr>lr_rank = pe_rank e, lr_cp = pe_cp e, lr_caps = evo_caps caps e,
     lr_form = pe_form e, lr_evolution = pe_evolution e\<rparr>"

definition evo_lookup :: "evo_data \<Rightarrow> int \<Rightarrow> int \<Rightarrow> league_rank list" where
  "evo_lookup evo sp league = gget_or [] (gget_or [] evo sp) league"

lemma evo_lookup_fold:
  "evo_lookup (foldl (evo_step cfg league (min_cp_of_league cfg league) caps pid) evo es) sp league' =
     evo_lookup evo sp league' @
     (if league' = league
      then map (evo_rank_of caps) (filter (\<lambda>e. pe_pokemon e = sp \<and> evo_qualifies cfg league pid e) es) else [])"
  by (induction es arbitrary: evo)
    (auto simp: evo_step_def evo_qualifies_def evo_lookup_def gget_or_put gappend_def evo_rank_of_def)

lemma gok_collect_leagues: "gok (collect_leagues p)"
proof -
  have "gok m \<Longrightarrow> gok (foldl (\<lambda>m (name, es). case league_cp_of_name name of None \<Rightarrow> m
                        | Some cp \<Rightarrow> gappend cp es m) m xs)" for m and xs :: "(string, pvp_rank_entry list) gomap"
    by (induction xs arbitrary: m) (auto simp: gok_gappend split: option.split)
  then show ?thesis
    by (auto simp: collect_leagues_def Let_def gok_gappend split: option.split)
qed

lemma calculate_fold:
  fixes lm :: league_map and cfg :: pvp_config and pid :: int
  defines "stp \<equiv> (\<lambda>(br, evo) (league, data).
              let (ranks, evo') = calculate_league league data (caps_considered cfg) pid cfg
                                    (min_cp_of_league cfg league) evo
              in (gput league ranks br, evo'))"
  assumes "gok lm"
  shows "gget (fst (foldl stp (br, evo) lm)) l =
           (case gget lm l of None \<Rightarrow> gget br l
            | Some es \<Rightarrow> Some (best_ranks (foldl (best_step (caps_considered cfg)) [] es)))
       \<and> evo_lookup (snd (foldl stp (br, evo) lm)) sp l = evo_lookup evo sp l @
           map (evo_rank_of (caps_considered cfg))
             (filter (\<lambda>e. pe_pokemon e = sp \<and> evo_qualifies cfg l pid e) (gget_or [] lm l))"
  using assms(2)
proof (induction lm arbitrary: br evo)
  case (Cons a lm)
  obtain k es where a: "a = (k, es)" by (cases a)
  have ok: "gget lm k = None" "gok lm" using Cons.prems by (simp_all add: a gok_Cons)
  have stp: "stp (br, evo) (k, es) = (gput k (best_ranks (foldl (best_step (caps_considered cfg)) [] es)) br,
      foldl (evo_step cfg k (min_cp_of_league cfg k) (caps_considered cfg) pid) evo es)"
    by (simp add: stp_def calculate_league_def)
  show ?case using ok
    by (auto simp: stp Cons.IH gget_put a gget_Cons evo_lookup_fold gget_or_def split: option.split)
qed (simp add: gget_or_def)

text \<open>for every league the webhook has entries for, \<open>Calculate\<close> reports the best ranks of that
  league's merged entries, and the direct evolution data lists, per evolved species and league, exactly the
  qualifying entries of that species, in the order of the webhook.\<close>

theorem pvp_calculate_exact:
  "gget (fst (calculate pid p cfg)) league =
     map_option (\<lambda>es. fst (calculate_league league es (caps_considered cfg) pid cfg
                             (min_cp_of_league cfg league) [])) (gget (collect_leagues p) league)
   \<and> evo_lookup (snd (calculate pid p cfg)) sp league =
       map (evo_rank_of (caps_considered cfg))
         (filter (\<lambda>e. pe_pokemon e = sp \<and> evo_qualifies cfg league pid e) (gget_or [] (collect_leagues p) league))"
  using calculate_fold [OF gok_collect_leagues, of cfg pid "[]" "[]" p]
  by (auto simp: calculate_def calculate_league_def evo_lookup_def gget_or_def split: option.split)

end
