(* ===== verification/Tracking.thy ===== *)
theory Tracking
  imports Prelude Json Geofence
begin

text \<open>
  Packages \<open>db\<close> (the rows of the tracking tables, their loading and indexing) and \<open>state\<close> (the
  snapshot the matchers read). The result of a SQL query is an argument: \<open>None\<close> when the query
  fails, otherwise the rows \<open>Select\<close> fills, with the fields tagged \<open>db:"-"\<close> at their zero value.
  A nullable column is an \<open>option\<close>.
\<close>

section \<open>Humans\<close>

record user_location =
  ul_uid :: int
  ul_id :: string
  ul_label :: string
  ul_latitude :: f64
  ul_longitude :: f64

record human_row =
  hr_id :: string
  hr_name :: string
  hr_type :: string
  hr_enabled :: bool
  hr_admin_disable :: bool
  hr_area :: string
  hr_area_restriction :: "string option"
  hr_latitude :: f64
  hr_longitude :: f64
  hr_language :: "string option"
  hr_current_profile_no :: int
  hr_blocked_alerts :: "string option"

text \<open>\<open>AreaRestriction\<close> is \<open>None\<close> for the nil slice, which the matchers read as no restriction; a set
  looked up only by its members stands for \<open>BlockedAlertsSet\<close>.\<close>

record human =
  h_id :: string
  h_name :: string
  h_type :: string
  h_enabled :: bool
  h_admin_disable :: bool
  h_area :: "string list"
  h_area_restriction :: "string list option"
  h_latitude :: f64
  h_longitude :: f64
  h_language :: string
  h_current_profile_no :: int
  h_blocked_alerts :: string
  h_blocked_set :: "string set"
  h_locations :: "(string, user_location) gomap option"

type_synonym humans = "(string, human) gomap"

definition null_string :: "string option \<Rightarrow> string" where
  "null_string x = (case x of None \<Rightarrow> [] | Some s \<Rightarrow> s)"

definition normalize_language :: "string \<Rightarrow> string" where
  "normalize_language lang = (if lang = ''se'' then ''sv'' else lang)"

definition parse_blocked_alerts :: "string \<Rightarrow> string set" where
  "parse_blocked_alerts txt =
     (if txt = [] then {}
      else case unmarshal_strings txt of
             (Some alerts, True) \<Rightarrow> to_lower ` set alerts
           | _ \<Rightarrow> {})"

definition parse_and_normalize_areas :: "string \<Rightarrow> string list option" where
  "parse_and_normalize_areas txt =
     (case unmarshal_strings txt of
        (areas, True) \<Rightarrow> map_option (map normalize_area) areas
      | _ \<Rightarrow> None)"

definition set_blocked_alerts :: "string \<Rightarrow> human \<Rightarrow> human" where
  "set_blocked_alerts txt h = h\<lparr>h_blocked_alerts := txt, h_blocked_set := parse_blocked_alerts txt\<rparr>"

definition slice_of :: "'a list option \<Rightarrow> 'a list" where
  "slice_of x = (case x of None \<Rightarrow> [] | Some xs \<Rightarrow> xs)"

definition human_of_row :: "human_row \<Rightarrow> human" where
  "human_of_row r = \<lparr>h_id = hr_id r, h_name = hr_name r, h_type = hr_type r, h_enabled = hr_enabled r,
     h_admin_disable = hr_admin_disable r, h_area = slice_of (parse_and_normalize_areas (hr_area r)),
     h_area_restriction = (case hr_area_restriction r of None \<Rightarrow> None | Some s \<Rightarrow> parse_and_normalize_areas s),
     h_latitude = hr_latitude r, h_longitude = hr_longitude r,
     h_language = normalize_language (null_string (hr_language r)),
     h_current_profile_no = hr_current_profile_no r,
     h_blocked_alerts = null_string (hr_blocked_alerts r),
     h_blocked_set = parse_blocked_alerts (null_string (hr_blocked_alerts r)), h_locations = None\<rparr>"

definition load_humans :: "human_row list option \<Rightarrow> humans option" where
  "load_humans q = map_option (\<lambda>rows. foldl (\<lambda>m r. gput (hr_id r) (human_of_row r) m) [] rows) q"

definition load_user_locations ::
    "user_location list option \<Rightarrow> (string, (string, user_location) gomap) gomap option" where
  "load_user_locations q = map_option (\<lambda>rows. foldl (\<lambda>out r.
      gput (ul_id r) (gput (to_lower (ul_label r)) r (gget_or [] out (ul_id r))) out) [] rows) q"

text \<open>The loop of \<open>Load\<close> that attaches the saved locations to the humans.\<close>

definition attach_locations ::
    "(string, (string, user_location) gomap) gomap \<Rightarrow> humans \<Rightarrow> humans" where
  "attach_locations locs hs = map (\<lambda>(i, h). (i,
     case gget locs i of None \<Rightarrow> h | Some m \<Rightarrow> h\<lparr>h_locations := Some m\<rparr>)) hs"

section \<open>Tracking rules\<close>

record monster_tracking =
  mt_uid :: int
  mt_id :: string
  mt_profile_no :: int
  mt_pokemon_id :: int
  mt_form :: int
  mt_costume :: int
  mt_distance :: int
  mt_min_iv :: int
  mt_max_iv :: int
  mt_min_cp :: int
  mt_max_cp :: int
  mt_min_level :: int
  mt_max_level :: int
  mt_atk :: int
  mt_def :: int
  mt_sta :: int
  mt_max_atk :: int
  mt_max_def :: int
  mt_max_sta :: int
  mt_gender :: int
  mt_min_weight :: int
  mt_max_weight :: int
  mt_min_time :: int
  mt_rarity :: int
  mt_max_rarity :: int
  mt_size :: int
  mt_max_size :: int
  mt_template :: string
  mt_clean :: int
  mt_ping :: string
  mt_pvp_ranking_league :: int
  mt_pvp_ranking_best :: int
  mt_pvp_ranking_worst :: int
  mt_pvp_ranking_min_cp :: int
  mt_pvp_ranking_cap :: int
  mt_pvp_ranking_evolution :: int
  mt_override_location_label :: string
  mt_override_areas_raw :: string
  mt_override_areas :: "string list"

record raid_tracking =
  rt_uid :: int
  rt_id :: string
  rt_profile_no :: int
  rt_pokemon_id :: int
  rt_level :: int
  rt_team :: int
  rt_exclusive :: bool
  rt_form :: int
  rt_costume :: int
  rt_evolution :: int
  rt_move :: int
  rt_gym_id :: "string option"
  rt_distance :: int
  rt_template :: string
  rt_clean :: int
  rt_ping :: string
  rt_rsvp_changes :: int
  rt_override_location_label :: string
  rt_override_areas_raw :: string
  rt_override_areas :: "string list"

record egg_tracking =
  et_uid :: int
  et_id :: string
  et_profile_no :: int
  et_level :: int
  et_team :: int
  et_exclusive :: bool
  et_gym_id :: "string option"
  et_distance :: int
  et_template :: string
  et_clean :: int
  et_ping :: string
  et_rsvp_changes :: int
  et_override_location_label :: string
  et_override_areas_raw :: string
  et_override_areas :: "string list"

record gym_tracking =
  gt_uid :: int
  gt_id :: string
  gt_profile_no :: int
  gt_ping :: string
  gt_clean :: int
  gt_distance :: int
  gt_template :: string
  gt_team :: int
  gt_slot_changes :: bool
  gt_gym_id :: "string option"
  gt_battle_changes :: bool
  gt_override_location_label :: string
  gt_override_areas_raw :: string
  gt_override_areas :: "string list"

record quest_tracking =
  qt_uid :: int
  qt_id :: string
  qt_profile_no :: int
  qt_ping :: string
  qt_clean :: int
  qt_reward :: int
  qt_template :: string
  qt_shiny :: bool
  qt_reward_type :: int
  qt_distance :: int
  qt_form :: int
  qt_amount :: int
  qt_override_location_label :: string
  qt_override_areas_raw :: string
  qt_override_areas :: "string list"

record maxbattle_tracking =
  xt_uid :: int
  xt_id :: string
  xt_profile_no :: int
  xt_pokemon_id :: int
  xt_gmax :: int
  xt_level :: int
  xt_form :: int
  xt_move :: int
  xt_evolution :: int
  xt_distance :: int
  xt_station_id :: "string option"
  xt_ping :: string
  xt_clean :: int
  xt_template :: string
  xt_override_location_label :: string
  xt_override_areas_raw :: string
  xt_override_areas :: "string list"

record fort_tracking =
  ft_uid :: int
  ft_id :: string
  ft_profile_no :: int
  ft_ping :: string
  ft_distance :: int
  ft_template :: string
  ft_fort_type :: string
  ft_include_empty :: bool
  ft_change_types :: string
  ft_override_location_label :: string
  ft_override_areas_raw :: string
  ft_override_areas :: "string list"

record invasion_tracking =
  it_uid :: int
  it_id :: string
  it_profile_no :: int
  it_ping :: string
  it_clean :: int
  it_distance :: int
  it_template :: string
  it_gender :: int
  it_grunt_type :: string
  it_override_location_label :: string
  it_override_areas_raw :: string
  it_override_areas :: "string list"

record lure_tracking =
  lt_uid :: int
  lt_id :: string
  lt_profile_no :: int
  lt_ping :: string
  lt_clean :: int
  lt_distance :: int
  lt_template :: string
  lt_lure_id :: int
  lt_override_location_label :: string
  lt_override_areas_raw :: string
  lt_override_areas :: "string list"

record nest_tracking =
  nt_uid :: int
  nt_id :: string
  nt_profile_no :: int
  nt_ping :: string
  nt_clean :: int
  nt_distance :: int
  nt_template :: string
  nt_pokemon_id :: int
  nt_min_spawn_avg :: int
  nt_form :: int
  nt_override_location_label :: string
  nt_override_areas_raw :: string
  nt_override_areas :: "string list"

text \<open>The clean flag is a bit mask.\<close>

unbundle bit_operations_syntax

definition is_clean :: "int \<Rightarrow> bool" where "is_clean c \<longleftrightarrow> c AND 1 \<noteq> 0"
definition is_edit :: "int \<Rightarrow> bool" where "is_edit c \<longleftrightarrow> c AND 2 \<noteq> 0"
definition is_summary :: "int \<Rightarrow> bool" where "is_summary c \<longleftrightarrow> c AND 4 \<noteq> 0"

section \<open>Loading the rules\<close>

text \<open>\<open>json.Unmarshal\<close> of the raw column into \<open>OverrideAreas\<close>, its error ignored.\<close>

definition override_areas :: "string \<Rightarrow> string list \<Rightarrow> string list" where
  "override_areas raw old = (if raw = [] then old else slice_of (fst (unmarshal_strings raw)))"

definition normalise_invasion_grunt_type :: "string \<Rightarrow> string" where
  "normalise_invasion_grunt_type s = (if equal_fold s ''metal'' then ''steel'' else s)"

definition load_raids :: "raid_tracking list option \<Rightarrow> raid_tracking list option" where
  "load_raids = map_option (map (\<lambda>r.
     r\<lparr>rt_override_areas := override_areas (rt_override_areas_raw r) (rt_override_areas r)\<rparr>))"

definition load_eggs :: "egg_tracking list option \<Rightarrow> egg_tracking list option" where
  "load_eggs = map_option (map (\<lambda>r.
     r\<lparr>et_override_areas := override_areas (et_override_areas_raw r) (et_override_areas r)\<rparr>))"

definition load_gyms :: "gym_tracking list option \<Rightarrow> gym_tracking list option" where
  "load_gyms = map_option (map (\<lambda>r.
     r\<lparr>gt_override_areas := override_areas (gt_override_areas_raw r) (gt_override_areas r)\<rparr>))"

definition load_quests :: "quest_tracking list option \<Rightarrow> quest_tracking list option" where
  "load_quests = map_option (map (\<lambda>r.
     r\<lparr>qt_override_areas := override_areas (qt_override_areas_raw r) (qt_override_areas r)\<rparr>))"

definition load_maxbattles :: "maxbattle_tracking list option \<Rightarrow> maxbattle_tracking list option" where
  "load_maxbattles = map_option (map (\<lambda>r.
     r\<lparr>xt_override_areas := override_areas (xt_override_areas_raw r) (xt_override_areas r)\<rparr>))"

definition load_forts :: "fort_tracking list option \<Rightarrow> fort_tracking list option" where
  "load_forts = map_option (map (\<lambda>r.
     r\<lparr>ft_override_areas := override_areas (ft_override_areas_raw r) (ft_override_areas r)\<rparr>))"

definition load_invasions :: "invasion_tracking list option \<Rightarrow> invasion_tracking list option" where
  "load_invasions = map_option (map (\<lambda>r.
     r\<lparr>it_grunt_type := normalise_invasion_grunt_type (it_grunt_type r),
       it_override_areas := override_areas (it_override_areas_raw r) (it_override_areas r)\<rparr>))"

definition load_lures :: "lure_tracking list option \<Rightarrow> lure_tracking list option" where
  "load_lures = map_option (map (\<lambda>r.
     r\<lparr>lt_override_areas := override_areas (lt_override_areas_raw r) (lt_override_areas r)\<rparr>))"

definition load_nests :: "nest_tracking list option \<Rightarrow> nest_tracking list option" where
  "load_nests = map_option (map (\<lambda>r.
     r\<lparr>nt_override_areas := override_areas (nt_override_areas_raw r) (nt_override_areas r)\<rparr>))"

section \<open>The monster index\<close>

text \<open>Pointers into the rule slice are the rules: nothing the matcher does changes a rule.\<close>

record monster_index =
  mi_by_pokemon_id :: "(int, monster_tracking list) gomap"
  mi_pvp_specific :: "(int, monster_tracking list) gomap"
  mi_pvp_everything :: "(int, monster_tracking list) gomap"
  mi_total :: int

definition index_leagues :: "int list" where "index_leagues = [500, 1500, 2500]"

definition empty_index :: monster_index where
  "empty_index = (let m = foldl (\<lambda>m l. gput l [] m) [] index_leagues
     in \<lparr>mi_by_pokemon_id = [], mi_pvp_specific = m, mi_pvp_everything = m, mi_total = 0\<rparr>)"

definition index_rule :: "monster_index \<Rightarrow> monster_tracking \<Rightarrow> monster_index" where
  "index_rule idx m =
     (if mt_pvp_ranking_league m \<noteq> 0
      then if mt_pokemon_id m \<noteq> 0
           then idx\<lparr>mi_pvp_specific := gappend (mt_pvp_ranking_league m) [m] (mi_pvp_specific idx)\<rparr>
           else idx\<lparr>mi_pvp_everything := gappend (mt_pvp_ranking_league m) [m] (mi_pvp_everything idx)\<rparr>
      else idx\<lparr>mi_by_pokemon_id := gappend (mt_pokemon_id m) [m] (mi_by_pokemon_id idx)\<rparr>)"

definition build_monster_index :: "monster_tracking list \<Rightarrow> monster_index" where
  "build_monster_index ms = (foldl index_rule empty_index ms)\<lparr>mi_total := int (length ms)\<rparr>"

definition load_monsters :: "monster_tracking list option \<Rightarrow> monster_index option" where
  "load_monsters = map_option (\<lambda>ms. build_monster_index (map (\<lambda>m.
     m\<lparr>mt_override_areas := override_areas (mt_override_areas_raw m) (mt_override_areas m)\<rparr>) ms))"

definition filter_monsters :: "humans \<Rightarrow> monster_tracking list \<Rightarrow> monster_tracking list" where
  "filter_monsters hs ms = filter (\<lambda>m. gget hs (mt_id m) \<noteq> None) ms"

definition bucket_total :: "('k, 'a list) gomap \<Rightarrow> int" where
  "bucket_total m = (\<Sum>x\<leftarrow>m. int (length (snd x)))"

definition filter_orphans :: "humans \<Rightarrow> monster_index \<Rightarrow> monster_index" where
  "filter_orphans hs idx =
     (let b = gmapv (filter_monsters hs) (mi_by_pokemon_id idx);
          s = gmapv (filter_monsters hs) (mi_pvp_specific idx);
          e = gmapv (filter_monsters hs) (mi_pvp_everything idx)
      in \<lparr>mi_by_pokemon_id = b, mi_pvp_specific = s, mi_pvp_everything = e,
          mi_total = bucket_total b + bucket_total s + bucket_total e\<rparr>)"

text \<open>\<open>filterSlice\<close>, with the \<open>GetID\<close> of the tracking type.\<close>

definition filter_slice :: "('a \<Rightarrow> string) \<Rightarrow> humans \<Rightarrow> 'a list \<Rightarrow> 'a list" where
  "filter_slice get_id hs items = filter (\<lambda>x. gget hs (get_id x) \<noteq> None) items"

section \<open>Everything\<close>

record all_data =
  ad_humans :: humans
  ad_monsters :: monster_index
  ad_raids :: "raid_tracking list"
  ad_eggs :: "egg_tracking list"
  ad_invasions :: "invasion_tracking list"
  ad_quests :: "quest_tracking list"
  ad_lures :: "lure_tracking list"
  ad_gyms :: "gym_tracking list"
  ad_nests :: "nest_tracking list"
  ad_forts :: "fort_tracking list"
  ad_maxbattles :: "maxbattle_tracking list"

text \<open>The queries of one load, each with its result.\<close>

record db_result =
  q_humans :: "human_row list option"
  q_monsters :: "monster_tracking list option"
  q_raids :: "raid_tracking list option"
  q_eggs :: "egg_tracking list option"
  q_invasions :: "invasion_tracking list option"
  q_quests :: "quest_tracking list option"
  q_lures :: "lure_tracking list option"
  q_gyms :: "gym_tracking list option"
  q_nests :: "nest_tracking list option"
  q_forts :: "fort_tracking list option"
  q_maxbattles :: "maxbattle_tracking list option"
  q_user_locations :: "user_location list option"

text \<open>\<open>LoadAll\<close>, without the profiles (which no matcher reads): the first failing query ends it.\<close>

definition load_all :: "db_result \<Rightarrow> all_data option" where
  "load_all q =
     Option.bind (load_humans (q_humans q)) (\<lambda>hs.
     Option.bind (load_monsters (q_monsters q)) (\<lambda>ms.
     Option.bind (load_raids (q_raids q)) (\<lambda>raids.
     Option.bind (load_eggs (q_eggs q)) (\<lambda>eggs.
     Option.bind (load_invasions (q_invasions q)) (\<lambda>invasions.
     Option.bind (load_quests (q_quests q)) (\<lambda>quests.
     Option.bind (load_lures (q_lures q)) (\<lambda>lures.
     Option.bind (load_gyms (q_gyms q)) (\<lambda>gyms.
     Option.bind (load_nests (q_nests q)) (\<lambda>nests.
     Option.bind (load_forts (q_forts q)) (\<lambda>forts.
     Option.bind (load_maxbattles (q_maxbattles q)) (\<lambda>maxbattles.
     Some \<lparr>ad_humans = hs, ad_monsters = filter_orphans hs ms,
       ad_raids = filter_slice rt_id hs raids, ad_eggs = filter_slice et_id hs eggs,
       ad_invasions = filter_slice it_id hs invasions, ad_quests = filter_slice qt_id hs quests,
       ad_lures = filter_slice lt_id hs lures, ad_gyms = filter_slice gt_id hs gyms,
       ad_nests = filter_slice nt_id hs nests, ad_forts = filter_slice ft_id hs forts,
       ad_maxbattles = filter_slice xt_id hs maxbattles\<rparr>)))))))))))"

text \<open>The snapshot: what the matchers read of it. \<open>st_monsters\<close> is \<open>None\<close> for a nil index.\<close>

record state =
  st_humans :: humans
  st_monsters :: "monster_index option"
  st_raids :: "raid_tracking list"
  st_eggs :: "egg_tracking list"
  st_invasions :: "invasion_tracking list"
  st_quests :: "quest_tracking list"
  st_lures :: "lure_tracking list"
  st_gyms :: "gym_tracking list"
  st_nests :: "nest_tracking list"
  st_forts :: "fort_tracking list"
  st_maxbattles :: "maxbattle_tracking list"
  st_geofence :: spatial_index
  st_fences :: "fence list"

text \<open>The manager holds the current snapshot (\<open>None\<close> before the first); \<open>Load\<close> replaces it as a
  whole, or leaves it when a query fails, and keeps the geofences of the previous one.\<close>

type_synonym manager = "state option"

definition state_of :: "all_data \<Rightarrow> humans \<Rightarrow> spatial_index \<Rightarrow> fence list \<Rightarrow> state" where
  "state_of d hs spatial fences =
     \<lparr>st_humans = hs, st_monsters = Some (ad_monsters d), st_raids = ad_raids d, st_eggs = ad_eggs d,
      st_invasions = ad_invasions d, st_quests = ad_quests d, st_lures = ad_lures d,
      st_gyms = ad_gyms d, st_nests = ad_nests d, st_forts = ad_forts d,
      st_maxbattles = ad_maxbattles d, st_geofence = spatial, st_fences = fences\<rparr>"

definition load :: "db_result \<Rightarrow> manager \<Rightarrow> manager \<times> bool" where
  "load q mgr =
     (case load_all q of None \<Rightarrow> (mgr, False)
      | Some d \<Rightarrow>
          (case load_user_locations (q_user_locations q) of None \<Rightarrow> (mgr, False)
           | Some locs \<Rightarrow>
               (let (spatial, fences) = (case mgr of None \<Rightarrow> (None, [])
                                         | Some prev \<Rightarrow> (st_geofence prev, st_fences prev))
                in (Some (state_of d (attach_locations locs (ad_humans d)) spatial fences), True))))"

text \<open>\<open>LoadWithGeofences\<close>, with the result of \<open>LoadAllGeofences\<close>.\<close>

definition load_with_geofences ::
    "(spatial_index \<times> fence list) option \<Rightarrow> db_result \<Rightarrow> manager \<Rightarrow> manager \<times> bool" where
  "load_with_geofences geo q mgr =
     (case load_all q of None \<Rightarrow> (mgr, False)
      | Some d \<Rightarrow>
          (case load_user_locations (q_user_locations q) of None \<Rightarrow> (mgr, False)
           | Some locs \<Rightarrow>
               (case geo of None \<Rightarrow> (mgr, False)
                | Some (spatial, fences) \<Rightarrow>
                    (Some (state_of d (attach_locations locs (ad_humans d)) spatial fences), True))))"

section \<open>Properties of the index\<close>

definition index_inv :: "monster_tracking list \<Rightarrow> monster_index \<Rightarrow> bool" where
  "index_inv ms idx \<longleftrightarrow> gok (mi_by_pokemon_id idx) \<and> gok (mi_pvp_specific idx) \<and> gok (mi_pvp_everything idx)
   \<and> (\<forall>k. gget_or [] (mi_by_pokemon_id idx) k = filter (\<lambda>m. mt_pvp_ranking_league m = 0 \<and> mt_pokemon_id m = k) ms)
   \<and> (\<forall>l. gget_or [] (mi_pvp_specific idx) l =
        filter (\<lambda>m. mt_pvp_ranking_league m \<noteq> 0 \<and> mt_pvp_ranking_league m = l \<and> mt_pokemon_id m \<noteq> 0) ms)
   \<and> (\<forall>l. gget_or [] (mi_pvp_everything idx) l =
        filter (\<lambda>m. mt_pvp_ranking_league m \<noteq> 0 \<and> mt_pvp_ranking_league m = l \<and> mt_pokemon_id m = 0) ms)"

lemma index_inv_rule: "index_inv ms idx \<Longrightarrow> index_inv (ms @ [m]) (index_rule idx m)"
  by (auto simp: index_inv_def index_rule_def gget_or_gappend intro: gok_intros)

lemma index_inv_build: "index_inv ms (build_monster_index ms)"
proof -
  have "index_inv ms (foldl index_rule empty_index ms)"
  proof (induction ms rule: rev_induct)
    case Nil
    show ?case
      by (auto simp: index_inv_def empty_index_def Let_def index_leagues_def gget_or_put intro!: gok_intros)
  next
    case (snoc m ms)
    then show ?case by (simp add: index_inv_rule)
  qed
  then show ?thesis by (simp add: build_monster_index_def index_inv_def)
qed

text \<open>the monster index partitions the rules: the bucket of a pokemon id holds, in table
  order, exactly the rules for it without a PVP league, the buckets of a league exactly its rules with and
  without a pokemon id, and the total counts every rule.\<close>

theorem monster_index_exact:
  "gget_or [] (mi_by_pokemon_id (build_monster_index ms)) k =
     filter (\<lambda>m. mt_pvp_ranking_league m = 0 \<and> mt_pokemon_id m = k) ms \<and>
   gget_or [] (mi_pvp_specific (build_monster_index ms)) l =
     filter (\<lambda>m. mt_pvp_ranking_league m \<noteq> 0 \<and> mt_pvp_ranking_league m = l \<and> mt_pokemon_id m \<noteq> 0) ms \<and>
   gget_or [] (mi_pvp_everything (build_monster_index ms)) l =
     filter (\<lambda>m. mt_pvp_ranking_league m \<noteq> 0 \<and> mt_pvp_ranking_league m = l \<and> mt_pokemon_id m = 0) ms \<and>
   mi_total (build_monster_index ms) = int (length ms)"
  using index_inv_build [of ms] by (simp add: index_inv_def build_monster_index_def)

end
