(* ===== verification/Validate.thy ===== *)
theory Validate
  imports Tracking GeoMath
begin

text \<open>
  The human side of package \<open>matching\<close> (\<open>generic.go\<close>, \<open>human.go\<close>, the validator of \<open>gym.go\<close>): which
  of the rules that matched an event become alerts, and for whom. Each loop is a function over the rule list
  that carries the set of human ids already served; the guards of its body, in the order of the
  code, are the \<open>accepts\<close> function of the loop. The lazily cached distance is
  the distance: it depends only on the anchor.
\<close>

section \<open>Data\<close>

record web_area =
  wa_name :: string
  wa_display_in_matches :: bool
  wa_group :: string

definition convert_areas :: "matched_area list \<Rightarrow> web_area list" where
  "convert_areas areas = map (\<lambda>a. \<lparr>wa_name = ma_name a, wa_display_in_matches = ma_display_in_matches a,
     wa_group = ma_group a\<rparr>) areas"

text \<open>\<open>webhook.MatchedUser\<close>, without the two fields only the weather handler sets.\<close>

record matched_user =
  mu_id :: string
  mu_name :: string
  mu_type :: string
  mu_language :: string
  mu_latitude :: f64
  mu_longitude :: f64
  mu_template :: string
  mu_distance :: int
  mu_clean :: int
  mu_ping :: string
  mu_bearing :: int
  mu_cardinal_direction :: string
  mu_track_distance :: int
  mu_pokemon_id :: int
  mu_pvp_ranking_cap :: int
  mu_pvp_ranking_league :: int
  mu_pvp_ranking_worst :: int
  mu_rsvp_changes :: int
  mu_rule_uid :: int

record tracking_user_data =
  td_human_id :: string
  td_profile_no :: int
  td_distance :: int
  td_template :: string
  td_clean :: int
  td_ping :: string
  td_uid :: int
  td_is_specific_match :: bool
  td_override_location_label :: string
  td_override_areas :: "string list"

record raid_user_data =
  rd_human_id :: string
  rd_profile_no :: int
  rd_distance :: int
  rd_template :: string
  rd_clean :: int
  rd_ping :: string
  rd_rsvp_changes :: int
  rd_uid :: int
  rd_is_specific_match :: bool
  rd_override_location_label :: string
  rd_override_areas :: "string list"

text \<open>What every validator is given of the event: its position, the names of the areas around it,
  and whether area restrictions are enforced.\<close>

record event_ctx =
  ec_lat :: f64
  ec_lon :: f64
  ec_areas :: "string set"
  ec_strict :: bool

text \<open>The prologue every matcher runs: the areas around the event, and what the validators need.\<close>

definition event_at ::
    "rtree_search \<Rightarrow> state \<Rightarrow> bool \<Rightarrow> f64 \<Rightarrow> f64 \<Rightarrow> matched_area list \<times> event_ctx" where
  "event_at search st strict lat lon =
     (let (areas, names) = point_areas_and_names search (st_geofence st) lat lon
      in (areas, \<lparr>ec_lat = lat, ec_lon = lon, ec_areas = names, ec_strict = strict\<rparr>))"

section \<open>The guards\<close>

fun area_overlap :: "string list \<Rightarrow> string set \<Rightarrow> bool" where
  "area_overlap [] matched = False"
| "area_overlap (a # as) matched = (if a \<in> matched then True else area_overlap as matched)"

definition resolve_override :: "string \<Rightarrow> string list \<Rightarrow> human \<Rightarrow> f64 \<times> f64 \<times> string list" where
  "resolve_override label rule_areas h =
     (let (lat, lon) = (case h_locations h of
            None \<Rightarrow> (h_latitude h, h_longitude h)
          | Some locs \<Rightarrow>
              if label = [] then (h_latitude h, h_longitude h)
              else (case gget locs (to_lower label) of
                      None \<Rightarrow> (h_latitude h, h_longitude h)
                    | Some l \<Rightarrow> (ul_latitude l, ul_longitude l)))
      in (lat, lon, if rule_areas \<noteq> [] then rule_areas else h_area h))"

text \<open>The distance or area test: a rule with a distance uses the distance, another the areas.\<close>

definition near :: "event_ctx \<Rightarrow> string \<Rightarrow> string list \<Rightarrow> int \<Rightarrow> human \<Rightarrow> bool" where
  "near ev label areas max_dist h =
     (let (lat, lon, eff) = resolve_override label areas h
      in if max_dist > 0 then \<not> haversine_distance lat lon (ec_lat ev) (ec_lon ev) > max_dist
         else area_overlap eff (ec_areas ev))"

definition strict_rejects :: "event_ctx \<Rightarrow> human \<Rightarrow> bool" where
  "strict_rejects ev h \<longleftrightarrow> ec_strict ev \<and>
     (case h_area_restriction h of None \<Rightarrow> False | Some areas \<Rightarrow> \<not> area_overlap areas (ec_areas ev))"

section \<open>\<open>ValidateHumansGeneric\<close>\<close>

definition generic_accepts ::
    "event_ctx \<Rightarrow> humans \<Rightarrow> string \<Rightarrow> tracking_user_data \<Rightarrow> human option" where
  "generic_accepts ev hs blocked td =
     (case gget hs (td_human_id td) of None \<Rightarrow> None
      | Some h \<Rightarrow>
          if \<not> h_enabled h \<or> h_admin_disable h then None
          else if blocked \<in> h_blocked_set h then None
          else if td_profile_no td \<noteq> h_current_profile_no h then None
          else let (lat, lon, eff) = resolve_override (td_override_location_label td) (td_override_areas td) h
               in if td_distance td > 0 \<and> haversine_distance lat lon (ec_lat ev) (ec_lon ev) > td_distance td then None
                  else if \<not> td_distance td > 0 \<and> \<not> td_is_specific_match td \<and> \<not> area_overlap eff (ec_areas ev) then None
                  else if strict_rejects ev h then None
                  else Some h)"

definition generic_user :: "event_ctx \<Rightarrow> tracking_user_data \<Rightarrow> human \<Rightarrow> matched_user" where
  "generic_user ev td h =
     (let (lat, lon, _) = resolve_override (td_override_location_label td) (td_override_areas td) h;
          brng = bearing lat lon (ec_lat ev) (ec_lon ev)
      in \<lparr>mu_id = h_id h, mu_name = h_name h, mu_type = h_type h, mu_language = h_language h,
          mu_latitude = lat, mu_longitude = lon, mu_template = td_template td,
          mu_distance = haversine_distance lat lon (ec_lat ev) (ec_lon ev), mu_clean = td_clean td,
          mu_ping = td_ping td, mu_bearing = math_round brng,
          mu_cardinal_direction = cardinal_direction brng, mu_track_distance = td_distance td,
          mu_pokemon_id = 0, mu_pvp_ranking_cap = 0, mu_pvp_ranking_league = 0,
          mu_pvp_ranking_worst = 0, mu_rsvp_changes = 0, mu_rule_uid = td_uid td\<rparr>)"

fun generic_loop ::
    "event_ctx \<Rightarrow> humans \<Rightarrow> string \<Rightarrow> string set \<Rightarrow> tracking_user_data list \<Rightarrow> matched_user list" where
  "generic_loop ev hs blocked seen [] = []"
| "generic_loop ev hs blocked seen (td # tds) =
     (case generic_accepts ev hs blocked td of
        None \<Rightarrow> generic_loop ev hs blocked seen tds
      | Some h \<Rightarrow>
          if h_id h \<in> seen then generic_loop ev hs blocked seen tds
          else generic_user ev td h # generic_loop ev hs blocked (insert (h_id h) seen) tds)"

definition validate_humans_generic ::
    "event_ctx \<Rightarrow> humans \<Rightarrow> string \<Rightarrow> tracking_user_data list \<Rightarrow> matched_user list" where
  "validate_humans_generic ev hs blocked tds = generic_loop ev hs blocked {} tds"

section \<open>\<open>ValidateHumansForRaid\<close>\<close>

definition raid_accepts ::
    "event_ctx \<Rightarrow> humans \<Rightarrow> string \<Rightarrow> raid_user_data \<Rightarrow> human option" where
  "raid_accepts ev hs blocked td =
     (case gget hs (rd_human_id td) of None \<Rightarrow> None
      | Some h \<Rightarrow>
          if \<not> h_enabled h \<or> h_admin_disable h then None
          else if blocked \<in> h_blocked_set h then None
          else if rd_profile_no td \<noteq> h_current_profile_no h then None
          else if rd_is_specific_match td \<and> ''specificgym'' \<in> h_blocked_set h then None
          else if \<not> rd_is_specific_match td \<and>
                  \<not> near ev (rd_override_location_label td) (rd_override_areas td) (rd_distance td) h then None
          else if strict_rejects ev h then None
          else Some h)"

definition raid_user :: "event_ctx \<Rightarrow> raid_user_data \<Rightarrow> human \<Rightarrow> matched_user" where
  "raid_user ev td h =
     (let (lat, lon, _) = resolve_override (rd_override_location_label td) (rd_override_areas td) h;
          brng = bearing lat lon (ec_lat ev) (ec_lon ev)
      in \<lparr>mu_id = h_id h, mu_name = h_name h, mu_type = h_type h, mu_language = h_language h,
          mu_latitude = lat, mu_longitude = lon, mu_template = rd_template td,
          mu_distance = haversine_distance lat lon (ec_lat ev) (ec_lon ev), mu_clean = rd_clean td,
          mu_ping = rd_ping td, mu_bearing = math_round brng,
          mu_cardinal_direction = cardinal_direction brng, mu_track_distance = rd_distance td,
          mu_pokemon_id = 0, mu_pvp_ranking_cap = 0, mu_pvp_ranking_league = 0,
          mu_pvp_ranking_worst = 0, mu_rsvp_changes = rd_rsvp_changes td, mu_rule_uid = rd_uid td\<rparr>)"

fun raid_loop ::
    "event_ctx \<Rightarrow> humans \<Rightarrow> string \<Rightarrow> string set \<Rightarrow> raid_user_data list \<Rightarrow> matched_user list" where
  "raid_loop ev hs blocked seen [] = []"
| "raid_loop ev hs blocked seen (td # tds) =
     (case raid_accepts ev hs blocked td of
        None \<Rightarrow> raid_loop ev hs blocked seen tds
      | Some h \<Rightarrow>
          if h_id h \<in> seen then raid_loop ev hs blocked seen tds
          else raid_user ev td h # raid_loop ev hs blocked (insert (h_id h) seen) tds)"

definition validate_humans_for_raid ::
    "event_ctx \<Rightarrow> humans \<Rightarrow> string \<Rightarrow> raid_user_data list \<Rightarrow> matched_user list" where
  "validate_humans_for_raid ev hs blocked tds = raid_loop ev hs blocked {} tds"

section \<open>\<open>validateHumansForGym\<close>\<close>

definition gym_accepts :: "event_ctx \<Rightarrow> humans \<Rightarrow> tracking_user_data \<Rightarrow> human option" where
  "gym_accepts ev hs td =
     (case gget hs (td_human_id td) of None \<Rightarrow> None
      | Some h \<Rightarrow>
          if \<not> h_enabled h \<or> h_admin_disable h then None
          else if ''gym'' \<in> h_blocked_set h then None
          else if td_profile_no td \<noteq> h_current_profile_no h then None
          else if td_is_specific_match td \<and> ''specificgym'' \<in> h_blocked_set h then None
          else if \<not> td_is_specific_match td \<and>
                  \<not> near ev (td_override_location_label td) (td_override_areas td) (td_distance td) h then None
          else if strict_rejects ev h then None
          else Some h)"

fun gym_loop ::
    "event_ctx \<Rightarrow> humans \<Rightarrow> string set \<Rightarrow> tracking_user_data list \<Rightarrow> matched_user list" where
  "gym_loop ev hs seen [] = []"
| "gym_loop ev hs seen (td # tds) =
     (case gym_accepts ev hs td of
        None \<Rightarrow> gym_loop ev hs seen tds
      | Some h \<Rightarrow>
          if h_id h \<in> seen then gym_loop ev hs seen tds
          else generic_user ev td h # gym_loop ev hs (insert (h_id h) seen) tds)"

definition validate_humans_for_gym ::
    "event_ctx \<Rightarrow> humans \<Rightarrow> tracking_user_data list \<Rightarrow> matched_user list" where
  "validate_humans_for_gym ev hs tds = gym_loop ev hs {} tds"

section \<open>\<open>ValidateHumans\<close> (monster rules)\<close>

text \<open>The humans of the rules that may be alerted at all.\<close>

definition valid_humans :: "humans \<Rightarrow> monster_tracking list \<Rightarrow> string \<Rightarrow> human option" where
  "valid_humans hs ms i =
     (if i \<notin> mt_id ` set ms then None
      else case gget hs i of None \<Rightarrow> None
           | Some h \<Rightarrow> if \<not> h_enabled h \<or> h_admin_disable h then None
                      else if ''monster'' \<in> h_blocked_set h then None else Some h)"

definition monster_accepts ::
    "event_ctx \<Rightarrow> (string \<Rightarrow> human option) \<Rightarrow> monster_tracking \<Rightarrow> human option" where
  "monster_accepts ev valid m =
     (case valid (mt_id m) of None \<Rightarrow> None
      | Some h \<Rightarrow>
          if mt_profile_no m \<noteq> h_current_profile_no h then None
          else if mt_pvp_ranking_league m \<noteq> 0 \<and> ''pvp'' \<in> h_blocked_set h then None
          else if \<not> near ev (mt_override_location_label m) (mt_override_areas m) (mt_distance m) h then None
          else if strict_rejects ev h then None
          else Some h)"

definition monster_user :: "event_ctx \<Rightarrow> monster_tracking \<Rightarrow> human \<Rightarrow> matched_user" where
  "monster_user ev m h =
     (let (lat, lon, _) = resolve_override (mt_override_location_label m) (mt_override_areas m) h;
          brng = bearing lat lon (ec_lat ev) (ec_lon ev)
      in \<lparr>mu_id = h_id h, mu_name = h_name h, mu_type = h_type h, mu_language = h_language h,
          mu_latitude = lat, mu_longitude = lon, mu_template = mt_template m,
          mu_distance = haversine_distance lat lon (ec_lat ev) (ec_lon ev), mu_clean = mt_clean m,
          mu_ping = mt_ping m, mu_bearing = math_round brng,
          mu_cardinal_direction = cardinal_direction brng, mu_track_distance = mt_distance m,
          mu_pokemon_id = mt_pokemon_id m, mu_pvp_ranking_cap = mt_pvp_ranking_cap m,
          mu_pvp_ranking_league = mt_pvp_ranking_league m,
          mu_pvp_ranking_worst = mt_pvp_ranking_worst m, mu_rsvp_changes = 0, mu_rule_uid = mt_uid m\<rparr>)"

fun monster_loop ::
    "event_ctx \<Rightarrow> (string \<Rightarrow> human option) \<Rightarrow> monster_tracking list \<Rightarrow> matched_user list" where
  "monster_loop ev valid [] = []"
| "monster_loop ev valid (m # ms) =
     (case monster_accepts ev valid m of
        None \<Rightarrow> monster_loop ev valid ms
      | Some h \<Rightarrow> monster_user ev m h # monster_loop ev valid ms)"

definition validate_humans :: "event_ctx \<Rightarrow> humans \<Rightarrow> monster_tracking list \<Rightarrow> matched_user list" where
  "validate_humans ev hs ms = monster_loop ev (valid_humans hs ms) ms"

section \<open>The contract of a validator that serves each human once\<close>

locale dedup_validator =
  fixes accepts :: "'r \<Rightarrow> human option"
    and user :: "'r \<Rightarrow> human \<Rightarrow> matched_user"
    and run :: "string set \<Rightarrow> 'r list \<Rightarrow> matched_user list"
  assumes run_Nil: "run seen [] = []"
    and run_Cons: "run seen (r # rs) = (case accepts r of None \<Rightarrow> run seen rs
          | Some h \<Rightarrow> if h_id h \<in> seen then run seen rs else user r h # run (insert (h_id h) seen) rs)"
    and user_id: "mu_id (user r h) = h_id h"
begin

text \<open>The accepted rules with their humans, in order.\<close>

definition accepted :: "'r list \<Rightarrow> ('r \<times> human) list" where
  "accepted rs = List.map_filter (\<lambda>r. map_option (Pair r) (accepts r)) rs"

lemma accepted_Nil [simp]: "accepted [] = []"
  by (simp add: accepted_def List.map_filter_simps)

lemma accepted_Cons [simp]:
  "accepted (r # rs) = (case accepts r of None \<Rightarrow> accepted rs | Some h \<Rightarrow> (r, h) # accepted rs)"
  by (simp add: accepted_def List.map_filter_simps split: option.split)

lemma accepted_iff: "(r, h) \<in> set (accepted rs) \<longleftrightarrow> r \<in> set rs \<and> accepts r = Some h"
  by (induction rs) (auto split: option.splits)

lemma run_eq: "run seen rs = map (\<lambda>(r, h). user r h) (dedup_by (h_id \<circ> snd) seen (accepted rs))"
  by (induction rs arbitrary: seen) (auto simp: run_Nil run_Cons split: option.splits)

lemma run_ids: "mu_id ` set (run {} rs) = h_id ` {h. \<exists>r \<in> set rs. accepts r = Some h}"
proof -
  have "mu_id ` set (run {} rs) = (h_id \<circ> snd) ` set (dedup_by (h_id \<circ> snd) {} (accepted rs))"
    by (force simp: run_eq user_id image_iff split: prod.splits)
  also have "\<dots> = h_id ` snd ` set (accepted rs)" 
    using dedup_by_keys [of "h_id \<circ> snd" "{}" "accepted rs"] by (simp add: image_comp)
  also have "snd ` set (accepted rs) = {h. \<exists>r \<in> set rs. accepts r = Some h}"
    by (auto simp: accepted_iff image_iff Bex_def)
  finally show ?thesis .
qed

lemma run_distinct: "distinct (map mu_id (run {} rs))"
proof -
  have "map mu_id (run {} rs) = map (h_id \<circ> snd) (dedup_by (h_id \<circ> snd) {} (accepted rs))"
    by (simp add: run_eq user_id case_prod_unfold)
  then show ?thesis by (simp only: dedup_by_distinct)
qed

text \<open>A human is served by the first of its accepted rules.\<close>

lemma accepted_split:
  "accepted rs = us @ (r, h) # vs \<Longrightarrow> \<exists>ys zs. rs = ys @ r # zs \<and> accepts r = Some h \<and> accepted ys = us"
proof (induction rs arbitrary: us)
  case (Cons x rs)
  show ?case
  proof (cases "accepts x")
    case None
    with Cons.prems have "accepted rs = us @ (r, h) # vs" by simp
    from Cons.IH [OF this] obtain ys zs where "rs = ys @ r # zs" "accepts r = Some h" "accepted ys = us" by blast
    with None show ?thesis by (intro exI [of _ "x # ys"] exI [of _ zs]) simp
  next
    case (Some hx)
    show ?thesis
    proof (cases us)
      case Nil
      with Some Cons.prems show ?thesis by (intro exI [of _ "[]"] exI [of _ rs]) auto
    next
      case (Cons u us')
      with Some Cons.prems have u: "u = (x, hx)" and "accepted rs = us' @ (r, h) # vs" by simp_all
      from Cons.IH [OF this(2)] obtain ys zs where "rs = ys @ r # zs" "accepts r = Some h" "accepted ys = us'" by blast
      with Some u Cons show ?thesis by (intro exI [of _ "x # ys"] exI [of _ zs]) simp
    qed
  qed
qed simp

lemma run_first:
  assumes "u \<in> set (run {} rs)"
  shows "\<exists>ys r zs h. rs = ys @ r # zs \<and> accepts r = Some h \<and> u = user r h \<and>
           (\<forall>r' \<in> set ys. \<forall>h'. accepts r' = Some h' \<longrightarrow> h_id h' \<noteq> h_id h)"
proof -
  from assms obtain r h where rh: "(r, h) \<in> set (dedup_by (h_id \<circ> snd) {} (accepted rs))" "u = user r h"
    by (auto simp: run_eq)
  from dedup_by_first [OF rh(1)] obtain us vs where
    split: "accepted rs = us @ (r, h) # vs" and fresh: "h_id h \<notin> (h_id \<circ> snd) ` set us" by auto
  from accepted_split [OF split] obtain ys zs where
    ys: "rs = ys @ r # zs" "accepts r = Some h" "accepted ys = us" by blast
  have "h_id h' \<noteq> h_id h" if "r' \<in> set ys" "accepts r' = Some h'" for r' h'
    using that fresh accepted_iff [of r' h' ys] ys(3) by force
  with rh(2) ys(1,2) show ?thesis by blast
qed

lemma run_firstI:
  assumes "rs = ys @ r # zs" and acc: "accepts r = Some h"
    and fresh: "\<forall>r' \<in> set ys. \<forall>h'. accepts r' = Some h' \<longrightarrow> h_id h' \<noteq> h_id h"
  shows "user r h \<in> set (run {} rs)"
proof -
  have app: "accepted (ys @ r # zs) = accepted ys @ (r, h) # accepted zs"
    using acc by (induction ys) (auto split: option.split)
  have "(h_id \<circ> snd) (r, h) \<notin> (h_id \<circ> snd) ` set (accepted ys)"
    using fresh by (force simp: accepted_iff)
  from dedup_by_mem [OF this, of "accepted zs"]
  have "(r, h) \<in> set (dedup_by (h_id \<circ> snd) {} (accepted rs))" by (simp only: assms(1) app)
  then have "(\<lambda>(r, h). user r h) (r, h) \<in> (\<lambda>(r, h). user r h) ` set (dedup_by (h_id \<circ> snd) {} (accepted rs))"
    by (rule imageI)
  then show ?thesis by (simp add: run_eq)
qed

text \<open>The validator behind a loop that selects rules and turns each into its user data.\<close>

lemma filter_map_split:
  "map td (filter P rules) = us @ r # vs \<Longrightarrow>
     \<exists>ys q zs. rules = ys @ q # zs \<and> P q \<and> td q = r \<and> map td (filter P ys) = us"
proof (induction rules arbitrary: us)
  case (Cons q rules)
  show ?case
  proof (cases "P q")
    case False
    with Cons.prems have "map td (filter P rules) = us @ r # vs" by simp
    from Cons.IH [OF this] obtain ys q' zs where
      "rules = ys @ q' # zs" "P q'" "td q' = r" "map td (filter P ys) = us" by blast
    with False show ?thesis by (intro exI [of _ "q # ys"] exI [of _ q'] exI [of _ zs]) simp
  next
    case True
    show ?thesis
    proof (cases us)
      case Nil
      with True Cons.prems show ?thesis by (intro exI [of _ "[]"] exI [of _ q] exI [of _ rules]) simp
    next
      case (Cons u us')
      with True Cons.prems have u: "td q = u" and "map td (filter P rules) = us' @ r # vs" by simp_all
      from Cons.IH [OF this(2)] obtain ys q' zs where
        "rules = ys @ q' # zs" "P q'" "td q' = r" "map td (filter P ys) = us'" by blast
      with True u \<open>us = u # us'\<close> show ?thesis
        by (intro exI [of _ "q # ys"] exI [of _ q'] exI [of _ zs]) simp
    qed
  qed
qed simp

lemma run_rules:
  "u \<in> set (run {} (map td (filter P rules))) \<longleftrightarrow>
     (\<exists>ys q zs h. rules = ys @ q # zs \<and> P q \<and> accepts (td q) = Some h \<and> u = user (td q) h \<and>
        (\<forall>q' \<in> set ys. P q' \<longrightarrow> (\<forall>h'. accepts (td q') = Some h' \<longrightarrow> h_id h' \<noteq> h_id h)))"
    (is "?L \<longleftrightarrow> ?R")
proof
  assume ?L
  from run_first [OF this] obtain us r vs h where
    r: "map td (filter P rules) = us @ r # vs" "accepts r = Some h" "u = user r h"
      "\<forall>r' \<in> set us. \<forall>h'. accepts r' = Some h' \<longrightarrow> h_id h' \<noteq> h_id h" by blast
  from filter_map_split [OF r(1)] obtain ys q zs where
    q: "rules = ys @ q # zs" "P q" "td q = r" "map td (filter P ys) = us" by blast
  have "\<forall>q' \<in> set ys. P q' \<longrightarrow> (\<forall>h'. accepts (td q') = Some h' \<longrightarrow> h_id h' \<noteq> h_id h)"
    using r(4) unfolding q(4) [symmetric] by simp
  with q r show ?R by blast
next
  assume ?R
  then obtain ys q zs h where q: "rules = ys @ q # zs" "P q" "accepts (td q) = Some h" "u = user (td q) h"
    "\<forall>q' \<in> set ys. P q' \<longrightarrow> (\<forall>h'. accepts (td q') = Some h' \<longrightarrow> h_id h' \<noteq> h_id h)" by blast
  have eq: "map td (filter P rules) = map td (filter P ys) @ td q # map td (filter P zs)" by (simp add: q)
  show ?L unfolding q(4) by (rule run_firstI [OF eq q(3)]) (use q(5) in auto)
qed

lemma run_rulesE:
  assumes "u \<in> set (run {} (map td (filter P rules)))"
  obtains q h where "q \<in> set rules" "P q" "accepts (td q) = Some h" "u = user (td q) h"
proof -
  from assms obtain ys q zs h where "rules = ys @ q # zs" "P q" "accepts (td q) = Some h" "u = user (td q) h"
    unfolding run_rules by blast
  then show thesis by (intro that [of q h]) simp_all
qed

text \<open>A rule that is not accepted has no influence.\<close>

lemma run_filter: "run {} (filter (\<lambda>r. P r \<or> accepts r \<noteq> None) rs) = run {} rs"
proof -
  have "accepted (filter (\<lambda>r. P r \<or> accepts r \<noteq> None) rs) = accepted rs"
    by (induction rs) (auto split: option.splits)
  then show ?thesis by (simp add: run_eq)
qed

end

lemma generic_user_id [simp]: "mu_id (generic_user ev td h) = h_id h"
  by (simp add: generic_user_def Let_def case_prod_unfold)

lemma raid_user_id [simp]: "mu_id (raid_user ev td h) = h_id h"
  by (simp add: raid_user_def Let_def case_prod_unfold)

interpretation gv: dedup_validator "generic_accepts ev hs blocked" "generic_user ev" "generic_loop ev hs blocked"
  for ev hs blocked by unfold_locales simp_all

interpretation rv: dedup_validator "raid_accepts ev hs blocked" "raid_user ev" "raid_loop ev hs blocked"
  for ev hs blocked by unfold_locales simp_all

interpretation yv: dedup_validator "gym_accepts ev hs" "generic_user ev" "gym_loop ev hs"
  for ev hs by unfold_locales simp_all

section \<open>Who is alerted\<close>

text \<open>The conditions on the human, on the reach of the rule and on the restriction, as sets.\<close>

definition entitled :: "humans \<Rightarrow> string \<Rightarrow> string \<Rightarrow> int \<Rightarrow> human \<Rightarrow> bool" where
  "entitled hs blocked i profile h \<longleftrightarrow> gget hs i = Some h \<and> h_enabled h \<and> \<not> h_admin_disable h \<and>
     blocked \<notin> h_blocked_set h \<and> profile = h_current_profile_no h"

definition in_reach :: "event_ctx \<Rightarrow> string \<Rightarrow> string list \<Rightarrow> int \<Rightarrow> human \<Rightarrow> bool" where
  "in_reach ev label areas d h \<longleftrightarrow>
     (let (lat, lon, eff) = resolve_override label areas h
      in if 0 < d then haversine_distance lat lon (ec_lat ev) (ec_lon ev) \<le> d
         else set eff \<inter> ec_areas ev \<noteq> {})"

definition unrestricted :: "event_ctx \<Rightarrow> human \<Rightarrow> bool" where
  "unrestricted ev h \<longleftrightarrow> (ec_strict ev \<longrightarrow>
     (\<forall>areas. h_area_restriction h = Some areas \<longrightarrow> set areas \<inter> ec_areas ev \<noteq> {}))"

lemma area_overlap_iff: "area_overlap as m \<longleftrightarrow> set as \<inter> m \<noteq> {}"
  by (induction as) auto

lemma near_iff: "near ev label areas d h \<longleftrightarrow> in_reach ev label areas d h"
  by (auto simp: near_def in_reach_def area_overlap_iff Let_def not_less)

lemma strict_rejects_iff: "strict_rejects ev h \<longleftrightarrow> \<not> unrestricted ev h"
  by (auto simp: strict_rejects_def unrestricted_def area_overlap_iff split: option.split)

lemmas accept_simps = entitled_def near_iff strict_rejects_iff

definition generic_deserves :: "event_ctx \<Rightarrow> humans \<Rightarrow> string \<Rightarrow> tracking_user_data \<Rightarrow> human \<Rightarrow> bool" where
  "generic_deserves ev hs blocked td h \<longleftrightarrow>
     entitled hs blocked (td_human_id td) (td_profile_no td) h \<and>
     (td_is_specific_match td \<and> td_distance td \<le> 0 \<or>
      in_reach ev (td_override_location_label td) (td_override_areas td) (td_distance td) h) \<and>
     unrestricted ev h"

definition raid_deserves :: "event_ctx \<Rightarrow> humans \<Rightarrow> string \<Rightarrow> raid_user_data \<Rightarrow> human \<Rightarrow> bool" where
  "raid_deserves ev hs blocked td h \<longleftrightarrow>
     entitled hs blocked (rd_human_id td) (rd_profile_no td) h \<and>
     (if rd_is_specific_match td then ''specificgym'' \<notin> h_blocked_set h
      else in_reach ev (rd_override_location_label td) (rd_override_areas td) (rd_distance td) h) \<and>
     unrestricted ev h"

definition monster_deserves :: "event_ctx \<Rightarrow> humans \<Rightarrow> monster_tracking \<Rightarrow> human \<Rightarrow> bool" where
  "monster_deserves ev hs m h \<longleftrightarrow>
     entitled hs ''monster'' (mt_id m) (mt_profile_no m) h \<and>
     (mt_pvp_ranking_league m = 0 \<or> ''pvp'' \<notin> h_blocked_set h) \<and>
     in_reach ev (mt_override_location_label m) (mt_override_areas m) (mt_distance m) h \<and>
     unrestricted ev h"

lemma generic_accepts_iff: "generic_accepts ev hs blocked td = Some h \<longleftrightarrow> generic_deserves ev hs blocked td h"
proof (cases "gget hs (td_human_id td)")
  case None
  then show ?thesis by (simp add: generic_accepts_def generic_deserves_def entitled_def)
next
  case (Some h')
  obtain lat lon eff where
    r: "resolve_override (td_override_location_label td) (td_override_areas td) h' = (lat, lon, eff)"
    by (cases "resolve_override (td_override_location_label td) (td_override_areas td) h'")
  show ?thesis
  proof (cases "h' = h")
    case True
    with r Some show ?thesis
      by (auto simp: generic_accepts_def generic_deserves_def accept_simps in_reach_def area_overlap_iff not_less)
  next
    case False
    with Some show ?thesis
      by (auto simp: generic_accepts_def generic_deserves_def entitled_def Let_def split: prod.split)
  qed
qed

lemma raid_accepts_iff: "raid_accepts ev hs blocked td = Some h \<longleftrightarrow> raid_deserves ev hs blocked td h"
  by (auto simp: raid_accepts_def raid_deserves_def accept_simps split: option.splits)

definition raid_data_of :: "tracking_user_data \<Rightarrow> raid_user_data" where
  "raid_data_of td =
    \<lparr>rd_human_id = td_human_id td, rd_profile_no = td_profile_no td,
     rd_distance = td_distance td, rd_template = td_template td, rd_clean = td_clean td,
     rd_ping = td_ping td, rd_rsvp_changes = 0, rd_uid = td_uid td,
     rd_is_specific_match = td_is_specific_match td,
     rd_override_location_label = td_override_location_label td, rd_override_areas = td_override_areas td\<rparr>"

lemma raid_data_of_simps [simp]:
  "rd_human_id (raid_data_of td) = td_human_id td" "rd_profile_no (raid_data_of td) = td_profile_no td"
  "rd_distance (raid_data_of td) = td_distance td" "rd_template (raid_data_of td) = td_template td"
  "rd_clean (raid_data_of td) = td_clean td" "rd_ping (raid_data_of td) = td_ping td"
  "rd_rsvp_changes (raid_data_of td) = 0" "rd_uid (raid_data_of td) = td_uid td"
  "rd_is_specific_match (raid_data_of td) = td_is_specific_match td"
  "rd_override_location_label (raid_data_of td) = td_override_location_label td"
  "rd_override_areas (raid_data_of td) = td_override_areas td"
  by (simp_all add: raid_data_of_def)

lemma gym_accepts_raid: "gym_accepts ev hs td = raid_accepts ev hs ''gym'' (raid_data_of td)"
  by (cases "gget hs (td_human_id td)") (simp_all add: gym_accepts_def raid_accepts_def cong: if_cong)

lemma raid_user_data_of: "raid_user ev (raid_data_of td) h = generic_user ev td h"
  by (simp add: raid_user_def generic_user_def)

lemma monster_accepts_iff:
  "m \<in> set ms \<Longrightarrow> monster_accepts ev (valid_humans hs ms) m = Some h \<longleftrightarrow> monster_deserves ev hs m h"
  by (auto simp: monster_accepts_def valid_humans_def monster_deserves_def accept_simps split: option.splits)

lemma generic_validator_mem:
  "u \<in> set (validate_humans_generic ev hs blocked tds) \<longleftrightarrow>
     (\<exists>ys td zs h. tds = ys @ td # zs \<and> generic_deserves ev hs blocked td h \<and> u = generic_user ev td h \<and>
        (\<forall>td' \<in> set ys. \<nexists>h'. generic_deserves ev hs blocked td' h' \<and> h_id h' = h_id h))"
  unfolding validate_humans_generic_def
proof
  assume "u \<in> set (generic_loop ev hs blocked {} tds)"
  from gv.run_first [OF this] show "\<exists>ys td zs h. tds = ys @ td # zs \<and> generic_deserves ev hs blocked td h \<and>
      u = generic_user ev td h \<and> (\<forall>td' \<in> set ys. \<nexists>h'. generic_deserves ev hs blocked td' h' \<and> h_id h' = h_id h)"
    unfolding generic_accepts_iff by blast
next
  assume "\<exists>ys td zs h. tds = ys @ td # zs \<and> generic_deserves ev hs blocked td h \<and>
      u = generic_user ev td h \<and> (\<forall>td' \<in> set ys. \<nexists>h'. generic_deserves ev hs blocked td' h' \<and> h_id h' = h_id h)"
  then obtain ys td zs h where r: "tds = ys @ td # zs" "generic_deserves ev hs blocked td h"
      "u = generic_user ev td h" "\<forall>td' \<in> set ys. \<nexists>h'. generic_deserves ev hs blocked td' h' \<and> h_id h' = h_id h"
    by blast
  show "u \<in> set (generic_loop ev hs blocked {} tds)"
    unfolding r(3) by (rule gv.run_firstI [OF r(1)]) (use r(2,4) in \<open>auto simp: generic_accepts_iff\<close>)
qed

text \<open>The generic validator alerts a human exactly when some rule deserves it (the human is
  enabled, not blocked and on the rule's profile, the event is in the rule's reach, no enforced restriction
  excludes it), and then by the first such rule of the list.\<close>

theorem generic_validator_exact:
  "u \<in> set (validate_humans_generic ev hs blocked tds) \<longleftrightarrow>
     (\<exists>ys td zs h. tds = ys @ td # zs \<and> generic_deserves ev hs blocked td h \<and> u = generic_user ev td h \<and>
        (\<forall>td' \<in> set ys. \<nexists>h'. generic_deserves ev hs blocked td' h' \<and> h_id h' = h_id h))"
  by (rule generic_validator_mem)

lemma raid_validator_mem:
  "u \<in> set (validate_humans_for_raid ev hs blocked tds) \<longleftrightarrow>
     (\<exists>ys td zs h. tds = ys @ td # zs \<and> raid_deserves ev hs blocked td h \<and> u = raid_user ev td h \<and>
        (\<forall>td' \<in> set ys. \<nexists>h'. raid_deserves ev hs blocked td' h' \<and> h_id h' = h_id h))"
  unfolding validate_humans_for_raid_def
proof
  assume "u \<in> set (raid_loop ev hs blocked {} tds)"
  from rv.run_first [OF this] show "\<exists>ys td zs h. tds = ys @ td # zs \<and> raid_deserves ev hs blocked td h \<and>
      u = raid_user ev td h \<and> (\<forall>td' \<in> set ys. \<nexists>h'. raid_deserves ev hs blocked td' h' \<and> h_id h' = h_id h)"
    unfolding raid_accepts_iff by blast
next
  assume "\<exists>ys td zs h. tds = ys @ td # zs \<and> raid_deserves ev hs blocked td h \<and>
      u = raid_user ev td h \<and> (\<forall>td' \<in> set ys. \<nexists>h'. raid_deserves ev hs blocked td' h' \<and> h_id h' = h_id h)"
  then obtain ys td zs h where r: "tds = ys @ td # zs" "raid_deserves ev hs blocked td h"
      "u = raid_user ev td h" "\<forall>td' \<in> set ys. \<nexists>h'. raid_deserves ev hs blocked td' h' \<and> h_id h' = h_id h"
    by blast
  show "u \<in> set (raid_loop ev hs blocked {} tds)"
    unfolding r(3) by (rule rv.run_firstI [OF r(1)]) (use r(2,4) in \<open>auto simp: raid_accepts_iff\<close>)
qed

lemma validate_humans_eq:
  "validate_humans ev hs ms =
     List.map_filter (\<lambda>m. case gget hs (mt_id m) of None \<Rightarrow> None
        | Some h \<Rightarrow> if monster_deserves ev hs m h then Some (monster_user ev m h) else None) ms"
proof -
  have "monster_loop ev (valid_humans hs ms) ns =
     List.map_filter (\<lambda>m. case gget hs (mt_id m) of None \<Rightarrow> None
        | Some h \<Rightarrow> if monster_deserves ev hs m h then Some (monster_user ev m h) else None) ns"
    if "set ns \<subseteq> set ms" for ns
    using that
  proof (induction ns)
    case (Cons m ns)
    have acc: "monster_accepts ev (valid_humans hs ms) m = Some h \<longleftrightarrow> monster_deserves ev hs m h" for h
      by (rule monster_accepts_iff) (use Cons.prems in simp)
    have look: "monster_deserves ev hs m h \<Longrightarrow> gget hs (mt_id m) = Some h" for h
      by (simp add: monster_deserves_def entitled_def)
    show ?case
    proof (cases "monster_accepts ev (valid_humans hs ms) m")
      case None
      with acc have "\<not> monster_deserves ev hs m h" for h by (metis option.distinct(1))
      with None Cons show ?thesis by (simp add: List.map_filter_simps split: option.split)
    next
      case (Some h)
      from acc [THEN iffD1, OF Some] look [OF acc [THEN iffD1, OF Some]] Some Cons show ?thesis by (simp add: List.map_filter_simps)
    qed
  qed (simp add: List.map_filter_simps)
  then show ?thesis by (simp add: validate_humans_def)
qed

text \<open>C35: a validator of raids, gyms or area and distance rules never alerts a human twice for
  one event.\<close>

theorem one_alert_per_human:
  "distinct (map mu_id (validate_humans_generic ev hs blocked tds)) \<and>
   distinct (map mu_id (validate_humans_for_raid ev hs blocked rds)) \<and>
   distinct (map mu_id (validate_humans_for_gym ev hs tds))"
  unfolding validate_humans_generic_def validate_humans_for_raid_def validate_humans_for_gym_def
  by (intro conjI gv.run_distinct rv.run_distinct yv.run_distinct)

lemma gym_validator_raid:
  "validate_humans_for_gym ev hs tds = validate_humans_for_raid ev hs ''gym'' (map raid_data_of tds)"
proof -
  have "gym_loop ev hs seen tds = raid_loop ev hs ''gym'' seen (map raid_data_of tds)" for seen
    by (induction tds arbitrary: seen) (simp_all add: gym_accepts_raid raid_user_data_of split: option.split)
  then show ?thesis by (simp add: validate_humans_for_gym_def validate_humans_for_raid_def)
qed

text \<open>the gym validator is the raid validator with the blocked alert ``gym''.\<close>

theorem gym_validator_is_raid_validator:
  "validate_humans_for_gym ev hs tds = validate_humans_for_raid ev hs ''gym'' (map raid_data_of tds)"
  by (rule gym_validator_raid)

text \<open>Every alert goes to a human of the snapshot whose enforced restriction overlaps the event.\<close>

lemma generic_deserves_unrestricted: "generic_deserves ev hs blocked td h \<Longrightarrow>
    unrestricted ev h \<and> gget hs (td_human_id td) = Some h \<and> h_enabled h \<and> \<not> h_admin_disable h"
  by (simp add: generic_deserves_def entitled_def)

lemma raid_deserves_unrestricted: "raid_deserves ev hs blocked td h \<Longrightarrow>
    unrestricted ev h \<and> gget hs (rd_human_id td) = Some h \<and> h_enabled h \<and> \<not> h_admin_disable h"
  by (simp add: raid_deserves_def entitled_def)

text \<open>C2: when area restrictions are enforced no validator alerts a human outside them, whatever
  the rule says (distance, own areas, a specific gym or station), nor a human who is disabled.\<close>

theorem restriction_enforced:
  assumes "u \<in> set (validate_humans_generic ev hs blocked tds) \<union> set (validate_humans_for_raid ev hs blocked rds) \<union>
     set (validate_humans_for_gym ev hs tds) \<union> set (validate_humans ev hs ms)"
    and "ec_strict ev"
  shows "\<exists>i h. gget hs i = Some h \<and> mu_id u = h_id h \<and> h_enabled h \<and> \<not> h_admin_disable h \<and>
     (\<forall>areas. h_area_restriction h = Some areas \<longrightarrow> (\<exists>a \<in> set areas. a \<in> ec_areas ev))"
proof -
  have ok: "\<forall>areas. h_area_restriction h = Some areas \<longrightarrow> (\<exists>a \<in> set areas. a \<in> ec_areas ev)"
    if "unrestricted ev h" for h using that assms(2) by (auto simp: unrestricted_def)
  from assms(1) consider
      (g) td h where "generic_deserves ev hs blocked td h" "u = generic_user ev td h"
    | (r) b td h where "raid_deserves ev hs b td h" "u = raid_user ev td h"
    | (m) m h where "monster_deserves ev hs m h" "u = monster_user ev m h"
    unfolding Un_iff gym_validator_raid generic_validator_mem raid_validator_mem validate_humans_eq
    by (fastforce simp: List.map_filter_def split: option.splits if_splits)
  then show ?thesis
  proof cases
    case g
    from generic_deserves_unrestricted [OF g(1)] g(2) show ?thesis
      by (intro exI [of _ "td_human_id td"] exI [of _ h]) (use ok [of h] in simp)
  next
    case r
    from raid_deserves_unrestricted [OF r(1)] r(2) show ?thesis
      by (intro exI [of _ "rd_human_id td"] exI [of _ h]) (use ok [of h] in simp)
  next
    case m
    then show ?thesis
      by (intro exI [of _ "mt_id m"] exI [of _ h])
        (use ok [of h] in \<open>simp add: monster_deserves_def entitled_def monster_user_def Let_def case_prod_unfold\<close>)
  qed
qed

definition sample_human :: human where
  "sample_human = \<lparr>h_id = ''u1'', h_name = ''ash'', h_type = ''discord:user'', h_enabled = True,
     h_admin_disable = False, h_area = [''city''], h_area_restriction = Some [''city''],
     h_latitude = 1, h_longitude = 2, h_language = ''en'', h_current_profile_no = 1,
     h_blocked_alerts = [], h_blocked_set = {}, h_locations = None\<rparr>"

definition sample_ev :: event_ctx where
  "sample_ev = \<lparr>ec_lat = 1, ec_lon = 2, ec_areas = {''city''}, ec_strict = True\<rparr>"

definition sample_td :: "tracking_user_data" where
  "sample_td = \<lparr>td_human_id = ''u1'', td_profile_no = 1, td_distance = 0, td_template = ''1'', td_clean = 0,
     td_ping = [], td_uid = 7, td_is_specific_match = False, td_override_location_label = [],
     td_override_areas = []\<rparr>"

lemma sample_accepted:
  "validate_humans_generic sample_ev [(''u1'', sample_human)] ''raid'' [sample_td] =
     [generic_user sample_ev sample_td sample_human]"
  by (simp add: validate_humans_generic_def generic_accepts_def gget_Cons resolve_override_def
      sample_human_def sample_ev_def sample_td_def strict_rejects_def)

lemma generic_validator_exact_witness:
  "generic_user sample_ev sample_td sample_human
     \<in> set (validate_humans_generic sample_ev [(''u1'', sample_human)] ''raid'' [sample_td])"
proof -
  have "generic_deserves sample_ev [(''u1'', sample_human)] ''raid'' sample_td sample_human"
    by (simp add: generic_deserves_def entitled_def unrestricted_def in_reach_def resolve_override_def
        gget_Cons sample_human_def sample_ev_def sample_td_def)
  then show ?thesis
    unfolding generic_validator_exact
    by (intro exI [of _ "[]"] exI [of _ sample_td] exI [of _ "[]"] exI [of _ sample_human]) simp
qed

lemma restriction_enforced_witness:
  "\<exists>i h. gget [(''u1'', sample_human)] i = Some h \<and> mu_id (generic_user sample_ev sample_td sample_human) = h_id h \<and>
     h_enabled h \<and> \<not> h_admin_disable h \<and>
     (\<forall>areas. h_area_restriction h = Some areas \<longrightarrow> (\<exists>a \<in> set areas. a \<in> ec_areas sample_ev))"
  by (rule restriction_enforced [of _ sample_ev _ "''raid''" "[sample_td]" "[]" "[]"])
    (simp_all add: sample_accepted, simp add: sample_ev_def)

definition sample_state :: state where
  "sample_state = \<lparr>st_humans = [(''u1'', sample_human)], st_monsters = None, st_raids = [], st_eggs = [],
     st_invasions = [], st_quests = [], st_lures = [], st_gyms = [], st_nests = [], st_forts = [],
     st_maxbattles = [], st_geofence = None, st_fences = []\<rparr>"

end
