(* ===== verification/PokemonMatch.thy ===== *)
theory PokemonMatch
  imports Validate Pvp
begin

text \<open>
  \<open>matching/pokemon.go\<close>: from a pokemon webhook to the values the rules are tested on, the guards of
  one monster rule, and the candidates \<open>Match\<close> collects from the monster index. The clock reading of
  \<open>time.Now()\<close> is an argument.
\<close>

section \<open>Data\<close>

text \<open>The fields of \<open>webhook.PokemonWebhook\<close> the matcher reads; a nil pointer is \<open>None\<close>.\<close>

record pokemon_webhook =
  pw_pokemon_id :: int
  pw_form :: int
  pw_latitude :: f64
  pw_longitude :: f64
  pw_disappear_time :: int
  pw_individual_attack :: "int option"
  pw_individual_defense :: "int option"
  pw_individual_stamina :: "int option"
  pw_cp :: int
  pw_pokemon_level :: int
  pw_gender :: int
  pw_weight :: f64
  pw_size :: int
  pw_costume :: int
  pw_weather :: int
  pw_boosted_weather :: int
  pw_pvp :: pvp_fields

record processed_pokemon =
  pp_pokemon_id :: int
  pp_form :: int
  pp_costume :: int
  pp_iv :: f64
  pp_cp :: int
  pp_level :: int
  pp_atk :: int
  pp_def :: int
  pp_sta :: int
  pp_gender :: int
  pp_weight :: f64
  pp_size :: int
  pp_rarity_group :: int
  pp_tth_seconds :: f64
  pp_latitude :: f64
  pp_longitude :: f64
  pp_encountered :: bool
  pp_pvp_best_rank :: "(int, league_rank list) gomap"
  pp_pvp_evo_data :: evo_data

text \<open>\<open>float64(atk+def+sta) / 0.45\<close>: the constant is the double nearest to 0.45.\<close>

definition iv_of_sum :: "int \<Rightarrow> f64" where
  "iv_of_sum s = fdiv (f64_of_int s) (f64_round (45 / 100))"

definition process_pokemon_webhook ::
    "pokemon_webhook \<Rightarrow> int \<Rightarrow> pvp_config \<Rightarrow> gotime \<Rightarrow> processed_pokemon" where
  "process_pokemon_webhook p rarity_group cfg now =
     (let enc = pw_individual_attack p \<noteq> None \<and> pw_individual_defense p \<noteq> None \<and>
                pw_individual_stamina p \<noteq> None;
          atk = (if enc then the (pw_individual_attack p) else 0);
          dfn = (if enc then the (pw_individual_defense p) else 0);
          sta = (if enc then the (pw_individual_stamina p) else 0);
          (best, evo) = calculate (pw_pokemon_id p) (pw_pvp p) cfg
      in \<lparr>pp_pokemon_id = pw_pokemon_id p, pp_form = pw_form p, pp_costume = pw_costume p,
          pp_iv = (if enc then iv_of_sum (atk + dfn + sta) else - 1),
          pp_cp = (if enc then pw_cp p else 0), pp_level = (if enc then pw_pokemon_level p else 0),
          pp_atk = atk, pp_def = dfn, pp_sta = sta, pp_gender = pw_gender p,
          pp_weight = (if enc then pw_weight p else 0), pp_size = pw_size p,
          pp_rarity_group = rarity_group,
          pp_tth_seconds = fsub (f64_of_int (pw_disappear_time p)) (f64_of_int (unix now)),
          pp_latitude = pw_latitude p, pp_longitude = pw_longitude p, pp_encountered = enc,
          pp_pvp_best_rank = best, pp_pvp_evo_data = evo\<rparr>)"

record pokemon_matcher =
  pm_pvp_query_max_rank :: int
  pm_pvp_evolution_direct_tracking :: bool
  pm_strict_locations :: bool
  pm_area_security_enabled :: bool
  pm_include_mega_evolution :: bool

abbreviation (input) default_max_cp :: int where "default_max_cp \<equiv> 9000"
abbreviation (input) default_max_level :: int where "default_max_level \<equiv> 55"
abbreviation (input) default_max_stat :: int where "default_max_stat \<equiv> 15"
abbreviation (input) default_max_weight :: int where "default_max_weight \<equiv> 9000000"

section \<open>The guards of one rule\<close>

text \<open>The PVP block: the mega discriminator, the rank and CP bounds, the level cap.\<close>

definition pvp_skips :: "pokemon_matcher \<Rightarrow> league_rank \<Rightarrow> monster_tracking \<Rightarrow> bool" where
  "pvp_skips pm d m \<longleftrightarrow>
     (if (if mt_pvp_ranking_evolution m = 0
          then \<not> pm_include_mega_evolution pm \<and> lr_evolution d \<noteq> 0
          else if mt_pvp_ranking_evolution m = 1 then lr_evolution d = 0
          else lr_evolution d \<noteq> mt_pvp_ranking_evolution m) then True
      else if lr_rank d > mt_pvp_ranking_worst m then True
      else if lr_rank d < mt_pvp_ranking_best m then True
      else if lr_cp d < mt_pvp_ranking_min_cp m then True
      else mt_pvp_ranking_cap m \<noteq> 0 \<and> length (lr_caps d) > 0 \<and>
           \<not> caps_contain (lr_caps d) (mt_pvp_ranking_cap m))"

text \<open>The stats only an encountered pokemon has.\<close>

definition unencountered_skips :: "monster_tracking \<Rightarrow> bool" where
  "unencountered_skips m \<longleftrightarrow>
     mt_min_cp m > 0 \<or> mt_max_cp m < default_max_cp \<or>
     mt_min_level m > 0 \<or> mt_max_level m < default_max_level \<or>
     mt_atk m > 0 \<or> mt_max_atk m < default_max_stat \<or>
     mt_def m > 0 \<or> mt_max_def m < default_max_stat \<or>
     mt_sta m > 0 \<or> mt_max_sta m < default_max_stat \<or>
     mt_min_weight m > 0 \<or> mt_max_weight m < default_max_weight"

definition encountered_skips :: "processed_pokemon \<Rightarrow> monster_tracking \<Rightarrow> bool" where
  "encountered_skips p m \<longleftrightarrow>
     (if pp_cp p < mt_min_cp m then True else if pp_cp p > mt_max_cp m then True
      else if pp_level p < mt_min_level m then True else if pp_level p > mt_max_level m then True
      else if pp_atk p < mt_atk m then True else if pp_def p < mt_def m then True
      else if pp_sta p < mt_sta m then True
      else if pp_atk p > mt_max_atk m then True else if pp_def p > mt_max_def m then True
      else if pp_sta p > mt_max_sta m then True
      else let weight = int_of_f64 (fmul (pp_weight p) 1000)
           in if weight < mt_min_weight m then True else weight > mt_max_weight m)"

definition monster_matches ::
    "pokemon_matcher \<Rightarrow> processed_pokemon \<Rightarrow> int \<Rightarrow> int \<Rightarrow> bool \<Rightarrow> int \<Rightarrow> league_rank
     \<Rightarrow> monster_tracking \<Rightarrow> bool" where
  "monster_matches pm p target_id target_form include_everything league d m \<longleftrightarrow>
     (if mt_pokemon_id m \<noteq> target_id \<and> (\<not> include_everything \<or> mt_pokemon_id m \<noteq> 0) then False
      else if mt_form m \<noteq> 0 \<and> mt_form m \<noteq> (if target_form \<noteq> 0 then target_form else pp_form p) then False
      else if mt_costume m \<noteq> 9000 \<and> mt_costume m \<noteq> pp_costume p then False
      else if league \<noteq> 0 \<and> pvp_skips pm d m then False
      else if pp_iv p < f64_of_int (mt_min_iv m) then False
      else if pp_iv p > f64_of_int (mt_max_iv m) then False
      else if pp_tth_seconds p < f64_of_int (mt_min_time m) then False
      else if mt_gender m \<noteq> 0 \<and> mt_gender m \<noteq> pp_gender p then False
      else if (if \<not> pp_encountered p then unencountered_skips m else encountered_skips p m) then False
      else if pp_rarity_group p < mt_rarity m then False
      else if pp_rarity_group p > mt_max_rarity m then False
      else if pp_size p < mt_size m then False
      else if pp_size p > mt_max_size m then False
      else True)"

definition match_monsters ::
    "pokemon_matcher \<Rightarrow> processed_pokemon \<Rightarrow> monster_tracking list \<Rightarrow> int \<Rightarrow> int \<Rightarrow> bool \<Rightarrow> int
     \<Rightarrow> league_rank \<Rightarrow> monster_tracking list" where
  "match_monsters pm p monsters target_id target_form include_everything league d =
     filter (monster_matches pm p target_id target_form include_everything league d) monsters"

definition no_league_rank :: league_rank where
  "no_league_rank = \<lparr>lr_rank = 0, lr_cp = 0, lr_caps = [], lr_form = 0, lr_evolution = 0\<rparr>"

section \<open>\<open>Match\<close>\<close>

definition best_rank_candidates :: "pokemon_matcher \<Rightarrow> processed_pokemon \<Rightarrow> monster_index \<Rightarrow> monster_tracking list" where
  "best_rank_candidates pm p idx =
     concat (map (\<lambda>(league, ranks). concat (map (\<lambda>d.
        if lr_rank d \<le> pm_pvp_query_max_rank pm
        then match_monsters pm p (gget_or [] (mi_pvp_everything idx) league)
               (pp_pokemon_id p) (pp_form p) True league d @
             match_monsters pm p (gget_or [] (mi_pvp_specific idx) league)
               (pp_pokemon_id p) (pp_form p) True league d
        else []) ranks)) (pp_pvp_best_rank p))"

definition evo_candidates :: "pokemon_matcher \<Rightarrow> processed_pokemon \<Rightarrow> monster_index \<Rightarrow> monster_tracking list" where
  "evo_candidates pm p idx =
     (if pm_pvp_evolution_direct_tracking pm \<and> length (pp_pvp_evo_data p) > 0
      then concat (map (\<lambda>(pokemon_id, leagues). concat (map (\<lambda>(league, ranks). concat (map (\<lambda>d.
             if lr_rank d \<le> pm_pvp_query_max_rank pm
             then match_monsters pm p (gget_or [] (mi_pvp_specific idx) league)
                    pokemon_id (lr_form d) False league d
             else []) ranks)) leagues)) (pp_pvp_evo_data p))
      else [])"

definition pokemon_candidates :: "pokemon_matcher \<Rightarrow> processed_pokemon \<Rightarrow> monster_index \<Rightarrow> monster_tracking list" where
  "pokemon_candidates pm p idx =
     match_monsters pm p (gget_or [] (mi_by_pokemon_id idx) 0) (pp_pokemon_id p) (pp_form p) True 0 no_league_rank @
     match_monsters pm p (gget_or [] (mi_by_pokemon_id idx) (pp_pokemon_id p))
       (pp_pokemon_id p) (pp_form p) True 0 no_league_rank @
     best_rank_candidates pm p idx @ evo_candidates pm p idx"

definition pokemon_match ::
    "rtree_search \<Rightarrow> pokemon_matcher \<Rightarrow> processed_pokemon \<Rightarrow> state option
     \<Rightarrow> matched_user list \<times> web_area list" where
  "pokemon_match search pm p sto =
     (case sto of None \<Rightarrow> ([], [])
      | Some st \<Rightarrow>
          (case st_monsters st of None \<Rightarrow> ([], [])
           | Some idx \<Rightarrow>
               (let matched = pokemon_candidates pm p idx;
                    (areas, ev) = event_at search st (pm_area_security_enabled pm \<and> pm_strict_locations pm)
                                    (pp_latitude p) (pp_longitude p)
                in (validate_humans ev (st_humans st) matched, convert_areas areas))))"

section \<open>The IV percentage\<close>

lemma f64_045: "f64_round (45 / 100) = 8106479329266893 / 18014398509481984"
  by (simp add: f64_eval)

lemma f64_round_sixteenths: "\<bar>k\<bar> < 2 ^ 53 \<Longrightarrow> f64_round (of_int k / 16) = of_int k / 16"
proof -
  assume k: "\<bar>k\<bar> < 2 ^ 53"
  have "(of_int k / 16 :: real) = of_int k * 2 powi (- 4)" by (simp add: power_int_minus)
  then show ?thesis using f64_round_exact [OF k, of "- 4"] by (simp only:)
qed

lemma iv_of_sum_exact:
  assumes "k \<in> {0..5}"
  shows "iv_of_sum (9 * k) = of_int (20 * k)"
proof -
  have ev: "f64_round (9 / (8106479329266893 / 18014398509481984)) = 20"
    "f64_round (18 / (8106479329266893 / 18014398509481984)) = 40"
    "f64_round (27 / (8106479329266893 / 18014398509481984)) = 60"
    "f64_round (36 / (8106479329266893 / 18014398509481984)) = 80"
    "f64_round (45 / (8106479329266893 / 18014398509481984)) = 100"
    by (simp_all add: f64_round_def fquantum_def fexp.simps rhe_def)
  have "k \<in> {0, 1, 2, 3, 4, 5}" using assms by auto
  then show ?thesis unfolding iv_of_sum_def f64_045 fdiv_def
    by (elim insertE emptyE; simp only: f64_of_int_small) (simp_all add: ev [simplified])
qed

lemma iv_of_sum_between:
  assumes s: "0 \<le> s" "s \<le> 45" and a: "9 * a < 20 * s" "20 * s < 9 * (a + 1)"
  shows "of_int a < iv_of_sum s" "iv_of_sum s < of_int (a + 1)"
proof -
  let ?c = "8106479329266893 / 18014398509481984 :: real"
  have a0: "0 \<le> a" "a \<le> 100" using s a by simp_all
  have iv: "iv_of_sum s = f64_round (of_int s / ?c)"
    unfolding iv_of_sum_def f64_045 fdiv_def using s by simp
  have lo: "of_int (16 * a + 1) / 16 \<le> of_int s / ?c"
  proof -
    have "real_of_int (9 * a + 1) \<le> real_of_int (20 * s)" unfolding of_int_le_iff using a by simp
    then have "(9 * real_of_int a + 1) / 20 \<le> real_of_int s" by simp
    then have "(9 * real_of_int a + 1) / 20 / ?c \<le> real_of_int s / ?c" by (rule divide_right_mono) simp
    moreover have "of_int (16 * a + 1) / 16 \<le> (9 * real_of_int a + 1) / 20 / ?c" using a0 by simp
    ultimately show ?thesis by (rule order_trans [rotated])
  qed
  have hi: "of_int s / ?c \<le> of_int (16 * a + 15) / 16"
  proof -
    have "real_of_int (20 * s) \<le> real_of_int (9 * a + 8)" unfolding of_int_le_iff using a by simp
    then have "real_of_int s \<le> (9 * real_of_int a + 8) / 20" by simp
    then have "real_of_int s / ?c \<le> (9 * real_of_int a + 8) / 20 / ?c" by (rule divide_right_mono) simp
    moreover have "(9 * real_of_int a + 8) / 20 / ?c \<le> of_int (16 * a + 15) / 16" using a0 by simp
    ultimately show ?thesis by (rule order_trans)
  qed
  have "f64_round (of_int (16 * a + 1) / 16) \<le> iv_of_sum s" "iv_of_sum s \<le> f64_round (of_int (16 * a + 15) / 16)"
    unfolding iv by (rule f64_round_mono [OF lo], rule f64_round_mono [OF hi])
  moreover have "f64_round (of_int (16 * a + 1) / 16) = of_int (16 * a + 1) / 16"
    "f64_round (of_int (16 * a + 15) / 16) = of_int (16 * a + 15) / 16"
    by (rule f64_round_sixteenths, use a0 in simp)+
  ultimately show "of_int a < iv_of_sum s" "iv_of_sum s < of_int (a + 1)"
    by simp_all
qed

lemma iv_of_sum_compare:
  assumes s: "0 \<le> s" "s \<le> 45"
  shows "iv_of_sum s < of_int n \<longleftrightarrow> 20 * s < 9 * n" and "of_int n < iv_of_sum s \<longleftrightarrow> 9 * n < 20 * s"
proof -
  have "(iv_of_sum s < of_int n \<longleftrightarrow> 20 * s < 9 * n) \<and> (of_int n < iv_of_sum s \<longleftrightarrow> 9 * n < 20 * s)"
  proof (cases "s mod 9 = 0")
    case True
    then obtain k where k: "s = 9 * k" by auto
    then have "k \<in> {0..5}" using s by auto
    from iv_of_sum_exact [OF this] show ?thesis by (simp only: k of_int_less_iff) auto
  next
    case False
    define a where "a = 20 * s div 9"
    have "20 * s mod 9 \<noteq> 0"
    proof
      assume "20 * s mod 9 = 0"
      then have "9 dvd 20 * s" by (simp add: dvd_eq_mod_eq_0)
      then have "9 dvd s" by presburger
      with False show False by (simp add: dvd_eq_mod_eq_0)
    qed
    then have a: "9 * a < 20 * s" "20 * s < 9 * (a + 1)" unfolding a_def by presburger+
    note b = iv_of_sum_between [OF s a]
    show ?thesis
    proof (cases "n \<le> a")
      case True
      then have "real_of_int n \<le> of_int a" by simp
      with b have "\<not> iv_of_sum s < of_int n" "of_int n < iv_of_sum s" by linarith+
      moreover have "9 * n < 20 * s" using a True by simp
      ultimately show ?thesis by simp
    next
      case False
      then have "real_of_int (a + 1) \<le> of_int n" by linarith
      with b have "iv_of_sum s < of_int n" "\<not> of_int n < iv_of_sum s" by linarith+
      moreover have "20 * s < 9 * n" using a False by simp
      ultimately show ?thesis by simp
    qed
  qed
  then show "iv_of_sum s < of_int n \<longleftrightarrow> 20 * s < 9 * n" and "of_int n < iv_of_sum s \<longleftrightarrow> 9 * n < 20 * s"
    by simp_all
qed

text \<open>C11: the IV of an encountered pokemon, computed in floating point, compares with a
  rule's integer bounds exactly as the rational percentage: a bound of 100 is met by 45 of 45 and by nothing
  less, and no rounding ever moves a pokemon across a threshold.\<close>

theorem iv_threshold_exact:
  assumes "pw_individual_attack p = Some a" "pw_individual_defense p = Some d"
    "pw_individual_stamina p = Some s" "a \<in> {0..15}" "d \<in> {0..15}" "s \<in> {0..15}" "\<bar>n\<bar> < 2 ^ 53"
  shows "(pp_iv (process_pokemon_webhook p rg cfg now) < f64_of_int n \<longleftrightarrow> 100 * (a + d + s) < 45 * n) \<and>
    (pp_iv (process_pokemon_webhook p rg cfg now) > f64_of_int n \<longleftrightarrow> 100 * (a + d + s) > 45 * n)"
proof -
  have iv: "pp_iv (process_pokemon_webhook p rg cfg now) = iv_of_sum (a + d + s)"
    using assms by (simp add: process_pokemon_webhook_def Let_def case_prod_unfold)
  have sum: "0 \<le> a + d + s" "a + d + s \<le> 45" using assms by simp_all
  show ?thesis
    unfolding iv f64_of_int_small [OF assms(7)] iv_of_sum_compare [OF sum] by linarith
qed

definition sample_webhook :: pokemon_webhook where
  "sample_webhook = \<lparr>pw_pokemon_id = 1, pw_form = 0, pw_latitude = 1, pw_longitude = 2,
     pw_disappear_time = 1000, pw_individual_attack = Some 15, pw_individual_defense = Some 14,
     pw_individual_stamina = Some 15, pw_cp = 500, pw_pokemon_level = 20, pw_gender = 1, pw_weight = 7,
     pw_size = 3, pw_costume = 0, pw_weather = 1, pw_boosted_weather = 0,
     pw_pvp = \<lparr>pf_pvp = [], pf_great = None, pf_ultra = None, pf_little = None\<rparr>\<rparr>"

lemma iv_threshold_exact_witness:
  "pp_iv (process_pokemon_webhook sample_webhook 0 sample_pvp_config 0) < f64_of_int 98 \<and>
   pp_iv (process_pokemon_webhook sample_webhook 0 sample_pvp_config 0) > f64_of_int 97"
  using iv_threshold_exact [of sample_webhook 15 14 15 98] iv_threshold_exact [of sample_webhook 15 14 15 97]
  by (simp add: sample_webhook_def)

section \<open>The candidates\<close>

text \<open>When a rule of the table fires for a pokemon, index aside.\<close>

definition plain_fires :: "pokemon_matcher \<Rightarrow> processed_pokemon \<Rightarrow> monster_tracking \<Rightarrow> bool" where
  "plain_fires pm p m \<longleftrightarrow> mt_pvp_ranking_league m = 0 \<and>
     (mt_pokemon_id m = 0 \<or> mt_pokemon_id m = pp_pokemon_id p) \<and>
     monster_matches pm p (pp_pokemon_id p) (pp_form p) True 0 no_league_rank m"

definition pvp_fires :: "pokemon_matcher \<Rightarrow> processed_pokemon \<Rightarrow> monster_tracking \<Rightarrow> bool" where
  "pvp_fires pm p m \<longleftrightarrow> mt_pvp_ranking_league m \<noteq> 0 \<and>
     (\<exists>ranks d. (mt_pvp_ranking_league m, ranks) \<in> set (pp_pvp_best_rank p) \<and> d \<in> set ranks \<and>
        lr_rank d \<le> pm_pvp_query_max_rank pm \<and>
        monster_matches pm p (pp_pokemon_id p) (pp_form p) True (mt_pvp_ranking_league m) d m)"

definition evo_fires :: "pokemon_matcher \<Rightarrow> processed_pokemon \<Rightarrow> monster_tracking \<Rightarrow> bool" where
  "evo_fires pm p m \<longleftrightarrow> mt_pvp_ranking_league m \<noteq> 0 \<and> mt_pokemon_id m \<noteq> 0 \<and> pm_pvp_evolution_direct_tracking pm \<and>
     (\<exists>sp leagues ranks d. (sp, leagues) \<in> set (pp_pvp_evo_data p) \<and>
        (mt_pvp_ranking_league m, ranks) \<in> set leagues \<and> d \<in> set ranks \<and>
        lr_rank d \<le> pm_pvp_query_max_rank pm \<and>
        monster_matches pm p sp (lr_form d) False (mt_pvp_ranking_league m) d m)"

lemma bucket_mem:
  assumes "index_inv ms idx"
  shows "m \<in> set (gget_or [] (mi_by_pokemon_id idx) k) \<longleftrightarrow>
           m \<in> set ms \<and> mt_pvp_ranking_league m = 0 \<and> mt_pokemon_id m = k"
    and "m \<in> set (gget_or [] (mi_pvp_specific idx) l) \<longleftrightarrow>
           m \<in> set ms \<and> mt_pvp_ranking_league m \<noteq> 0 \<and> mt_pvp_ranking_league m = l \<and> mt_pokemon_id m \<noteq> 0"
    and "m \<in> set (gget_or [] (mi_pvp_everything idx) l) \<longleftrightarrow>
           m \<in> set ms \<and> mt_pvp_ranking_league m \<noteq> 0 \<and> mt_pvp_ranking_league m = l \<and> mt_pokemon_id m = 0"
  using assms by (simp_all add: index_inv_def)

lemma best_rank_mem:
  assumes "index_inv ms idx"
  shows "m \<in> set (best_rank_candidates pm p idx) \<longleftrightarrow> m \<in> set ms \<and> pvp_fires pm p m"
  unfolding best_rank_candidates_def pvp_fires_def match_monsters_def
  using bucket_mem [OF assms] by (fastforce split: if_splits)

lemma evo_mem:
  assumes "index_inv ms idx"
  shows "m \<in> set (evo_candidates pm p idx) \<longleftrightarrow> m \<in> set ms \<and> evo_fires pm p m"
  unfolding evo_candidates_def evo_fires_def match_monsters_def
  using bucket_mem [OF assms] by (fastforce split: if_splits)

lemma pokemon_candidates_mem:
  assumes "index_inv ms idx"
  shows "m \<in> set (pokemon_candidates pm p idx) \<longleftrightarrow>
     m \<in> set ms \<and> (plain_fires pm p m \<or> pvp_fires pm p m \<or> evo_fires pm p m)"
  using best_rank_mem [OF assms] evo_mem [OF assms] bucket_mem [OF assms]
  by (auto simp: pokemon_candidates_def match_monsters_def plain_fires_def)

lemma map_filter_mem: "y \<in> set (List.map_filter f xs) \<longleftrightarrow> (\<exists>x \<in> set xs. f x = Some y)"
  by (induction xs) (auto simp: List.map_filter_simps split: option.splits)

lemma monster_validator_mem:
  "u \<in> set (validate_humans ev hs ms) \<longleftrightarrow>
     (\<exists>m \<in> set ms. \<exists>h. monster_deserves ev hs m h \<and> u = monster_user ev m h)"
proof -
  have "(case gget hs (mt_id m) of None \<Rightarrow> None
      | Some h \<Rightarrow> if monster_deserves ev hs m h then Some (monster_user ev m h) else None) = Some u \<longleftrightarrow>
      (\<exists>h. monster_deserves ev hs m h \<and> u = monster_user ev m h)" for m
  proof -
    have "monster_deserves ev hs m h \<Longrightarrow> gget hs (mt_id m) = Some h" for h
      by (simp add: monster_deserves_def entitled_def)
    then have "monster_deserves ev hs m h \<Longrightarrow> gget hs (mt_id m) = Some h' \<Longrightarrow> h' = h" for h h' by fastforce
    with \<open>\<And>h. monster_deserves ev hs m h \<Longrightarrow> gget hs (mt_id m) = Some h\<close> show ?thesis
      by (cases "gget hs (mt_id m)") (simp, fastforce, auto)
  qed
  then show ?thesis by (simp add: validate_humans_eq map_filter_mem)
qed

text \<open>C1: the pokemon matcher alerts exactly for the rules of the table that fire (a plain rule
  of the id or the catch-all, a PVP rule on a ranked league, a PVP rule on a tracked evolution), for the
  humans that deserve them: the index loses no rule and adds none.\<close>

theorem pokemon_match_exact:
  "u \<in> set (fst (pokemon_match search pm p (Some (st\<lparr>st_monsters := Some (build_monster_index ms)\<rparr>)))) \<longleftrightarrow>
     (\<exists>m \<in> set ms. \<exists>h.
        (plain_fires pm p m \<or> pvp_fires pm p m \<or> evo_fires pm p m) \<and>
        (let ev = snd (event_at search st (pm_area_security_enabled pm \<and> pm_strict_locations pm)
                        (pp_latitude p) (pp_longitude p))
         in monster_deserves ev (st_humans st) m h \<and> u = monster_user ev m h))"
proof -
  have ev: "event_at search (st\<lparr>st_monsters := x\<rparr>) b lat lon = event_at search st b lat lon" for x b lat lon
    by (simp add: event_at_def)
  show ?thesis
    by (auto simp: pokemon_match_def ev Let_def case_prod_unfold monster_validator_mem
        pokemon_candidates_mem [OF index_inv_build])
qed

section \<open>Rules without a human\<close>

lemma match_monsters_filter:
  "match_monsters pm p (filter P ms) ti tf ie l d = filter P (match_monsters pm p ms ti tf ie l d)"
  by (simp add: match_monsters_def filter_filter conj_commute)

lemma bucket_filter_orphans:
  "gget_or [] (mi_by_pokemon_id (filter_orphans hs idx)) k = filter_monsters hs (gget_or [] (mi_by_pokemon_id idx) k)"
  "gget_or [] (mi_pvp_specific (filter_orphans hs idx)) k = filter_monsters hs (gget_or [] (mi_pvp_specific idx) k)"
  "gget_or [] (mi_pvp_everything (filter_orphans hs idx)) k = filter_monsters hs (gget_or [] (mi_pvp_everything idx) k)"
  by (simp_all add: filter_orphans_def Let_def gget_or_mapv filter_monsters_def)

lemma candidates_filter_orphans:
  "pokemon_candidates pm p (filter_orphans hs idx) = filter_monsters hs (pokemon_candidates pm p idx)"
  by (simp add: pokemon_candidates_def best_rank_candidates_def evo_candidates_def bucket_filter_orphans
      filter_monsters_def match_monsters_filter filter_concat o_def case_prod_unfold if_distrib cong: if_cong)

lemma validate_humans_filter: "validate_humans ev hs (filter_monsters hs ms) = validate_humans ev hs ms"
  unfolding validate_humans_eq filter_monsters_def
  by (induction ms) (auto simp: List.map_filter_simps split: option.split)

text \<open>Dropping, at load, the rules whose human is not in the snapshot never changes an
  alert: the matcher gives the same users and areas on the filtered index.\<close>

theorem orphan_filter_invisible:
  "pokemon_match search pm p (Some (st\<lparr>st_monsters := Some (filter_orphans (st_humans st) idx)\<rparr>)) =
   pokemon_match search pm p (Some (st\<lparr>st_monsters := Some idx\<rparr>))"
  by (simp add: pokemon_match_def event_at_def candidates_filter_orphans validate_humans_filter)

section \<open>Widening a rule\<close>

text \<open>A rule that asks the same id, form, costume, gender and PVP constraints with wider ranges.\<close>

definition wider_rule :: "monster_tracking \<Rightarrow> monster_tracking \<Rightarrow> bool" where
  "wider_rule m m' \<longleftrightarrow>
     mt_pokemon_id m' = mt_pokemon_id m \<and> mt_form m' \<in> {0, mt_form m} \<and> mt_costume m' \<in> {9000, mt_costume m} \<and>
     mt_gender m' \<in> {0, mt_gender m} \<and> mt_pvp_ranking_evolution m' = mt_pvp_ranking_evolution m \<and>
     mt_pvp_ranking_worst m \<le> mt_pvp_ranking_worst m' \<and> mt_pvp_ranking_best m' \<le> mt_pvp_ranking_best m \<and>
     mt_pvp_ranking_min_cp m' \<le> mt_pvp_ranking_min_cp m \<and> mt_pvp_ranking_cap m' \<in> {0, mt_pvp_ranking_cap m} \<and>
     mt_min_iv m' \<le> mt_min_iv m \<and> mt_max_iv m \<le> mt_max_iv m' \<and> mt_min_time m' \<le> mt_min_time m \<and>
     mt_min_cp m' \<le> mt_min_cp m \<and> mt_max_cp m \<le> mt_max_cp m' \<and>
     mt_min_level m' \<le> mt_min_level m \<and> mt_max_level m \<le> mt_max_level m' \<and>
     mt_atk m' \<le> mt_atk m \<and> mt_max_atk m \<le> mt_max_atk m' \<and> mt_def m' \<le> mt_def m \<and> mt_max_def m \<le> mt_max_def m' \<and>
     mt_sta m' \<le> mt_sta m \<and> mt_max_sta m \<le> mt_max_sta m' \<and>
     mt_min_weight m' \<le> mt_min_weight m \<and> mt_max_weight m \<le> mt_max_weight m' \<and>
     mt_rarity m' \<le> mt_rarity m \<and> mt_max_rarity m \<le> mt_max_rarity m' \<and>
     mt_size m' \<le> mt_size m \<and> mt_max_size m \<le> mt_max_size m'"

lemma wider_pvp: "wider_rule m m' \<Longrightarrow> \<not> pvp_skips pm d m \<Longrightarrow> \<not> pvp_skips pm d m'"
  by (auto simp: wider_rule_def pvp_skips_def split: if_splits)

lemma wider_unencountered: "wider_rule m m' \<Longrightarrow> \<not> unencountered_skips m \<Longrightarrow> \<not> unencountered_skips m'"
  by (simp add: wider_rule_def unencountered_skips_def)

lemma wider_encountered: "wider_rule m m' \<Longrightarrow> \<not> encountered_skips p m \<Longrightarrow> \<not> encountered_skips p m'"
  by (simp add: wider_rule_def encountered_skips_def Let_def split: if_splits)

lemma monster_matches_iff:
  "monster_matches pm p ti tf ie league d m \<longleftrightarrow>
     (mt_pokemon_id m = ti \<or> ie \<and> mt_pokemon_id m = 0) \<and>
     (mt_form m = 0 \<or> mt_form m = (if tf \<noteq> 0 then tf else pp_form p)) \<and>
     (mt_costume m = 9000 \<or> mt_costume m = pp_costume p) \<and>
     (league = 0 \<or> \<not> pvp_skips pm d m) \<and>
     f64_of_int (mt_min_iv m) \<le> pp_iv p \<and> pp_iv p \<le> f64_of_int (mt_max_iv m) \<and>
     f64_of_int (mt_min_time m) \<le> pp_tth_seconds p \<and>
     (mt_gender m = 0 \<or> mt_gender m = pp_gender p) \<and>
     (if \<not> pp_encountered p then \<not> unencountered_skips m else \<not> encountered_skips p m) \<and>
     mt_rarity m \<le> pp_rarity_group p \<and> pp_rarity_group p \<le> mt_max_rarity m \<and>
     mt_size m \<le> pp_size p \<and> pp_size p \<le> mt_max_size m"
  unfolding monster_matches_def not_less [symmetric] by argo

text \<open>widening a rule never loses a match: a pokemon that passes a rule passes every rule
  with the same constraints and wider ranges, encountered or not.\<close>

theorem widening_keeps_match:
  assumes w: "wider_rule m m'" and match: "monster_matches pm p ti tf ie league d m"
  shows "monster_matches pm p ti tf ie league d m'"
proof -
  have fl: "f64_of_int (mt_min_iv m') \<le> f64_of_int (mt_min_iv m)" "f64_of_int (mt_max_iv m) \<le> f64_of_int (mt_max_iv m')"
    "f64_of_int (mt_min_time m') \<le> f64_of_int (mt_min_time m)"
    using w by (simp_all add: wider_rule_def f64_of_int_mono)
  have id: "mt_pokemon_id m' = mt_pokemon_id m" and fm: "mt_form m' \<in> {0, mt_form m}"
    and co: "mt_costume m' \<in> {9000, mt_costume m}" and ge: "mt_gender m' \<in> {0, mt_gender m}"
    and bounds: "mt_rarity m' \<le> mt_rarity m" "mt_max_rarity m \<le> mt_max_rarity m'"
      "mt_size m' \<le> mt_size m" "mt_max_size m \<le> mt_max_size m'"
    using w by (simp_all add: wider_rule_def)
  note mm = match [unfolded monster_matches_iff]
  have id': "mt_pokemon_id m = ti \<or> ie \<and> mt_pokemon_id m = 0" using mm by (elim conjE)
  have fm': "mt_form m = 0 \<or> mt_form m = (if tf \<noteq> 0 then tf else pp_form p)" using mm by (elim conjE)
  have co': "mt_costume m = 9000 \<or> mt_costume m = pp_costume p" using mm by (elim conjE)
  have pv': "league = 0 \<or> \<not> pvp_skips pm d m" using mm by (elim conjE)
  have ge': "mt_gender m = 0 \<or> mt_gender m = pp_gender p" using mm by (elim conjE)
  have en': "if \<not> pp_encountered p then \<not> unencountered_skips m else \<not> encountered_skips p m"
    using mm by (elim conjE)
  have ra': "f64_of_int (mt_min_iv m) \<le> pp_iv p" "pp_iv p \<le> f64_of_int (mt_max_iv m)"
    "f64_of_int (mt_min_time m) \<le> pp_tth_seconds p" "mt_rarity m \<le> pp_rarity_group p"
    "pp_rarity_group p \<le> mt_max_rarity m" "mt_size m \<le> pp_size p" "pp_size p \<le> mt_max_size m"
    using mm by blast+
  show ?thesis
    unfolding monster_matches_iff
  proof (intro conjI)
    show "mt_pokemon_id m' = ti \<or> ie \<and> mt_pokemon_id m' = 0" using id id' by simp
    show "mt_form m' = 0 \<or> mt_form m' = (if tf \<noteq> 0 then tf else pp_form p)" using fm fm' by auto
    show "mt_costume m' = 9000 \<or> mt_costume m' = pp_costume p" using co co' by auto
    show "mt_gender m' = 0 \<or> mt_gender m' = pp_gender p" using ge ge' by auto
    show "league = 0 \<or> \<not> pvp_skips pm d m'" using pv' wider_pvp [OF w] by auto
    show "if \<not> pp_encountered p then \<not> unencountered_skips m' else \<not> encountered_skips p m'"
      using en' wider_unencountered [OF w] wider_encountered [OF w] by (simp split: if_splits)
  qed (use bounds fl ra' in linarith)+
qed

definition sample_rule :: monster_tracking where
  "sample_rule = \<lparr>mt_uid = 1, mt_id = ''u1'', mt_profile_no = 1, mt_pokemon_id = 1, mt_form = 0, mt_costume = 9000,
     mt_distance = 0, mt_min_iv = 90, mt_max_iv = 100, mt_min_cp = 0, mt_max_cp = 9000, mt_min_level = 0,
     mt_max_level = 55, mt_atk = 0, mt_def = 0, mt_sta = 0, mt_max_atk = 15, mt_max_def = 15, mt_max_sta = 15,
     mt_gender = 0, mt_min_weight = 0, mt_max_weight = 9000000, mt_min_time = 0, mt_rarity = -1,
     mt_max_rarity = 6, mt_size = 1, mt_max_size = 5, mt_template = ''1'', mt_clean = 0, mt_ping = [],
     mt_pvp_ranking_league = 0, mt_pvp_ranking_best = 1, mt_pvp_ranking_worst = 4096, mt_pvp_ranking_min_cp = 0,
     mt_pvp_ranking_cap = 0, mt_pvp_ranking_evolution = 0, mt_override_location_label = [],
     mt_override_areas_raw = [], mt_override_areas = []\<rparr>"

definition sample_pokemon :: processed_pokemon where
  "sample_pokemon = \<lparr>pp_pokemon_id = 1, pp_form = 0, pp_costume = 0, pp_iv = 98, pp_cp = 500, pp_level = 20,
     pp_atk = 15, pp_def = 14, pp_sta = 15, pp_gender = 1, pp_weight = 7, pp_size = 3, pp_rarity_group = 1,
     pp_tth_seconds = 600, pp_latitude = 1, pp_longitude = 2, pp_encountered = True,
     pp_pvp_best_rank = [], pp_pvp_evo_data = []\<rparr>"

lemma sample_weight: "int_of_f64 (fmul 7 1000) = 7000"
  using f64_round_int [of 7000] int_of_f64_of_int [of 7000] by (simp add: fmul_def)

definition sample_matcher :: pokemon_matcher where
  "sample_matcher = \<lparr>pm_pvp_query_max_rank = 100, pm_pvp_evolution_direct_tracking = False,
     pm_strict_locations = False, pm_area_security_enabled = False, pm_include_mega_evolution = False\<rparr>"

lemma widening_keeps_match_witness:
  "monster_matches sample_matcher sample_pokemon 1 0 True 0 no_league_rank (sample_rule\<lparr>mt_min_iv := 80\<rparr>)"
  by (rule widening_keeps_match [of sample_rule])
    (simp_all add: wider_rule_def monster_matches_def sample_rule_def sample_pokemon_def encountered_skips_def
      sample_weight f64_of_int_small [of 90, simplified] f64_of_int_small [of 100, simplified]
      f64_of_int_small [of 0, simplified])

end
