(* ===== verification/EventMatch.thy ===== *)
theory EventMatch
  imports Validate
begin

text \<open>
  The matchers of package \<open>matching\<close> for raids and eggs (\<open>raid.go\<close>), gyms (\<open>gym.go\<close>), quests
  (\<open>quest.go\<close>), max battles (\<open>maxbattle.go\<close>), forts (\<open>fort.go\<close>), invasions (\<open>invasion.go\<close>), lures
  (\<open>lure.go\<close>) and nests (\<open>nest.go\<close>): each selects rules with its guards, turns them into user data, and
  hands them to a validator. \<open>x_wants\<close> is the conjunction of the \<open>continue\<close> guards, in their order.
\<close>

record matcher =
  mc_strict_locations :: bool
  mc_area_security_enabled :: bool

definition strict_of :: "matcher \<Rightarrow> bool" where
  "strict_of m \<longleftrightarrow> mc_area_security_enabled m \<and> mc_strict_locations m"

section \<open>Raids and eggs\<close>

record raid_data =
  ra_gym_id :: string
  ra_pokemon_id :: int
  ra_form :: int
  ra_costume :: int
  ra_level :: int
  ra_team_id :: int
  ra_ex :: bool
  ra_evolution :: int
  ra_move1 :: int
  ra_move2 :: int
  ra_latitude :: f64
  ra_longitude :: f64

record egg_data =
  eg_gym_id :: string
  eg_level :: int
  eg_team_id :: int
  eg_ex :: bool
  eg_latitude :: f64
  eg_longitude :: f64

definition ex_val :: "bool \<Rightarrow> int" where "ex_val b = (if b then 1 else 0)"

definition raid_wants :: "raid_data \<Rightarrow> raid_tracking \<Rightarrow> bool" where
  "raid_wants raid r \<longleftrightarrow>
     \<not> (rt_pokemon_id r \<noteq> ra_pokemon_id raid \<and>
        (rt_pokemon_id r \<noteq> 9000 \<or> (rt_level r \<noteq> ra_level raid \<and> rt_level r \<noteq> 90))) \<and>
     \<not> (rt_team r \<noteq> ra_team_id raid \<and> rt_team r \<noteq> 4) \<and>
     \<not> (ex_val (rt_exclusive r) \<noteq> ex_val (ra_ex raid) \<and> ex_val (rt_exclusive r) \<noteq> 0) \<and>
     \<not> (rt_form r \<noteq> ra_form raid \<and> rt_form r \<noteq> 0) \<and>
     \<not> (rt_evolution r \<noteq> 9000 \<and> rt_evolution r \<noteq> ra_evolution raid) \<and>
     \<not> (rt_costume r \<noteq> 9000 \<and> rt_costume r \<noteq> ra_costume raid) \<and>
     \<not> (rt_move r \<noteq> 9000 \<and> rt_move r \<noteq> ra_move1 raid \<and> rt_move r \<noteq> ra_move2 raid) \<and>
     (case rt_gym_id r of None \<Rightarrow> True | Some g \<Rightarrow> g = ra_gym_id raid)"

definition raid_td :: "raid_data \<Rightarrow> raid_tracking \<Rightarrow> raid_user_data" where
  "raid_td raid r = \<lparr>rd_human_id = rt_id r, rd_profile_no = rt_profile_no r, rd_distance = rt_distance r,
     rd_template = rt_template r, rd_clean = rt_clean r, rd_ping = rt_ping r,
     rd_rsvp_changes = rt_rsvp_changes r, rd_uid = rt_uid r,
     rd_is_specific_match = (case rt_gym_id r of None \<Rightarrow> False | Some g \<Rightarrow> g = ra_gym_id raid),
     rd_override_location_label = rt_override_location_label r, rd_override_areas = rt_override_areas r\<rparr>"

definition match_raid ::
    "rtree_search \<Rightarrow> matcher \<Rightarrow> raid_data \<Rightarrow> state option \<Rightarrow> matched_user list \<times> web_area list" where
  "match_raid search mc raid sto = (case sto of None \<Rightarrow> ([], [])
     | Some st \<Rightarrow>
         (let (areas, ev) = event_at search st (strict_of mc) (ra_latitude raid) (ra_longitude raid);
              tracking = map (raid_td raid) (filter (raid_wants raid) (st_raids st))
          in (validate_humans_for_raid ev (st_humans st) ''raid'' tracking, convert_areas areas)))"

definition egg_wants :: "egg_data \<Rightarrow> egg_tracking \<Rightarrow> bool" where
  "egg_wants egg e \<longleftrightarrow>
     \<not> (et_level e \<noteq> eg_level egg \<and> et_level e \<noteq> 90) \<and>
     \<not> (et_team e \<noteq> eg_team_id egg \<and> et_team e \<noteq> 4) \<and>
     \<not> (ex_val (et_exclusive e) \<noteq> ex_val (eg_ex egg) \<and> ex_val (et_exclusive e) \<noteq> 0) \<and>
     (case et_gym_id e of None \<Rightarrow> True | Some g \<Rightarrow> g = eg_gym_id egg)"

definition egg_td :: "egg_data \<Rightarrow> egg_tracking \<Rightarrow> raid_user_data" where
  "egg_td egg e = \<lparr>rd_human_id = et_id e, rd_profile_no = et_profile_no e, rd_distance = et_distance e,
     rd_template = et_template e, rd_clean = et_clean e, rd_ping = et_ping e,
     rd_rsvp_changes = et_rsvp_changes e, rd_uid = et_uid e,
     rd_is_specific_match = (case et_gym_id e of None \<Rightarrow> False | Some g \<Rightarrow> g = eg_gym_id egg),
     rd_override_location_label = et_override_location_label e, rd_override_areas = et_override_areas e\<rparr>"

definition match_egg ::
    "rtree_search \<Rightarrow> matcher \<Rightarrow> egg_data \<Rightarrow> state option \<Rightarrow> matched_user list \<times> web_area list" where
  "match_egg search mc egg sto = (case sto of None \<Rightarrow> ([], [])
     | Some st \<Rightarrow>
         (let (areas, ev) = event_at search st (strict_of mc) (eg_latitude egg) (eg_longitude egg);
              tracking = map (egg_td egg) (filter (egg_wants egg) (st_eggs st))
          in (validate_humans_for_raid ev (st_humans st) ''egg'' tracking, convert_areas areas)))"

section \<open>Gyms\<close>

record gym_data =
  gd_gym_id :: string
  gd_team_id :: int
  gd_old_team_id :: int
  gd_slots_available :: int
  gd_old_slots_available :: int
  gd_in_battle :: bool
  gd_latitude :: f64
  gd_longitude :: f64

definition gym_wants :: "gym_data \<Rightarrow> gym_tracking \<Rightarrow> bool" where
  "gym_wants d g \<longleftrightarrow>
     (let team_changed = gd_old_team_id d \<noteq> gd_team_id d;
          slots_changed = gd_old_slots_available d \<noteq> gd_slots_available d
      in \<not> (gt_team g \<noteq> gd_team_id d \<and> gt_team g \<noteq> 4) \<and>
         (if \<not> team_changed
          then slots_changed \<and> gt_slot_changes g \<or> gd_in_battle d \<and> gt_battle_changes g else True) \<and>
         (case gt_gym_id g of None \<Rightarrow> True | Some i \<Rightarrow> i = gd_gym_id d))"

definition gym_td :: "gym_data \<Rightarrow> gym_tracking \<Rightarrow> tracking_user_data" where
  "gym_td d g = \<lparr>td_human_id = gt_id g, td_profile_no = gt_profile_no g, td_distance = gt_distance g,
     td_template = gt_template g, td_clean = gt_clean g, td_ping = gt_ping g, td_uid = gt_uid g,
     td_is_specific_match = (case gt_gym_id g of None \<Rightarrow> False | Some i \<Rightarrow> i = gd_gym_id d),
     td_override_location_label = gt_override_location_label g, td_override_areas = gt_override_areas g\<rparr>"

definition match_gyms :: "gym_data \<Rightarrow> gym_tracking list \<Rightarrow> tracking_user_data list" where
  "match_gyms d rules = map (gym_td d) (filter (gym_wants d) rules)"

definition gym_match ::
    "rtree_search \<Rightarrow> matcher \<Rightarrow> gym_data \<Rightarrow> state option \<Rightarrow> matched_user list \<times> web_area list" where
  "gym_match search mc d sto = (case sto of None \<Rightarrow> ([], [])
     | Some st \<Rightarrow>
         (let (areas, ev) = event_at search st (strict_of mc) (gd_latitude d) (gd_longitude d)
          in (validate_humans_for_gym ev (st_humans st) (match_gyms d (st_gyms st)), convert_areas areas)))"

section \<open>Quests\<close>

record quest_reward_data =
  qr_type :: int
  qr_pokemon_id :: int
  qr_item_id :: int
  qr_amount :: int
  qr_form_id :: int
  qr_shiny :: bool

record quest_data =
  qd_pokestop_id :: string
  qd_latitude :: f64
  qd_longitude :: f64
  qd_rewards :: "quest_reward_data list"

definition single_reward_matches :: "quest_tracking \<Rightarrow> quest_reward_data \<Rightarrow> bool" where
  "single_reward_matches q r =
     (if qt_reward_type q \<noteq> qr_type r then False
      else if qr_type r = 7 then
        (if qt_reward q \<noteq> 0 \<and> qt_reward q \<noteq> qr_pokemon_id r then False
         else if qt_form q \<noteq> 0 \<and> qt_form q \<noteq> qr_form_id r then False
         else if qt_shiny q \<and> \<not> qr_shiny r then False else True)
      else if qr_type r = 2 then
        (if qt_reward q \<noteq> 0 \<and> qt_reward q \<noteq> qr_item_id r then False
         else if qt_amount q > 0 \<and> qr_amount r < qt_amount q then False else True)
      else if qr_type r = 3 then (if qt_reward q > qr_amount r then False else True)
      else if qr_type r = 8 then (if qt_reward q > qr_amount r then False else True)
      else if qr_type r = 12 then
        (if qt_reward q \<noteq> 0 \<and> qt_reward q \<noteq> qr_pokemon_id r then False
         else if qt_amount q > 0 \<and> qr_amount r < qt_amount q then False else True)
      else if qr_type r = 4 then
        (if qt_reward q \<noteq> 0 \<and> qt_reward q \<noteq> qr_pokemon_id r then False
         else if qt_amount q > 0 \<and> qr_amount r < qt_amount q then False else True)
      else False)"

fun quest_reward_matches :: "quest_tracking \<Rightarrow> quest_reward_data list \<Rightarrow> bool" where
  "quest_reward_matches q [] = False"
| "quest_reward_matches q (r # rs) = (if single_reward_matches q r then True else quest_reward_matches q rs)"

definition quest_td :: "quest_tracking \<Rightarrow> tracking_user_data" where
  "quest_td q = \<lparr>td_human_id = qt_id q, td_profile_no = qt_profile_no q, td_distance = qt_distance q,
     td_template = qt_template q, td_clean = qt_clean q, td_ping = qt_ping q, td_uid = qt_uid q,
     td_is_specific_match = False,
     td_override_location_label = qt_override_location_label q, td_override_areas = qt_override_areas q\<rparr>"

text \<open>The loop over the rules, which appends each match to one of the two lists.\<close>

fun split_quests ::
    "quest_reward_data list \<Rightarrow> quest_tracking list \<Rightarrow> tracking_user_data list \<Rightarrow> tracking_user_data list
     \<Rightarrow> tracking_user_data list \<times> tracking_user_data list" where
  "split_quests rewards [] imm buf = (imm, buf)"
| "split_quests rewards (q # qs) imm buf =
     (if \<not> quest_reward_matches q rewards then split_quests rewards qs imm buf
      else if is_summary (qt_clean q) then split_quests rewards qs imm (buf @ [quest_td q])
      else split_quests rewards qs (imm @ [quest_td q]) buf)"

definition quest_match ::
    "rtree_search \<Rightarrow> matcher \<Rightarrow> quest_data \<Rightarrow> state option
     \<Rightarrow> matched_user list \<times> matched_user list \<times> web_area list" where
  "quest_match search mc d sto = (case sto of None \<Rightarrow> ([], [], [])
     | Some st \<Rightarrow>
         (let (areas, ev) = event_at search st (strict_of mc) (qd_latitude d) (qd_longitude d);
              (imm, buf) = split_quests (qd_rewards d) (st_quests st) [] []
          in (validate_humans_generic ev (st_humans st) ''quest'' imm,
              validate_humans_generic ev (st_humans st) ''quest'' buf, convert_areas areas)))"

section \<open>Max battles\<close>

record maxbattle_data =
  xd_station_id :: string
  xd_pokemon_id :: int
  xd_form :: int
  xd_level :: int
  xd_gmax :: int
  xd_evolution :: int
  xd_move1 :: int
  xd_move2 :: int
  xd_latitude :: f64
  xd_longitude :: f64

definition maxbattle_wants :: "maxbattle_data \<Rightarrow> maxbattle_tracking \<Rightarrow> bool" where
  "maxbattle_wants d m \<longleftrightarrow>
     (if xt_pokemon_id m = 9000 then \<not> (xt_level m \<noteq> xd_level d \<and> xt_level m \<noteq> 90)
      else xt_pokemon_id m = xd_pokemon_id d) \<and>
     \<not> (xt_gmax m = 1 \<and> xd_gmax d \<noteq> 1) \<and>
     \<not> (xt_form m \<noteq> 0 \<and> xt_form m \<noteq> xd_form d) \<and>
     \<not> (xt_evolution m \<noteq> 9000 \<and> xt_evolution m \<noteq> xd_evolution d) \<and>
     \<not> (xt_move m \<noteq> 9000 \<and> xt_move m \<noteq> xd_move1 d \<and> xt_move m \<noteq> xd_move2 d) \<and>
     (case xt_station_id m of None \<Rightarrow> True | Some s \<Rightarrow> s = xd_station_id d)"

definition maxbattle_td :: "maxbattle_tracking \<Rightarrow> tracking_user_data" where
  "maxbattle_td m = \<lparr>td_human_id = xt_id m, td_profile_no = xt_profile_no m, td_distance = xt_distance m,
     td_template = xt_template m, td_clean = xt_clean m, td_ping = xt_ping m, td_uid = xt_uid m,
     td_is_specific_match = (xt_station_id m \<noteq> None),
     td_override_location_label = xt_override_location_label m, td_override_areas = xt_override_areas m\<rparr>"

definition station_blocked :: "humans \<Rightarrow> tracking_user_data \<Rightarrow> bool" where
  "station_blocked hs td \<longleftrightarrow> td_is_specific_match td \<and>
     (case gget hs (td_human_id td) of None \<Rightarrow> False | Some h \<Rightarrow> ''specificstation'' \<in> h_blocked_set h)"

definition maxbattle_match ::
    "rtree_search \<Rightarrow> matcher \<Rightarrow> maxbattle_data \<Rightarrow> state option \<Rightarrow> matched_user list \<times> web_area list" where
  "maxbattle_match search mc d sto = (case sto of None \<Rightarrow> ([], [])
     | Some st \<Rightarrow>
         (let (areas, ev) = event_at search st (strict_of mc) (xd_latitude d) (xd_longitude d);
              trackings = map maxbattle_td (filter (maxbattle_wants d) (st_maxbattles st));
              filtered = filter (\<lambda>td. \<not> station_blocked (st_humans st) td) trackings
          in (validate_humans_generic ev (st_humans st) ''maxbattle'' filtered, convert_areas areas)))"

section \<open>Forts\<close>

record fort_data =
  fd_id :: string
  fd_fort_type :: string
  fd_is_empty :: bool
  fd_change_types :: "string list"
  fd_latitude :: f64
  fd_longitude :: f64

definition change_types_match :: "string \<Rightarrow> string list \<Rightarrow> bool" where
  "change_types_match tracked_json actual =
     (case unmarshal_strings tracked_json of
        (tracked, True) \<Rightarrow> list_ex (\<lambda>a. list_ex (\<lambda>t. equal_fold t a) (slice_of tracked)) actual
      | _ \<Rightarrow> False)"

definition fort_wants :: "fort_data \<Rightarrow> fort_tracking \<Rightarrow> bool" where
  "fort_wants d f \<longleftrightarrow>
     (let ft = to_lower (ft_fort_type f)
      in \<not> (ft \<noteq> to_lower (fd_fort_type d) \<and> ft \<noteq> ''everything'') \<and>
         \<not> (fd_is_empty d \<and> \<not> ft_include_empty f) \<and>
         (if ft_change_types f \<noteq> ''[]'' \<and> ft_change_types f \<noteq> []
          then change_types_match (ft_change_types f) (fd_change_types d) else True))"

definition fort_td :: "fort_tracking \<Rightarrow> tracking_user_data" where
  "fort_td f = \<lparr>td_human_id = ft_id f, td_profile_no = ft_profile_no f, td_distance = ft_distance f,
     td_template = ft_template f, td_clean = 0, td_ping = ft_ping f, td_uid = ft_uid f,
     td_is_specific_match = False,
     td_override_location_label = ft_override_location_label f, td_override_areas = ft_override_areas f\<rparr>"

definition fort_match ::
    "rtree_search \<Rightarrow> matcher \<Rightarrow> fort_data \<Rightarrow> state option \<Rightarrow> matched_user list \<times> web_area list" where
  "fort_match search mc d sto = (case sto of None \<Rightarrow> ([], [])
     | Some st \<Rightarrow>
         (let (areas, ev) = event_at search st (strict_of mc) (fd_latitude d) (fd_longitude d)
          in (validate_humans_generic ev (st_humans st) ''forts''
                (map fort_td (filter (fort_wants d) (st_forts st))), convert_areas areas)))"

section \<open>Invasions\<close>

record invasion_data =
  id_pokestop_id :: string
  id_grunt_type :: string
  id_boss :: bool
  id_gender :: int
  id_latitude :: f64
  id_longitude :: f64

definition invasion_wants :: "invasion_data \<Rightarrow> invasion_tracking \<Rightarrow> bool" where
  "invasion_wants d r \<longleftrightarrow>
     (let grunt = to_lower (id_grunt_type d); inv = to_lower (it_grunt_type r)
      in \<not> (inv \<noteq> grunt \<and> inv \<noteq> ''everything'' \<and> (inv \<noteq> ''boss'' \<or> \<not> id_boss d)) \<and>
         \<not> (it_gender r \<noteq> id_gender d \<and> it_gender r \<noteq> 0))"

definition invasion_td :: "invasion_tracking \<Rightarrow> tracking_user_data" where
  "invasion_td r = \<lparr>td_human_id = it_id r, td_profile_no = it_profile_no r, td_distance = it_distance r,
     td_template = it_template r, td_clean = it_clean r, td_ping = it_ping r, td_uid = it_uid r,
     td_is_specific_match = False,
     td_override_location_label = it_override_location_label r, td_override_areas = it_override_areas r\<rparr>"

definition invasion_match ::
    "rtree_search \<Rightarrow> matcher \<Rightarrow> invasion_data \<Rightarrow> state option \<Rightarrow> matched_user list \<times> web_area list" where
  "invasion_match search mc d sto = (case sto of None \<Rightarrow> ([], [])
     | Some st \<Rightarrow>
         (let (areas, ev) = event_at search st (strict_of mc) (id_latitude d) (id_longitude d)
          in (validate_humans_generic ev (st_humans st) ''invasion''
                (map invasion_td (filter (invasion_wants d) (st_invasions st))), convert_areas areas)))"

text \<open>The parts of the game data the grunt names come from.\<close>

record grunt =
  gr_type_id :: int
  gr_template :: string
  gr_gender :: int
  gr_boss :: bool

record game_data =
  gm_pokestop_event :: "(int, string) gomap"
  gm_grunts :: "(int, grunt) gomap"
  gm_types :: "(int, string) gomap"

definition type_name_from_template :: "string \<Rightarrow> string" where
  "type_name_from_template template =
     (if str_contains template ''METAL'' then ''steel''
      else if str_contains template ''DARKNESS'' then ''darkness''
      else if str_contains template ''GRUNTB'' then ''gruntb''
      else if template = ''CHARACTER_GRUNT_MALE'' \<or> template = ''CHARACTER_GRUNT_FEMALE'' then ''mixed''
      else let t = trim_prefix template ''CHARACTER_''
           in (case str_index t ''_GRUNT'' of
                 Some (Suc i) \<Rightarrow> to_lower (take (Suc i) t)
               | _ \<Rightarrow>
                   let t = trim_prefix t ''EVENT_''; t = trim_prefix t ''EXECUTIVE_''
                   in to_lower (foldl trim_suffix t
                        [''_UNTICKETED'', ''_TICKETED'', ''_NOEVOLVE'', ''_MALE'', ''_FEMALE''])))"

definition resolve_grunt_type_name :: "int \<Rightarrow> int \<Rightarrow> game_data option \<Rightarrow> string" where
  "resolve_grunt_type_name grunt_type_id display_type gd =
     (if display_type \<ge> 7 \<and> gd \<noteq> None
      then (case gget (gm_pokestop_event (the gd)) display_type of
              Some name \<Rightarrow> to_lower name
            | None \<Rightarrow> ''e'' @ itoa display_type)
      else if grunt_type_id = 0 then ''0''
      else case gd of
             None \<Rightarrow> itoa grunt_type_id
           | Some g \<Rightarrow>
               (case gget (gm_grunts g) grunt_type_id of
                  None \<Rightarrow> itoa grunt_type_id
                | Some gr \<Rightarrow>
                    (case (if gr_type_id gr > 0 then gget (gm_types g) (gr_type_id gr) else None) of
                       Some name \<Rightarrow> to_lower name
                     | None \<Rightarrow> type_name_from_template (gr_template gr))))"

section \<open>Lures and nests\<close>

record lure_data =
  ld_pokestop_id :: string
  ld_lure_id :: int
  ld_latitude :: f64
  ld_longitude :: f64

definition lure_wants :: "lure_data \<Rightarrow> lure_tracking \<Rightarrow> bool" where
  "lure_wants d l \<longleftrightarrow> \<not> (lt_lure_id l \<noteq> ld_lure_id d \<and> lt_lure_id l \<noteq> 0)"

definition lure_td :: "lure_tracking \<Rightarrow> tracking_user_data" where
  "lure_td l = \<lparr>td_human_id = lt_id l, td_profile_no = lt_profile_no l, td_distance = lt_distance l,
     td_template = lt_template l, td_clean = lt_clean l, td_ping = lt_ping l, td_uid = lt_uid l,
     td_is_specific_match = False,
     td_override_location_label = lt_override_location_label l, td_override_areas = lt_override_areas l\<rparr>"

definition lure_match ::
    "rtree_search \<Rightarrow> matcher \<Rightarrow> lure_data \<Rightarrow> state option \<Rightarrow> matched_user list \<times> web_area list" where
  "lure_match search mc d sto = (case sto of None \<Rightarrow> ([], [])
     | Some st \<Rightarrow>
         (let (areas, ev) = event_at search st (strict_of mc) (ld_latitude d) (ld_longitude d)
          in (validate_humans_generic ev (st_humans st) ''lure''
                (map lure_td (filter (lure_wants d) (st_lures st))), convert_areas areas)))"

record nest_data =
  nd_nest_id :: int
  nd_pokemon_id :: int
  nd_form :: int
  nd_pokemon_avg :: f64
  nd_latitude :: f64
  nd_longitude :: f64

definition nest_wants :: "nest_data \<Rightarrow> nest_tracking \<Rightarrow> bool" where
  "nest_wants d n \<longleftrightarrow>
     \<not> (nt_pokemon_id n \<noteq> nd_pokemon_id d \<and> nt_pokemon_id n \<noteq> 0) \<and>
     \<not> (nt_form n \<noteq> nd_form d \<and> nt_form n \<noteq> 0) \<and>
     \<not> f64_of_int (nt_min_spawn_avg n) > nd_pokemon_avg d"

definition nest_td :: "nest_tracking \<Rightarrow> tracking_user_data" where
  "nest_td n = \<lparr>td_human_id = nt_id n, td_profile_no = nt_profile_no n, td_distance = nt_distance n,
     td_template = nt_template n, td_clean = nt_clean n, td_ping = nt_ping n, td_uid = nt_uid n,
     td_is_specific_match = False,
     td_override_location_label = nt_override_location_label n, td_override_areas = nt_override_areas n\<rparr>"

definition nest_match ::
    "rtree_search \<Rightarrow> matcher \<Rightarrow> nest_data \<Rightarrow> state option \<Rightarrow> matched_user list \<times> web_area list" where
  "nest_match search mc d sto = (case sto of None \<Rightarrow> ([], [])
     | Some st \<Rightarrow>
         (let (areas, ev) = event_at search st (strict_of mc) (nd_latitude d) (nd_longitude d)
          in (validate_humans_generic ev (st_humans st) ''nest''
                (map nest_td (filter (nest_wants d) (st_nests st))), convert_areas areas)))"

section \<open>Properties\<close>

lemma raid_td_simps [simp]:
  "rd_human_id (raid_td raid r) = rt_id r" "rd_profile_no (raid_td raid r) = rt_profile_no r"
  "rd_distance (raid_td raid r) = rt_distance r" "rd_override_location_label (raid_td raid r) = rt_override_location_label r"
  "rd_override_areas (raid_td raid r) = rt_override_areas r"
  by (simp_all add: raid_td_def)

text \<open>When a raid rule is for a human: the conditions on the human, then either the very gym, or
  the reach of the rule.\<close>

definition raid_rule_alerts :: "event_ctx \<Rightarrow> humans \<Rightarrow> raid_data \<Rightarrow> raid_tracking \<Rightarrow> human \<Rightarrow> bool" where
  "raid_rule_alerts ev hs raid r h \<longleftrightarrow> raid_wants raid r \<and>
     entitled hs ''raid'' (rt_id r) (rt_profile_no r) h \<and> unrestricted ev h \<and>
     (case rt_gym_id r of
        Some g \<Rightarrow> g = ra_gym_id raid \<and> ''specificgym'' \<notin> h_blocked_set h
      | None \<Rightarrow> in_reach ev (rt_override_location_label r) (rt_override_areas r) (rt_distance r) h)"

lemma raid_rule_alerts_iff:
  "raid_wants raid r \<and> raid_accepts ev hs ''raid'' (raid_td raid r) = Some h \<longleftrightarrow> raid_rule_alerts ev hs raid r h"
  by (auto simp: raid_rule_alerts_def raid_accepts_iff raid_deserves_def raid_wants_def raid_td_def split: option.split)

text \<open>C9: the raid matcher alerts a human exactly when some raid rule of theirs alerts, and then
  by the first such rule of the table; a rule for this very gym ignores distance and areas, but neither the
  ``specificgym'' block nor an enforced area restriction.\<close>

theorem raid_match_exact:
  "u \<in> set (fst (match_raid search mc raid (Some st))) \<longleftrightarrow>
     (let ev = snd (event_at search st (strict_of mc) (ra_latitude raid) (ra_longitude raid)); hs = st_humans st
      in \<exists>ys r zs h. st_raids st = ys @ r # zs \<and> raid_rule_alerts ev hs raid r h \<and>
           u = raid_user ev (raid_td raid r) h \<and>
           (\<forall>r' \<in> set ys. \<nexists>h'. raid_rule_alerts ev hs raid r' h' \<and> h_id h' = h_id h))"
proof -
  let ?ev = "snd (event_at search st (strict_of mc) (ra_latitude raid) (ra_longitude raid))"
  have fst: "fst (match_raid search mc raid (Some st)) =
      raid_loop ?ev (st_humans st) ''raid'' {} (map (raid_td raid) (filter (raid_wants raid) (st_raids st)))"
    by (simp add: match_raid_def validate_humans_for_raid_def case_prod_unfold Let_def)
  show ?thesis
    unfolding fst rv.run_rules Let_def raid_rule_alerts_iff [symmetric] by blast
qed

definition open_matcher :: matcher where
  "open_matcher = \<lparr>mc_strict_locations = False, mc_area_security_enabled = False\<rparr>"

definition sample_raid :: raid_data where
  "sample_raid = \<lparr>ra_gym_id = ''g'', ra_pokemon_id = 150, ra_form = 0, ra_costume = 0, ra_level = 5, ra_team_id = 1,
     ra_ex = False, ra_evolution = 0, ra_move1 = 1, ra_move2 = 2, ra_latitude = 1, ra_longitude = 2\<rparr>"

definition sample_raid_rule :: raid_tracking where
  "sample_raid_rule = \<lparr>rt_uid = 3, rt_id = ''u1'', rt_profile_no = 1, rt_pokemon_id = 9000, rt_level = 90, rt_team = 4,
     rt_exclusive = False, rt_form = 0, rt_costume = 9000, rt_evolution = 9000, rt_move = 9000,
     rt_gym_id = Some ''g'', rt_distance = 1, rt_template = ''1'', rt_clean = 0, rt_ping = [], rt_rsvp_changes = 0,
     rt_override_location_label = [], rt_override_areas_raw = [], rt_override_areas = []\<rparr>"

lemma raid_match_exact_witness:
  "raid_user (snd (event_at (\<lambda>_ _ _. []) sample_state False 1 2)) (raid_td sample_raid sample_raid_rule) sample_human
     \<in> set (fst (match_raid (\<lambda>_ _ _. []) open_matcher sample_raid
              (Some (sample_state\<lparr>st_raids := [sample_raid_rule]\<rparr>))))"
proof -
  have "raid_rule_alerts (snd (event_at (\<lambda>_ _ _. []) sample_state False 1 2)) (st_humans sample_state)
      sample_raid sample_raid_rule sample_human"
    by (simp add: raid_rule_alerts_def raid_wants_def entitled_def unrestricted_def sample_raid_def
        sample_raid_rule_def sample_state_def sample_human_def gget_Cons event_at_def point_areas_and_names_def)
  then show ?thesis
    unfolding raid_match_exact Let_def
    by (intro exI [of _ "[]"] exI [of _ sample_raid_rule] exI [of _ "[]"] exI [of _ sample_human])
      (simp add: event_at_def strict_of_def open_matcher_def sample_state_def sample_raid_def)
qed

text \<open>a gym event with no change of team alerts nobody unless its slots changed or a battle is
  on, and then only by rules that ask for slot or battle changes.\<close>

theorem gym_no_change_silent:
  assumes "gd_old_team_id d = gd_team_id d"
    and "u \<in> set (fst (gym_match search mc d (Some st)))"
  shows "\<exists>g \<in> set (st_gyms st). mu_rule_uid u = gt_uid g \<and>
     (gd_old_slots_available d \<noteq> gd_slots_available d \<and> gt_slot_changes g \<or> gd_in_battle d \<and> gt_battle_changes g)"
proof -
  let ?ev = "snd (event_at search st (strict_of mc) (gd_latitude d) (gd_longitude d))"
  from assms(2) have "u \<in> set (gym_loop ?ev (st_humans st) {} (map (gym_td d) (filter (gym_wants d) (st_gyms st))))"
    by (simp add: gym_match_def match_gyms_def validate_humans_for_gym_def case_prod_unfold Let_def)
  then obtain g h where g: "g \<in> set (st_gyms st)" "gym_wants d g" "u = generic_user ?ev (gym_td d g) h"
    by (rule yv.run_rulesE)
  from g(3) have "mu_rule_uid u = gt_uid g"
    by (simp add: generic_user_def gym_td_def Let_def case_prod_unfold)
  with g(1,2) assms(1) show ?thesis by (auto simp: gym_wants_def Let_def)
qed

definition sample_gym :: gym_data where
  "sample_gym = \<lparr>gd_gym_id = ''g'', gd_team_id = 1, gd_old_team_id = 1, gd_slots_available = 3,
     gd_old_slots_available = 2, gd_in_battle = False, gd_latitude = 1, gd_longitude = 2\<rparr>"

definition sample_gym_rule :: gym_tracking where
  "sample_gym_rule = \<lparr>gt_uid = 9, gt_id = ''u1'', gt_profile_no = 1, gt_ping = [], gt_clean = 0, gt_distance = 10,
     gt_template = ''1'', gt_team = 4, gt_slot_changes = True, gt_gym_id = None, gt_battle_changes = False,
     gt_override_location_label = [], gt_override_areas_raw = [], gt_override_areas = []\<rparr>"

lemma gym_no_change_silent_witness:
  "\<exists>g \<in> set [sample_gym_rule]. (9::int) = gt_uid g \<and>
     (gd_old_slots_available sample_gym \<noteq> gd_slots_available sample_gym \<and> gt_slot_changes g \<or>
      gd_in_battle sample_gym \<and> gt_battle_changes g)"
proof -
  let ?mc = open_matcher
  let ?st = "sample_state\<lparr>st_gyms := [sample_gym_rule]\<rparr>"
  obtain u where u: "u \<in> set (fst (gym_match (\<lambda>_ _ _. []) ?mc sample_gym (Some ?st)))" "mu_rule_uid u = 9"
    by (simp add: gym_match_def event_at_def point_areas_and_names_def sample_state_def match_gyms_def
        gym_wants_def gym_td_def sample_gym_def sample_gym_rule_def validate_humans_for_gym_def gym_accepts_def
        gget_Cons sample_human_def near_def resolve_override_def strict_rejects_def strict_of_def open_matcher_def Let_def
        generic_user_def)
  from gym_no_change_silent [OF _ u(1)] u(2) show ?thesis
    by (simp add: sample_gym_def sample_state_def)
qed

text \<open>A user made by the generic validator for one of the selected rules.\<close>

lemma generic_mem:
  assumes "u \<in> set (validate_humans_generic ev hs blocked tds)"
  obtains td h where "td \<in> set tds" "generic_deserves ev hs blocked td h" "u = generic_user ev td h"
proof -
  from assms obtain ys td zs h where "tds = ys @ td # zs" "generic_deserves ev hs blocked td h"
    "u = generic_user ev td h" unfolding generic_validator_mem by blast
  then show thesis by (intro that [of td h]) simp_all
qed

text \<open>No alert of the max battle matcher, which uses the generic validator, is further from its
  anchor than the distance of its rule: a rule pinned to a station still has its distance checked.\<close>

theorem maxbattle_distance_checked:
  assumes "u \<in> set (fst (maxbattle_match search mc d (Some st)))" and "0 < mu_track_distance u"
  shows "mu_distance u \<le> mu_track_distance u"
proof -
  let ?ev = "snd (event_at search st (strict_of mc) (xd_latitude d) (xd_longitude d))"
  from assms(1) obtain td h where td: "generic_deserves ?ev (st_humans st) ''maxbattle'' td h" "u = generic_user ?ev td h"
    by (auto simp: maxbattle_match_def case_prod_unfold Let_def elim!: generic_mem)
  with assms(2) show ?thesis
    by (auto simp: generic_user_def generic_deserves_def in_reach_def Let_def case_prod_unfold split: if_splits)
qed

definition sample_maxbattle :: maxbattle_data where
  "sample_maxbattle = \<lparr>xd_station_id = ''s'', xd_pokemon_id = 1, xd_form = 0, xd_level = 3, xd_gmax = 0,
     xd_evolution = 0, xd_move1 = 1, xd_move2 = 2, xd_latitude = 1, xd_longitude = 2\<rparr>"

definition sample_station_rule :: maxbattle_tracking where
  "sample_station_rule = \<lparr>xt_uid = 5, xt_id = ''u1'', xt_profile_no = 1, xt_pokemon_id = 1, xt_gmax = 0,
     xt_level = 0, xt_form = 0, xt_move = 9000, xt_evolution = 9000, xt_distance = 10,
     xt_station_id = Some ''s'', xt_ping = [], xt_clean = 0, xt_template = ''1'',
     xt_override_location_label = [], xt_override_areas_raw = [], xt_override_areas = []\<rparr>"

lemma maxbattle_distance_checked_witness:
  "\<exists>u. u \<in> set (fst (maxbattle_match (\<lambda>_ _ _. []) open_matcher
       sample_maxbattle (Some (sample_state\<lparr>st_maxbattles := [sample_station_rule]\<rparr>)))) \<and>
     mu_track_distance u = 10 \<and> mu_distance u \<le> 10"
proof -
  let ?mc = open_matcher
  let ?st = "sample_state\<lparr>st_maxbattles := [sample_station_rule]\<rparr>"
  obtain u where u: "u \<in> set (fst (maxbattle_match (\<lambda>_ _ _. []) ?mc sample_maxbattle (Some ?st)))"
      "mu_track_distance u = 10"
    by (simp add: maxbattle_match_def event_at_def point_areas_and_names_def sample_state_def maxbattle_wants_def
        maxbattle_td_def station_blocked_def sample_maxbattle_def sample_station_rule_def
        validate_humans_generic_def generic_accepts_def gget_Cons sample_human_def resolve_override_def
        strict_rejects_def strict_of_def open_matcher_def Let_def generic_user_def)
  from maxbattle_distance_checked [OF u(1)] u show ?thesis by auto
qed

lemma split_quests_eq:
  "split_quests rewards qs imm buf =
     (imm @ map quest_td (filter (\<lambda>q. quest_reward_matches q rewards \<and> \<not> is_summary (qt_clean q)) qs),
      buf @ map quest_td (filter (\<lambda>q. quest_reward_matches q rewards \<and> is_summary (qt_clean q)) qs))"
  by (induction qs arbitrary: imm buf) auto

text \<open>A quest rule alerts a human.\<close>

definition quest_rule_alerts :: "event_ctx \<Rightarrow> humans \<Rightarrow> quest_data \<Rightarrow> quest_tracking \<Rightarrow> human \<Rightarrow> bool" where
  "quest_rule_alerts ev hs d q h \<longleftrightarrow> quest_reward_matches q (qd_rewards d) \<and>
     entitled hs ''quest'' (qt_id q) (qt_profile_no q) h \<and> unrestricted ev h \<and>
     in_reach ev (qt_override_location_label q) (qt_override_areas q) (qt_distance q) h"

text \<open>The quest matcher splits its alerts by the summary bit of the rule: a human is in the
  immediate (buffered) list exactly when a rule of theirs without (with) the bit alerts, so one with both kinds
  is in both lists, and no rule ever alerts through the other list.\<close>

theorem quest_split_exact:
  "let ev = snd (event_at search st (strict_of mc) (qd_latitude d) (qd_longitude d)); hs = st_humans st;
       (imm, buf, _) = quest_match search mc d (Some st)
   in mu_id ` set imm = h_id ` {h. \<exists>q \<in> set (st_quests st). \<not> is_summary (qt_clean q) \<and> quest_rule_alerts ev hs d q h} \<and>
      mu_id ` set buf = h_id ` {h. \<exists>q \<in> set (st_quests st). is_summary (qt_clean q) \<and> quest_rule_alerts ev hs d q h} \<and>
      (\<forall>u \<in> set imm. \<not> is_summary (mu_clean u)) \<and> (\<forall>u \<in> set buf. is_summary (mu_clean u))"
proof -
  let ?ev = "snd (event_at search st (strict_of mc) (qd_latitude d) (qd_longitude d))"
  have acc: "generic_accepts ?ev (st_humans st) ''quest'' (quest_td q) = Some h \<and> quest_reward_matches q (qd_rewards d) \<longleftrightarrow>
      quest_rule_alerts ?ev (st_humans st) d q h" for q h
    by (auto simp: generic_accepts_iff generic_deserves_def quest_rule_alerts_def quest_td_def)
  have clean: "mu_clean (generic_user ?ev (quest_td q) h) = qt_clean q" for q h
    by (simp add: generic_user_def quest_td_def Let_def case_prod_unfold)
  have ids: "mu_id ` set (generic_loop ?ev (st_humans st) ''quest'' {} (map quest_td
        (filter (\<lambda>q. quest_reward_matches q (qd_rewards d) \<and> P q) (st_quests st)))) =
      h_id ` {h. \<exists>q \<in> set (st_quests st). P q \<and> quest_rule_alerts ?ev (st_humans st) d q h}" for P
    unfolding gv.run_ids by (rule arg_cong [where f = "image h_id"]) (auto simp flip: acc)
  have cl: "\<exists>q. P q \<and> mu_clean u = qt_clean q" if "u \<in> set (generic_loop ?ev (st_humans st) ''quest'' {} (map quest_td
        (filter (\<lambda>q. quest_reward_matches q (qd_rewards d) \<and> P q) (st_quests st))))" for u P
    using that unfolding gv.run_rules by (auto simp: clean)
  have "\<not> is_summary (mu_clean u)" if "u \<in> set (generic_loop ?ev (st_humans st) ''quest'' {} (map quest_td
        (filter (\<lambda>q. quest_reward_matches q (qd_rewards d) \<and> \<not> is_summary (qt_clean q)) (st_quests st))))" for u
    using cl [OF that] by auto
  moreover have "is_summary (mu_clean u)" if "u \<in> set (generic_loop ?ev (st_humans st) ''quest'' {} (map quest_td
        (filter (\<lambda>q. quest_reward_matches q (qd_rewards d) \<and> is_summary (qt_clean q)) (st_quests st))))" for u
    using cl [OF that] by auto
  ultimately show ?thesis
    by (simp add: quest_match_def split_quests_eq validate_humans_generic_def ids case_prod_unfold Let_def)
qed

definition sample_quest :: quest_data where
  "sample_quest = \<lparr>qd_pokestop_id = ''p'', qd_latitude = 1, qd_longitude = 2, qd_rewards =
     [\<lparr>qr_type = 3, qr_pokemon_id = 0, qr_item_id = 0, qr_amount = 1500, qr_form_id = 0, qr_shiny = False\<rparr>]\<rparr>"

definition sample_quest_rule :: quest_tracking where
  "sample_quest_rule = \<lparr>qt_uid = 4, qt_id = ''u1'', qt_profile_no = 1, qt_ping = [], qt_clean = 4, qt_reward = 1000,
     qt_template = ''1'', qt_shiny = False, qt_reward_type = 3, qt_distance = 10, qt_form = 0, qt_amount = 0,
     qt_override_location_label = [], qt_override_areas_raw = [], qt_override_areas = []\<rparr>"

lemma quest_split_exact_witness:
  "(let (imm, buf, _) = quest_match (\<lambda>_ _ _. []) open_matcher sample_quest
       (Some (sample_state\<lparr>st_quests := [sample_quest_rule]\<rparr>))
    in mu_id ` set imm = {} \<and> mu_id ` set buf = {''u1''})"
proof -
  let ?st = "sample_state\<lparr>st_quests := [sample_quest_rule]\<rparr>"
  let ?ev = "snd (event_at (\<lambda>_ _ _. []) ?st (strict_of open_matcher) (qd_latitude sample_quest) (qd_longitude sample_quest))"
  obtain imm buf ar where q: "quest_match (\<lambda>_ _ _. []) open_matcher sample_quest (Some ?st) = (imm, buf, ar)"
    by (cases "quest_match (\<lambda>_ _ _. []) open_matcher sample_quest (Some ?st)")
  have sq: "st_quests ?st = [sample_quest_rule]" "st_humans ?st = [(''u1'', sample_human)]"
    by (simp_all add: sample_state_def)
  have cl: "is_summary (qt_clean sample_quest_rule)" by (simp add: sample_quest_rule_def is_summary_def)
  have ev: "ec_lat ?ev = 1" "ec_lon ?ev = 2" "\<not> ec_strict ?ev"
    by (simp_all add: event_at_def point_areas_and_names_def sample_state_def strict_of_def open_matcher_def sample_quest_def)
  have hum: "h_latitude sample_human = 1" "h_longitude sample_human = 2" "h_enabled sample_human"
    "\<not> h_admin_disable sample_human" "h_blocked_set sample_human = {}" "h_current_profile_no sample_human = 1"
    "h_locations sample_human = None" "h_id sample_human = ''u1''"
    by (simp_all add: sample_human_def)
  have al: "quest_rule_alerts ?ev [(''u1'', sample_human)] sample_quest sample_quest_rule h \<longleftrightarrow> h = sample_human" for h
    by (auto simp: quest_rule_alerts_def single_reward_matches_def entitled_def gget_Cons unrestricted_def
        in_reach_def resolve_override_def ev hum) (simp_all add: sample_quest_def sample_quest_rule_def single_reward_matches_def hum)
  show ?thesis
    using quest_split_exact [where search = "\<lambda>_ _ _. []" and mc = open_matcher and d = sample_quest and st = ?st]
    unfolding q Let_def prod.case sq by (simp add: cl al hum)
qed

end
