(* ===== verification/RateLimit.thy ===== *)
theory RateLimit
  imports Float64
begin

text \<open>
  Package \<open>ratelimit\<close> (\<open>ratelimit.go\<close>): fixed-window message counters per destination, a separate
  bucket for summaries, the 24-hour violation counters behind auto-disable, and the clean-up of stale
  entries. Each operation takes the clock reading of its \<open>time.Now()\<close>; the mutex makes it atomic.
\<close>

section \<open>State\<close>

record rl_config =
  rc_timing_period :: int
  rc_dm_limit :: int
  rc_channel_limit :: int
  rc_dm_summary_limit :: int
  rc_channel_summary_limit :: int
  rc_max_limits_before_stop :: int
  rc_overrides :: "(string, int) gomap"

record rate_result =
  rr_allowed :: bool
  rr_just_breached :: bool
  rr_banned :: bool
  rr_limit :: int
  rr_reset_seconds :: int

record counter =
  cn_count :: int
  cn_window_at :: gotime
  cn_dtype :: string

record violation =
  vi_count :: int
  vi_window_at :: gotime

record limiter =
  lm_counters :: "(string, counter) gomap"
  lm_summary_counters :: "(string, counter) gomap"
  lm_violations :: "(string, violation) gomap"
  lm_cfg :: rl_config

definition new_limiter :: "rl_config \<Rightarrow> limiter" where
  "new_limiter c =
     \<lparr>lm_counters = [], lm_summary_counters = [], lm_violations = [],
      lm_cfg = \<lparr>rc_timing_period = (if rc_timing_period c \<le> 0 then 240 else rc_timing_period c),
         rc_dm_limit = (if rc_dm_limit c \<le> 0 then 20 else rc_dm_limit c),
         rc_channel_limit = (if rc_channel_limit c \<le> 0 then 40 else rc_channel_limit c),
         rc_dm_summary_limit = (if rc_dm_summary_limit c \<le> 0 then 10 else rc_dm_summary_limit c),
         rc_channel_summary_limit = (if rc_channel_summary_limit c \<le> 0 then 40 else rc_channel_summary_limit c),
         rc_max_limits_before_stop = (if rc_max_limits_before_stop c \<le> 0 then 10 else rc_max_limits_before_stop c),
         rc_overrides = rc_overrides c\<rparr>\<rparr>"

definition is_user_type :: "string \<Rightarrow> bool" where
  "is_user_type t \<longleftrightarrow> t = ''discord:user'' \<or> t = ''telegram:user''"

definition limit_for :: "limiter \<Rightarrow> string \<Rightarrow> string \<Rightarrow> int" where
  "limit_for l i ty = (case gget (rc_overrides (lm_cfg l)) i of
       Some ov \<Rightarrow> ov
     | None \<Rightarrow> if is_user_type ty then rc_dm_limit (lm_cfg l) else rc_channel_limit (lm_cfg l))"

definition summary_limit_for :: "limiter \<Rightarrow> string \<Rightarrow> int" where
  "summary_limit_for l ty =
     (if is_user_type ty then rc_dm_summary_limit (lm_cfg l) else rc_channel_summary_limit (lm_cfg l))"

definition window_duration :: "limiter \<Rightarrow> duration" where
  "window_duration l = rc_timing_period (lm_cfg l) * ns_second"

definition stale_counter :: "limiter \<Rightarrow> gotime \<Rightarrow> counter \<Rightarrow> bool" where
  "stale_counter l now c \<longleftrightarrow> now - cn_window_at c \<ge> window_duration l"

definition stale_violation :: "gotime \<Rightarrow> violation \<Rightarrow> bool" where
  "stale_violation now v \<longleftrightarrow> now - vi_window_at v \<ge> 24 * ns_hour"

section \<open>Operations\<close>

definition is_blocked :: "limiter \<Rightarrow> string \<Rightarrow> string \<Rightarrow> gotime \<Rightarrow> bool" where
  "is_blocked l i ty now =
     (case gget (lm_counters l) i of None \<Rightarrow> False
      | Some c \<Rightarrow> if stale_counter l now c then False else cn_count c \<ge> limit_for l i ty)"

text \<open>The counter a check works on: the stored one, or a new window when it is stale.\<close>

definition current_counter :: "limiter \<Rightarrow> string \<Rightarrow> gotime \<Rightarrow> counter option \<Rightarrow> counter" where
  "current_counter l ty now co =
     (case co of
        Some c \<Rightarrow> if stale_counter l now c then \<lparr>cn_count = 0, cn_window_at = now, cn_dtype = ty\<rparr> else c
      | None \<Rightarrow> \<lparr>cn_count = 0, cn_window_at = now, cn_dtype = ty\<rparr>)"

definition reset_seconds :: "limiter \<Rightarrow> gotime \<Rightarrow> counter \<Rightarrow> int" where
  "reset_seconds l now c =
     max (int_of_f64 (fsub (dur_seconds (window_duration l)) (dur_seconds (now - cn_window_at c)))) 1"

definition increment_violation :: "limiter \<Rightarrow> string \<Rightarrow> gotime \<Rightarrow> limiter \<times> bool" where
  "increment_violation l i now =
     (let v = (case gget (lm_violations l) i of
                 Some v \<Rightarrow> if stale_violation now v then \<lparr>vi_count = 0, vi_window_at = now\<rparr> else v
               | None \<Rightarrow> \<lparr>vi_count = 0, vi_window_at = now\<rparr>);
          v' = v\<lparr>vi_count := vi_count v + 1\<rparr>
      in (l\<lparr>lm_violations := gput i v' (lm_violations l)\<rparr>,
          vi_count v' \<ge> rc_max_limits_before_stop (lm_cfg l)))"

definition check :: "limiter \<Rightarrow> string \<Rightarrow> string \<Rightarrow> gotime \<Rightarrow> limiter \<times> rate_result" where
  "check l i ty now =
     (let limit = limit_for l i ty;
          c0 = current_counter l ty now (gget (lm_counters l) i);
          c = c0\<lparr>cn_count := cn_count c0 + 1\<rparr>;
          l1 = l\<lparr>lm_counters := gput i c (lm_counters l)\<rparr>;
          res = \<lparr>rr_allowed = False, rr_just_breached = False, rr_banned = False, rr_limit = limit,
                 rr_reset_seconds = reset_seconds l now c\<rparr>
      in if cn_count c \<le> limit then (l1, res\<lparr>rr_allowed := True\<rparr>)
         else if cn_count c = limit + 1
         then let (l2, banned) = increment_violation l1 i now
              in (l2, res\<lparr>rr_just_breached := True, rr_banned := banned\<rparr>)
         else (l1, res))"

definition check_summary :: "limiter \<Rightarrow> string \<Rightarrow> string \<Rightarrow> gotime \<Rightarrow> limiter \<times> rate_result" where
  "check_summary l i ty now =
     (let limit = summary_limit_for l ty;
          c0 = current_counter l ty now (gget (lm_summary_counters l) i);
          c = c0\<lparr>cn_count := cn_count c0 + 1\<rparr>;
          l1 = l\<lparr>lm_summary_counters := gput i c (lm_summary_counters l)\<rparr>;
          res = \<lparr>rr_allowed = False, rr_just_breached = False, rr_banned = False, rr_limit = limit,
                 rr_reset_seconds = reset_seconds l now c\<rparr>
      in if cn_count c \<le> limit then (l1, res\<lparr>rr_allowed := True\<rparr>)
         else if cn_count c = limit + 1 then (l1, res\<lparr>rr_just_breached := True\<rparr>)
         else (l1, res))"

definition cleanup :: "gotime \<Rightarrow> limiter \<Rightarrow> limiter" where
  "cleanup now l =
     l\<lparr>lm_counters := gkeep (\<lambda>_ c. \<not> stale_counter l now c) (lm_counters l),
       lm_summary_counters := gkeep (\<lambda>_ c. \<not> stale_counter l now c) (lm_summary_counters l),
       lm_violations := gkeep (\<lambda>_ v. \<not> stale_violation now v) (lm_violations l)\<rparr>"

record target_state =
  ts_id :: string
  ts_type :: string
  ts_bucket :: string
  ts_count :: int
  ts_limit :: int
  ts_window_start :: gotime
  ts_window_end :: gotime
  ts_violations :: int
  ts_banned_until :: gotime

definition snapshot_counter ::
    "limiter \<Rightarrow> string \<Rightarrow> counter \<Rightarrow> string \<Rightarrow> int \<Rightarrow> gotime \<Rightarrow> target_state" where
  "snapshot_counter l i c bucket violations banned_until =
     \<lparr>ts_id = i, ts_type = cn_dtype c, ts_bucket = bucket, ts_count = cn_count c,
      ts_limit = (if bucket = ''alert'' then limit_for l i (cn_dtype c) else summary_limit_for l (cn_dtype c)),
      ts_window_start = cn_window_at c, ts_window_end = cn_window_at c + window_duration l,
      ts_violations = violations, ts_banned_until = banned_until\<rparr>"

definition violation_state :: "limiter \<Rightarrow> string \<Rightarrow> gotime \<Rightarrow> int \<times> gotime" where
  "violation_state l i now =
     (case gget (lm_violations l) i of None \<Rightarrow> (0, zero_time)
      | Some v \<Rightarrow> if stale_violation now v then (0, zero_time)
                 else (vi_count v, if vi_count v \<ge> rc_max_limits_before_stop (lm_cfg l)
                                   then vi_window_at v + 24 * ns_hour else zero_time))"

definition blocked_alerts :: "limiter \<Rightarrow> gotime \<Rightarrow> target_state list" where
  "blocked_alerts l now = concat (map (\<lambda>(i, c).
     if stale_counter l now c then []
     else let (vs, until) = violation_state l i now
          in if cn_count c \<ge> limit_for l i (cn_dtype c) \<or> until \<noteq> zero_time
             then [snapshot_counter l i c ''alert'' vs until] else []) (lm_counters l))"

definition blocked_summaries :: "limiter \<Rightarrow> gotime \<Rightarrow> target_state list" where
  "blocked_summaries l now = concat (map (\<lambda>(i, c).
     if stale_counter l now c then []
     else let (vs, until) = violation_state l i now
          in if cn_count c \<ge> summary_limit_for l (cn_dtype c) \<or> until \<noteq> zero_time
             then [snapshot_counter l i c ''summary'' vs until] else []) (lm_summary_counters l))"

definition list_blocked :: "limiter \<Rightarrow> gotime \<Rightarrow> target_state list" where
  "list_blocked l now =
     (let result = blocked_alerts l now @ blocked_summaries l now;
          seen = ts_id ` set result
      in result @ concat (map (\<lambda>(i, v).
           if i \<in> seen then [] else if stale_violation now v then []
           else if vi_count v < rc_max_limits_before_stop (lm_cfg l) then []
           else [\<lparr>ts_id = i, ts_type = [], ts_bucket = ''alert'', ts_count = 0, ts_limit = 0,
                  ts_window_start = zero_time, ts_window_end = zero_time, ts_violations = vi_count v,
                  ts_banned_until = vi_window_at v + 24 * ns_hour\<rparr>]) (lm_violations l)))"

definition state_for :: "limiter \<Rightarrow> string \<Rightarrow> string \<Rightarrow> gotime \<Rightarrow> target_state list" where
  "state_for l i dtype now =
     (let (vs, until) = violation_state l i now;
          pick = (\<lambda>m bucket. case gget m i of None \<Rightarrow> []
             | Some c \<Rightarrow> if dtype = [] \<or> cn_dtype c = dtype then [snapshot_counter l i c bucket vs until] else [])
      in pick (lm_counters l) ''alert'' @ pick (lm_summary_counters l) ''summary'')"

definition reset :: "limiter \<Rightarrow> string \<Rightarrow> string \<Rightarrow> limiter \<times> bool" where
  "reset l i dtype =
     (let hit = (\<lambda>m. case gget m i of None \<Rightarrow> False | Some c \<Rightarrow> dtype = [] \<or> cn_dtype c = dtype);
          a = hit (lm_counters l); s = hit (lm_summary_counters l); v = gget (lm_violations l) i \<noteq> None
      in (l\<lparr>lm_counters := (if a then gdel i (lm_counters l) else lm_counters l),
            lm_summary_counters := (if s then gdel i (lm_summary_counters l) else lm_summary_counters l),
            lm_violations := (if v then gdel i (lm_violations l) else lm_violations l)\<rparr>,
          a \<or> s \<or> v))"

definition lim_ok :: "limiter \<Rightarrow> bool" where
  "lim_ok l \<longleftrightarrow> gok (lm_counters l) \<and> gok (lm_summary_counters l) \<and> gok (lm_violations l) \<and>
     rc_timing_period (lm_cfg l) > 0"

section \<open>One window\<close>

fun check_all :: "limiter \<Rightarrow> string \<Rightarrow> string \<Rightarrow> gotime list \<Rightarrow> limiter \<times> rate_result list" where
  "check_all l i ty [] = (l, [])"
| "check_all l i ty (t # ts) =
     (let (l1, r) = check l i ty t; (l2, rs) = check_all l1 i ty ts in (l2, r # rs))"

lemma check_cfg [simp]: "lm_cfg (fst (check l i ty now)) = lm_cfg l"
  by (simp add: check_def Let_def increment_violation_def case_prod_unfold)

lemma check_limit_for [simp]: "limit_for (fst (check l i ty now)) = limit_for l"
  by (intro ext) (simp add: limit_for_def split: option.split)

lemma check_window_duration [simp]: "window_duration (fst (check l i ty now)) = window_duration l"
  by (simp add: window_duration_def)

lemma check_counter:
  "gget (lm_counters (fst (check l i ty now))) i' =
     (if i' = i then Some (let c = current_counter l ty now (gget (lm_counters l) i)
                           in c\<lparr>cn_count := cn_count c + 1\<rparr>)
      else gget (lm_counters l) i')"
  by (simp add: check_def Let_def increment_violation_def case_prod_unfold gget_put)

lemma check_result:
  "rr_allowed (snd (check l i ty now)) \<longleftrightarrow>
     cn_count (current_counter l ty now (gget (lm_counters l) i)) + 1 \<le> limit_for l i ty"
  "rr_just_breached (snd (check l i ty now)) \<longleftrightarrow>
     cn_count (current_counter l ty now (gget (lm_counters l) i)) = limit_for l i ty"
  by (simp_all add: check_def Let_def increment_violation_def case_prod_unfold)

lemma check_all_running:
  assumes "gget (lm_counters l) i = Some c" and "\<forall>t \<in> set ts. t - cn_window_at c < window_duration l"
  shows "map rr_allowed (snd (check_all l i ty ts)) = map (\<lambda>k. cn_count c + int k < limit_for l i ty) [0..<length ts] \<and>
    map rr_just_breached (snd (check_all l i ty ts)) = map (\<lambda>k. cn_count c + int k = limit_for l i ty) [0..<length ts]"
  using assms
proof (induction ts arbitrary: l c)
  case (Cons t ts)
  have cur: "current_counter l ty t (gget (lm_counters l) i) = c"
    using Cons.prems by (simp add: current_counter_def stale_counter_def)
  have next_c: "gget (lm_counters (fst (check l i ty t))) i = Some (c\<lparr>cn_count := cn_count c + 1\<rparr>)"
    by (simp add: check_counter cur)
  have "\<forall>u \<in> set ts. u - cn_window_at (c\<lparr>cn_count := cn_count c + 1\<rparr>) < window_duration (fst (check l i ty t))"
    using Cons.prems by simp
  note IH = Cons.IH [OF next_c this]
  have upt: "[0..<length (t # ts)] = 0 # map Suc [0..<length ts]" by (simp add: upt_conv_Cons map_Suc_upt del: upt_Suc)
  show ?case
    unfolding upt using IH by (auto simp: check_result cur Let_def case_prod_unfold algebra_simps)
qed simp

text \<open>C4: in one window the limiter lets exactly the first \<open>limit\<close> messages of a destination
  through and announces the breach once, on the next one, whatever the times within the window are.\<close>

theorem rate_window_exact:
  assumes "case gget (lm_counters l) i of None \<Rightarrow> True | Some c \<Rightarrow> stale_counter l t c"
    and "\<forall>u \<in> set ts. u - t < window_duration l"
  shows "map rr_allowed (snd (check_all l i ty (t # ts))) = map (\<lambda>k. int k < limit_for l i ty) [0..<Suc (length ts)] \<and>
    map rr_just_breached (snd (check_all l i ty (t # ts))) = map (\<lambda>k. int k = limit_for l i ty) [0..<Suc (length ts)]"
proof -
  have cur: "current_counter l ty t (gget (lm_counters l) i) = \<lparr>cn_count = 0, cn_window_at = t, cn_dtype = ty\<rparr>"
    using assms(1) by (simp add: current_counter_def split: option.splits)
  have c1: "gget (lm_counters (fst (check l i ty t))) i = Some \<lparr>cn_count = 1, cn_window_at = t, cn_dtype = ty\<rparr>"
    by (simp add: check_counter cur)
  have "\<forall>u \<in> set ts. u - cn_window_at \<lparr>cn_count = 1, cn_window_at = t, cn_dtype = ty\<rparr>
          < window_duration (fst (check l i ty t))"
    using assms(2) by simp
  note rest = check_all_running [OF c1 this, of ty]
  have upt: "[0..<Suc (length ts)] = 0 # map Suc [0..<length ts]" by (simp add: upt_conv_Cons map_Suc_upt del: upt_Suc)
  show ?thesis
    unfolding upt using rest by (auto simp: check_result cur Let_def case_prod_unfold algebra_simps)
qed

definition sample_cfg :: rl_config where
  "sample_cfg = \<lparr>rc_timing_period = 0, rc_dm_limit = 2, rc_channel_limit = 0, rc_dm_summary_limit = 0,
     rc_channel_summary_limit = 0, rc_max_limits_before_stop = 0, rc_overrides = []\<rparr>"

lemma rate_window_exact_witness:
  "map rr_allowed (snd (check_all (new_limiter sample_cfg) ''u'' ''discord:user'' [5, 6, 7, 8])) =
     [True, True, False, False]"
  using rate_window_exact [where l = "new_limiter sample_cfg" and i = "''u''" and t = 5 and ts = "[6, 7, 8]"
      and ty = "''discord:user''"]
  by (simp add: new_limiter_def sample_cfg_def window_duration_def limit_for_def is_user_type_def upt_rec [of 0])

section \<open>The answers of one check\<close>

text \<open>\<open>IsBlocked\<close> predicts \<open>Check\<close>: while a destination has a live window, it is blocked exactly when a
  check at that moment refuses the message, and \<open>IsBlocked\<close> itself never blocks a fresh window.\<close>

theorem blocked_predicts_check:
  "is_blocked l i ty now \<longleftrightarrow>
     \<not> rr_allowed (snd (check l i ty now)) \<and>
     (\<exists>c. gget (lm_counters l) i = Some c \<and> \<not> stale_counter l now c)"
  by (auto simp: is_blocked_def check_result current_counter_def split: option.split)

text \<open>the reset time a check reports is at least one second and at most the window.\<close>

theorem reset_seconds_bounds:
  assumes "lim_ok l" and "rc_timing_period (lm_cfg l) < 2 ^ 53"
    and "case gget (lm_counters l) i of None \<Rightarrow> True | Some c \<Rightarrow> cn_window_at c \<le> now"
  shows "1 \<le> rr_reset_seconds (snd (check l i ty now)) \<and>
         rr_reset_seconds (snd (check l i ty now)) \<le> rc_timing_period (lm_cfg l)"
proof -
  let ?c = "current_counter l ty now (gget (lm_counters l) i)"
  have period: "1 \<le> rc_timing_period (lm_cfg l)" using assms(1) by (simp add: lim_ok_def)
  have res: "rr_reset_seconds (snd (check l i ty now)) = reset_seconds l now ?c"
    by (simp add: check_def Let_def increment_violation_def case_prod_unfold reset_seconds_def)
  have ge: "0 \<le> now - cn_window_at ?c"
    using assms(3) by (simp add: current_counter_def split: option.splits)
  have w: "dur_seconds (window_duration l) = of_int (rc_timing_period (lm_cfg l))"
    unfolding window_duration_def using period assms(2) by (intro dur_seconds_whole) simp_all
  have "fsub (dur_seconds (window_duration l)) (dur_seconds (now - cn_window_at ?c))
      \<le> dur_seconds (window_duration l)"
    by (rule fsub_le [OF dur_seconds_nonneg [OF ge] w]) (use period assms(2) in simp)
  then have "int_of_f64 (fsub (dur_seconds (window_duration l)) (dur_seconds (now - cn_window_at ?c)))
      \<le> rc_timing_period (lm_cfg l)"
    using int_of_f64_mono [of _ "dur_seconds (window_duration l)"] w by (metis int_of_f64_of_int)
  with period show ?thesis by (simp add: res reset_seconds_def)
qed

lemma reset_seconds_bounds_witness:
  "rr_reset_seconds (snd (check (new_limiter sample_cfg) ''u'' ''discord:user'' 5)) \<le> 240"
  using reset_seconds_bounds [where l = "new_limiter sample_cfg" and i = "''u''" and now = 5 and ty = "''discord:user''"]
  by (simp add: lim_ok_def new_limiter_def sample_cfg_def)

section \<open>Violations\<close>

text \<open>The breaches among the results of a run, and the bans they carry.\<close>

lemma check_violation:
  "gget (lm_violations (fst (check l i ty now))) i' =
     (if i' = i \<and> rr_just_breached (snd (check l i ty now))
      then Some (let v = (case gget (lm_violations l) i of
                 Some v \<Rightarrow> if stale_violation now v then \<lparr>vi_count = 0, vi_window_at = now\<rparr> else v
               | None \<Rightarrow> \<lparr>vi_count = 0, vi_window_at = now\<rparr>)
            in v\<lparr>vi_count := vi_count v + 1\<rparr>)
      else gget (lm_violations l) i')"
  by (simp add: check_def Let_def increment_violation_def case_prod_unfold gget_put)

lemma check_banned:
  "rr_banned (snd (check l i ty now)) \<longleftrightarrow> rr_just_breached (snd (check l i ty now)) \<and>
     vi_count (case gget (lm_violations l) i of
                 Some v \<Rightarrow> if stale_violation now v then \<lparr>vi_count = 0, vi_window_at = now\<rparr> else v
               | None \<Rightarrow> \<lparr>vi_count = 0, vi_window_at = now\<rparr>) + 1 \<ge> rc_max_limits_before_stop (lm_cfg l)"
  by (simp add: check_def Let_def increment_violation_def case_prod_unfold)

lemma bans_running:
  assumes "gget (lm_violations l) i = Some v" and "\<forall>t \<in> set ts. t - vi_window_at v < 24 * ns_hour"
  shows "map rr_banned (filter rr_just_breached (snd (check_all l i ty ts))) =
     map (\<lambda>k. vi_count v + int k + 1 \<ge> rc_max_limits_before_stop (lm_cfg l))
       [0..<length (filter rr_just_breached (snd (check_all l i ty ts)))]"
  using assms
proof (induction ts arbitrary: l v)
  case (Cons t ts)
  have live: "\<not> stale_violation t v" using Cons.prems by (simp add: stale_violation_def)
  show ?case
  proof (cases "rr_just_breached (snd (check l i ty t))")
    case False
    then have "gget (lm_violations (fst (check l i ty t))) i = Some v"
      using Cons.prems by (simp add: check_violation)
    from Cons.IH [OF this] Cons.prems(2) False show ?thesis by (simp add: Let_def case_prod_unfold)
  next
    case True
    with Cons.prems live have nx: "gget (lm_violations (fst (check l i ty t))) i = Some (v\<lparr>vi_count := vi_count v + 1\<rparr>)"
      by (simp add: check_violation)
    have ban: "rr_banned (snd (check l i ty t)) \<longleftrightarrow> vi_count v + 1 \<ge> rc_max_limits_before_stop (lm_cfg l)"
      using True Cons.prems live by (simp add: check_banned)
    have upt: "[0..<Suc n] = 0 # map Suc [0..<n]" for n by (simp add: upt_conv_Cons map_Suc_upt del: upt_Suc)
    show ?thesis
      using Cons.IH [OF nx] Cons.prems(2) True ban
      by (simp add: Let_def case_prod_unfold upt algebra_simps del: upt_Suc)
  qed
qed simp

text \<open>A destination without earlier violations is banned by its breach number \<open>MaxLimitsBeforeStop\<close>
  within 24 hours and by every later one, and by none before.\<close>

theorem ban_exact:
  assumes "gget (lm_violations l) i = None" and "rr_just_breached (snd (check l i ty t))"
    and "\<forall>u \<in> set ts. u - t < 24 * ns_hour"
  shows "map rr_banned (filter rr_just_breached (snd (check_all l i ty (t # ts)))) =
     map (\<lambda>k. int k + 1 \<ge> rc_max_limits_before_stop (lm_cfg l))
       [0..<length (filter rr_just_breached (snd (check_all l i ty (t # ts))))]"
proof -
  have nx: "gget (lm_violations (fst (check l i ty t))) i = Some \<lparr>vi_count = 1, vi_window_at = t\<rparr>"
    using assms by (simp add: check_violation)
  have ban: "rr_banned (snd (check l i ty t)) \<longleftrightarrow> 1 \<ge> rc_max_limits_before_stop (lm_cfg l)"
    using assms by (simp add: check_banned)
  have upt: "[0..<Suc n] = 0 # map Suc [0..<n]" for n by (simp add: upt_conv_Cons map_Suc_upt del: upt_Suc)
  show ?thesis
    using bans_running [OF nx, of ts ty] assms(2,3) ban
    by (simp add: Let_def case_prod_unfold upt algebra_simps del: upt_Suc)
qed

lemma ban_exact_witness:
  "map rr_banned (filter rr_just_breached (snd (check_all
     (new_limiter (sample_cfg\<lparr>rc_timing_period := 1, rc_overrides := [(''u'', 0)], rc_max_limits_before_stop := 2\<rparr>))
     ''u'' ''discord:user'' [0, 2000000000, 4000000000]))) = [False, True, True]"
  by (subst ban_exact)
    (simp_all add: new_limiter_def sample_cfg_def check_result current_counter_def limit_for_def gget_Cons
      check_counter check_violation stale_counter_def window_duration_def Let_def case_prod_unfold
      upt_rec [of 0])

section \<open>Clean-up is invisible\<close>

text \<open>Two limiters agree on what is live at a moment.\<close>

definition lim_eq :: "gotime \<Rightarrow> limiter \<Rightarrow> limiter \<Rightarrow> bool" where
  "lim_eq now l l' \<longleftrightarrow> lm_cfg l = lm_cfg l' \<and>
     gm.live_eq (\<lambda>_ c. \<not> stale_counter l now c) (lm_counters l) (lm_counters l') \<and>
     gm.live_eq (\<lambda>_ c. \<not> stale_counter l now c) (lm_summary_counters l) (lm_summary_counters l') \<and>
     gm.live_eq (\<lambda>_ v. \<not> stale_violation now v) (lm_violations l) (lm_violations l')"

lemma stale_mono: "stale_counter l now c \<Longrightarrow> now \<le> t \<Longrightarrow> stale_counter l t c"
  by (simp add: stale_counter_def)

lemma stale_violation_mono: "stale_violation now v \<Longrightarrow> now \<le> t \<Longrightarrow> stale_violation t v"
  by (simp add: stale_violation_def)

lemma stale_cfg: "lm_cfg l = lm_cfg l' \<Longrightarrow> stale_counter l = stale_counter l'"
  by (intro ext) (simp add: stale_counter_def window_duration_def)

lemma lim_eq_later: "lim_eq now l l' \<Longrightarrow> now \<le> t \<Longrightarrow> lim_eq t l l'"
  unfolding lim_eq_def
  by (auto elim!: gm.live_eq_weaken intro: stale_mono stale_violation_mono)

lemma lim_eq_cleanup:
  assumes "gok (lm_counters l)" "gok (lm_summary_counters l)" "gok (lm_violations l)"
  shows "lim_eq now (cleanup now l) l"
proof -
  have st: "stale_counter (cleanup now l) = stale_counter l" by (rule stale_cfg) (simp add: cleanup_def)
  show ?thesis
    unfolding lim_eq_def st using assms by (auto simp: cleanup_def intro: gm.live_eq_retain)
qed

lemma current_counter_live:
  "current_counter l ty t co = (case (case co of None \<Rightarrow> None | Some c \<Rightarrow> if \<not> stale_counter l t c then Some c else None) of
      Some c \<Rightarrow> c | None \<Rightarrow> \<lparr>cn_count = 0, cn_window_at = t, cn_dtype = ty\<rparr>)"
  by (simp add: current_counter_def split: option.split)

lemma current_counter_eq:
  assumes "gm.live_eq (\<lambda>_ c. \<not> stale_counter l t c) m m'" "lm_cfg l = lm_cfg l'"
  shows "current_counter l' ty t (gget m' i) = current_counter l ty t (gget m i)"
  using gm.live_eq_look [OF assms(1), of i] unfolding current_counter_live stale_cfg [OF assms(2)] by simp

lemma limit_cfg: "lm_cfg l = lm_cfg l' \<Longrightarrow> limit_for l' = limit_for l"
  by (intro ext) (simp add: limit_for_def split: option.split)

text \<open>Traces: the requests made to a limiter, each with its time, and the answers.\<close>

datatype rl_op = OpCheck string string gotime | OpSummary string string gotime
  | OpBlocked string string gotime | OpReset string string | OpCleanup gotime

fun rl_step :: "limiter \<Rightarrow> rl_op \<Rightarrow> limiter \<times> (rate_result + bool) option" where
  "rl_step l (OpCheck i ty t) = (let (l', r) = check l i ty t in (l', Some (Inl r)))"
| "rl_step l (OpSummary i ty t) = (let (l', r) = check_summary l i ty t in (l', Some (Inl r)))"
| "rl_step l (OpBlocked i ty t) = (l, Some (Inr (is_blocked l i ty t)))"
| "rl_step l (OpReset i ty) = (fst (reset l i ty), None)"
| "rl_step l (OpCleanup t) = (cleanup t l, None)"

fun op_time :: "gotime \<Rightarrow> rl_op \<Rightarrow> gotime" where
  "op_time now (OpCheck _ _ t) = t"
| "op_time now (OpSummary _ _ t) = t"
| "op_time now (OpBlocked _ _ t) = t"
| "op_time now (OpReset _ _) = now"
| "op_time now (OpCleanup t) = t"

fun rl_run :: "limiter \<Rightarrow> rl_op list \<Rightarrow> (rate_result + bool) list" where
  "rl_run l [] = []"
| "rl_run l (x # xs) = (let (l', r) = rl_step l x
     in case r of None \<Rightarrow> rl_run l' xs | Some a \<Rightarrow> a # rl_run l' xs)"

fun clock_ok :: "gotime \<Rightarrow> rl_op list \<Rightarrow> bool" where
  "clock_ok now [] = True"
| "clock_ok now (x # xs) \<longleftrightarrow> now \<le> op_time now x \<and> clock_ok (op_time now x) xs"

fun is_cleanup :: "rl_op \<Rightarrow> bool" where
  "is_cleanup (OpCleanup t) = True"
| "is_cleanup _ = False"

lemma lim_eq_check:
  assumes eq: "lim_eq t l l'"
  shows "lim_eq t (fst (check l i ty t)) (fst (check l' i ty t)) \<and> snd (check l i ty t) = snd (check l' i ty t)"
proof -
  have cfg: "lm_cfg l = lm_cfg l'" using eq by (simp add: lim_eq_def)
  have lim: "limit_for l' = limit_for l" by (rule limit_cfg) (rule cfg)
  have cur: "current_counter l' ty t (gget (lm_counters l') i) = current_counter l ty t (gget (lm_counters l) i)"
    using eq by (intro current_counter_eq) (simp_all add: lim_eq_def)
  have vio: "(case gget (lm_violations l') i of
                 Some v \<Rightarrow> if stale_violation t v then \<lparr>vi_count = 0, vi_window_at = t\<rparr> else v
               | None \<Rightarrow> \<lparr>vi_count = 0, vi_window_at = t\<rparr>) =
             (case gget (lm_violations l) i of
                 Some v \<Rightarrow> if stale_violation t v then \<lparr>vi_count = 0, vi_window_at = t\<rparr> else v
               | None \<Rightarrow> \<lparr>vi_count = 0, vi_window_at = t\<rparr>)"
    using eq gm.live_eq_look [of "\<lambda>_ v. \<not> stale_violation t v" "lm_violations l" "lm_violations l'" i]
    by (auto simp: lim_eq_def split: option.splits if_splits)
  have rs: "reset_seconds l' t = reset_seconds l t"
    by (intro ext) (simp add: reset_seconds_def window_duration_def cfg)
  have st: "stale_counter (l\<lparr>lm_counters := a\<rparr>) = stale_counter l"
    "stale_counter (l\<lparr>lm_counters := a, lm_violations := b\<rparr>) = stale_counter l" for a b
    by (intro ext, simp add: stale_counter_def window_duration_def)+
  show ?thesis
    using eq by (auto simp: check_def Let_def increment_violation_def lim cur vio rs cfg lim_eq_def st
        intro: gm.live_eq_store)
qed

lemma lim_eq_summary:
  assumes eq: "lim_eq t l l'"
  shows "lim_eq t (fst (check_summary l i ty t)) (fst (check_summary l' i ty t)) \<and>
         snd (check_summary l i ty t) = snd (check_summary l' i ty t)"
proof -
  have cfg: "lm_cfg l = lm_cfg l'" using eq by (simp add: lim_eq_def)
  have lim: "summary_limit_for l' = summary_limit_for l" by (intro ext) (simp add: summary_limit_for_def cfg)
  have cur: "current_counter l' ty t (gget (lm_summary_counters l') i) =
      current_counter l ty t (gget (lm_summary_counters l) i)"
    using eq by (intro current_counter_eq) (simp_all add: lim_eq_def)
  have rs: "reset_seconds l' t = reset_seconds l t"
    by (intro ext) (simp add: reset_seconds_def window_duration_def cfg)
  have st: "stale_counter (l\<lparr>lm_summary_counters := a\<rparr>) = stale_counter l" for a
    by (intro ext, simp add: stale_counter_def window_duration_def)
  show ?thesis
    using eq by (auto simp: check_summary_def Let_def lim cur rs cfg lim_eq_def st intro: gm.live_eq_store)
qed

lemma lim_eq_blocked:
  assumes eq: "lim_eq t l l'"
  shows "is_blocked l i ty t = is_blocked l' i ty t"
proof -
  have cfg: "lm_cfg l = lm_cfg l'" using eq by (simp add: lim_eq_def)
  have lim: "limit_for l' = limit_for l" by (rule limit_cfg) (rule cfg)
  have st: "stale_counter l' = stale_counter l" by (rule stale_cfg) (simp add: cfg)
  show ?thesis
    using eq gm.live_eq_look [of "\<lambda>_ c. \<not> stale_counter l t c" "lm_counters l" "lm_counters l'" i]
    by (auto simp: is_blocked_def lim st lim_eq_def split: option.splits if_splits)
qed

lemma gget_reset:
  "gget (if (case gget m i of None \<Rightarrow> False | Some c \<Rightarrow> P c) then gdel i m else m) k =
     (if k = i then (case gget m i of None \<Rightarrow> None | Some c \<Rightarrow> if P c then None else Some c) else gget m k)"
  by (cases "gget m i") (auto simp: gget_del)

lemma reset_hit_eq:
  assumes "gm.live_eq L m m'"
  shows "gm.live_eq L
     (if (case gget m i of None \<Rightarrow> False | Some c \<Rightarrow> P c) then gdel i m else m)
     (if (case gget m' i of None \<Rightarrow> False | Some c \<Rightarrow> P c) then gdel i m' else m')"
  unfolding gm.live_eq_def gget_reset
proof (intro conjI allI impI)
  show "gok (if (case gget m i of None \<Rightarrow> False | Some c \<Rightarrow> P c) then gdel i m else m)"
    and "gok (if (case gget m' i of None \<Rightarrow> False | Some c \<Rightarrow> P c) then gdel i m' else m')"
    using assms by (simp_all add: gm.live_eq_def gok_del)
  fix k v assume L: "L k v"
  then have iff: "gget m k = Some v \<longleftrightarrow> gget m' k = Some v" using assms by (simp add: gm.live_eq_def)
  show "((if k = i then case gget m i of None \<Rightarrow> None | Some c \<Rightarrow> if P c then None else Some c else gget m k) = Some v) =
        ((if k = i then case gget m' i of None \<Rightarrow> None | Some c \<Rightarrow> if P c then None else Some c else gget m' k) = Some v)"
    using iff by (auto split: option.splits if_splits)
qed

lemma lim_eq_reset:
  assumes eq: "lim_eq t l l'"
  shows "lim_eq t (fst (reset l i ty)) (fst (reset l' i ty))"
proof -
  have st: "stale_counter (fst (reset l i ty)) = stale_counter l"
    by (rule stale_cfg) (simp add: reset_def Let_def)
  have vio: "gm.live_eq (\<lambda>_ v. \<not> stale_violation t v)
      (if gget (lm_violations l) i \<noteq> None then gdel i (lm_violations l) else lm_violations l)
      (if gget (lm_violations l') i \<noteq> None then gdel i (lm_violations l') else lm_violations l')"
    using eq reset_hit_eq [where L = "\<lambda>_ v. \<not> stale_violation t v" and m = "lm_violations l"
        and m' = "lm_violations l'" and i = i and P = "\<lambda>_. True"]
    by (simp add: lim_eq_def split: option.splits)
  show ?thesis
    using eq vio unfolding lim_eq_def st
    by (simp add: reset_def Let_def reset_hit_eq)
qed

lemma lim_eq_step:
  assumes "lim_eq now l l'" and "now \<le> op_time now x" and "\<not> is_cleanup x"
  shows "lim_eq (op_time now x) (fst (rl_step l x)) (fst (rl_step l' x)) \<and> snd (rl_step l x) = snd (rl_step l' x)"
proof -
  have eq: "lim_eq (op_time now x) l l'" using assms(1,2) by (rule lim_eq_later)
  show ?thesis
  proof (cases x)
    case (OpCheck i ty t)
    with eq lim_eq_check [of t l l' i ty] show ?thesis by (simp add: Let_def case_prod_unfold)
  next
    case (OpSummary i ty t)
    with eq lim_eq_summary [of t l l' i ty] show ?thesis by (simp add: Let_def case_prod_unfold)
  next
    case (OpBlocked i ty t)
    with eq lim_eq_blocked [of t l l' i ty] show ?thesis by simp
  next
    case (OpReset i ty)
    with eq lim_eq_reset [of now l l' i ty] show ?thesis by simp
  next
    case (OpCleanup t)
    with assms(3) show ?thesis by simp
  qed
qed

lemma lim_eq_trans: "lim_eq t a b \<Longrightarrow> lim_eq t b c \<Longrightarrow> lim_eq t a c"
  unfolding lim_eq_def using stale_cfg [of a b] by (auto elim: gm.live_eq_trans)

lemma lim_eq_sym: "lim_eq t a b \<Longrightarrow> lim_eq t b a"
  unfolding lim_eq_def using stale_cfg [of a b] by (auto elim: gm.live_eq_sym)

lemma rl_run_cleanups:
  assumes "lim_eq now l l'" and "clock_ok now xs"
  shows "rl_run l xs = rl_run l' (filter (\<lambda>x. \<not> is_cleanup x) xs)"
  using assms
proof (induction xs arbitrary: now l l')
  case (Cons x xs)
  have le: "now \<le> op_time now x" and rest: "clock_ok (op_time now x) xs" using Cons.prems(2) by simp_all
  show ?case
  proof (cases "is_cleanup x")
    case True
    then obtain t where x: "x = OpCleanup t" by (cases x) simp_all
    have eq: "lim_eq t l l'" using lim_eq_later [OF Cons.prems(1)] le x by simp
    have "lim_eq t (cleanup t l) l" using eq by (intro lim_eq_cleanup) (simp_all add: lim_eq_def gm.live_eq_def)
    from lim_eq_trans [OF this eq] Cons.IH [of t "cleanup t l" l'] rest x show ?thesis by simp
  next
    case False
    from lim_eq_step [OF Cons.prems(1) le False] Cons.IH [OF _ rest] False
    show ?thesis by (simp add: Let_def case_prod_unfold split: option.split)
  qed
qed simp

text \<open>C12: the periodic clean-up is invisible: with a clock that never goes back, every check,
  summary check and blocked query of any trace of requests answers as it does with no clean-up at all, wherever
  the clean-ups run.\<close>

theorem cleanup_invisible:
  assumes "clock_ok now xs"
  shows "rl_run (new_limiter cfg) xs = rl_run (new_limiter cfg) (filter (\<lambda>x. \<not> is_cleanup x) xs)"
proof -
  have "lim_eq now (new_limiter cfg) (new_limiter cfg)"
    by (simp add: lim_eq_def new_limiter_def gm.live_eq_refl)
  then show ?thesis using assms by (rule rl_run_cleanups)
qed

lemma cleanup_invisible_witness:
  "rl_run (new_limiter sample_cfg) [OpCheck ''u'' ''discord:user'' 1, OpCleanup 300000000000, OpBlocked ''u'' ''discord:user'' 300000000001]
     = rl_run (new_limiter sample_cfg) [OpCheck ''u'' ''discord:user'' 1, OpBlocked ''u'' ''discord:user'' 300000000001]"
  using cleanup_invisible [of 0 "[OpCheck ''u'' ''discord:user'' 1, OpCleanup 300000000000,
     OpBlocked ''u'' ''discord:user'' 300000000001]" sample_cfg] by simp

section \<open>Reports and reset\<close>

text \<open>the list of blocked destinations names, in the alert bucket, every destination \<open>IsBlocked\<close>
  reports under its recorded type, and a reset by id alone leaves a destination as if never seen: unblocked,
  with a fresh window and without violations.\<close>

theorem list_blocked_and_reset:
  "(gget (lm_counters l) i = Some c \<longrightarrow> is_blocked l i (cn_dtype c) now \<longrightarrow>
           (\<exists>s \<in> set (list_blocked l now). ts_id s = i \<and> ts_bucket s = ''alert'' \<and> ts_count s = cn_count c)) \<and>
   state_for (fst (reset l i [])) i [] now = [] \<and> \<not> is_blocked (fst (reset l i [])) i ty now \<and>
         violation_state (fst (reset l i [])) i now = (0, zero_time)"
proof (rule conjI)
  show "gget (lm_counters l) i = Some c \<longrightarrow> is_blocked l i (cn_dtype c) now \<longrightarrow>
           (\<exists>s \<in> set (list_blocked l now). ts_id s = i \<and> ts_bucket s = ''alert'' \<and> ts_count s = cn_count c)"
  proof (intro impI)
    assume c: "gget (lm_counters l) i = Some c" and b: "is_blocked l i (cn_dtype c) now"
    have mem: "(i, c) \<in> set (lm_counters l)" using c by (rule gget_mem)
    have live: "\<not> stale_counter l now c" "cn_count c \<ge> limit_for l i (cn_dtype c)"
      using b c by (simp_all add: is_blocked_def split: if_splits)
    obtain vs until where vs: "violation_state l i now = (vs, until)" by fastforce
    have "snapshot_counter l i c ''alert'' vs until \<in> set (blocked_alerts l now)"
      unfolding blocked_alerts_def set_concat set_map
      by (rule UN_I [OF imageI [OF mem]]) (simp add: live vs)
    then have "snapshot_counter l i c ''alert'' vs until \<in> set (list_blocked l now)"
      by (simp add: list_blocked_def Let_def)
    then show "\<exists>s \<in> set (list_blocked l now). ts_id s = i \<and> ts_bucket s = ''alert'' \<and> ts_count s = cn_count c"
      by (rule bexI [rotated]) (simp add: snapshot_counter_def)
  qed
  show "state_for (fst (reset l i [])) i [] now = [] \<and> \<not> is_blocked (fst (reset l i [])) i ty now \<and>
         violation_state (fst (reset l i [])) i now = (0, zero_time)"
    by (auto simp: state_for_def reset_def is_blocked_def violation_state_def Let_def gget_del case_prod_unfold
        split: option.split)
qed

lemma list_blocked_and_reset_witness:
  "\<exists>s \<in> set (list_blocked ((new_limiter sample_cfg)\<lparr>lm_counters := [(''u'', \<lparr>cn_count = 3, cn_window_at = 0,
      cn_dtype = ''discord:user''\<rparr>)]\<rparr>) 1). ts_id s = ''u'' \<and> ts_bucket s = ''alert'' \<and> ts_count s = 3"
  using list_blocked_and_reset [where l = "(new_limiter sample_cfg)\<lparr>lm_counters := [(''u'', \<lparr>cn_count = 3,
      cn_window_at = 0, cn_dtype = ''discord:user''\<rparr>)]\<rparr>" and now = 1 and i = "''u''"
      and c = "\<lparr>cn_count = 3, cn_window_at = 0, cn_dtype = ''discord:user''\<rparr>"]
  by (simp add: gget_Cons is_blocked_def stale_counter_def new_limiter_def sample_cfg_def window_duration_def
      limit_for_def is_user_type_def)

end
