(* ===== verification/Dedup.thy ===== *)
theory Dedup
  imports Prelude "HOL-Library.Word"
begin

text \<open>
  The duplicate caches of \<open>internal/tracker\<close>: the sharded set of key fingerprints with expiry
  (\<open>expiring_set.go\<close>) and the per-webhook keys and lifetimes over it (\<open>duplicate.go\<close>).

  \<open>hash/maphash\<close> with its random seed is the argument \<open>h\<close> of the definitions, a function from the bytes
  written to a 64-bit sum. A shard maps a fingerprint to its expiry in Unix nanoseconds. The array
  of 16 shards is a function of the shard number. Each operation holds the lock of its shard, so it
  is one step; the background sweep is an operation of the trace. The third-party ttlcache behind
  the raid cache is a pair of functions \<open>cget\<close>, \<open>cset\<close>, arguments of \<open>check_raid\<close>.
\<close>

section \<open>The expiring set\<close>

type_synonym fingerprint = "64 word"
type_synonym expiring_set = "nat \<Rightarrow> (fingerprint, int) gomap"

definition expiring_set_shards :: nat where "expiring_set_shards = 16"

definition new_expiring_set :: expiring_set where
  "new_expiring_set = (\<lambda>i. [])"

definition shard_for :: "fingerprint \<Rightarrow> nat" where
  "shard_for fp = unat fp mod expiring_set_shards"

definition shard_look :: "expiring_set \<Rightarrow> fingerprint \<Rightarrow> int option" where
  "shard_look s fp = gget (s (shard_for fp)) fp"

definition shard_store :: "fingerprint \<Rightarrow> int \<Rightarrow> expiring_set \<Rightarrow> expiring_set" where
  "shard_store fp e s = s(shard_for fp := gput fp e (s (shard_for fp)))"

definition shard_delete :: "fingerprint \<Rightarrow> expiring_set \<Rightarrow> expiring_set" where
  "shard_delete fp s = s(shard_for fp := gdel fp (s (shard_for fp)))"

definition shard_retain :: "(fingerprint \<Rightarrow> int \<Rightarrow> bool) \<Rightarrow> expiring_set \<Rightarrow> expiring_set" where
  "shard_retain P s = (\<lambda>i. gkeep P (s i))"

definition shards_ok :: "expiring_set \<Rightarrow> bool" where
  "shards_ok s \<longleftrightarrow> (\<forall>i. gok (s i))"

text \<open>The sharded set keeps the laws of one Go map.\<close>

interpretation es: go_map shard_look shard_store shard_delete shard_retain shards_ok
  by unfold_locales
    (auto simp: shard_look_def shard_store_def shard_delete_def shard_retain_def shards_ok_def
       gget_put gget_del gget_keep intro: gok_intros split: option.splits)

definition check_and_add :: "expiring_set \<Rightarrow> fingerprint \<Rightarrow> duration \<Rightarrow> gotime \<Rightarrow> expiring_set \<times> bool" where
  "check_and_add s fp ttl now =
     (case shard_look s fp of
        Some expiry \<Rightarrow> if expiry > now then (s, True) else (shard_store fp (now + ttl) s, False)
      | None \<Rightarrow> (shard_store fp (now + ttl) s, False))"

definition es_has :: "(string \<Rightarrow> fingerprint) \<Rightarrow> expiring_set \<Rightarrow> string \<Rightarrow> gotime \<Rightarrow> bool" where
  "es_has h s key now = (case shard_look s (h key) of None \<Rightarrow> False | Some expiry \<Rightarrow> expiry > now)"

definition es_add :: "(string \<Rightarrow> fingerprint) \<Rightarrow> expiring_set \<Rightarrow> string \<Rightarrow> duration \<Rightarrow> gotime \<Rightarrow> expiring_set" where
  "es_add h s key ttl now = shard_store (h key) (now + ttl) s"

definition es_len :: "expiring_set \<Rightarrow> nat" where
  "es_len s = sum_list (map (\<lambda>i. length (s i)) [0..<expiring_set_shards])"

definition sweep :: "expiring_set \<Rightarrow> gotime \<Rightarrow> expiring_set" where
  "sweep s now = shard_retain (\<lambda>fp expiry. \<not> expiry \<le> now) s"

section \<open>Keys\<close>

text \<open>\<open>keyWriter\<close>: the bytes written so far; every component ends with a zero byte.\<close>

definition nul :: char where "nul = CHR 0x00"

definition key_str :: "string \<Rightarrow> string \<Rightarrow> string" where
  "key_str v k = k @ v @ [nul]"

definition key_int :: "int \<Rightarrow> string \<Rightarrow> string" where
  "key_int v k = k @ itoa v @ [nul]"

definition key_bool :: "bool \<Rightarrow> string \<Rightarrow> string" where
  "key_bool v k = k @ [if v then CHR ''T'' else CHR ''F'', nul]"

text \<open>The webhooks that are deduplicated this way, with the arguments of their \<open>Check\<close> method.\<close>

datatype dedup_req =
    DPokemon string bool int int
  | DShowcase string int string
  | DInvasion string int
  | DQuest string string
  | DLure string int
  | DMaxbattle string int int
  | DNest int int int

text \<open>\<open>remaining\<close> of the methods: the time left with five minutes of grace, or a fallback.\<close>

definition grace_ttl :: "int \<Rightarrow> int \<Rightarrow> duration" where
  "grace_ttl until now_s =
     (let remaining = until - now_s + 300
      in (if remaining \<le> 0 then 60 else remaining) * 1000000000)"

definition check_pokemon ::
    "(string \<Rightarrow> fingerprint) \<Rightarrow> expiring_set \<Rightarrow> string \<Rightarrow> bool \<Rightarrow> int \<Rightarrow> int \<Rightarrow> gotime \<Rightarrow> expiring_set \<times> bool" where
  "check_pokemon h s encounter_id verified cp disappear_time now =
     (let k = key_int cp (key_bool verified (key_str encounter_id []));
          ttl = (if \<not> verified \<or> disappear_time = 0 then 60 * ns_minute
                 else grace_ttl disappear_time (unix now))
      in check_and_add s (h k) ttl now)"

definition check_showcase ::
    "(string \<Rightarrow> fingerprint) \<Rightarrow> expiring_set \<Rightarrow> string \<Rightarrow> int \<Rightarrow> string \<Rightarrow> gotime \<Rightarrow> expiring_set \<times> bool" where
  "check_showcase h s pokestop_id showcase_expiry rank1 now =
     check_and_add s (h (key_str rank1 (key_int showcase_expiry (key_str ''SC'' (key_str pokestop_id [])))))
       (grace_ttl showcase_expiry (unix now)) now"

definition check_invasion ::
    "(string \<Rightarrow> fingerprint) \<Rightarrow> expiring_set \<Rightarrow> string \<Rightarrow> int \<Rightarrow> gotime \<Rightarrow> expiring_set \<times> bool" where
  "check_invasion h s pokestop_id expiration now =
     check_and_add s (h (key_int expiration (key_str ''I'' (key_str pokestop_id []))))
       (grace_ttl expiration (unix now)) now"

definition check_quest ::
    "(string \<Rightarrow> fingerprint) \<Rightarrow> expiring_set \<Rightarrow> string \<Rightarrow> string \<Rightarrow> gotime \<Rightarrow> expiring_set \<times> bool" where
  "check_quest h s pokestop_id rewards_key now =
     check_and_add s (h (key_str rewards_key (key_str pokestop_id []))) (90 * ns_minute) now"

definition check_lure ::
    "(string \<Rightarrow> fingerprint) \<Rightarrow> expiring_set \<Rightarrow> string \<Rightarrow> int \<Rightarrow> gotime \<Rightarrow> expiring_set \<times> bool" where
  "check_lure h s pokestop_id expiration now =
     check_and_add s (h (key_int expiration (key_str ''L'' (key_str pokestop_id []))))
       (grace_ttl expiration (unix now)) now"

definition check_maxbattle ::
    "(string \<Rightarrow> fingerprint) \<Rightarrow> expiring_set \<Rightarrow> string \<Rightarrow> int \<Rightarrow> int \<Rightarrow> gotime \<Rightarrow> expiring_set \<times> bool" where
  "check_maxbattle h s station_id battle_end pokemon_id now =
     check_and_add s (h (key_int pokemon_id (key_int battle_end (key_str ''M'' (key_str station_id [])))))
       (grace_ttl battle_end (unix now)) now"

definition check_nest ::
    "(string \<Rightarrow> fingerprint) \<Rightarrow> expiring_set \<Rightarrow> int \<Rightarrow> int \<Rightarrow> int \<Rightarrow> gotime \<Rightarrow> expiring_set \<times> bool" where
  "check_nest h s nest_id pokemon_id reset_time now =
     (let remaining = reset_time + 14 * 24 * 3600 - unix now
      in check_and_add s (h (key_int reset_time (key_int pokemon_id (key_int nest_id []))))
           ((if remaining \<le> 0 then 3600 else remaining) * 1000000000) now)"

fun dedup_check ::
    "(string \<Rightarrow> fingerprint) \<Rightarrow> expiring_set \<Rightarrow> dedup_req \<Rightarrow> gotime \<Rightarrow> expiring_set \<times> bool" where
  "dedup_check h s (DPokemon e v cp d) now = check_pokemon h s e v cp d now"
| "dedup_check h s (DShowcase p e r) now = check_showcase h s p e r now"
| "dedup_check h s (DInvasion p e) now = check_invasion h s p e now"
| "dedup_check h s (DQuest p r) now = check_quest h s p r now"
| "dedup_check h s (DLure p e) now = check_lure h s p e now"
| "dedup_check h s (DMaxbattle p e i) now = check_maxbattle h s p e i now"
| "dedup_check h s (DNest n p r) now = check_nest h s n p r now"

section \<open>The raid cache\<close>

record raid_rsvp =
  rv_timeslot :: int
  rv_going_count :: int
  rv_maybe_count :: int

text \<open>The inner loop: the first old entry of the timeslot decides.\<close>

fun rsvp_entry_changed :: "raid_rsvp \<Rightarrow> raid_rsvp list \<Rightarrow> bool" where
  "rsvp_entry_changed nr [] = True"
| "rsvp_entry_changed nr (old # olds) =
     (if rv_timeslot nr = rv_timeslot old
      then rv_going_count nr \<noteq> rv_going_count old \<or> rv_maybe_count nr \<noteq> rv_maybe_count old
      else rsvp_entry_changed nr olds)"

definition rsvp_changed :: "raid_rsvp list \<Rightarrow> raid_rsvp list \<Rightarrow> bool" where
  "rsvp_changed old new \<longleftrightarrow>
     (if length new > length old then True else list_ex (\<lambda>nr. rsvp_entry_changed nr old) new)"

definition raid_key :: "string \<Rightarrow> int \<Rightarrow> int \<Rightarrow> string" where
  "raid_key gym_id end_time pokemon_id = gym_id @ '':'' @ itoa end_time @ '':'' @ itoa pokemon_id"

type_synonym 'c cache_get = "'c \<Rightarrow> string \<Rightarrow> gotime \<Rightarrow> raid_rsvp list option"
type_synonym 'c cache_set = "string \<Rightarrow> raid_rsvp list \<Rightarrow> duration \<Rightarrow> gotime \<Rightarrow> 'c \<Rightarrow> 'c"

text \<open>The answer is (is duplicate, is first notification).\<close>

definition check_raid ::
    "'c cache_get \<Rightarrow> 'c cache_set \<Rightarrow> 'c \<Rightarrow> string \<Rightarrow> int \<Rightarrow> int \<Rightarrow> raid_rsvp list \<Rightarrow> gotime \<Rightarrow> 'c \<times> bool \<times> bool" where
  "check_raid cget cset c gym_id end_time pokemon_id rsvps now =
     (let key = raid_key gym_id end_time pokemon_id
      in case cget c key now of
           None \<Rightarrow> (cset key rsvps (90 * ns_minute) now c, False, True)
         | Some prev \<Rightarrow>
             if rsvp_changed prev rsvps then (cset key rsvps (90 * ns_minute) now c, False, False)
             else (c, True, False))"

section \<open>Keys separate the webhooks\<close>

definition req_parts :: "dedup_req \<Rightarrow> string list" where
  "req_parts r = (case r of
     DPokemon e v cp d \<Rightarrow> [e, [if v then CHR ''T'' else CHR ''F''], itoa cp]
   | DShowcase p e f \<Rightarrow> [p, ''SC'', itoa e, f]
   | DInvasion p e \<Rightarrow> [p, ''I'', itoa e]
   | DQuest p w \<Rightarrow> [p, w]
   | DLure p e \<Rightarrow> [p, ''L'', itoa e]
   | DMaxbattle p e i \<Rightarrow> [p, ''M'', itoa e, itoa i]
   | DNest n p t \<Rightarrow> [itoa n, itoa p, itoa t])"

definition key_of_parts :: "string list \<Rightarrow> string" where
  "key_of_parts cs = concat (map (\<lambda>c. c @ [nul]) cs)"

text \<open>What a request names, whatever its lifetime: only the despawn time of a pokemon is left out.\<close>

fun same_event :: "dedup_req \<Rightarrow> dedup_req \<Rightarrow> bool" where
  "same_event (DPokemon e v cp _) (DPokemon e' v' cp' _) \<longleftrightarrow> e = e' \<and> v = v' \<and> cp = cp'"
| "same_event r r' \<longleftrightarrow> r = r'"

fun nul_free :: "dedup_req \<Rightarrow> bool" where
  "nul_free (DPokemon e _ _ _) \<longleftrightarrow> nul \<notin> set e"
| "nul_free (DShowcase p _ f) \<longleftrightarrow> nul \<notin> set p \<and> nul \<notin> set f"
| "nul_free (DInvasion p _) \<longleftrightarrow> nul \<notin> set p"
| "nul_free (DQuest p w) \<longleftrightarrow> nul \<notin> set p \<and> nul \<notin> set w"
| "nul_free (DLure p _) \<longleftrightarrow> nul \<notin> set p"
| "nul_free (DMaxbattle p _ _) \<longleftrightarrow> nul \<notin> set p"
| "nul_free (DNest _ _ _) \<longleftrightarrow> True"

lemma split_at_nul:
  assumes "nul \<notin> set a" "nul \<notin> set b"
  shows "a @ nul # x = b @ nul # y \<longleftrightarrow> a = b \<and> x = y"
proof
  assume eq: "a @ nul # x = b @ nul # y"
  have tw: "takeWhile (\<lambda>c. c \<noteq> nul) (c @ nul # z) = c" if "nul \<notin> set c" for c z
    using that by (subst takeWhile_append2) auto
  from eq tw assms have "a = b" by metis
  with eq show "a = b \<and> x = y" by simp
qed simp

lemma key_of_parts_inj:
  "\<forall>c \<in> set cs. nul \<notin> set c \<Longrightarrow> \<forall>c \<in> set ds. nul \<notin> set c \<Longrightarrow> key_of_parts cs = key_of_parts ds \<longleftrightarrow> cs = ds"
proof (induction cs arbitrary: ds)
  case Nil
  then show ?case by (cases ds) (simp_all add: key_of_parts_def)
next
  case (Cons c cs)
  show ?case
  proof (cases ds)
    case Nil
    then show ?thesis by (simp add: key_of_parts_def)
  next
    case (Cons d ds')
    with Cons.prems Cons.IH [of ds'] split_at_nul [of c d "key_of_parts cs" "key_of_parts ds'"]
    show ?thesis by (simp add: key_of_parts_def)
  qed
qed

lemma digits_below: "c \<in> set (digits_of n) \<Longrightarrow> 48 \<le> (of_char c :: nat) \<and> (of_char c :: nat) \<le> 57"
proof (induction n rule: digits_of.induct)
  case (1 n)
  have d: "48 \<le> (of_char (digit_char k) :: nat) \<and> (of_char (digit_char k) :: nat) \<le> 57" if "k < 10" for k
    using that by (simp add: of_char_digit)
  show ?case
  proof (cases "n < 10")
    case True
    with 1(2) d show ?thesis by (subst (asm) digits_of.simps) simp
  next
    case False
    with 1 d [of "n mod 10"] show ?thesis by (subst (asm) digits_of.simps) auto
  qed
qed

lemma itoa_below: "c \<in> set (itoa n) \<Longrightarrow> 45 \<le> (of_char c :: nat) \<and> (of_char c :: nat) \<le> 57"
  by (auto simp: itoa_def dest!: digits_below split: if_splits)

lemma nul_not_itoa [simp]: "nul \<notin> set (itoa n)"
  using itoa_below [of nul n] by (auto simp: nul_def)

lemma itoa_not_letter: "(of_char c :: nat) > 57 \<Longrightarrow> itoa n \<noteq> c # cs"
  using itoa_below [of c n] by auto

lemma letter_not_itoa: "(of_char c :: nat) > 57 \<Longrightarrow> c # cs \<noteq> itoa n"
  using itoa_not_letter by metis

lemma nul_free_parts: "nul_free r \<Longrightarrow> \<forall>c \<in> set (req_parts r). nul \<notin> set c"
  by (cases r) (auto simp: req_parts_def nul_not_itoa [unfolded nul_def] nul_def)

lemma req_parts_inj: "req_parts r = req_parts r' \<longleftrightarrow> same_event r r'"
  by (cases r; cases r') (auto simp: req_parts_def itoa_inj itoa_not_letter letter_not_itoa split: if_splits)

definition req_key :: "dedup_req \<Rightarrow> string" where
  "req_key r = key_of_parts (req_parts r)"

lemma req_key_inj: "nul_free r \<Longrightarrow> nul_free r' \<Longrightarrow> req_key r = req_key r' \<longleftrightarrow> same_event r r'"
  by (simp add: req_key_def key_of_parts_inj nul_free_parts req_parts_inj)

text \<open>How long an accepted request silences its event.\<close>

fun req_ttl :: "dedup_req \<Rightarrow> gotime \<Rightarrow> duration" where
  "req_ttl (DPokemon e v cp d) now =
     (if \<not> v \<or> d = 0 then 60 * ns_minute else grace_ttl d (unix now))"
| "req_ttl (DShowcase p e f) now = grace_ttl e (unix now)"
| "req_ttl (DInvasion p e) now = grace_ttl e (unix now)"
| "req_ttl (DQuest p w) now = 90 * ns_minute"
| "req_ttl (DLure p e) now = grace_ttl e (unix now)"
| "req_ttl (DMaxbattle p e i) now = grace_ttl e (unix now)"
| "req_ttl (DNest n p t) now =
     (let remaining = t + 14 * 24 * 3600 - unix now in (if remaining \<le> 0 then 3600 else remaining) * 1000000000)"

lemmas key_defs = key_str_def key_int_def key_bool_def

lemma dedup_check_eq: "dedup_check h s r now = check_and_add s (h (req_key r)) (req_ttl r now) now"
  by (cases r) (simp_all add: check_pokemon_def check_showcase_def check_invasion_def check_quest_def
      check_lure_def check_maxbattle_def check_nest_def key_defs req_key_def key_of_parts_def req_parts_def Let_def)

lemma req_ttl_pos: "0 < req_ttl r now"
  by (cases r) (auto simp: grace_ttl_def Let_def)

section \<open>Histories\<close>

text \<open>A trace of the cache: checks and sweeps, each with its clock reading.\<close>

datatype dd_op = DCheck dedup_req gotime | DSweep gotime

fun dd_time :: "dd_op \<Rightarrow> gotime" where
  "dd_time (DCheck r t) = t"
| "dd_time (DSweep t) = t"

fun dd_run :: "(string \<Rightarrow> fingerprint) \<Rightarrow> expiring_set \<Rightarrow> dd_op list \<Rightarrow> bool option list" where
  "dd_run h s [] = []"
| "dd_run h s (DCheck r t # xs) = (let (s', dup) = dedup_check h s r t in Some dup # dd_run h s' xs)"
| "dd_run h s (DSweep t # xs) = None # dd_run h (sweep s t) xs"

lemma length_dd_run [simp]: "length (dd_run h s xs) = length xs"
proof (induction xs arbitrary: s)
  case (Cons x xs)
  then show ?case by (cases x) (simp_all add: Let_def case_prod_unfold)
qed simp

text \<open>The set holds, of what is still live at \<open>now\<close>, exactly the accepted requests \<open>A\<close>.\<close>

definition holds_live :: "gotime \<Rightarrow> expiring_set \<Rightarrow> (fingerprint \<times> int) set \<Rightarrow> bool" where
  "holds_live now s A \<longleftrightarrow> shards_ok s \<and> (\<forall>fp e. e > now \<longrightarrow> (shard_look s fp = Some e \<longleftrightarrow> (fp, e) \<in> A))"

lemma holds_live_later: "holds_live now s A \<Longrightarrow> now \<le> t \<Longrightarrow> holds_live t s A"
  by (simp add: holds_live_def)

lemma look_sweep: "shards_ok s \<Longrightarrow> e > t \<Longrightarrow> shard_look (sweep s t) fp = Some e \<longleftrightarrow> shard_look s fp = Some e"
  by (simp add: sweep_def es.look_retain split: option.split)

lemma holds_live_sweep: "holds_live t s A \<Longrightarrow> holds_live t (sweep s t) A"
  by (simp add: holds_live_def look_sweep) (simp add: sweep_def es.ok_retain)

lemma check_and_add_live:
  assumes "holds_live t s A"
  shows "snd (check_and_add s fp ttl t) \<longleftrightarrow> (\<exists>e. (fp, e) \<in> A \<and> e > t)"
proof -
  have "(\<exists>e. (fp, e) \<in> A \<and> e > t) \<longleftrightarrow> (\<exists>e. shard_look s fp = Some e \<and> e > t)"
    using assms unfolding holds_live_def by blast
  then show ?thesis by (simp add: check_and_add_def split: option.split)
qed

lemma holds_live_check:
  assumes "holds_live t s A"
  shows "holds_live t (fst (check_and_add s fp ttl t)) (if snd (check_and_add s fp ttl t) then A else insert (fp, t + ttl) A)"
proof (cases "snd (check_and_add s fp ttl t)")
  case True
  then have "fst (check_and_add s fp ttl t) = s"
    by (simp add: check_and_add_def split: option.splits if_splits)
  with True assms show ?thesis by simp
next
  case False
  then have store: "fst (check_and_add s fp ttl t) = shard_store fp (t + ttl) s"
    by (simp add: check_and_add_def split: option.splits if_splits)
  have none: "(fp, e) \<notin> A" if "e > t" for e
    using False that check_and_add_live [OF assms, of fp ttl] by blast
  show ?thesis
    using assms none False by (auto simp: store holds_live_def es.look_store es.ok_store)
qed

text \<open>Duplicates of a run, by the requests it accepted before.\<close>

lemma dd_run_dup:
  assumes "holds_live now s A" and "sorted (now # map dd_time xs)"
    and "i < length xs" and "xs ! i = DCheck r t"
  shows "dd_run h s xs ! i = Some True \<longleftrightarrow>
     (\<exists>e. (h (req_key r), e) \<in> A \<and> e > t) \<or>
     (\<exists>j < i. \<exists>r' t'. xs ! j = DCheck r' t' \<and> h (req_key r') = h (req_key r) \<and>
        dd_run h s xs ! j = Some False \<and> t' + req_ttl r' t' > t)"
  using assms
proof (induction xs arbitrary: now s A i)
  case (Cons x xs)
  have le: "now \<le> dd_time x" and rest: "sorted (dd_time x # map dd_time xs)" using Cons.prems(2) by simp_all
  have inv: "holds_live (dd_time x) s A" using holds_live_later [OF Cons.prems(1) le] .
  show ?case
  proof (cases i)
    case 0
    with Cons.prems(4) inv show ?thesis
      by (simp add: dedup_check_eq check_and_add_live Let_def case_prod_unfold)
  next
    case (Suc k)
    then have k: "k < length xs" "xs ! k = DCheck r t" using Cons.prems(3,4) by simp_all
    show ?thesis
    proof (cases x)
      case (DSweep t0)
      have "holds_live t0 (sweep s t0) A" using inv DSweep by (simp add: holds_live_sweep)
      from Cons.IH [OF this _ k] rest DSweep Suc show ?thesis
        by (auto simp: less_Suc_eq_0_disj)
    next
      case (DCheck r0 t0)
      let ?c = "check_and_add s (h (req_key r0)) (req_ttl r0 t0) t0"
      have "holds_live t0 (fst ?c) (if snd ?c then A else insert (h (req_key r0), t0 + req_ttl r0 t0) A)"
        using inv DCheck by (simp add: holds_live_check)
      from Cons.IH [OF this _ k] rest DCheck Suc show ?thesis
        by (auto simp: less_Suc_eq_0_disj dedup_check_eq Let_def case_prod_unfold)
    qed
  qed
qed simp

lemma holds_live_new: "holds_live now new_expiring_set {}"
  by (simp add: holds_live_def new_expiring_set_def shards_ok_def shard_look_def)

text \<open>C5: a webhook is reported a duplicate exactly when an earlier webhook of the same event was let
  through and its lifetime has not run out: with a clock that never goes back, fingerprints that do not
  collide on the keys of the trace and identifiers without a zero byte, neither the sharding, nor the
  background sweeps, nor the lifetimes of other events, nor duplicates in between change the answer.\<close>

theorem dedup_exact:
  assumes "sorted (map dd_time xs)"
    and "\<forall>r \<in> {r. \<exists>t. DCheck r t \<in> set xs}. nul_free r"
    and "inj_on h {req_key r | r. \<exists>t. DCheck r t \<in> set xs}"
    and "i < length xs" and "xs ! i = DCheck r t"
  shows "dd_run h new_expiring_set xs ! i = Some True \<longleftrightarrow>
     (\<exists>j < i. \<exists>r' t'. xs ! j = DCheck r' t' \<and> same_event r' r \<and>
        dd_run h new_expiring_set xs ! j = Some False \<and> t < t' + req_ttl r' t')"
proof -
  have mem: "DCheck r t \<in> set xs" using assms(4,5) by (metis nth_mem)
  have key: "h (req_key r') = h (req_key r) \<longleftrightarrow> same_event r' r"
    if "j < i" "xs ! j = DCheck r' t'" for j r' t'
  proof -
    have mem': "DCheck r' t' \<in> set xs" using that assms(4) by (metis nth_mem order.strict_trans)
    have "h (req_key r') = h (req_key r) \<longleftrightarrow> req_key r' = req_key r"
      using mem mem' by (intro inj_on_eq_iff [OF assms(3)]) blast+
    also have "\<dots> \<longleftrightarrow> same_event r' r" using mem mem' assms(2) by (intro req_key_inj) blast+
    finally show ?thesis .
  qed
  have now: "sorted ((case xs of [] \<Rightarrow> 0 | x # _ \<Rightarrow> dd_time x) # map dd_time xs)"
    using assms(1) by (cases xs) auto
  show ?thesis
    using dd_run_dup [OF holds_live_new now assms(4,5), of h] key by (auto simp: conj_commute)
qed

definition sample_hash :: "string \<Rightarrow> fingerprint" where
  "sample_hash k = of_nat (length k)"

definition sample_trace :: "dd_op list" where
  "sample_trace = [DCheck (DLure ''p'' 100) 0, DCheck (DQuest ''p'' ''r'') 1, DSweep 60000000000,
     DCheck (DLure ''p'' 100) 399000000000]"

lemma sample_trace_checks: "{r. \<exists>t. DCheck r t \<in> set sample_trace} = {DLure ''p'' 100, DQuest ''p'' ''r''}"
  by (auto simp: sample_trace_def)

lemma sample_trace_keys:
  "{req_key r | r. \<exists>t. DCheck r t \<in> set sample_trace} = {req_key (DLure ''p'' 100), req_key (DQuest ''p'' ''r'')}"
  by (auto simp: sample_trace_def)

lemma sample_hash_inj: "inj_on sample_hash {req_key (DLure ''p'' 100), req_key (DQuest ''p'' ''r'')}"
  by (simp add: sample_hash_def req_key_def req_parts_def key_of_parts_def itoa_def digits_of.simps)

lemma dedup_exact_witness: "dd_run sample_hash new_expiring_set sample_trace ! 3 = Some True"
proof -
  have first: "dd_run sample_hash new_expiring_set sample_trace ! 0 = Some False"
    by (simp add: sample_trace_def dedup_check_eq check_and_add_def new_expiring_set_def shard_look_def)
  have "dd_run sample_hash new_expiring_set sample_trace ! 3 = Some True \<longleftrightarrow>
     (\<exists>j < 3. \<exists>r' t'. sample_trace ! j = DCheck r' t' \<and> same_event r' (DLure ''p'' 100) \<and>
        dd_run sample_hash new_expiring_set sample_trace ! j = Some False \<and> 399000000000 < t' + req_ttl r' t')"
  proof (rule dedup_exact)
    show "\<forall>r \<in> {r. \<exists>t. DCheck r t \<in> set sample_trace}. nul_free r"
      unfolding sample_trace_checks by (simp add: nul_def)
    show "inj_on sample_hash {req_key r | r. \<exists>t. DCheck r t \<in> set sample_trace}"
      unfolding sample_trace_keys by (rule sample_hash_inj)
  qed (simp_all add: sample_trace_def)
  then show ?thesis
    using first by (auto simp: sample_trace_def grace_ttl_def unix_def intro!: exI [of _ "0::nat"])
qed

section \<open>Raids\<close>

lemma rsvp_entry_unchanged:
  "distinct (map rv_timeslot old) \<Longrightarrow> \<not> rsvp_entry_changed nr old \<longleftrightarrow> nr \<in> set old"
proof (induction old)
  case (Cons o1 olds)
  have "nr \<in> set olds \<Longrightarrow> rv_timeslot nr \<noteq> rv_timeslot o1"
    using Cons.prems by (simp add: image_iff) metis
  with Cons show ?case by (auto simp: raid_rsvp.equality)
qed simp

lemma rsvp_changed_iff:
  "distinct (map rv_timeslot old) \<Longrightarrow> \<not> rsvp_changed old new \<longleftrightarrow> length new \<le> length old \<and> set new \<subseteq> set old"
  using rsvp_entry_unchanged [of old] by (auto simp: rsvp_changed_def list_ex_iff)

text \<open>Once a raid has been let through with some RSVPs, a further webhook of it within 90 minutes is
  let through exactly when it has more timeslots, or one the notified RSVPs do not have with
  the very same counts. A timeslot that disappears is silent, and leaves the stored RSVPs as notified.\<close>

theorem raid_rsvp_exact:
  assumes cache: "\<And>c k v d now t. t < now + d \<Longrightarrow> cget (cset k v d now c) k t = Some v"
    and let_through: "check_raid cget cset c g e p rsvps t0 = (c', False, first)"
    and time: "t < t0 + 90 * ns_minute" and slots: "distinct (map rv_timeslot rsvps)"
  shows "(case check_raid cget cset c' g e p rsvps' t of (c'', dup, again) \<Rightarrow>
           \<not> again \<and> (dup \<longleftrightarrow> length rsvps' \<le> length rsvps \<and> set rsvps' \<subseteq> set rsvps) \<and> (dup \<longrightarrow> c'' = c'))"
proof -
  have c': "c' = cset (raid_key g e p) rsvps (90 * ns_minute) t0 c"
    using let_through by (simp add: check_raid_def Let_def split: option.splits if_splits)
  have get: "cget c' (raid_key g e p) t = Some rsvps"
    unfolding c' using time by (rule cache)
  show ?thesis
    using rsvp_changed_iff [OF slots, of rsvps'] by (auto simp: check_raid_def get Let_def)
qed

text \<open>A cache with the documented behaviour.\<close>

definition sample_get :: "(string, raid_rsvp list \<times> gotime) gomap cache_get" where
  "sample_get c k t = (case gget c k of None \<Rightarrow> None | Some (v, e) \<Rightarrow> if t < e then Some v else None)"

definition sample_set :: "(string, raid_rsvp list \<times> gotime) gomap cache_set" where
  "sample_set k v d now c = gput k (v, now + d) c"

lemma raid_rsvp_exact_witness:
  "case check_raid sample_get sample_set
      (fst (check_raid sample_get sample_set [] ''g'' 100 150 [\<lparr>rv_timeslot = 1, rv_going_count = 2, rv_maybe_count = 0\<rparr>] 0))
      ''g'' 100 150 [] 5 of (c'', dup, again) \<Rightarrow> \<not> again \<and> dup"
proof -
  let ?r = "[\<lparr>rv_timeslot = 1, rv_going_count = 2, rv_maybe_count = 0\<rparr>]"
  have law: "t < now + d \<Longrightarrow> sample_get (sample_set k v d now c) k t = Some v" for c k v d now t
    by (simp add: sample_get_def sample_set_def gget_put)
  have first: "check_raid sample_get sample_set [] ''g'' 100 150 ?r 0 =
      (fst (check_raid sample_get sample_set [] ''g'' 100 150 ?r 0), False, True)"
    by (simp add: check_raid_def sample_get_def Let_def)
  show ?thesis
    using raid_rsvp_exact [OF law first, of 5 "[]"] by (simp add: case_prod_unfold)
qed

end
