(* ===== verification/Encounter.thy ===== *)
theory Encounter
  imports PokemonMatch
begin

text \<open>
  \<open>tracker/encounter.go\<close>, \<open>encounter_change.go\<close>: the tracker that notices what changed between two
  webhooks of one encounter. The pointer \<open>prev\<close> into the map is the entry of the map, updated in
  place: storing through it is a map update. The eviction goroutine is an operation of the trace.
\<close>

section \<open>State\<close>

record encounter_state =
  en_pokemon_id :: int
  en_form :: int
  en_gender :: int
  en_weather :: int
  en_cp :: int
  en_atk :: int
  en_def :: int
  en_sta :: int
  en_disappear_time :: int
  en_inserted_at :: int

definition encounter_state_from_pokemon :: "pokemon_webhook \<Rightarrow> encounter_state" where
  "encounter_state_from_pokemon p =
     (let atk = (case pw_individual_attack p of None \<Rightarrow> 0 | Some a \<Rightarrow> a);
          dfn = (case pw_individual_defense p of None \<Rightarrow> 0 | Some d \<Rightarrow> d);
          sta = (case pw_individual_stamina p of None \<Rightarrow> 0 | Some s \<Rightarrow> s);
          weather = (if pw_boosted_weather p > 0 then pw_boosted_weather p else pw_weather p)
      in \<lparr>en_pokemon_id = pw_pokemon_id p, en_form = pw_form p, en_gender = pw_gender p,
          en_weather = weather, en_cp = pw_cp p, en_atk = atk, en_def = dfn, en_sta = sta,
          en_disappear_time = pw_disappear_time p, en_inserted_at = 0\<rparr>)"

datatype change_type = ChangeNone | ChangeSpecies | ChangeForm | ChangeGender | ChangeEncountered
  | ChangeWeatherBoost | ChangeStats

fun change_type_string :: "change_type \<Rightarrow> string" where
  "change_type_string ChangeSpecies = ''species''"
| "change_type_string ChangeForm = ''form''"
| "change_type_string ChangeGender = ''gender''"
| "change_type_string ChangeEncountered = ''encountered''"
| "change_type_string ChangeWeatherBoost = ''weather_boost''"
| "change_type_string ChangeStats = ''stats''"
| "change_type_string ChangeNone = ''none''"

record encounter_change =
  ec_encounter_id :: string
  ec_type :: change_type
  ec_old :: encounter_state
  ec_new :: encounter_state
  ec_old_webhook :: "pokemon_webhook option"

record encounter_entry =
  ee_state :: encounter_state
  ee_webhook :: "pokemon_webhook option"

type_synonym encounter_tracker = "(string, encounter_entry) gomap"

definition new_encounter_tracker :: encounter_tracker where
  "new_encounter_tracker = []"

section \<open>Operations\<close>

text \<open>The \<open>switch\<close> of \<open>Track\<close>: the first case that holds.\<close>

definition detect_change :: "encounter_state \<Rightarrow> encounter_state \<Rightarrow> change_type" where
  "detect_change old new =
     (if en_pokemon_id old \<noteq> en_pokemon_id new then ChangeSpecies
      else if en_form old \<noteq> en_form new then ChangeForm
      else if en_gender old \<noteq> en_gender new \<and> en_gender old \<noteq> 0 \<and> en_gender new \<noteq> 0 then ChangeGender
      else if en_cp old = 0 \<and> en_cp new > 0 then ChangeEncountered
      else if en_weather old \<noteq> en_weather new \<and> en_cp old > 0 \<and> en_cp new > 0 \<and> en_cp old \<noteq> en_cp new
      then ChangeWeatherBoost
      else if en_cp old > 0 \<and> en_cp new > 0 \<and>
              (en_atk old \<noteq> en_atk new \<or> en_def old \<noteq> en_def new \<or> en_sta old \<noteq> en_sta new)
      then ChangeStats else ChangeNone)"

text \<open>The answer is (first sighting, change).\<close>

definition track_encounter ::
    "encounter_tracker \<Rightarrow> string \<Rightarrow> encounter_state \<Rightarrow> pokemon_webhook option \<Rightarrow> gotime
     \<Rightarrow> encounter_tracker \<times> bool \<times> encounter_change option" where
  "track_encounter et i new_state pokemon now =
     (case gget et i of
        None \<Rightarrow>
          (gput i \<lparr>ee_state = new_state\<lparr>en_inserted_at := unix now\<rparr>, ee_webhook = pokemon\<rparr> et, True, None)
      | Some prev \<Rightarrow>
          (let old = ee_state prev; ct = detect_change old new_state;
               kept = new_state\<lparr>en_inserted_at := en_inserted_at old\<rparr>
           in if ct \<noteq> ChangeNone
              then (gput i \<lparr>ee_state = kept, ee_webhook = pokemon\<rparr> et, False,
                    Some \<lparr>ec_encounter_id = i, ec_type = ct, ec_old = old, ec_new = new_state,
                          ec_old_webhook = ee_webhook prev\<rparr>)
              else if en_cp old > 0 \<and> en_cp new_state = 0 then (et, False, None)
              else (gput i (prev\<lparr>ee_state := kept\<rparr>) et, False, None)))"

definition has_encounter :: "encounter_tracker \<Rightarrow> string \<Rightarrow> bool" where
  "has_encounter et i \<longleftrightarrow> gget et i \<noteq> None"

definition max_encounter_age :: int where "max_encounter_age = 1 * 60 * 60"

definition evict_encounters :: "encounter_tracker \<Rightarrow> gotime \<Rightarrow> encounter_tracker" where
  "evict_encounters et t =
     (let now = unix t
      in gkeep (\<lambda>_ e. \<not> ((en_disappear_time (ee_state e) > 0 \<and> now > en_disappear_time (ee_state e) + 300) \<or>
                       (en_inserted_at (ee_state e) > 0 \<and> now - en_inserted_at (ee_state e) > max_encounter_age))) et)"

section \<open>Traces\<close>

datatype enc_op = ETrack string encounter_state "pokemon_webhook option" gotime | EEvict gotime

fun enc_run :: "encounter_tracker \<Rightarrow> enc_op list \<Rightarrow> (bool \<times> encounter_change option) list" where
  "enc_run et [] = []"
| "enc_run et (ETrack i st w t # xs) = (let (et', a) = track_encounter et i st w t in a # enc_run et' xs)"
| "enc_run et (EEvict t # xs) = (False, None) # enc_run (evict_encounters et t) xs"

text \<open>An answer a recipient hears of: a first sighting or a change.\<close>

definition heard :: "bool \<times> encounter_change option \<Rightarrow> bool" where
  "heard a \<longleftrightarrow> fst a \<or> snd a \<noteq> None"

lemma length_enc_run [simp]: "length (enc_run et xs) = length xs"
proof (induction xs arbitrary: et)
  case (Cons x xs)
  then show ?case by (cases x) (simp_all add: Let_def case_prod_unfold)
qed simp

text \<open>What one call does to the entry of an encounter.\<close>

lemma track_entry:
  "gget (fst (track_encounter et i st w t)) k =
     (if k \<noteq> i then gget et k
      else case gget et i of None \<Rightarrow> Some \<lparr>ee_state = st\<lparr>en_inserted_at := unix t\<rparr>, ee_webhook = w\<rparr>
           | Some prev \<Rightarrow>
               if heard (snd (track_encounter et i st w t))
               then Some \<lparr>ee_state = st\<lparr>en_inserted_at := en_inserted_at (ee_state prev)\<rparr>, ee_webhook = w\<rparr>
               else if en_cp (ee_state prev) > 0 \<and> en_cp st = 0 then Some prev
               else Some (prev\<lparr>ee_state := st\<lparr>en_inserted_at := en_inserted_at (ee_state prev)\<rparr>\<rparr>))"
  by (auto simp: track_encounter_def Let_def heard_def gget_put split: option.split)

lemma track_webhook:
  "gget (fst (track_encounter et i st w t)) i = Some e \<Longrightarrow>
     ee_webhook e = (if heard (snd (track_encounter et i st w t)) then w
                     else case gget et i of None \<Rightarrow> w | Some prev \<Rightarrow> ee_webhook prev)"
  by (auto simp: track_entry split: option.splits if_splits)

lemma track_change:
  "snd (track_encounter et i st w t) = (b, Some ch) \<longleftrightarrow>
     (\<exists>prev. gget et i = Some prev \<and> \<not> b \<and> detect_change (ee_state prev) st \<noteq> ChangeNone \<and>
        ch = \<lparr>ec_encounter_id = i, ec_type = detect_change (ee_state prev) st, ec_old = ee_state prev,
              ec_new = st, ec_old_webhook = ee_webhook prev\<rparr>)"
  by (auto simp: track_encounter_def Let_def split: option.splits if_splits)

lemma gget_evict: "gok et \<Longrightarrow> gget (evict_encounters et t) i = Some e \<Longrightarrow> gget et i = Some e"
  by (simp add: evict_encounters_def Let_def gget_keep_Some)

lemma gok_evict [gok_intros]: "gok et \<Longrightarrow> gok (evict_encounters et t)"
  by (simp add: evict_encounters_def Let_def gok_keep)

lemma gok_track [gok_intros]: "gok et \<Longrightarrow> gok (fst (track_encounter et i st w t))"
  by (auto simp: track_encounter_def Let_def intro: gok_intros split: option.split)

definition tracks :: "string \<Rightarrow> enc_op \<Rightarrow> bool" where
  "tracks k x \<longleftrightarrow> (case x of ETrack i st w t \<Rightarrow> i = k | EEvict t \<Rightarrow> False)"

definition silent_in :: "encounter_tracker \<Rightarrow> enc_op list \<Rightarrow> string \<Rightarrow> nat \<Rightarrow> nat \<Rightarrow> bool" where
  "silent_in et xs k a b \<longleftrightarrow> (\<forall>m. a \<le> m \<longrightarrow> m < b \<longrightarrow> tracks k (xs ! m) \<longrightarrow> \<not> heard (enc_run et xs ! m))"

text \<open>The state of a trace after one operation, and its answer.\<close>

fun enc_step :: "encounter_tracker \<Rightarrow> enc_op \<Rightarrow> encounter_tracker" where
  "enc_step et (ETrack i st w t) = fst (track_encounter et i st w t)"
| "enc_step et (EEvict t) = evict_encounters et t"

fun enc_answer :: "encounter_tracker \<Rightarrow> enc_op \<Rightarrow> bool \<times> encounter_change option" where
  "enc_answer et (ETrack i st w t) = snd (track_encounter et i st w t)"
| "enc_answer et (EEvict t) = (False, None)"

lemma enc_run_Cons: "enc_run et (x # xs) = enc_answer et x # enc_run (enc_step et x) xs"
  by (cases x) (simp_all add: Let_def case_prod_unfold)

lemma gok_enc_step: "gok et \<Longrightarrow> gok (enc_step et x)"
  by (cases x) (simp_all add: gok_track gok_evict)

lemma silent_in_Cons: "silent_in et (x # xs) k (Suc a) (Suc b) \<longleftrightarrow> silent_in (enc_step et x) xs k a b"
  unfolding silent_in_def enc_run_Cons
  by (metis Suc_le_mono Suc_less_eq Suc_le_D nth_Cons_Suc)

lemma silent_in_Cons_0:
  "silent_in et (x # xs) k 0 (Suc b) \<longleftrightarrow> (tracks k x \<longrightarrow> \<not> heard (enc_answer et x)) \<and> silent_in (enc_step et x) xs k 0 b"
  unfolding silent_in_def enc_run_Cons by (simp add: All_less_Suc2)

text \<open>The webhook stored for an encounter after one operation that is not its eviction.\<close>

lemma enc_step_webhook:
  assumes "gok et" "gget (enc_step et x) k = Some e"
  shows "(\<exists>st w t. x = ETrack k st w t \<and> heard (enc_answer et x) \<and> ee_webhook e = w) \<or>
         ((tracks k x \<longrightarrow> \<not> heard (enc_answer et x)) \<and> (\<exists>e'. gget et k = Some e' \<and> ee_webhook e = ee_webhook e'))"
proof (cases x)
  case (EEvict t)
  with assms gget_evict [of et t k e] show ?thesis by (auto simp: tracks_def)
next
  case (ETrack i st w t)
  show ?thesis
  proof (cases "i = k")
    case True
    have new: "heard (snd (track_encounter et k st w t))" if "gget et k = None"
      using that by (simp add: track_encounter_def heard_def)
    from assms(2) True ETrack track_webhook [of et k st w t e] new show ?thesis
      by (cases "gget et k") (auto simp: tracks_def)
  next
    case False
    with assms(2) ETrack show ?thesis by (auto simp: tracks_def track_entry)
  qed
qed

lemma enc_run_old_webhook:
  assumes "gok et" "i < length xs" "xs ! i = ETrack k st w t" "enc_run et xs ! i = (b, Some ch)"
  shows "(silent_in et xs k 0 i \<and> (\<exists>e. gget et k = Some e \<and> ec_old_webhook ch = ee_webhook e)) \<or>
     (\<exists>j < i. \<exists>st' w' t'. xs ! j = ETrack k st' w' t' \<and> heard (enc_run et xs ! j) \<and>
        ec_old_webhook ch = w' \<and> silent_in et xs k (Suc j) i)"
  using assms
proof (induction xs arbitrary: et i)
  case (Cons x xs)
  show ?case
  proof (cases i)
    case 0
    with Cons.prems show ?thesis
      by (auto simp: enc_run_Cons track_change silent_in_def)
  next
    case (Suc n)
    have run: "enc_run (enc_step et x) xs ! n = (b, Some ch)" and n: "n < length xs" "xs ! n = ETrack k st w t"
      using Cons.prems Suc by (simp_all add: enc_run_Cons)
    consider (here) e where "silent_in (enc_step et x) xs k 0 n" "gget (enc_step et x) k = Some e"
        "ec_old_webhook ch = ee_webhook e"
      | (later) j st' w' t' where "j < n" "xs ! j = ETrack k st' w' t'" "heard (enc_run (enc_step et x) xs ! j)"
        "ec_old_webhook ch = w'" "silent_in (enc_step et x) xs k (Suc j) n"
      using Cons.IH [OF gok_enc_step [OF Cons.prems(1)] n run] by blast
    then show ?thesis
    proof cases
      case here
      from enc_step_webhook [OF Cons.prems(1) here(2)] show ?thesis
      proof (elim disjE exE conjE)
        fix st' w' t' assume "x = ETrack k st' w' t'" "heard (enc_answer et x)" "ee_webhook e = w'"
        with here Suc show ?thesis
          by (intro disjI2 exI [of _ "0::nat"] conjI exI [of _ st'] exI [of _ w'] exI [of _ t'])
            (simp_all add: enc_run_Cons silent_in_Cons)
      next
        fix e' assume "tracks k x \<longrightarrow> \<not> heard (enc_answer et x)" "gget et k = Some e'" "ee_webhook e = ee_webhook e'"
        with here Suc show ?thesis by (simp add: silent_in_Cons_0)
      qed
    next
      case later
      with Suc show ?thesis
        by (intro disjI2 exI [of _ "Suc j"] conjI exI [of _ st'] exI [of _ w'] exI [of _ t'])
          (simp_all add: enc_run_Cons silent_in_Cons)
    qed
  qed
qed simp

text \<open>C38: the webhook a change is rendered against is the one recipients last heard of: in any history of
  sightings and evictions, the change at a sighting carries the webhook of the latest earlier
  sighting of the encounter that was a first sighting or a change, whatever silent re-scans came in between.\<close>

theorem original_is_last_heard:
  assumes "i < length xs" and "xs ! i = ETrack k st w t"
    and "enc_run new_encounter_tracker xs ! i = (b, Some ch)"
  shows "\<exists>j < i. \<exists>st' w' t'. xs ! j = ETrack k st' w' t' \<and> heard (enc_run new_encounter_tracker xs ! j) \<and>
     ec_old_webhook ch = w' \<and>
     (\<forall>m. Suc j \<le> m \<longrightarrow> m < i \<longrightarrow> tracks k (xs ! m) \<longrightarrow> \<not> heard (enc_run new_encounter_tracker xs ! m))"
proof -
  have ok: "gok new_encounter_tracker" and none: "gget new_encounter_tracker k = None"
    by (simp_all add: new_encounter_tracker_def)
  from enc_run_old_webhook [OF ok assms] show ?thesis unfolding silent_in_def none by simp
qed

definition wild_state :: encounter_state where
  "wild_state = encounter_state_from_pokemon (sample_webhook\<lparr>pw_cp := 0, pw_individual_attack := None,
     pw_individual_defense := None, pw_individual_stamina := None\<rparr>)"

definition met_state :: encounter_state where
  "met_state = encounter_state_from_pokemon sample_webhook"

definition sample_sightings :: "enc_op list" where
  "sample_sightings = [ETrack ''e'' wild_state None 0, EEvict 1, ETrack ''e'' wild_state (Some sample_webhook) 2,
     ETrack ''e'' met_state (Some sample_webhook) 3]"

lemmas sample_sighting_defs = sample_sightings_def wild_state_def met_state_def sample_webhook_def
  encounter_state_from_pokemon_def new_encounter_tracker_def

lemma original_is_last_heard_witness:
  "ec_old_webhook (the (snd (enc_run new_encounter_tracker sample_sightings ! 3))) = None"
proof -
  have sil: "\<not> heard (enc_run new_encounter_tracker sample_sightings ! 2)"
    by (simp add: sample_sighting_defs enc_run_Cons track_encounter_def heard_def detect_change_def Let_def
        evict_encounters_def gput_def gget_Cons gkeep_def unix_def)
  have "\<exists>ch. enc_run new_encounter_tracker sample_sightings ! 3 = (False, Some ch)"
    by (simp add: sample_sighting_defs enc_run_Cons track_encounter_def heard_def detect_change_def Let_def
        evict_encounters_def gput_def gget_Cons gkeep_def unix_def)
  then obtain ch where ch: "enc_run new_encounter_tracker sample_sightings ! 3 = (False, Some ch)" ..
  have "\<exists>j < 3. \<exists>st' w' t'. sample_sightings ! j = ETrack ''e'' st' w' t' \<and>
      heard (enc_run new_encounter_tracker sample_sightings ! j) \<and> ec_old_webhook ch = w' \<and>
      (\<forall>m. Suc j \<le> m \<longrightarrow> m < 3 \<longrightarrow> tracks ''e'' (sample_sightings ! m) \<longrightarrow>
         \<not> heard (enc_run new_encounter_tracker sample_sightings ! m))"
    by (rule original_is_last_heard [where st = met_state and w = "Some sample_webhook" and t = 3, OF _ _ ch])
      (simp_all add: sample_sightings_def)
  then have "ec_old_webhook ch = None"
    using sil by (auto simp: less_Suc_eq numeral_3_eq_3 numeral_2_eq_2 sample_sightings_def)
  then show ?thesis using ch by simp
qed

section \<open>No downgrade\<close>

text \<open>A species, a form, and a gender either not yet known or fixed: what a well-behaved scanner reports.\<close>

definition same_pokemon :: "encounter_state \<Rightarrow> encounter_state \<Rightarrow> bool" where
  "same_pokemon a b \<longleftrightarrow> en_pokemon_id a = en_pokemon_id b \<and> en_form a = en_form b \<and> en_gender a = en_gender b"

lemma track_keeps_cp:
  assumes "gget et k = Some e" "en_cp (ee_state e) > 0" "same_pokemon (ee_state e) st" "en_cp st \<ge> 0"
  shows "\<exists>e'. gget (fst (track_encounter et k st w t)) k = Some e' \<and> en_cp (ee_state e') > 0 \<and>
           same_pokemon (ee_state e') st"
proof (cases "en_cp st = 0")
  case True
  then have "\<not> heard (snd (track_encounter et k st w t))"
    using assms by (simp add: track_encounter_def heard_def detect_change_def same_pokemon_def Let_def)
  with True assms show ?thesis by (simp add: track_entry)
next
  case False
  with assms show ?thesis by (auto simp: track_entry same_pokemon_def)
qed

definition is_encountered :: "string \<Rightarrow> bool \<times> encounter_change option \<Rightarrow> bool" where
  "is_encountered k a = (case snd a of None \<Rightarrow> False
     | Some ch \<Rightarrow> ec_encounter_id ch = k \<and> ec_type ch = ChangeEncountered)"

text \<open>The sightings of an encounter agree with a given pokemon; nothing is evicted.\<close>

definition steady :: "string \<Rightarrow> encounter_state \<Rightarrow> enc_op \<Rightarrow> bool" where
  "steady k pk x = (case x of ETrack i st w t \<Rightarrow> i \<noteq> k \<or> (same_pokemon pk st \<and> en_cp st \<ge> 0) | EEvict t \<Rightarrow> False)"

lemma same_pokemon_trans: "same_pokemon a b \<Longrightarrow> same_pokemon a c \<Longrightarrow> same_pokemon b c"
  by (simp add: same_pokemon_def)

lemma is_encountered_track:
  "is_encountered k (snd (track_encounter et i st w t)) \<longleftrightarrow>
     i = k \<and> (\<exists>prev. gget et i = Some prev \<and> detect_change (ee_state prev) st = ChangeEncountered)"
  by (auto simp: is_encountered_def track_encounter_def Let_def split: option.split)

lemma detect_encountered: "detect_change a b = ChangeEncountered \<Longrightarrow> en_cp a = 0 \<and> en_cp b > 0"
  by (simp add: detect_change_def split: if_splits)

lemma steady_step_met:
  assumes "steady k pk x" "gget et k = Some e" "en_cp (ee_state e) > 0" "same_pokemon pk (ee_state e)"
  shows "\<not> is_encountered k (enc_answer et x) \<and>
     (\<exists>e'. gget (enc_step et x) k = Some e' \<and> en_cp (ee_state e') > 0 \<and> same_pokemon pk (ee_state e'))"
proof (cases x)
  case (EEvict t)
  with assms(1) show ?thesis by (simp add: steady_def)
next
  case (ETrack i st w t)
  show ?thesis
  proof (cases "i = k")
    case True
    with ETrack assms(1) have st: "same_pokemon pk st" "en_cp st \<ge> 0" by (simp_all add: steady_def)
    then have same: "same_pokemon (ee_state e) st" using assms(4) by (simp add: same_pokemon_def)
    have no: "detect_change (ee_state e) st \<noteq> ChangeEncountered"
      using assms(3) detect_encountered [of "ee_state e" st] by auto
    from track_keeps_cp [OF assms(2,3) same st(2), of w t] no True ETrack st(1) assms(2) show ?thesis
      by (simp add: is_encountered_track same_pokemon_def) metis
  next
    case False
    with ETrack assms show ?thesis
      by (simp add: is_encountered_track) (simp add: track_entry)
  qed
qed

lemma steady_run_met:
  assumes "\<forall>x \<in> set xs. steady k pk x" "gget et k = Some e" "en_cp (ee_state e) > 0" "same_pokemon pk (ee_state e)"
  shows "filter (is_encountered k) (enc_run et xs) = []"
  using assms
proof (induction xs arbitrary: et e)
  case (Cons x xs)
  have "steady k pk x" using Cons.prems(1) by simp
  from steady_step_met [OF this Cons.prems(2,3,4)] obtain e' where
    "\<not> is_encountered k (enc_answer et x)" "gget (enc_step et x) k = Some e'" "en_cp (ee_state e') > 0"
    "same_pokemon pk (ee_state e')" by blast
  with Cons.IH [of "enc_step et x" e'] Cons.prems(1) show ?case by (simp add: enc_run_Cons)
qed simp

lemma steady_run:
  assumes "\<forall>x \<in> set xs. steady k pk x" "\<forall>e. gget et k = Some e \<longrightarrow> same_pokemon pk (ee_state e)"
  shows "length (filter (is_encountered k) (enc_run et xs)) \<le> 1"
  using assms
proof (induction xs arbitrary: et)
  case (Cons x xs)
  obtain i st w t where x: "x = ETrack i st w t" using Cons.prems(1) by (cases x) (auto simp: steady_def)
  have same: "\<forall>e. gget (enc_step et x) k = Some e \<longrightarrow> same_pokemon pk (ee_state e)"
    using Cons.prems by (auto simp: x track_entry steady_def same_pokemon_def split: option.splits if_splits)
  show ?case
  proof (cases "is_encountered k (enc_answer et x)")
    case False
    with Cons.IH [OF _ same] Cons.prems(1) show ?thesis by (simp add: enc_run_Cons)
  next
    case True
    then obtain prev where prev: "i = k" "gget et k = Some prev" "detect_change (ee_state prev) st = ChangeEncountered"
      by (auto simp: x is_encountered_track)
    then obtain e' where e': "gget (enc_step et x) k = Some e'" "en_cp (ee_state e') > 0"
      using detect_encountered [OF prev(3)] by (simp add: x track_encounter_def Let_def gget_put)
    with same steady_run_met [of xs k pk "enc_step et x" e'] Cons.prems(1) show ?thesis
      by (simp add: enc_run_Cons)
  qed
qed simp

text \<open>A filled-in encounter is announced at most once: as long as the webhooks of an encounter agree
  on species, form and gender and it is not evicted, the change ``encountered'' is reported for at
  most one of them, although the scanner re-sends the encounter without its stats (CP 0) at will.\<close>

theorem encountered_at_most_once:
  assumes "\<forall>x \<in> set xs. steady k pk x"
  shows "length (filter (is_encountered k) (enc_run new_encounter_tracker xs)) \<le> 1"
  by (rule steady_run [OF assms]) (simp add: new_encounter_tracker_def)

lemma encountered_at_most_once_witness:
  "length (filter (is_encountered ''e'') (enc_run new_encounter_tracker
     [ETrack ''e'' wild_state None 0, ETrack ''e'' met_state None 1, ETrack ''e'' wild_state None 2,
      ETrack ''e'' met_state None 3])) \<le> 1"
  by (rule encountered_at_most_once [where pk = met_state])
    (simp add: steady_def same_pokemon_def wild_state_def met_state_def encounter_state_from_pokemon_def
      sample_webhook_def)

end
