(* ===== verification/Summary.thy ===== *)
theory Summary
  imports Prelude
begin

text \<open>
  \<open>tracker/summary_buffer.go\<close>: quests matched now and delivered later, in a map of maps of maps
  (human, alert type, key). Every method holds the one mutex, so it is one step. The disk is the content of
  the snapshot file (\<open>None\<close>: no file) and the JSON codec is a pair of functions, arguments of \<open>save_summary\<close>
  and \<open>load_summary\<close>; an I/O error other than a missing file is not modelled.
\<close>

section \<open>State\<close>

record buffered_quest =
  bq_reward_type :: int
  bq_reward :: int
  bq_form :: int
  bq_pokestop_id :: string
  bq_with_ar :: bool
  bq_payload :: string
  bq_expires_at :: int
  bq_created_at :: int
  bq_clean :: int

record buffer_key =
  bk_reward_type :: int
  bk_reward :: int
  bk_form :: int
  bk_pokestop_id :: string
  bk_with_ar :: bool

type_synonym bucket = "(buffer_key, buffered_quest) gomap"
type_synonym summary_buffer = "(string, (string, bucket) gomap) gomap"

definition new_summary_buffer :: summary_buffer where
  "new_summary_buffer = []"

definition key_of_quest :: "buffered_quest \<Rightarrow> buffer_key" where
  "key_of_quest q = \<lparr>bk_reward_type = bq_reward_type q, bk_reward = bq_reward q, bk_form = bq_form q,
     bk_pokestop_id = bq_pokestop_id q, bk_with_ar = bq_with_ar q\<rparr>"

section \<open>Operations\<close>

definition append_bucket :: "buffered_quest \<Rightarrow> bucket \<Rightarrow> bucket" where
  "append_bucket q bucket =
     (let key = key_of_quest q;
          q' = (case gget bucket key of
                  Some existing \<Rightarrow> q\<lparr>bq_clean := or (bq_clean q) (bq_clean existing)\<rparr> | None \<Rightarrow> q)
      in gput key q' bucket)"

definition append_quest :: "string \<Rightarrow> string \<Rightarrow> buffered_quest \<Rightarrow> summary_buffer \<Rightarrow> summary_buffer" where
  "append_quest human alert q sb =
     (let by_type = gget_or [] sb human; bucket = gget_or [] by_type alert
      in gput human (gput alert (append_bucket q bucket) by_type) sb)"

record summary_enumeration =
  sen_human_id :: string
  sen_alert_type :: string
  sen_count :: nat

definition enumerate_users :: "summary_buffer \<Rightarrow> summary_enumeration list" where
  "enumerate_users sb =
     concat (map (\<lambda>(human, by_type). concat (map (\<lambda>(alert, bucket).
       if length bucket = 0 then []
       else [\<lparr>sen_human_id = human, sen_alert_type = alert, sen_count = length bucket\<rparr>]) by_type)) sb)"

definition summary_size :: "summary_buffer \<Rightarrow> nat" where
  "summary_size sb = sum_list (map (\<lambda>(_, by_type). sum_list (map (\<lambda>(_, bucket). length bucket) by_type)) sb)"

definition list_quests :: "summary_buffer \<Rightarrow> string \<Rightarrow> string \<Rightarrow> buffered_quest list" where
  "list_quests sb human alert = map snd (gget_or [] (gget_or [] sb human) alert)"

definition clear_bucket :: "string \<Rightarrow> string \<Rightarrow> summary_buffer \<Rightarrow> summary_buffer" where
  "clear_bucket human alert sb =
     (case gget sb human of None \<Rightarrow> sb
      | Some by_type \<Rightarrow>
          (let by_type' = gdel alert by_type
           in if length by_type' = 0 then gdel human sb else gput human by_type' sb))"

definition aged_out :: "int \<Rightarrow> int \<Rightarrow> buffered_quest \<Rightarrow> bool" where
  "aged_out as_of max_age q \<longleftrightarrow>
     (let expired = bq_expires_at q < as_of;
          stale = max_age > 0 \<and> bq_created_at q > 0 \<and> as_of - bq_created_at q > max_age
      in expired \<or> stale)"

text \<open>The three nested loops delete the aged entries and, on the way out, what became empty.\<close>

definition sweep_bucket :: "int \<Rightarrow> int \<Rightarrow> bucket \<Rightarrow> bucket" where
  "sweep_bucket as_of max_age bucket = gkeep (\<lambda>_ q. \<not> aged_out as_of max_age q) bucket"

definition sweep_types :: "int \<Rightarrow> int \<Rightarrow> (string, bucket) gomap \<Rightarrow> (string, bucket) gomap" where
  "sweep_types as_of max_age by_type =
     gkeep (\<lambda>_ b. length b \<noteq> 0) (gmapv (sweep_bucket as_of max_age) by_type)"

definition removed_of :: "int \<Rightarrow> int \<Rightarrow> summary_buffer \<Rightarrow> nat" where
  "removed_of as_of max_age sb =
     sum_list (map (\<lambda>(_, by_type). sum_list (map (\<lambda>(_, bucket).
       length (filter (\<lambda>(_, q). aged_out as_of max_age q) bucket)) by_type)) sb)"

definition sweep_expired :: "int \<Rightarrow> int \<Rightarrow> summary_buffer \<Rightarrow> summary_buffer \<times> nat" where
  "sweep_expired as_of max_age sb =
     (gkeep (\<lambda>_ t. length t \<noteq> 0) (gmapv (sweep_types as_of max_age) sb), removed_of as_of max_age sb)"

section \<open>Persistence\<close>

record snapshot_entry =
  sne_key :: buffer_key
  sne_quest :: buffered_quest

record snapshot_bucket =
  snb_alert_type :: string
  snb_entries :: "snapshot_entry list"

record snapshot_user =
  snu_human_id :: string
  snu_buckets :: "snapshot_bucket list"

record snapshot_file =
  snf_version :: int
  snf_users :: "snapshot_user list"

definition snapshot_of :: "summary_buffer \<Rightarrow> snapshot_file" where
  "snapshot_of sb = \<lparr>snf_version = 1, snf_users =
     map (\<lambda>(human, by_type). \<lparr>snu_human_id = human, snu_buckets =
       map (\<lambda>(alert, bucket). \<lparr>snb_alert_type = alert, snb_entries =
         map (\<lambda>(k, q). \<lparr>sne_key = k, sne_quest = q\<rparr>) bucket\<rparr>) by_type\<rparr>) sb\<rparr>"

definition save_summary :: "(snapshot_file \<Rightarrow> string) \<Rightarrow> string \<Rightarrow> summary_buffer \<Rightarrow> string option \<Rightarrow> string option" where
  "save_summary enc path sb disk = (if path = [] then disk else Some (enc (snapshot_of sb)))"

definition load_bucket :: "snapshot_entry list \<Rightarrow> bucket \<Rightarrow> bucket" where
  "load_bucket entries bucket = foldl (\<lambda>b e. gput (sne_key e) (sne_quest e) b) bucket entries"

definition load_type :: "(string, bucket) gomap \<Rightarrow> snapshot_bucket \<Rightarrow> (string, bucket) gomap" where
  "load_type by_type b =
     (if snb_alert_type b = [] then by_type
      else gput (snb_alert_type b) (load_bucket (snb_entries b) (gget_or [] by_type (snb_alert_type b))) by_type)"

definition load_user :: "summary_buffer \<Rightarrow> snapshot_user \<Rightarrow> summary_buffer" where
  "load_user sb u =
     (if snu_human_id u = [] then sb
      else gput (snu_human_id u) (foldl load_type (gget_or [] sb (snu_human_id u)) (snu_buckets u)) sb)"

definition load_summary ::
    "(string \<Rightarrow> snapshot_file option) \<Rightarrow> string \<Rightarrow> string option \<Rightarrow> summary_buffer \<Rightarrow> summary_buffer" where
  "load_summary dec path disk sb =
     (if path = [] then sb
      else case disk of None \<Rightarrow> sb
           | Some data \<Rightarrow> (case dec data of None \<Rightarrow> sb | Some loaded \<Rightarrow> foldl load_user sb (snf_users loaded)))"

section \<open>The buffer as one map\<close>

text \<open>What the three levels promise together: a map from (human, alert type, key) to a quest.\<close>

definition queued :: "summary_buffer \<Rightarrow> string \<Rightarrow> string \<Rightarrow> buffer_key \<Rightarrow> buffered_quest option" where
  "queued sb human alert k = gget (gget_or [] (gget_or [] sb human) alert) k"

definition summary_ok :: "summary_buffer \<Rightarrow> bool" where
  "summary_ok sb \<longleftrightarrow> gok sb \<and> (\<forall>(h, by_type) \<in> set sb. gok by_type \<and> (\<forall>(a, bucket) \<in> set by_type. gok bucket))"

lemma summary_ok_get:
  "summary_ok sb \<Longrightarrow> gok (gget_or [] sb h) \<and> gok (gget_or [] (gget_or [] sb h) a)"
  by (cases "gget sb h"; cases "gget (gget_or [] sb h) a")
    (auto simp: summary_ok_def gget_or_def dest!: gget_mem)

lemma summary_ok_put:
  assumes "summary_ok sb" "gok t" "\<forall>(a, b) \<in> set t. gok b"
  shows "summary_ok (gput h t sb)"
  using assms unfolding summary_ok_def by (auto intro: gok_intros dest!: gput_mem)

lemma gok_append_bucket [gok_intros]: "gok b \<Longrightarrow> gok (append_bucket q b)"
  by (simp add: append_bucket_def Let_def gok_put)

lemma type_buckets_ok: "summary_ok sb \<Longrightarrow> \<forall>(a, b) \<in> set (gget_or [] sb h). gok b"
  by (cases "gget sb h") (auto simp: summary_ok_def gget_or_def dest!: gget_mem)

lemma summary_ok_append: "summary_ok sb \<Longrightarrow> summary_ok (append_quest h a q sb)"
  unfolding append_quest_def Let_def
  using summary_ok_get [of sb h] summary_ok_get [of sb h a] type_buckets_ok [of sb h]
  by (intro summary_ok_put) (auto intro: gok_intros dest!: gput_mem)

lemma summary_ok_clear: "summary_ok sb \<Longrightarrow> summary_ok (clear_bucket h a sb)"
proof (cases "gget sb h")
  case (Some t)
  assume ok: "summary_ok sb"
  then have t: "gok t" "\<forall>(a, b) \<in> set t. gok b"
    using Some by (auto simp: summary_ok_def dest!: gget_mem)
  have del: "summary_ok (gdel h sb)" using ok by (auto simp: summary_ok_def gok_del) (auto simp: gdel_def)
  have "summary_ok (gput h (gdel a t) sb)"
    using t by (intro summary_ok_put ok) (auto simp: gok_del, auto simp: gdel_def)
  with Some del show ?thesis by (simp add: clear_bucket_def Let_def)
qed (simp add: clear_bucket_def)

lemma summary_ok_sweep: "summary_ok sb \<Longrightarrow> summary_ok (fst (sweep_expired as_of mx sb))"
  unfolding summary_ok_def sweep_expired_def sweep_types_def sweep_bucket_def
  by (auto simp: gmapv_def gkeep_mem intro!: gok_intros gok_mapv [unfolded gmapv_def])
    (auto intro!: gok_intros)

text \<open>The effect of every operation on that map.\<close>

lemma queued_append:
  "queued (append_quest h a q sb) h' a' k =
     (if h' = h \<and> a' = a \<and> k = key_of_quest q
      then Some (case queued sb h a k of None \<Rightarrow> q | Some old \<Rightarrow> q\<lparr>bq_clean := or (bq_clean q) (bq_clean old)\<rparr>)
      else queued sb h' a' k)"
  by (auto simp: queued_def append_quest_def append_bucket_def Let_def gget_or_put gget_put split: option.split)

lemma queued_clear:
  "queued (clear_bucket h a sb) h' a' k = (if h' = h \<and> a' = a then None else queued sb h' a' k)"
proof (cases "gget sb h")
  case None
  then show ?thesis by (auto simp: queued_def clear_bucket_def gget_or_def)
next
  case (Some t)
  have "gget_or [] (gdel a t) a'' = (if a'' = a then [] else gget_or [] t a'')" for a''
    by (simp add: gget_or_def gget_del)
  moreover have "gget_or [] t a'' = []" if "gdel a t = []" "a'' \<noteq> a" for a''
    using that gget_del [of a t a''] by (simp add: gget_or_def)
  moreover have "gget_or [] (gdel h sb) h'' = (if h'' = h then [] else gget_or [] sb h'')" for h''
    by (simp add: gget_or_def gget_del)
  ultimately show ?thesis
    using Some by (auto simp: queued_def clear_bucket_def Let_def gget_or_put) (auto simp: gget_or_def)
qed

lemma gget_or_keep_mapv:
  assumes "gok m" "f [] = []"
  shows "gget_or [] (gkeep (\<lambda>_ x. length x \<noteq> 0) (gmapv f m)) k = f (gget_or [] m k)"
  using assms by (simp add: gget_or_def gget_keep gok_mapv gget_mapv split: option.split)

lemma queued_sweep:
  assumes "summary_ok sb"
  shows "queued (fst (sweep_expired as_of mx sb)) h a k =
    (case queued sb h a k of None \<Rightarrow> None | Some q \<Rightarrow> if aged_out as_of mx q then None else Some q)"
proof -
  have types: "gget_or [] (gkeep (\<lambda>_ t. length t \<noteq> 0) (gmapv (sweep_types as_of mx) sb)) h
      = sweep_types as_of mx (gget_or [] sb h)"
    using assms by (intro gget_or_keep_mapv) (simp_all add: summary_ok_def sweep_types_def gmapv_def gkeep_def)
  have bucket: "gget_or [] (sweep_types as_of mx (gget_or [] sb h)) a
      = sweep_bucket as_of mx (gget_or [] (gget_or [] sb h) a)"
    unfolding sweep_types_def using summary_ok_get [OF assms]
    by (intro gget_or_keep_mapv) (simp_all add: sweep_bucket_def gkeep_def)
  show ?thesis
    using summary_ok_get [OF assms, of h a]
    unfolding queued_def sweep_expired_def fst_conv types bucket
    by (auto simp: sweep_bucket_def gget_keep split: option.split)
qed

section \<open>Counting\<close>

lemma sum_keep_nonempty:
  assumes "g [] = (0::nat)"
  shows "sum_list (map (\<lambda>(_, x). g x) (gkeep (\<lambda>_ x. x \<noteq> []) m)) = sum_list (map (\<lambda>(_, x). g x) m)"
  using assms by (induction m) (auto simp: gkeep_def)

lemma sum_mapv: "sum_list (map (\<lambda>(_, x). g x) (gmapv f m)) = sum_list (map (\<lambda>(_, x). g (f x)) m)"
  by (induction m) (auto simp: gmapv_def)

lemma length_sweep_bucket:
  "length (sweep_bucket as_of mx b) + length (filter (\<lambda>(_, q). aged_out as_of mx q) b) = length b"
  by (induction b) (auto simp: sweep_bucket_def gkeep_def)

lemma sum_pairs: "sum_list (map (\<lambda>(_, x). f x) m) + sum_list (map (\<lambda>(_, x). g x) m)
    = sum_list (map (\<lambda>(_, x). f x + g x :: nat) m)"
  by (induction m) auto

lemma size_sweep: "summary_size (fst (sweep_expired as_of mx sb)) + snd (sweep_expired as_of mx sb) = summary_size sb"
  unfolding summary_size_def sweep_expired_def fst_conv snd_conv removed_of_def sweep_types_def length_0_conv
  by (simp add: sum_keep_nonempty sum_mapv sum_pairs length_sweep_bucket)

text \<open>a sweep drops exactly the quests past their expiry, or older than the safety limit when one is
  set, from every bucket of every human, and the number it returns is the number of quests that left the buffer.\<close>

theorem sweep_expired_exact:
  assumes "summary_ok sb"
  shows "(\<forall>h a k. queued (fst (sweep_expired as_of mx sb)) h a k =
       (case queued sb h a k of None \<Rightarrow> None
        | Some q \<Rightarrow> if bq_expires_at q < as_of \<or> (mx > 0 \<and> bq_created_at q > 0 \<and> as_of - bq_created_at q > mx)
                   then None else Some q)) \<and>
     summary_size sb - summary_size (fst (sweep_expired as_of mx sb)) = snd (sweep_expired as_of mx sb)"
proof -
  have "summary_size sb - summary_size (fst (sweep_expired as_of mx sb)) = snd (sweep_expired as_of mx sb)"
    using size_sweep [of as_of mx sb] by linarith
  then show ?thesis by (simp add: queued_sweep [OF assms] aged_out_def Let_def split: option.split)
qed

definition sample_quest_entry :: buffered_quest where
  "sample_quest_entry = \<lparr>bq_reward_type = 2, bq_reward = 1, bq_form = 0, bq_pokestop_id = ''p'', bq_with_ar = False,
     bq_payload = [], bq_expires_at = 100, bq_created_at = 1, bq_clean = 4\<rparr>"

lemma summary_ok_sample: "summary_ok (append_quest ''u'' ''quest'' sample_quest_entry new_summary_buffer)"
  by (rule summary_ok_append) (simp add: summary_ok_def new_summary_buffer_def)

lemma sweep_expired_exact_witness:
  "queued (fst (sweep_expired 200 0 (append_quest ''u'' ''quest'' sample_quest_entry new_summary_buffer)))
     ''u'' ''quest'' (key_of_quest sample_quest_entry) = None"
  using sweep_expired_exact [OF summary_ok_sample, of 200 0]
  by (simp add: queued_append) (simp add: queued_def new_summary_buffer_def gget_or_def sample_quest_entry_def)

section \<open>Saving and loading\<close>

lemma load_bucket_look:
  "gget (load_bucket es b) k =
     (case gget (rev (map (\<lambda>e. (sne_key e, sne_quest e)) es)) k of Some q \<Rightarrow> Some q | None \<Rightarrow> gget b k)"
proof (induction es arbitrary: b rule: rev_induct)
  case (snoc e es)
  then show ?case by (simp add: load_bucket_def gget_put gget_Cons)
qed (simp add: load_bucket_def)

lemma load_bucket_saved:
  assumes "gok bucket"
  shows "gget (load_bucket (map (\<lambda>(k, q). \<lparr>sne_key = k, sne_quest = q\<rparr>) bucket) []) k = gget bucket k"
proof -
  have map: "map (\<lambda>e. (sne_key e, sne_quest e)) (map (\<lambda>(k, q). \<lparr>sne_key = k, sne_quest = q\<rparr>) bucket) = bucket"
    by (induction bucket) auto
  have "gok (rev bucket)" using assms by (simp add: gok_def rev_map [symmetric])
  then have "gget (rev bucket) k = Some q \<longleftrightarrow> gget bucket k = Some q" for q
    using assms gmem_iff [of "rev bucket" k q] gmem_iff [of bucket k q] by simp
  then have "gget (rev bucket) k = gget bucket k" by (metis option.exhaust)
  then show ?thesis unfolding load_bucket_look map by (simp split: option.split)
qed

lemma foldl_load_type:
  assumes "distinct (map fst ts)"
  shows "gget_or [] (foldl load_type t0 (map (\<lambda>(a, b). \<lparr>snb_alert_type = a, snb_entries =
            map (\<lambda>(k, q). \<lparr>sne_key = k, sne_quest = q\<rparr>) b\<rparr>) ts)) a =
     (if a = [] then gget_or [] t0 a
      else case gget ts a of None \<Rightarrow> gget_or [] t0 a
        | Some b \<Rightarrow> load_bucket (map (\<lambda>(k, q). \<lparr>sne_key = k, sne_quest = q\<rparr>) b) (gget_or [] t0 a))"
  using assms
proof (induction ts arbitrary: t0)
  case (Cons x ts)
  obtain a1 b1 where x: "x = (a1, b1)" by (cases x)
  have none: "gget ts a1 = None" using Cons.prems x by (simp add: gget_def map_of_eq_None_iff)
  show ?case
    using Cons.IH [of "load_type t0 \<lparr>snb_alert_type = a1, snb_entries =
            map (\<lambda>(k, q). \<lparr>sne_key = k, sne_quest = q\<rparr>) b1\<rparr>"] Cons.prems none
    by (auto simp: x gget_Cons load_type_def gget_or_put split: option.split)
qed simp

lemma foldl_load_user:
  assumes "distinct (map fst us)"
  shows "gget_or [] (foldl load_user sb (map (\<lambda>(h, t). \<lparr>snu_human_id = h, snu_buckets = f t\<rparr>) us)) h =
     (if h = [] then gget_or [] sb h
      else case gget us h of None \<Rightarrow> gget_or [] sb h | Some t \<Rightarrow> foldl load_type (gget_or [] sb h) (f t))"
  using assms
proof (induction us arbitrary: sb)
  case (Cons x us)
  obtain h1 t1 where x: "x = (h1, t1)" by (cases x)
  have none: "gget us h1 = None" using Cons.prems x by (simp add: gget_def map_of_eq_None_iff)
  show ?case
    using Cons.IH [of "load_user sb \<lparr>snu_human_id = h1, snu_buckets = f t1\<rparr>"] Cons.prems none
    by (auto simp: x gget_Cons load_user_def gget_or_put split: option.split)
qed simp

text \<open>C40: what a graceful shutdown saves, the next start finds: with a codec that reads back what it wrote,
  loading the saved file into an empty buffer restores every queued quest of every named human and alert
  type, and nothing else.\<close>

theorem summary_roundtrip:
  assumes "summary_ok sb" and "dec (enc (snapshot_of sb)) = Some (snapshot_of sb)" and "path \<noteq> []"
  shows "queued (load_summary dec path (save_summary enc path sb disk) new_summary_buffer) h a k =
     (if h = [] \<or> a = [] then None else queued sb h a k)"
proof -
  have dist: "distinct (map fst sb)" and dist': "\<And>t. gget sb h = Some t \<Longrightarrow> distinct (map fst t)"
    using assms(1) by (auto simp: summary_ok_def gok_def dest!: gget_mem)
  have buck: "\<And>t b. gget sb h = Some t \<Longrightarrow> gget t a = Some b \<Longrightarrow> gok b"
    using assms(1) by (fastforce simp: summary_ok_def dest!: gget_mem)
  have load: "load_summary dec path (save_summary enc path sb disk) new_summary_buffer =
      foldl load_user new_summary_buffer (map (\<lambda>(h, t). \<lparr>snu_human_id = h, snu_buckets =
        map (\<lambda>(a, b). \<lparr>snb_alert_type = a, snb_entries = map (\<lambda>(k, q). \<lparr>sne_key = k, sne_quest = q\<rparr>) b\<rparr>) t\<rparr>) sb)"
    using assms(2,3) by (simp add: load_summary_def save_summary_def snapshot_of_def)
  have empty: "gget_or [] new_summary_buffer x = []" for x by (simp add: new_summary_buffer_def gget_or_def)
  show ?thesis
  proof (cases "gget sb h")
    case None
    then show ?thesis
      unfolding queued_def load foldl_load_user [OF dist] empty by (simp add: gget_or_def)
  next
    case (Some t)
    have sb: "gget_or [] sb h = t" using Some by (simp add: gget_or_def)
    show ?thesis
      using dist' [OF Some] buck [OF Some]
      unfolding queued_def load foldl_load_user [OF dist] empty sb Some
      by (auto simp: foldl_load_type load_bucket_saved split: option.split)
        (auto simp: gget_or_def load_bucket_saved)
  qed
qed

lemma summary_roundtrip_witness:
  "queued (load_summary (\<lambda>_. Some (snapshot_of (append_quest ''u'' ''quest'' sample_quest_entry new_summary_buffer)))
      ''f'' (save_summary (\<lambda>_. ''{}'') ''f'' (append_quest ''u'' ''quest'' sample_quest_entry new_summary_buffer) None)
      new_summary_buffer) ''u'' ''quest'' (key_of_quest sample_quest_entry) = Some sample_quest_entry"
  using summary_roundtrip [OF summary_ok_sample, of
      "\<lambda>_. Some (snapshot_of (append_quest ''u'' ''quest'' sample_quest_entry new_summary_buffer))" "\<lambda>_. ''{}''" "''f''"]
  by (simp add: queued_append) (simp add: queued_def new_summary_buffer_def gget_or_def)

end
