(* ===== verification/Mute.thy ===== *)
theory Mute
  imports Prelude
begin

text \<open>
  The package \<open>internal/mute\<close>: the in-memory store of muted scopes (\<open>mute.go\<close>) and what its sweeper does
  (\<open>sweep.go\<close>). Every method holds the lock for its whole effect, so it is one step; the sweep
  goroutine is an operation of the trace. The hand-written \<open>itoa\<close> is modelled with the wrap-around
  of its 64-bit negation.
\<close>

section \<open>State\<close>

record mute_entry =
  me_human_id :: string
  me_scope_type :: string
  me_scope_value :: string
  me_expires_at :: int

record mute_event =
  mv_gym_id :: string
  mv_pokemon_id :: int
  mv_area :: "string list"
  mv_pokestop_id :: string
  mv_station_id :: string
  mv_matched_rule_uid :: int

type_synonym mute_store = "(string, mute_entry list) gomap"

definition new_mute_store :: mute_store where
  "new_mute_store = []"

section \<open>The decimal writer\<close>

definition wrap64 :: "int \<Rightarrow> int" where
  "wrap64 x = (x + 2 ^ 63) mod 2 ^ 64 - 2 ^ 63"

text \<open>The loop writes the digits from the right end of the buffer.\<close>

function put_digits :: "int \<Rightarrow> string \<Rightarrow> string" where
  "put_digits n buf =
     (if n > 0 then put_digits (n div 10) (digit_char (nat (n mod 10)) # buf) else buf)"
  by pat_completeness auto
termination by (relation "measure (\<lambda>(n, _). nat n)") auto

declare put_digits.simps [simp del]

definition mute_itoa :: "int \<Rightarrow> string" where
  "mute_itoa n =
     (if n = 0 then ''0''
      else let neg = n < 0; m = (if neg then wrap64 (- n) else n); buf = put_digits m []
           in if neg then CHR ''-'' # buf else buf)"

section \<open>Operations\<close>

fun replace_mute :: "mute_entry \<Rightarrow> mute_entry list \<Rightarrow> mute_entry list option" where
  "replace_mute e [] = None"
| "replace_mute e (x # xs) =
     (if me_scope_type x = me_scope_type e \<and> me_scope_value x = me_scope_value e then Some (e # xs)
      else map_option ((#) x) (replace_mute e xs))"

definition add_mute :: "mute_entry \<Rightarrow> mute_store \<Rightarrow> mute_store \<times> bool" where
  "add_mute e s =
     (if me_human_id e = [] \<or> me_scope_type e = [] then (s, False)
      else let list = gget_or [] s (me_human_id e)
           in case replace_mute e list of
                Some list' \<Rightarrow> (gput (me_human_id e) list' s, True)
              | None \<Rightarrow> (gput (me_human_id e) (list @ [e]) s, False))"

fun delete_mute :: "string \<Rightarrow> string \<Rightarrow> mute_entry list \<Rightarrow> mute_entry list option" where
  "delete_mute t v [] = None"
| "delete_mute t v (x # xs) =
     (if me_scope_type x = t \<and> me_scope_value x = v then Some xs
      else map_option ((#) x) (delete_mute t v xs))"

definition remove_mute :: "string \<Rightarrow> string \<Rightarrow> string \<Rightarrow> mute_store \<Rightarrow> mute_store \<times> bool" where
  "remove_mute human t v s =
     (case delete_mute t v (gget_or [] s human) of
        None \<Rightarrow> (s, False)
      | Some list' \<Rightarrow> (if length list' = 0 then gdel human s else gput human list' s, True))"

definition remove_all_mutes :: "string \<Rightarrow> mute_store \<Rightarrow> mute_store \<times> nat" where
  "remove_all_mutes human s = (gdel human s, length (gget_or [] s human))"

definition list_mutes :: "mute_store \<Rightarrow> string \<Rightarrow> mute_entry list" where
  "list_mutes s human = gget_or [] s human"

definition expired_mute :: "int \<Rightarrow> mute_entry \<Rightarrow> bool" where
  "expired_mute now e \<longleftrightarrow> me_expires_at e > 0 \<and> me_expires_at e \<le> now"

definition list_active_mutes :: "mute_store \<Rightarrow> string \<Rightarrow> int \<Rightarrow> mute_entry list" where
  "list_active_mutes s human now = filter (\<lambda>e. \<not> expired_mute now e) (gget_or [] s human)"

definition match_scope :: "mute_entry \<Rightarrow> mute_event \<Rightarrow> bool" where
  "match_scope e ev =
     (let t = me_scope_type e; v = me_scope_value e
      in if t = ''everything'' then True
         else if t = ''gym'' then v \<noteq> [] \<and> v = mv_gym_id ev
         else if t = ''pokemon'' then v \<noteq> [] \<and> mv_pokemon_id ev > 0 \<and> v = mute_itoa (mv_pokemon_id ev)
         else if t = ''area'' then
           (if v = [] then False else list_ex (\<lambda>name. equal_fold name v) (mv_area ev))
         else if t = ''pokestop'' then v \<noteq> [] \<and> v = mv_pokestop_id ev
         else if t = ''station'' then v \<noteq> [] \<and> v = mv_station_id ev
         else if t = ''tracking'' then
           (if v = [] \<or> mv_matched_rule_uid ev = 0 then False else v = mute_itoa (mv_matched_rule_uid ev))
         else False)"

definition match_mute :: "mute_store \<Rightarrow> string \<Rightarrow> mute_event \<Rightarrow> int \<Rightarrow> bool" where
  "match_mute s human ev now =
     list_ex (\<lambda>e. if expired_mute now e then False else match_scope e ev) (gget_or [] s human)"

definition sweep_mutes :: "mute_store \<Rightarrow> int \<Rightarrow> mute_store \<times> nat" where
  "sweep_mutes s now =
     (gkeep (\<lambda>_ es. length es \<noteq> 0) (gmapv (filter (\<lambda>e. \<not> expired_mute now e)) s),
      sum_list (map (\<lambda>(_, es). length (filter (expired_mute now) es)) s))"

definition count_mutes :: "mute_store \<Rightarrow> nat" where
  "count_mutes s = sum_list (map (\<lambda>(_, es). length es) s)"

definition remaining_at :: "mute_entry \<Rightarrow> int \<Rightarrow> duration" where
  "remaining_at e now =
     (if me_expires_at e = 0 then 0 else wrap64 (wrap64 (me_expires_at e - now) * 1000000000))"

section \<open>The decimal writer is \<open>strconv.Itoa\<close>, except at the least integer\<close>

lemma put_digits_pos: "n > 0 \<Longrightarrow> put_digits n buf = digits_of (nat n) @ buf"
proof (induction n buf rule: put_digits.induct)
  case (1 n buf)
  have mod: "nat (n mod 10) = nat n mod 10" and dv: "nat (n div 10) = nat n div 10"
    using 1(2) by (simp_all add: nat_mod_distrib nat_div_distrib)
  show ?case
  proof (cases "n < 10")
    case True
    then have small: "n div 10 = 0" "n mod 10 = n" using 1(2) by auto
    have stop: "put_digits 0 (digit_char (nat n) # buf) = digit_char (nat n) # buf"
      by (subst put_digits.simps) simp
    show ?thesis
      using 1(2) True by (subst put_digits.simps, subst digits_of.simps) (simp add: small stop)
  next
    case False
    then have "n div 10 > 0" by auto
    with 1 False show ?thesis
      by (subst put_digits.simps, subst digits_of.simps) (simp add: mod dv)
  qed
qed

lemma length_digits: "n < 10 ^ k \<Longrightarrow> 0 < k \<Longrightarrow> length (digits_of n) \<le> k"
proof (induction k arbitrary: n)
  case (Suc k)
  show ?case
  proof (cases "n < 10")
    case False
    then have "n div 10 < 10 ^ k" "0 < k" using Suc.prems(1) by (auto simp: less_mult_imp_div_less mult.commute intro: ccontr)
    with Suc.IH [of "n div 10"] False show ?thesis by (subst digits_of.simps) simp
  qed (subst digits_of.simps, simp)
qed simp

lemma mute_itoa_eq: "- (2 ^ 63) < n \<Longrightarrow> n < 2 ^ 63 \<Longrightarrow> mute_itoa n = itoa n"
proof -
  assume b: "- (2 ^ 63) < n" "n < 2 ^ 63"
  have "wrap64 (- n) = - n" if "n < 0" using b that by (simp add: wrap64_def)
  moreover have "itoa 0 = ''0''" by code_simp
  ultimately show ?thesis by (simp add: mute_itoa_def itoa_def put_digits_pos Let_def)
qed

text \<open>the hand-written decimal writer of the mute package agrees with \<open>strconv.Itoa\<close> on every 64-bit
  integer but the least, never needs more than the 20 bytes of its buffer, and loses the digits of the
  least one, whose negation wraps around.\<close>

theorem mute_itoa_exact:
  "(- (2 ^ 63) < n \<and> n < 2 ^ 63 \<longrightarrow> mute_itoa n = itoa n \<and> length (mute_itoa n) \<le> 20) \<and>
   mute_itoa (- (2 ^ 63)) = ''-''"
proof -
  have "length (itoa n) \<le> 20" if "- (2 ^ 63) < n" "n < 2 ^ 63"
  proof -
    have "length (digits_of (nat n)) \<le> 19" "length (digits_of (nat (- n))) \<le> 19"
      using that by (auto intro!: length_digits)
    then show ?thesis by (simp add: itoa_def)
  qed
  moreover have "mute_itoa (- (2 ^ 63)) = ''-''"
    by (simp add: mute_itoa_def wrap64_def Let_def put_digits.simps)
  ultimately show ?thesis using mute_itoa_eq [of n] by simp
qed

lemma mute_itoa_exact_witness: "mute_itoa (- 150) = itoa (- 150) \<and> length (mute_itoa (- 150)) \<le> 20"
  using mute_itoa_exact [of "- 150"] by auto

section \<open>The store as one map\<close>

text \<open>What the lists promise: per human, scope type and value, at most one expiry.\<close>

abbreviation scope_of :: "mute_entry \<Rightarrow> string \<times> string" where
  "scope_of e \<equiv> (me_scope_type e, me_scope_value e)"

fun find_mute :: "mute_entry list \<Rightarrow> string \<times> string \<Rightarrow> int option" where
  "find_mute [] k = None"
| "find_mute (e # es) k = (if scope_of e = k then Some (me_expires_at e) else find_mute es k)"

definition muted_until :: "mute_store \<Rightarrow> string \<Rightarrow> string \<times> string \<Rightarrow> int option" where
  "muted_until s human k = find_mute (gget_or [] s human) k"

definition mute_ok :: "mute_store \<Rightarrow> bool" where
  "mute_ok s \<longleftrightarrow> gok s \<and> (\<forall>h. distinct (map scope_of (gget_or [] s h)))"

lemma find_mute_None: "find_mute es k = None \<longleftrightarrow> k \<notin> scope_of ` set es"
  by (induction es) auto

lemma find_mute_Some:
  "distinct (map scope_of es) \<Longrightarrow> find_mute es k = Some x \<longleftrightarrow> (\<exists>e \<in> set es. scope_of e = k \<and> me_expires_at e = x)"
proof (induction es)
  case (Cons e es)
  then have "scope_of e \<notin> scope_of ` set es" "distinct (map scope_of es)" by simp_all
  with Cons.IH show ?case by (auto simp: image_iff)
qed simp

lemma replace_mute_spec:
  "(case replace_mute e es of None \<Rightarrow> scope_of e \<notin> scope_of ` set es
    | Some es' \<Rightarrow> map scope_of es' = map scope_of es \<and>
        (\<forall>k. find_mute es' k = (if k = scope_of e then Some (me_expires_at e) else find_mute es k)))"
  by (induction es) (auto split: option.splits if_splits)

lemma delete_mute_spec:
  "distinct (map scope_of es) \<Longrightarrow>
   (case delete_mute t v es of None \<Rightarrow> (t, v) \<notin> scope_of ` set es
    | Some es' \<Rightarrow> distinct (map scope_of es') \<and> scope_of ` set es' \<subseteq> scope_of ` set es \<and>
        (\<forall>k. find_mute es' k = (if k = (t, v) then None else find_mute es k)))"
proof (induction es)
  case (Cons e es)
  then show ?case
    by (auto simp: find_mute_None image_iff split: option.splits if_splits) blast+
qed simp

lemma find_mute_append: "find_mute (es @ [e]) k =
    (case find_mute es k of Some x \<Rightarrow> Some x | None \<Rightarrow> if scope_of e = k then Some (me_expires_at e) else None)"
  by (induction es) auto

lemma add_mute_ok: "mute_ok s \<Longrightarrow> mute_ok (fst (add_mute e s))"
  using replace_mute_spec [of e "gget_or [] s (me_human_id e)"]
  by (auto simp: mute_ok_def add_mute_def Let_def gok_put gget_or_put split: option.split)

lemma muted_until_add:
  "muted_until (fst (add_mute e s)) h k =
     (if me_human_id e \<noteq> [] \<and> me_scope_type e \<noteq> [] \<and> h = me_human_id e \<and> k = scope_of e
      then Some (me_expires_at e) else muted_until s h k)"
  using replace_mute_spec [of e "gget_or [] s (me_human_id e)"] find_mute_None [of "gget_or [] s (me_human_id e)" k]
  by (cases k) (auto simp: muted_until_def add_mute_def Let_def gget_or_put find_mute_append split: option.splits if_splits)

lemma gget_or_del: "gget_or [] (gdel h s) h' = (if h' = h then [] else gget_or [] s h')"
  by (simp add: gget_or_def gget_del)

lemma remove_mute_lists:
  "gget_or [] (fst (remove_mute h t v s)) h' =
     (case delete_mute t v (gget_or [] s h) of None \<Rightarrow> gget_or [] s h'
      | Some es \<Rightarrow> if h' = h then es else gget_or [] s h')"
  by (auto simp: remove_mute_def gget_or_del gget_or_put split: option.split)

lemma remove_mute_ok: "mute_ok s \<Longrightarrow> mute_ok (fst (remove_mute h t v s))"
  using delete_mute_spec [of "gget_or [] s h" t v] unfolding mute_ok_def remove_mute_lists
  by (auto simp: remove_mute_def gok_put gok_del split: option.splits)

lemma muted_until_remove:
  assumes "mute_ok s"
  shows "muted_until (fst (remove_mute h t v s)) h' k = (if h' = h \<and> k = (t, v) then None else muted_until s h' k)"
  using assms delete_mute_spec [of "gget_or [] s h" t v] find_mute_None [of "gget_or [] s h" "(t, v)"]
  unfolding muted_until_def remove_mute_lists by (cases k) (auto simp: mute_ok_def split: option.splits)

lemma remove_all_ok: "mute_ok s \<Longrightarrow> mute_ok (fst (remove_all_mutes h s))"
  by (simp add: mute_ok_def remove_all_mutes_def gok_del gget_or_del)

lemma muted_until_remove_all: "muted_until (fst (remove_all_mutes h s)) h' k = (if h' = h then None else muted_until s h' k)"
  by (simp add: muted_until_def remove_all_mutes_def gget_or_del)

lemma sweep_mutes_lists:
  assumes "gok s"
  shows "gget_or [] (fst (sweep_mutes s now)) h = filter (\<lambda>e. \<not> expired_mute now e) (gget_or [] s h)"
  using assms by (simp add: sweep_mutes_def gget_or_def gget_keep gok_mapv gget_mapv split: option.split)

lemma sweep_mutes_ok: "mute_ok s \<Longrightarrow> mute_ok (fst (sweep_mutes s now))"
  unfolding mute_ok_def by (auto simp: sweep_mutes_lists distinct_map_filter) (simp add: sweep_mutes_def gok_keep gok_mapv)

abbreviation live_until :: "int \<Rightarrow> int \<Rightarrow> bool" where
  "live_until now x \<equiv> \<not> (x > 0 \<and> x \<le> now)"

lemma muted_until_sweep:
  assumes "mute_ok s"
  shows "muted_until (fst (sweep_mutes s now)) h k = Some x \<longleftrightarrow> muted_until s h k = Some x \<and> live_until now x"
proof -
  have "distinct (map scope_of (gget_or [] s h))" "gok s" using assms by (simp_all add: mute_ok_def)
  then show ?thesis
    by (simp add: muted_until_def sweep_mutes_lists find_mute_Some distinct_map_filter expired_mute_def) blast
qed

section \<open>What a mute promises\<close>

text \<open>When a muted scope silences an event.\<close>

definition silences :: "string \<times> string \<Rightarrow> mute_event \<Rightarrow> bool" where
  "silences k ev \<longleftrightarrow> fst k = ''everything'' \<or> (snd k \<noteq> [] \<and>
     (fst k = ''gym'' \<and> mv_gym_id ev = snd k \<or>
      fst k = ''pokemon'' \<and> mv_pokemon_id ev > 0 \<and> snd k = itoa (mv_pokemon_id ev) \<or>
      fst k = ''area'' \<and> (\<exists>name \<in> set (mv_area ev). equal_fold name (snd k)) \<or>
      fst k = ''pokestop'' \<and> mv_pokestop_id ev = snd k \<or>
      fst k = ''station'' \<and> mv_station_id ev = snd k \<or>
      fst k = ''tracking'' \<and> mv_matched_rule_uid ev \<noteq> 0 \<and> snd k = itoa (mv_matched_rule_uid ev)))"

definition event_in_range :: "mute_event \<Rightarrow> bool" where
  "event_in_range ev \<longleftrightarrow> mv_pokemon_id ev < 2 ^ 63 \<and> - (2 ^ 63) < mv_matched_rule_uid ev \<and> mv_matched_rule_uid ev < 2 ^ 63"

lemma match_scope_silences:
  assumes "event_in_range ev"
  shows "match_scope e ev \<longleftrightarrow> silences (scope_of e) ev"
proof -
  have pid: "mv_pokemon_id ev > 0 \<Longrightarrow> mute_itoa (mv_pokemon_id ev) = itoa (mv_pokemon_id ev)"
    and uid: "mute_itoa (mv_matched_rule_uid ev) = itoa (mv_matched_rule_uid ev)"
    using assms by (auto simp: event_in_range_def intro!: mute_itoa_eq)
  show ?thesis
    unfolding match_scope_def silences_def Let_def uid
    using pid by (auto simp: list_ex_iff)
qed

lemma match_mute_iff:
  assumes "mute_ok s" "event_in_range ev"
  shows "match_mute s h ev now \<longleftrightarrow> (\<exists>k x. muted_until s h k = Some x \<and> live_until now x \<and> silences k ev)"
proof -
  have "distinct (map scope_of (gget_or [] s h))" using assms(1) by (simp add: mute_ok_def)
  then show ?thesis
    by (auto simp: match_mute_def list_ex_iff muted_until_def find_mute_Some expired_mute_def
        match_scope_silences [OF assms(2)])
qed

text \<open>Requests to the store, and the store of the specification: a map from scopes to expiries that
  forgets nothing, and where sweeping does nothing.\<close>

datatype mute_op = MAdd mute_entry | MRemove string string string | MRemoveAll string | MSweep int
  | MMatch string mute_event int

fun mute_step :: "mute_store \<Rightarrow> mute_op \<Rightarrow> mute_store" where
  "mute_step s (MAdd e) = fst (add_mute e s)"
| "mute_step s (MRemove h t v) = fst (remove_mute h t v s)"
| "mute_step s (MRemoveAll h) = fst (remove_all_mutes h s)"
| "mute_step s (MSweep now) = fst (sweep_mutes s now)"
| "mute_step s (MMatch h ev now) = s"

fun mute_run :: "mute_store \<Rightarrow> mute_op list \<Rightarrow> bool list" where
  "mute_run s [] = []"
| "mute_run s (MMatch h ev now # xs) = match_mute s h ev now # mute_run s xs"
| "mute_run s (x # xs) = mute_run (mute_step s x) xs"

type_synonym mute_spec = "string \<Rightarrow> string \<times> string \<Rightarrow> int option"

fun spec_step :: "mute_spec \<Rightarrow> mute_op \<Rightarrow> mute_spec" where
  "spec_step A (MAdd e) =
     (if me_human_id e = [] \<or> me_scope_type e = [] then A
      else A(me_human_id e := (A (me_human_id e))(scope_of e := Some (me_expires_at e))))"
| "spec_step A (MRemove h t v) = A(h := (A h)((t, v) := None))"
| "spec_step A (MRemoveAll h) = A(h := (\<lambda>_. None))"
| "spec_step A (MSweep now) = A"
| "spec_step A (MMatch h ev now) = A"

fun spec_run :: "mute_spec \<Rightarrow> mute_op list \<Rightarrow> bool list" where
  "spec_run A [] = []"
| "spec_run A (MMatch h ev now # xs) =
     (\<exists>k x. A h k = Some x \<and> live_until now x \<and> silences k ev) # spec_run A xs"
| "spec_run A (x # xs) = spec_run (spec_step A x) xs"

fun mute_time :: "int \<Rightarrow> mute_op \<Rightarrow> int" where
  "mute_time now (MSweep t) = t"
| "mute_time now (MMatch h ev t) = t"
| "mute_time now x = now"

fun mute_clock_ok :: "int \<Rightarrow> mute_op list \<Rightarrow> bool" where
  "mute_clock_ok now [] = True"
| "mute_clock_ok now (x # xs) \<longleftrightarrow> now \<le> mute_time now x \<and> mute_clock_ok (mute_time now x) xs"

definition in_range_op :: "mute_op \<Rightarrow> bool" where
  "in_range_op x = (case x of MMatch h ev t \<Rightarrow> event_in_range ev | _ \<Rightarrow> True)"

definition mute_sim :: "int \<Rightarrow> mute_store \<Rightarrow> mute_spec \<Rightarrow> bool" where
  "mute_sim now s A \<longleftrightarrow> mute_ok s \<and> (\<forall>h k x. live_until now x \<longrightarrow> (muted_until s h k = Some x \<longleftrightarrow> A h k = Some x))"

lemma mute_sim_later: "mute_sim now s A \<Longrightarrow> now \<le> t \<Longrightarrow> mute_sim t s A"
  by (auto simp: mute_sim_def)

lemma mute_sim_step: "mute_sim t s A \<Longrightarrow> mute_time t x = t \<Longrightarrow> mute_sim t (mute_step s x) (spec_step A x)"
  by (cases x)
    (auto simp: mute_sim_def add_mute_ok remove_mute_ok remove_all_ok sweep_mutes_ok muted_until_add
       muted_until_remove muted_until_remove_all muted_until_sweep)

lemma mute_run_sim:
  assumes "mute_sim now s A" "mute_clock_ok now xs" "\<forall>x \<in> set xs. in_range_op x"
  shows "mute_run s xs = spec_run A xs"
  using assms
proof (induction xs arbitrary: now s A)
  case (Cons x xs)
  let ?t = "mute_time now x"
  have sim: "mute_sim ?t s A" using Cons.prems by (simp add: mute_sim_later)
  have same: "mute_time ?t x = ?t" by (cases x) simp_all
  have rest: "mute_run (mute_step s x) xs = spec_run (spec_step A x) xs"
    using Cons.IH [OF mute_sim_step [OF sim same]] Cons.prems(2,3) by simp
  show ?case
  proof (cases x)
    case (MMatch h ev t)
    have "event_in_range ev" using Cons.prems(3) MMatch by (simp add: in_range_op_def)
    then have "match_mute s h ev t \<longleftrightarrow> (\<exists>k x. A h k = Some x \<and> live_until t x \<and> silences k ev)"
      using sim MMatch by (simp add: match_mute_iff mute_sim_def) blast
    with rest MMatch show ?thesis by simp
  qed (use rest in simp_all)
qed simp

text \<open>C8: the mute store refines a map from scopes to expiries that is never swept: with a clock that
  does not go back, whatever mutes are added, replaced and removed and whenever the sweeper runs, a user
  is muted for an event exactly when some scope of theirs, not yet expired by its latest setting, silences it.\<close>

theorem mute_refines_scopes:
  assumes "mute_clock_ok now xs" and "\<forall>x \<in> set xs. in_range_op x"
  shows "mute_run new_mute_store xs = spec_run (\<lambda>_ _. None) xs"
  by (rule mute_run_sim [OF _ assms])
    (simp add: mute_sim_def mute_ok_def new_mute_store_def muted_until_def gget_or_def)

definition sample_mute_event :: mute_event where
  "sample_mute_event = \<lparr>mv_gym_id = ''g'', mv_pokemon_id = 25, mv_area = [''Town''], mv_pokestop_id = [],
     mv_station_id = [], mv_matched_rule_uid = 0\<rparr>"

definition sample_mute_ops :: "mute_op list" where
  "sample_mute_ops = [MAdd \<lparr>me_human_id = ''u'', me_scope_type = ''gym'', me_scope_value = ''g'', me_expires_at = 100\<rparr>,
     MSweep 50, MMatch ''u'' sample_mute_event 99, MMatch ''u'' sample_mute_event 100]"

lemma mute_refines_scopes_witness: "mute_run new_mute_store sample_mute_ops = [True, False]"
proof -
  have "mute_run new_mute_store sample_mute_ops = spec_run (\<lambda>_ _. None) sample_mute_ops"
    by (rule mute_refines_scopes [where now = 0])
      (simp_all add: sample_mute_ops_def sample_mute_event_def in_range_op_def event_in_range_def)
  then show ?thesis by (simp add: sample_mute_ops_def sample_mute_event_def silences_def)
qed

end
