(* ===== verification/MinuteRing.thy ===== *)
theory MinuteRing
  imports Float64 Prelude
begin

text \<open>
  The rolling counters that keep one slot per wall-clock minute and recycle slots in place: the webhook
  rate (\<open>webhook/rate.go\<close>), the 429 counter of the Discord rate limiter (\<open>delivery/ratelimit.go\<close>) and the
  sighting counts behind rarity groups and shiny rates (\<open>tracker/rarity.go\<close>). One locale states the contract
  of such a ring and proves that it counts exactly the events of a window; each of the three is an instance.
  A fixed array is a function of the index. Counters are unbounded integers.
\<close>

section \<open>The contract\<close>

lemma sum_sum_list: "(\<Sum>i\<in>A. sum_list (map (f i) xs)) = sum_list (map (\<lambda>x. \<Sum>i\<in>A. f i x :: int) xs)"
  by (induction xs) (simp_all add: sum.distrib)

locale minute_ring =
  fixes size :: nat
    and valid :: "'r \<Rightarrow> bool"
    and slot_minute :: "'r \<Rightarrow> nat \<Rightarrow> int"
    and slot_value :: "'r \<Rightarrow> nat \<Rightarrow> 'q \<Rightarrow> int"
    and put :: "'r \<Rightarrow> int \<Rightarrow> 'e \<Rightarrow> 'r"
    and weight :: "'q \<Rightarrow> 'e \<Rightarrow> int"
  assumes size_pos: "0 < size"
    and put_valid: "valid r \<Longrightarrow> 0 \<le> m \<Longrightarrow> valid (put r m e)"
    and put_minute: "valid r \<Longrightarrow> 0 \<le> m \<Longrightarrow> i < size \<Longrightarrow>
      slot_minute (put r m e) i = (if i = nat (m mod int size) then m else slot_minute r i)"
    and put_value: "valid r \<Longrightarrow> 0 \<le> m \<Longrightarrow> i < size \<Longrightarrow>
      slot_value (put r m e) i q =
        (if i = nat (m mod int size) then (if slot_minute r i = m then slot_value r i q else 0) + weight q e
         else slot_value r i q)"
begin

definition slot_of :: "int \<Rightarrow> nat" where
  "slot_of m = nat (m mod int size)"

lemma slot_of_less: "slot_of m < size"
  using size_pos by (simp add: slot_of_def nat_less_iff)

lemma slot_of_window:
  "slot_of m = slot_of m' \<Longrightarrow> now - int size < m \<Longrightarrow> m \<le> m' \<Longrightarrow> m' \<le> now \<Longrightarrow> m = m'"
proof -
  assume eq: "slot_of m = slot_of m'" and b: "now - int size < m" "m \<le> m'" "m' \<le> now"
  have "m mod int size = m' mod int size"
    using eq size_pos by (simp add: slot_of_def eq_nat_nat_iff)
  then have "int size dvd m' - m" by (metis mod_eq_dvd_iff)
  moreover have "m' - m < int size" "0 \<le> m' - m" using b by simp_all
  ultimately show "m = m'" using zdvd_not_zless [of "m' - m" "int size"] by force
qed

text \<open>The weight of the events of a history that pass a test.\<close>

definition tally :: "(int \<times> 'e) list \<Rightarrow> (int \<Rightarrow> bool) \<Rightarrow> 'q \<Rightarrow> int" where
  "tally H P q = sum_list (map (\<lambda>(m, e). if P m then weight q e else 0) H)"

text \<open>The ring after the history \<open>H\<close>, none of it later than \<open>now\<close>.\<close>

definition holds :: "'r \<Rightarrow> (int \<times> 'e) list \<Rightarrow> int \<Rightarrow> bool" where
  "holds r H now \<longleftrightarrow> 0 \<le> now \<and> valid r \<and> (\<forall>i < size. slot_minute r i \<le> now \<and>
     (\<forall>q. slot_value r i q = tally H (\<lambda>m. slot_of m = i \<and> m = slot_minute r i) q) \<and>
     (\<forall>(m, e) \<in> set H. slot_of m = i \<longrightarrow> m \<le> slot_minute r i \<and> slot_of (slot_minute r i) = i))"

lemma holds_later: "holds r H now \<Longrightarrow> now \<le> now' \<Longrightarrow> holds r H now'"
  unfolding holds_def by (meson order_trans)

lemma holds_valid: "holds r H now \<Longrightarrow> valid r"
  by (simp add: holds_def)

lemma tally_Nil: "tally [] P q = 0"
  by (simp add: tally_def)

lemma tally_Cons: "tally ((m, e) # H) P q = (if P m then weight q e else 0) + tally H P q"
  by (simp add: tally_def)

lemma tally_snoc: "tally (H @ [(m, e)]) P q = tally H P q + (if P m then weight q e else 0)"
  by (simp add: tally_def)

lemma tally_none: "\<forall>(m, e) \<in> set H. \<not> P m \<Longrightarrow> tally H P q = 0"
  unfolding tally_def by (induction H) auto

lemma holds_put:
  assumes h: "holds r H now" and le: "now \<le> m"
  shows "holds (put r m e) (H @ [(m, e)]) m"
proof -
  have v: "valid r" and m0: "0 \<le> m" using h le by (simp_all add: holds_def)
  note putm = put_minute [OF v m0] and putv = put_value [OF v m0]
  have slots: "slot_minute (put r m e) i \<le> m \<and>
     (\<forall>q. slot_value (put r m e) i q =
        tally (H @ [(m, e)]) (\<lambda>m'. slot_of m' = i \<and> m' = slot_minute (put r m e) i) q) \<and>
     (\<forall>(m', e') \<in> set (H @ [(m, e)]). slot_of m' = i \<longrightarrow>
        m' \<le> slot_minute (put r m e) i \<and> slot_of (slot_minute (put r m e) i) = i)" if i: "i < size" for i
  proof (cases "i = slot_of m")
    case False
    with h le i show ?thesis
      by (auto simp: holds_def putm putv slot_of_def [symmetric] tally_snoc)
  next
    case True
    have min: "slot_minute (put r m e) i = m" using True i by (simp add: putm slot_of_def)
    have val: "slot_value (put r m e) i q = (if slot_minute r i = m then slot_value r i q else 0) + weight q e" for q
      using True i by (simp add: putv slot_of_def)
    have old: "tally H (\<lambda>m'. slot_of m' = i \<and> m' = m) q = (if slot_minute r i = m then slot_value r i q else 0)" for q
    proof (cases "slot_minute r i = m")
      case True
      with h i show ?thesis by (simp add: holds_def)
    next
      case False
      have "\<forall>(m', e') \<in> set H. \<not> (slot_of m' = i \<and> m' = m)"
      proof clarify
        fix m' e' assume "(m, e') \<in> set H" "i = slot_of m"
        then have "m \<le> slot_minute r i" "slot_minute r i \<le> now" using h i by (auto simp: holds_def)
        with le False show False by simp
      qed
      with False show ?thesis by (simp add: tally_none)
    qed
    have "m' \<le> m" if "(m', e') \<in> set H" "slot_of m' = i" for m' e'
      using h i that le by (fastforce simp: holds_def)
    then show ?thesis
      using True min val old by (auto simp: tally_snoc)
  qed
  show ?thesis unfolding holds_def using slots m0 put_valid [OF v m0] by simp
qed

fun put_all :: "'r \<Rightarrow> (int \<times> 'e) list \<Rightarrow> 'r" where
  "put_all r [] = r"
| "put_all r ((m, e) # H) = put_all (put r m e) H"

lemma holds_put_all:
  assumes "holds r H now" and "sorted (now # map fst K)"
  shows "holds (put_all r K) (H @ K) (last (now # map fst K))"
  using assms
proof (induction K arbitrary: r H now)
  case (Cons x K)
  obtain m e where x: "x = (m, e)" by (cases x)
  have "holds (put r m e) (H @ [(m, e)]) m" using Cons.prems by (intro holds_put [where now = now]) (simp_all add: x)
  from Cons.IH [OF this] Cons.prems(2) show ?case by (simp add: x)
qed simp

text \<open>One minute, and a window of at most \<open>size\<close> minutes.\<close>

lemma minute_count:
  assumes h: "holds r H now" and m: "now - int size < m"
  shows "(if slot_minute r (slot_of m) = m then slot_value r (slot_of m) q else 0) = tally H (\<lambda>m'. m' = m) q"
proof (cases "slot_minute r (slot_of m) = m")
  case True
  with h slot_of_less [of m] have "slot_value r (slot_of m) q = tally H (\<lambda>m'. slot_of m' = slot_of m \<and> m' = m) q"
    by (simp add: holds_def)
  also have "\<dots> = tally H (\<lambda>m'. m' = m) q" unfolding tally_def by (intro arg_cong [where f = sum_list] map_cong) auto
  finally show ?thesis using True by simp
next
  case False
  have "\<forall>(m', e) \<in> set H. \<not> m' = m"
  proof clarify
    fix e assume "(m, e) \<in> set H"
    then have s: "m \<le> slot_minute r (slot_of m)" "slot_of (slot_minute r (slot_of m)) = slot_of m"
        "slot_minute r (slot_of m) \<le> now"
      using h slot_of_less [of m] by (auto simp: holds_def)
    with slot_of_window [OF s(2) [symmetric] m s(1) s(3)] False show False by simp
  qed
  with False show ?thesis by (simp add: tally_none)
qed

lemma window_count:
  assumes h: "holds r H now" and w: "w \<le> int size"
  shows "(\<Sum>i < size. if now - w < slot_minute r i then slot_value r i q else 0) = tally H (\<lambda>m. now - w < m) q"
proof -
  let ?in = "\<lambda>m. now - w < m"
  have "(if ?in (slot_minute r i) then slot_value r i q else 0) =
      sum_list (map (\<lambda>(m, e). if slot_of m = i then (if m = slot_minute r i \<and> ?in (slot_minute r i) then weight q e else 0) else 0) H)"
    if "i < size" for i
  proof (cases "?in (slot_minute r i)")
    case True
    have "slot_value r i q = tally H (\<lambda>m. slot_of m = i \<and> m = slot_minute r i) q" using h that by (simp add: holds_def)
    also have "\<dots> = sum_list (map (\<lambda>(m, e). if slot_of m = i then (if m = slot_minute r i \<and> ?in (slot_minute r i) then weight q e else 0) else 0) H)"
      unfolding tally_def using True by (intro arg_cong [where f = sum_list] map_cong) auto
    finally show ?thesis using True by simp
  next
    case False
    have "sum_list (map (\<lambda>(m, e). if slot_of m = i then (if m = slot_minute r i \<and> ?in (slot_minute r i) then weight q e else 0) else 0) H) = 0"
      using False by (induction H) auto
    with False show ?thesis by simp
  qed
  then have "(\<Sum>i < size. if ?in (slot_minute r i) then slot_value r i q else 0) =
      (\<Sum>i < size. sum_list (map (\<lambda>x. (case x of (m, e) \<Rightarrow> if slot_of m = i
          then (if m = slot_minute r i \<and> ?in (slot_minute r i) then weight q e else 0) else 0)) H))"
    by (intro sum.cong) auto
  also have "\<dots> = sum_list (map (\<lambda>x. \<Sum>i < size. (case x of (m, e) \<Rightarrow> if slot_of m = i
          then (if m = slot_minute r i \<and> ?in (slot_minute r i) then weight q e else 0) else 0)) H)"
    by (rule sum_sum_list)
  also have "\<dots> = tally H ?in q"
    unfolding tally_def
  proof (intro arg_cong [where f = sum_list] map_cong refl)
    fix x assume x: "x \<in> set H"
    obtain m e where e: "x = (m, e)" by (cases x)
    have s: "m \<le> slot_minute r (slot_of m)" "slot_of (slot_minute r (slot_of m)) = slot_of m"
        "slot_minute r (slot_of m) \<le> now"
      using h slot_of_less [of m] x e by (auto simp: holds_def)
    have iff: "m = slot_minute r (slot_of m) \<and> ?in (slot_minute r (slot_of m)) \<longleftrightarrow> ?in m"
      using slot_of_window [OF s(2) [symmetric], of now] s(1,3) w by auto
    have "(\<Sum>i < size. if slot_of m = i then (if m = slot_minute r i \<and> ?in (slot_minute r i) then weight q e else 0) else 0) =
        (if m = slot_minute r (slot_of m) \<and> ?in (slot_minute r (slot_of m)) then weight q e else 0)"
      using slot_of_less [of m] by (simp add: sum.delta)
    then show "(\<Sum>i < size. (case x of (m, e) \<Rightarrow> if slot_of m = i
          then (if m = slot_minute r i \<and> ?in (slot_minute r i) then weight q e else 0) else 0)) =
        (case x of (m, e) \<Rightarrow> if ?in m then weight q e else 0)"
      unfolding e prod.case iff .
  qed
  finally show ?thesis .
qed

end

section \<open>The webhook rate\<close>

record minute_slot =
  ms_minute :: int
  ms_count :: int

record rate_counter =
  rc_totals :: "nat \<Rightarrow> minute_slot"
  rc_by_type :: "nat \<Rightarrow> (string, int) gomap"

record rate_snapshot =
  rs_per5 :: int
  rs_per15 :: int
  rs_per60 :: int
  rs_per_type :: "(string, int) gomap"

definition new_rate_counter :: rate_counter where
  "new_rate_counter = \<lparr>rc_totals = (\<lambda>_. \<lparr>ms_minute = 0, ms_count = 0\<rparr>), rc_by_type = (\<lambda>_. [])\<rparr>"

definition minute_of :: "gotime \<Rightarrow> int" where
  "minute_of t = unix t div 60"

definition bump :: "'k \<Rightarrow> int \<Rightarrow> ('k, int) gomap \<Rightarrow> ('k, int) gomap" where
  "bump k n m = gput k (gget_or 0 m k + n) m"

text \<open>\<open>Record\<close>, at a given minute.\<close>

definition record_at :: "rate_counter \<Rightarrow> int \<Rightarrow> string \<Rightarrow> rate_counter" where
  "record_at r mn ty =
     (let idx = nat (mn mod 60);
          r1 = (if ms_minute (rc_totals r idx) \<noteq> mn
                then r\<lparr>rc_totals := (rc_totals r)(idx := \<lparr>ms_minute = mn, ms_count = 0\<rparr>),
                       rc_by_type := (rc_by_type r)(idx := [])\<rparr>
                else r)
      in r1\<lparr>rc_totals := (rc_totals r1)(idx := (rc_totals r1 idx)\<lparr>ms_count := ms_count (rc_totals r1 idx) + 1\<rparr>),
            rc_by_type := (rc_by_type r1)(idx := bump ty 1 (rc_by_type r1 idx))\<rparr>)"

definition record_webhook :: "rate_counter \<Rightarrow> string \<Rightarrow> gotime \<Rightarrow> rate_counter" where
  "record_webhook r ty now = record_at r (minute_of now) ty"

definition snapshot_slot :: "rate_counter \<Rightarrow> int \<Rightarrow> rate_snapshot \<Rightarrow> nat \<Rightarrow> rate_snapshot" where
  "snapshot_slot r current sn i =
     (let slot = rc_totals r i; age = current - ms_minute slot
      in if ms_minute slot = 0 then sn
         else if age < 0 \<or> age \<ge> 60 then sn
         else sn\<lparr>rs_per60 := rs_per60 sn + ms_count slot,
                 rs_per15 := (if age < 15 then rs_per15 sn + ms_count slot else rs_per15 sn),
                 rs_per5 := (if age < 5 then rs_per5 sn + ms_count slot else rs_per5 sn),
                 rs_per_type := foldl (\<lambda>acc (ty, cnt). bump ty cnt acc) (rs_per_type sn) (rc_by_type r i)\<rparr>)"

definition rate_snapshot_of :: "rate_counter \<Rightarrow> gotime \<Rightarrow> rate_snapshot" where
  "rate_snapshot_of r now =
     foldl (snapshot_slot r (minute_of now))
       \<lparr>rs_per5 = 0, rs_per15 = 0, rs_per60 = 0, rs_per_type = []\<rparr> [0..<60]"

text \<open>The counter is a ring of 60 minutes; it is asked for the total or for one type.\<close>

definition rate_value :: "rate_counter \<Rightarrow> nat \<Rightarrow> string option \<Rightarrow> int" where
  "rate_value r i q = (case q of None \<Rightarrow> ms_count (rc_totals r i) | Some ty \<Rightarrow> gget_or 0 (rc_by_type r i) ty)"

definition rate_weight :: "string option \<Rightarrow> string \<Rightarrow> int" where
  "rate_weight q ty = (case q of None \<Rightarrow> 1 | Some ty' \<Rightarrow> if ty' = ty then 1 else 0)"

lemma gget_or_bump: "gget_or 0 (bump k n m) k' = gget_or 0 m k' + (if k' = k then n else 0)"
  by (simp add: bump_def gget_or_put)

definition by_type_ok :: "rate_counter \<Rightarrow> bool" where
  "by_type_ok r \<longleftrightarrow> (\<forall>i. gok (rc_by_type r i))"

lemma gok_bump [gok_intros]: "gok m \<Longrightarrow> gok (bump k n m)"
  by (simp add: bump_def gok_put)

lemma by_type_ok_record: "by_type_ok r \<Longrightarrow> by_type_ok (record_at r mn ty)"
  by (auto simp: by_type_ok_def record_at_def Let_def intro!: gok_intros)

interpretation rate: minute_ring 60 by_type_ok "\<lambda>r i. ms_minute (rc_totals r i)" rate_value record_at rate_weight
  by unfold_locales
    (auto simp: by_type_ok_record, auto simp: record_at_def rate_value_def rate_weight_def Let_def gget_or_bump
      split: option.split)

lemma merge_counts:
  "gok m \<Longrightarrow> gget_or 0 (foldl (\<lambda>acc (k, n). bump k n acc) acc m) k = gget_or 0 acc k + gget_or (0::int) m k"
proof (induction m arbitrary: acc)
  case (Cons x m)
  obtain a b where x: "x = (a, b)" by (cases x)
  have none: "gget m a = None" and ok: "gok m" using Cons.prems by (simp_all add: x gok_Cons)
  show ?case
    using Cons.IH [OF ok, of "bump a b acc"] none by (simp add: x gget_or_bump) (simp add: gget_or_def gget_Cons)
qed simp

text \<open>The loop adds up the slots whose age is in the window.\<close>

definition in_window :: "rate_counter \<Rightarrow> int \<Rightarrow> int \<Rightarrow> string option \<Rightarrow> nat \<Rightarrow> int" where
  "in_window r cur w q i = (if cur - w < ms_minute (rc_totals r i) then rate_value r i q else 0)"

lemma snapshot_slot_step:
  assumes "gok (rc_by_type r i)" and "ms_minute (rc_totals r i) \<le> cur"
    and "\<And>q. ms_minute (rc_totals r i) = 0 \<Longrightarrow> rate_value r i q = 0"
  shows "rs_per5 (snapshot_slot r cur sn i) = rs_per5 sn + in_window r cur 5 None i"
    and "rs_per15 (snapshot_slot r cur sn i) = rs_per15 sn + in_window r cur 15 None i"
    and "rs_per60 (snapshot_slot r cur sn i) = rs_per60 sn + in_window r cur 60 None i"
    and "gget_or 0 (rs_per_type (snapshot_slot r cur sn i)) ty =
      gget_or 0 (rs_per_type sn) ty + in_window r cur 60 (Some ty) i"
proof -
  note v = rate_value_def [of r i None, simplified] rate_value_def [of r i "Some ty", simplified]
  note [simp] = snapshot_slot_def Let_def in_window_def merge_counts [OF assms(1)] v
  show "rs_per5 (snapshot_slot r cur sn i) = rs_per5 sn + in_window r cur 5 None i"
    using assms(2) assms(3) [of None] by auto
  show "rs_per15 (snapshot_slot r cur sn i) = rs_per15 sn + in_window r cur 15 None i"
    using assms(2) assms(3) [of None] by auto
  show "rs_per60 (snapshot_slot r cur sn i) = rs_per60 sn + in_window r cur 60 None i"
    using assms(2) assms(3) [of None] by auto
  show "gget_or 0 (rs_per_type (snapshot_slot r cur sn i)) ty =
      gget_or 0 (rs_per_type sn) ty + in_window r cur 60 (Some ty) i"
    using assms(2) assms(3) [of "Some ty"] by auto
qed

lemma snapshot_sum:
  assumes "by_type_ok r" and "\<And>i. i < n \<Longrightarrow> ms_minute (rc_totals r i) \<le> cur"
    and "\<And>i q. i < n \<Longrightarrow> ms_minute (rc_totals r i) = 0 \<Longrightarrow> rate_value r i q = 0"
  shows "(let sn = foldl (snapshot_slot r cur) \<lparr>rs_per5 = 0, rs_per15 = 0, rs_per60 = 0, rs_per_type = []\<rparr> [0..<n]
    in rs_per5 sn = (\<Sum>i < n. in_window r cur 5 None i) \<and>
       rs_per15 sn = (\<Sum>i < n. in_window r cur 15 None i) \<and>
       rs_per60 sn = (\<Sum>i < n. in_window r cur 60 None i) \<and>
       (\<forall>ty. gget_or 0 (rs_per_type sn) ty = (\<Sum>i < n. in_window r cur 60 (Some ty) i)))"
  using assms(2,3)
proof (induction n)
  case (Suc n)
  have ok: "gok (rc_by_type r n)" using assms(1) by (simp add: by_type_ok_def)
  note step = snapshot_slot_step [OF ok Suc.prems(1) [of n] Suc.prems(2) [of n]]
  show ?case using Suc.IH Suc.prems by (simp add: Let_def step)
qed simp

text \<open>The counter after a history of arrivals, oldest first.\<close>

fun record_all :: "rate_counter \<Rightarrow> (gotime \<times> string) list \<Rightarrow> rate_counter" where
  "record_all r [] = r"
| "record_all r ((t, ty) # H) = record_all (record_webhook r ty t) H"

definition in_minutes :: "(gotime \<times> string) list \<Rightarrow> (int \<times> string) list" where
  "in_minutes H = map (\<lambda>(t, ty). (minute_of t, ty)) H"

lemma record_all_put_all: "record_all r H = rate.put_all r (in_minutes H)"
  by (induction r H rule: record_all.induct) (simp_all add: in_minutes_def record_webhook_def)

text \<open>How many arrivals a test on the minute passes, of any type or of one.\<close>

definition arrivals :: "(gotime \<times> string) list \<Rightarrow> int \<Rightarrow> int \<Rightarrow> string option \<Rightarrow> int" where
  "arrivals H cur w q = int (length (filter (\<lambda>(t, ty). cur - w < minute_of t \<and> (q = None \<or> q = Some ty)) H))"

lemma arrivals_tally: "rate.tally (in_minutes H) (\<lambda>m. cur - w < m) q = arrivals H cur w q"
proof (induction H)
  case (Cons x H)
  obtain t ty where x: "x = (t, ty)" by (cases x)
  have wt: "rate_weight q ty = (if q = None \<or> q = Some ty then 1 else 0)"
    by (auto simp: rate_weight_def split: option.split)
  show ?case using Cons.IH by (simp add: x in_minutes_def arrivals_def rate.tally_Cons wt)
qed (simp add: in_minutes_def arrivals_def rate.tally_Nil)

lemma holds_new: "0 \<le> now \<Longrightarrow> rate.holds new_rate_counter [] now"
  by (auto simp: rate.holds_def rate.tally_Nil new_rate_counter_def rate_value_def by_type_ok_def gok_Nil
      split: option.split)

lemma record_all_holds:
  assumes "sorted (map fst H)" and "\<forall>(t, ty) \<in> set H. 60 \<le> unix t \<and> t \<le> now" and "60 \<le> unix now"
  shows "rate.holds (record_all new_rate_counter H) (in_minutes H) (minute_of now)"
proof -
  have mono: "minute_of s \<le> minute_of t" if "s \<le> t" for s t
    using that unix_mono [of s t] by (simp add: minute_of_def zdiv_mono1)
  have pos: "0 \<le> minute_of t" if "60 \<le> unix t" for t using that by (simp add: minute_of_def)
  have 1: "sorted (map fst (in_minutes H))"
    using assms(1) by (induction H) (auto simp: in_minutes_def mono)
  have 2: "\<forall>m \<in> set (map fst (in_minutes H)). 0 \<le> m \<and> m \<le> minute_of now"
    using assms(2) by (auto simp: in_minutes_def mono pos)
  have "rate.holds (rate.put_all new_rate_counter (in_minutes H)) ([] @ in_minutes H)
      (last (0 # map fst (in_minutes H)))"
    using 1 2 by (intro rate.holds_put_all holds_new) auto
  moreover have "last (0 # map fst (in_minutes H)) \<le> minute_of now"
    using 2 pos [OF assms(3)] last_in_set [of "0 # map fst (in_minutes H)"] by (metis list.distinct(1) set_ConsD)
  ultimately show ?thesis by (simp add: record_all_put_all rate.holds_later)
qed

lemma window_arrivals:
  assumes "rate.holds r (in_minutes H) cur" and "w \<le> 60"
  shows "(\<Sum>i < 60. in_window r cur w q i) = arrivals H cur w q"
  using rate.window_count [OF assms(1), of w q] assms(2) by (simp add: in_window_def arrivals_tally)

text \<open>A snapshot of the webhook rate counter counts exactly the recorded webhooks of the last 5, 15 and 60
  minutes, and for every type exactly its webhooks of the last 60 minutes, whatever slots were recycled on
  the way: for arrivals in order of time, none in the future, on a clock past minute 0 (the value that marks
  a slot as never written).\<close>

theorem rate_snapshot_exact:
  assumes "sorted (map fst H)" and "\<forall>(t, ty) \<in> set H. 60 \<le> unix t \<and> t \<le> now" and "60 \<le> unix now"
  shows "let sn = rate_snapshot_of (record_all new_rate_counter H) now; cur = minute_of now
    in rs_per5 sn = arrivals H cur 5 None \<and> rs_per15 sn = arrivals H cur 15 None \<and>
       rs_per60 sn = arrivals H cur 60 None \<and>
       (\<forall>ty. gget_or 0 (rs_per_type sn) ty = arrivals H cur 60 (Some ty))"
proof -
  let ?r = "record_all new_rate_counter H"
  have h: "rate.holds ?r (in_minutes H) (minute_of now)" using assms by (rule record_all_holds)
  have ok: "by_type_ok ?r" using h by (rule rate.holds_valid)
  have le: "ms_minute (rc_totals ?r i) \<le> minute_of now" if "i < 60" for i using h that by (simp add: rate.holds_def)
  have zero: "rate_value ?r i q = 0" if "i < 60" "ms_minute (rc_totals ?r i) = 0" for i q
  proof -
    have "rate_value ?r i q = rate.tally (in_minutes H) (\<lambda>m. rate.slot_of m = i \<and> m = 0) q"
      using h that by (simp add: rate.holds_def)
    also have "\<dots> = 0"
      using assms(2) by (intro rate.tally_none) (auto simp: in_minutes_def minute_of_def)
    finally show ?thesis .
  qed
  have win: "(\<Sum>i < 60. in_window ?r (minute_of now) 5 q i) = arrivals H (minute_of now) 5 q"
      "(\<Sum>i < 60. in_window ?r (minute_of now) 15 q i) = arrivals H (minute_of now) 15 q"
      "(\<Sum>i < 60. in_window ?r (minute_of now) 60 q i) = arrivals H (minute_of now) 60 q" for q
    by (rule window_arrivals [OF h], simp)+
  show ?thesis
    using snapshot_sum [of ?r 60 "minute_of now", OF ok le zero]
    unfolding Let_def rate_snapshot_of_def win .
qed

lemma rate_snapshot_exact_witness:
  "let H = [(100 * 1000000000, ''pokemon''), (4000 * 1000000000, ''raid''), (4100 * 1000000000, ''pokemon'')];
       sn = rate_snapshot_of (record_all new_rate_counter H) (4110 * 1000000000); cur = minute_of (4110 * 1000000000)
   in rs_per5 sn = arrivals H cur 5 None \<and> rs_per15 sn = arrivals H cur 15 None \<and>
      rs_per60 sn = arrivals H cur 60 None \<and>
      (\<forall>ty. gget_or 0 (rs_per_type sn) ty = arrivals H cur 60 (Some ty))"
  unfolding Let_def
  by (rule rate_snapshot_exact [of "[(100 * 1000000000, ''pokemon''), (4000 * 1000000000, ''raid''), (4100 * 1000000000, ''pokemon'')]"
        "4110 * 1000000000", unfolded Let_def]) (simp_all add: unix_def)

section \<open>The 429 counter of the Discord rate limiter\<close>

record counter429 =
  c4_count :: "nat \<Rightarrow> int"
  c4_minute :: "nat \<Rightarrow> int"

definition new_counter429 :: counter429 where
  "new_counter429 = \<lparr>c4_count = (\<lambda>_. 0), c4_minute = (\<lambda>_. 0)\<rparr>"

definition record_429_at :: "counter429 \<Rightarrow> int \<Rightarrow> counter429" where
  "record_429_at c current =
     (let slot = nat (current mod 60);
          c1 = (if c4_minute c slot \<noteq> current
                then c\<lparr>c4_count := (c4_count c)(slot := 0), c4_minute := (c4_minute c)(slot := current)\<rparr> else c)
      in c1\<lparr>c4_count := (c4_count c1)(slot := c4_count c1 slot + 1)\<rparr>)"

definition record_429 :: "counter429 \<Rightarrow> gotime \<Rightarrow> counter429" where
  "record_429 c now = record_429_at c (minute_of now)"

definition recent_429_count :: "counter429 \<Rightarrow> gotime \<Rightarrow> int" where
  "recent_429_count c now =
     foldl (\<lambda>count i. let target = minute_of now - int i; slot = nat (target mod 60)
        in if c4_minute c slot = target then count + c4_count c slot else count) 0 [0..<5]"

interpretation r429: minute_ring 60 "\<lambda>_. True" c4_minute "\<lambda>c i (q :: unit). c4_count c i" "\<lambda>c m (e :: unit). record_429_at c m" "\<lambda>q e. 1"
  by unfold_locales (auto simp: record_429_at_def Let_def)

lemma r429_later_sum:
  assumes "\<forall>m \<in> set ms. m \<le> now"
  shows "(\<Sum>i < 5. r429.tally (map (\<lambda>m. (m, ())) ms) (\<lambda>m. m = now - int i) ()) =
    int (length (filter (\<lambda>m. now - 5 < m) ms))"
  using assms
proof (induction ms)
  case (Cons m ms)
  have "(\<Sum>i < 5. if m = now - int i then 1 else 0) = (if now - 5 < m then (1::int) else 0)"
  proof -
    have "(\<Sum>i < 5. if m = now - int i then 1 else (0::int)) = (\<Sum>i < 5. if i = nat (now - m) then 1 else 0)"
      using Cons.prems by (intro sum.cong) auto
    also have "\<dots> = (if nat (now - m) < 5 then 1 else 0)" by (simp add: sum.delta)
    finally show ?thesis using Cons.prems by auto
  qed
  with Cons show ?case by (simp add: r429.tally_Cons sum.distrib)
qed (simp add: r429.tally_Nil)

lemma recent_429_sum:
  assumes "r429.holds c H now"
  shows "foldl (\<lambda>count i. let target = now - int i; slot = nat (target mod 60)
      in if c4_minute c slot = target then count + c4_count c slot else count) 0 [0..<5] =
    (\<Sum>i < 5. r429.tally H (\<lambda>m. m = now - int i) ())"
proof -
  have step: "(let target = now - int i; slot = nat (target mod 60)
      in if c4_minute c slot = target then count + c4_count c slot else count) =
      count + r429.tally H (\<lambda>m. m = now - int i) ()" if "i < 5" for i count
    using r429.minute_count [OF assms, of "now - int i" "()"] that
    by (simp add: r429.slot_of_def Let_def split: if_splits)
  have fold: "n \<le> 5 \<Longrightarrow> foldl (\<lambda>count i. let target = now - int i; slot = nat (target mod 60)
      in if c4_minute c slot = target then count + c4_count c slot else count) 0 [0..<n] =
    (\<Sum>i < n. r429.tally H (\<lambda>m. m = now - int i) ())" for n
  proof (induction n)
    case (Suc n)
    then show ?case using step [of n] by simp
  qed simp
  show ?thesis by (rule fold) simp
qed

lemma minute_mono: "s \<le> t \<Longrightarrow> minute_of s \<le> minute_of t"
  using unix_mono [of s t] by (simp add: minute_of_def zdiv_mono1)

lemma record_429_all:
  "foldl record_429 c ts = r429.put_all c (map (\<lambda>m. (m, ())) (map minute_of ts))"
  by (induction ts arbitrary: c) (simp_all add: record_429_def)

lemma r429_holds_new: "0 \<le> now \<Longrightarrow> r429.holds new_counter429 [] now"
  by (simp add: r429.holds_def r429.tally_Nil new_counter429_def)

text \<open>The number of 429 responses the rate limiter reports is exactly the number recorded in the last five
  wall-clock minutes, for responses recorded in order of time and a clock not before the epoch.\<close>

theorem recent_429_exact:
  assumes "sorted ts" and "\<forall>t \<in> set ts. 0 \<le> unix t \<and> t \<le> now" and "0 \<le> unix now"
  shows "recent_429_count (foldl record_429 new_counter429 ts) now =
    int (length (filter (\<lambda>t. minute_of now - 5 < minute_of t) ts))"
proof -
  let ?ms = "map minute_of ts" and ?now = "minute_of now"
  have pos: "0 \<le> minute_of t" if "0 \<le> unix t" for t using that by (simp add: minute_of_def)
  have srt: "sorted ?ms" using assms(1) by (induction ts) (auto simp: minute_mono)
  have le: "\<forall>m \<in> set ?ms. 0 \<le> m \<and> m \<le> ?now" using assms(2) by (auto simp: minute_mono pos)
  have "r429.holds (foldl record_429 new_counter429 ts) (map (\<lambda>m. (m, ())) ?ms) (last (0 # ?ms))"
    using r429.holds_put_all [OF r429_holds_new [of 0], of "map (\<lambda>m. (m, ())) ?ms"] srt le
    unfolding record_429_all by (auto simp: comp_def)
  moreover have "last (0 # ?ms) \<le> ?now"
    using le pos [OF assms(3)] last_in_set [of "0 # ?ms"] by (metis list.distinct(1) set_ConsD)
  ultimately have "r429.holds (foldl record_429 new_counter429 ts) (map (\<lambda>m. (m, ())) ?ms) ?now"
    by (rule r429.holds_later)
  from recent_429_sum [OF this] r429_later_sum [of ?ms ?now] le show ?thesis
    by (simp add: recent_429_count_def filter_map comp_def)
qed

lemma recent_429_exact_witness:
  "recent_429_count (foldl record_429 new_counter429 [100 * 1000000000, 3900 * 1000000000, 4000 * 1000000000])
     (4020 * 1000000000) = 2"
proof -
  have "sorted [100 * 1000000000, 3900 * 1000000000, 4000 * 1000000000 :: int]" by simp
  note recent_429_exact [OF this, of "4020 * 1000000000"]
  then show ?thesis by (simp add: unix_def minute_of_def)
qed

end
