(* ===== verification/Rarity.thy ===== *)
theory Rarity
  imports MinuteRing
begin

text \<open>
  Sighting statistics (\<open>tracker/rarity.go\<close>): the ring of per-minute counters, the rarity groups and shiny
  rates recalculated from it, and the exports. \<open>st.nowFunc()\<close> is a parameter of each operation, the mutex
  makes each of them atomic, and the ticker of \<open>recalcLoop\<close> is a caller of \<open>recalculate\<close>. The ring
  is an instance of the contract of MinuteRing, which gives that the aggregate counts exactly the window.
\<close>

section \<open>State\<close>

record stats_config =
  sc_min_sample_size :: int
  sc_window_hours :: int
  sc_refresh_interval_mins :: int
  sc_uncommon :: f64
  sc_rare :: f64
  sc_very_rare :: f64
  sc_ultra_rare :: f64

record species_counts =
  sp_all :: int
  sp_iv :: int
  sp_shiny :: int

record stats_bucket =
  sb_minute :: int
  sb_total :: int
  sb_species :: "(int, species_counts) gomap"

record shiny_stats =
  ss_total :: int
  ss_seen :: int
  ss_ratio :: f64

record stats_tracker =
  st_cfg :: stats_config
  st_buckets :: "stats_bucket list"
  st_groups :: "(int, int) gomap"
  st_shiny :: "(int, shiny_stats) gomap"

definition window_minutes :: "int \<Rightarrow> int" where
  "window_minutes hours = (if hours < 1 then 1 else hours * 60)"

definition new_bucket_ring :: "int \<Rightarrow> stats_bucket list" where
  "new_bucket_ring hours =
     replicate (nat (window_minutes hours + 1)) \<lparr>sb_minute = -1, sb_total = 0, sb_species = []\<rparr>"

definition new_stats_tracker :: "stats_config \<Rightarrow> stats_tracker" where
  "new_stats_tracker cfg =
     \<lparr>st_cfg = cfg, st_buckets = new_bucket_ring (sc_window_hours cfg), st_groups = [], st_shiny = []\<rparr>"

definition reset_stats :: "stats_tracker \<Rightarrow> stats_tracker" where
  "reset_stats st = st\<lparr>st_buckets := new_bucket_ring (sc_window_hours (st_cfg st)), st_groups := [], st_shiny := []\<rparr>"

definition reset_bucket :: "stats_bucket \<Rightarrow> int \<Rightarrow> stats_bucket" where
  "reset_bucket b minute = b\<lparr>sb_minute := minute, sb_total := 0, sb_species := []\<rparr>"

section \<open>Recording\<close>

definition no_sightings :: species_counts where
  "no_sightings = \<lparr>sp_all = 0, sp_iv = 0, sp_shiny = 0\<rparr>"

definition count_sighting :: "species_counts \<Rightarrow> bool \<Rightarrow> bool \<Rightarrow> species_counts" where
  "count_sighting c iv shiny =
     (let c1 = c\<lparr>sp_all := sp_all c + 1\<rparr>;
          c2 = (if iv then c1\<lparr>sp_iv := sp_iv c1 + 1\<rparr> else c1)
      in if iv \<and> shiny then c2\<lparr>sp_shiny := sp_shiny c2 + 1\<rparr> else c2)"

definition bucket_put :: "stats_bucket list \<Rightarrow> int \<Rightarrow> int \<times> bool \<times> bool \<Rightarrow> stats_bucket list" where
  "bucket_put bs minute s =
     (case s of (pid, iv, shiny) \<Rightarrow>
      let idx = nat (minute mod int (length bs));
          b = (if sb_minute (bs ! idx) \<noteq> minute then reset_bucket (bs ! idx) minute else bs ! idx);
          c = count_sighting (gget_or no_sightings (sb_species b) pid) iv shiny
      in bs[idx := b\<lparr>sb_species := gput pid c (sb_species b), sb_total := sb_total b + 1\<rparr>])"

definition in_int32 :: "int \<Rightarrow> bool" where
  "in_int32 pid \<longleftrightarrow> \<not> (pid \<le> 0 \<or> pid > 2147483647)"

definition record_sighting :: "stats_tracker \<Rightarrow> int \<Rightarrow> bool \<Rightarrow> bool \<Rightarrow> gotime \<Rightarrow> stats_tracker" where
  "record_sighting st pid iv shiny now =
     (if \<not> in_int32 pid then st
      else st\<lparr>st_buckets := bucket_put (st_buckets st) (minute_of now) (pid, iv, shiny)\<rparr>)"

section \<open>Aggregates and recalculation\<close>

record stats_counters =
  ct_all :: int
  ct_iv :: int
  ct_shiny :: int

definition zero_counters :: stats_counters where
  "zero_counters = \<lparr>ct_all = 0, ct_iv = 0, ct_shiny = 0\<rparr>"

definition add_counts :: "stats_counters \<Rightarrow> species_counts \<Rightarrow> stats_counters" where
  "add_counts c sc = c\<lparr>ct_all := ct_all c + sp_all sc, ct_iv := ct_iv c + sp_iv sc, ct_shiny := ct_shiny c + sp_shiny sc\<rparr>"

definition add_species :: "(int, stats_counters) gomap \<Rightarrow> (int, species_counts) gomap \<Rightarrow> (int, stats_counters) gomap" where
  "add_species counts sp =
     foldl (\<lambda>acc (pid, sc). gput pid (add_counts (gget_or zero_counters acc pid) sc) acc) counts sp"

definition oldest_minute :: "stats_tracker \<Rightarrow> gotime \<Rightarrow> int" where
  "oldest_minute st now = minute_of now - window_minutes (sc_window_hours (st_cfg st))"

definition aggregate_bucket :: "int \<Rightarrow> (int, stats_counters) gomap \<times> int \<Rightarrow> stats_bucket \<Rightarrow> (int, stats_counters) gomap \<times> int" where
  "aggregate_bucket oldest acc b =
     (if sb_minute b < oldest then acc
      else (add_species (fst acc) (sb_species b), snd acc + sb_total b))"

definition aggregate :: "stats_tracker \<Rightarrow> gotime \<Rightarrow> (int, stats_counters) gomap \<times> int" where
  "aggregate st now = foldl (aggregate_bucket (oldest_minute st now)) ([], 0) (st_buckets st)"

definition total_in_window :: "stats_tracker \<Rightarrow> gotime \<Rightarrow> int" where
  "total_in_window st now =
     foldl (\<lambda>tot b. if sb_minute b \<ge> oldest_minute st now then tot + sb_total b else tot) 0 (st_buckets st)"

definition share_of :: "int \<Rightarrow> int \<Rightarrow> f64" where
  "share_of n tot = fmul (fdiv (f64_of_int n) (f64_of_int tot)) 100"

definition group_of_share :: "stats_config \<Rightarrow> f64 \<Rightarrow> int" where
  "group_of_share cfg pct =
     (if pct \<ge> sc_uncommon cfg then 1
      else if pct \<ge> sc_rare cfg then 2
      else if pct \<ge> sc_very_rare cfg then 3
      else if pct \<ge> sc_ultra_rare cfg then 4
      else 5)"

definition shiny_of :: "stats_counters \<Rightarrow> shiny_stats" where
  "shiny_of c = \<lparr>ss_total = ct_iv c, ss_seen = ct_shiny c, ss_ratio = fdiv (f64_of_int (ct_iv c)) (f64_of_int (ct_shiny c))\<rparr>"

definition recalculate :: "stats_tracker \<Rightarrow> gotime \<Rightarrow> stats_tracker" where
  "recalculate st now =
     (let (counts, tot) = aggregate st now;
          st1 = (if tot \<ge> sc_min_sample_size (st_cfg st)
                 then st\<lparr>st_groups := gmapv (\<lambda>c. group_of_share (st_cfg st) (share_of (ct_all c) tot)) counts\<rparr>
                 else st)
      in st1\<lparr>st_shiny := gmapv shiny_of (gkeep (\<lambda>pid c. ct_iv c \<ge> 100 \<and> ct_shiny c > 0) counts)\<rparr>)"

definition recalc_interval :: "int \<Rightarrow> duration" where
  "recalc_interval mins = (if mins < 1 then 5 else mins) * ns_minute"

section \<open>Reads\<close>

definition get_rarity_group :: "stats_tracker \<Rightarrow> int \<Rightarrow> int" where
  "get_rarity_group st pid = gget_or (-1) (st_groups st) pid"

definition get_shiny_rate :: "stats_tracker \<Rightarrow> int \<Rightarrow> f64" where
  "get_shiny_rate st pid = (case gget (st_shiny st) pid of Some s \<Rightarrow> ss_ratio s | None \<Rightarrow> 0)"

definition export_groups :: "stats_tracker \<Rightarrow> gotime \<Rightarrow> stats_tracker \<times> (int, int list) gomap" where
  "export_groups st now =
     (let needs_calc = st_groups st = [] \<and> total_in_window st now \<ge> sc_min_sample_size (st_cfg st);
          st1 = (if needs_calc then recalculate st now else st)
      in (st1, gmapv sort (foldl (\<lambda>result (pid, group). gappend group [pid] result) [] (st_groups st1))))"

definition export_shiny_stats :: "stats_tracker \<Rightarrow> (int, shiny_stats) gomap" where
  "export_shiny_stats st = st_shiny st"

definition export_shiny_possible :: "stats_tracker \<Rightarrow> (int, bool) gomap" where
  "export_shiny_possible st = gmapv (\<lambda>_. True) (st_shiny st)"

section \<open>The ring\<close>

datatype sight_query = AnySpecies | OfSpecies int | IvOf int | ShinyOf int

definition sight_weight :: "sight_query \<Rightarrow> int \<times> bool \<times> bool \<Rightarrow> int" where
  "sight_weight q s = (case s of (pid, iv, shiny) \<Rightarrow> (case q of
       AnySpecies \<Rightarrow> 1
     | OfSpecies k \<Rightarrow> of_bool (pid = k)
     | IvOf k \<Rightarrow> of_bool (pid = k \<and> iv)
     | ShinyOf k \<Rightarrow> of_bool (pid = k \<and> iv \<and> shiny)))"

definition bucket_value :: "stats_bucket \<Rightarrow> sight_query \<Rightarrow> int" where
  "bucket_value b q = (case q of
       AnySpecies \<Rightarrow> sb_total b
     | OfSpecies k \<Rightarrow> sp_all (gget_or no_sightings (sb_species b) k)
     | IvOf k \<Rightarrow> sp_iv (gget_or no_sightings (sb_species b) k)
     | ShinyOf k \<Rightarrow> sp_shiny (gget_or no_sightings (sb_species b) k))"

definition bucket_ok :: "stats_bucket \<Rightarrow> bool" where
  "bucket_ok b \<longleftrightarrow> gok (sb_species b) \<and>
     (\<forall>k c. gget (sb_species b) k = Some c \<longrightarrow> 1 \<le> sp_all c \<and> 0 \<le> sp_iv c \<and> 0 \<le> sp_shiny c)"

definition ring_ok :: "int \<Rightarrow> stats_bucket list \<Rightarrow> bool" where
  "ring_ok hours bs \<longleftrightarrow> length bs = nat (window_minutes hours + 1) \<and> (\<forall>b \<in> set bs. bucket_ok b)"

lemma window_minutes_pos: "0 < window_minutes hours"
  by (simp add: window_minutes_def)

definition bump_bucket :: "stats_bucket \<Rightarrow> int \<Rightarrow> int \<times> bool \<times> bool \<Rightarrow> stats_bucket" where
  "bump_bucket b0 minute s = (case s of (pid, iv, shiny) \<Rightarrow>
     let b = (if sb_minute b0 \<noteq> minute then reset_bucket b0 minute else b0)
     in b\<lparr>sb_species := gput pid (count_sighting (gget_or no_sightings (sb_species b) pid) iv shiny) (sb_species b),
          sb_total := sb_total b + 1\<rparr>)"

lemma bucket_put_bump:
  "bucket_put bs minute s =
     (let idx = nat (minute mod int (length bs)) in bs[idx := bump_bucket (bs ! idx) minute s])"
  by (simp add: bucket_put_def bump_bucket_def Let_def split: prod.split)

lemma bump_bucket_minute: "sb_minute (bump_bucket b m s) = m"
  by (simp add: bump_bucket_def reset_bucket_def Let_def split: prod.split)

lemma bump_bucket_value:
  "bucket_value (bump_bucket b m s) q = (if sb_minute b = m then bucket_value b q else 0) + sight_weight q s"
  by (cases s; cases q)
    (auto simp: bump_bucket_def bucket_value_def sight_weight_def reset_bucket_def count_sighting_def
      no_sightings_def Let_def gget_or_put)

lemma gget_or_Some: "gget_or d m k = (case gget m k of Some v \<Rightarrow> v | None \<Rightarrow> d)"
  by (simp add: gget_or_def split: option.split)

lemma bump_bucket_ok:
  assumes "bucket_ok b" shows "bucket_ok (bump_bucket b m s)"
proof -
  define b1 where "b1 = (if sb_minute b \<noteq> m then reset_bucket b m else b)"
  obtain pid iv shiny where s: "s = (pid, iv, shiny)" by (cases s)
  have ok: "bucket_ok b1" using assms by (auto simp: b1_def reset_bucket_def bucket_ok_def)
  have pos: "0 \<le> sp_all (gget_or no_sightings (sb_species b1) pid)"
      "0 \<le> sp_iv (gget_or no_sightings (sb_species b1) pid)"
      "0 \<le> sp_shiny (gget_or no_sightings (sb_species b1) pid)"
    using ok by (auto simp: bucket_ok_def gget_or_Some no_sightings_def split: option.split)
      (metis zero_le_one order_trans)
  have "bump_bucket b m s = b1\<lparr>sb_species := gput pid (count_sighting (gget_or no_sightings (sb_species b1) pid) iv shiny)
      (sb_species b1), sb_total := sb_total b1 + 1\<rparr>"
    by (simp add: bump_bucket_def s b1_def Let_def)
  with ok pos show ?thesis
    by (auto simp: bucket_ok_def gget_put count_sighting_def Let_def intro: gok_put)
qed

lemma all_set_update:
  assumes "\<forall>b \<in> set bs. P b" and "P x" shows "\<forall>b \<in> set (bs[i := x]). P b"
  using assms set_update_subset_insert [of bs i x] by auto

interpretation sightings: minute_ring "nat (window_minutes hours + 1)" "ring_ok hours"
  "\<lambda>bs i. sb_minute (bs ! i)" "\<lambda>bs i. bucket_value (bs ! i)" bucket_put sight_weight for hours
proof unfold_locales
  show "0 < nat (window_minutes hours + 1)" using window_minutes_pos [of hours] by simp
next
  fix bs s and m :: int assume "0 \<le> m" and r: "ring_ok hours bs"
  let ?idx = "nat (m mod int (length bs))"
  have "0 < int (length bs)" using r window_minutes_pos [of hours] by (simp add: ring_ok_def)
  then have "?idx < length bs" using nat_less_iff by fastforce
  then have "bucket_ok (bs ! ?idx)" using r nth_mem unfolding ring_ok_def by blast
  then have "\<forall>b \<in> set (bs[?idx := bump_bucket (bs ! ?idx) m s]). bucket_ok b"
    using r by (intro all_set_update bump_bucket_ok) (simp_all add: ring_ok_def)
  then show "ring_ok hours (bucket_put bs m s)"
    using r by (simp add: ring_ok_def bucket_put_bump Let_def)
next
  fix bs m i and s assume r: "ring_ok hours bs" and i: "i < nat (window_minutes hours + 1)"
  have len: "length bs = nat (window_minutes hours + 1)" "int (length bs) = window_minutes hours + 1"
    using r window_minutes_pos [of hours] by (simp_all add: ring_ok_def)
  show "sb_minute (bucket_put bs m s ! i) =
      (if i = nat (m mod int (nat (window_minutes hours + 1))) then m else sb_minute (bs ! i))"
    using i len by (auto simp: bucket_put_bump Let_def nth_list_update bump_bucket_minute)
  show "bucket_value (bucket_put bs m s ! i) q =
      (if i = nat (m mod int (nat (window_minutes hours + 1)))
       then (if sb_minute (bs ! i) = m then bucket_value (bs ! i) q else 0) + sight_weight q s
       else bucket_value (bs ! i) q)" for q
    using i len by (auto simp: bucket_put_bump Let_def nth_list_update bump_bucket_value)
qed

section \<open>The aggregate\<close>

definition ct_value :: "(int, stats_counters) gomap \<times> int \<Rightarrow> sight_query \<Rightarrow> int" where
  "ct_value acc q = (case q of
       AnySpecies \<Rightarrow> snd acc
     | OfSpecies k \<Rightarrow> ct_all (gget_or zero_counters (fst acc) k)
     | IvOf k \<Rightarrow> ct_iv (gget_or zero_counters (fst acc) k)
     | ShinyOf k \<Rightarrow> ct_shiny (gget_or zero_counters (fst acc) k))"

text \<open>A species is a key of the aggregate exactly when it was counted.\<close>

definition counted :: "(int, stats_counters) gomap \<Rightarrow> bool" where
  "counted counts \<longleftrightarrow> gok counts \<and> (\<forall>k. gget counts k = None \<or> 1 \<le> ct_all (gget_or zero_counters counts k))"

lemma add_counts_values [simp]:
  "ct_all (add_counts c sc) = ct_all c + sp_all sc" "ct_iv (add_counts c sc) = ct_iv c + sp_iv sc"
  "ct_shiny (add_counts c sc) = ct_shiny c + sp_shiny sc"
  by (simp_all add: add_counts_def)

lemma zero_counters_values [simp]: "ct_all zero_counters = 0" "ct_iv zero_counters = 0" "ct_shiny zero_counters = 0"
  by (simp_all add: zero_counters_def)

lemma no_sightings_values [simp]: "sp_all no_sightings = 0" "sp_iv no_sightings = 0" "sp_shiny no_sightings = 0"
  by (simp_all add: no_sightings_def)

lemma add_species_get:
  "gok sp \<Longrightarrow> gget_or zero_counters (add_species counts sp) k =
     (case gget sp k of None \<Rightarrow> gget_or zero_counters counts k
      | Some sc \<Rightarrow> add_counts (gget_or zero_counters counts k) sc)"
  unfolding add_species_def
proof (induction sp arbitrary: counts)
  case (Cons x sp)
  obtain a sc where x: "x = (a, sc)" by (cases x)
  with Cons.prems have "gget sp a = None" "gok sp" by (simp_all add: gok_Cons)
  with Cons.IH [OF this(2)] show ?case by (auto simp: x gget_or_put gget_Cons split: option.split)
qed simp

lemma counted_add_species:
  "gok sp \<Longrightarrow> \<forall>k c. gget sp k = Some c \<longrightarrow> 1 \<le> sp_all c \<Longrightarrow> counted counts \<Longrightarrow> counted (add_species counts sp)"
  unfolding add_species_def
proof (induction sp arbitrary: counts)
  case (Cons x sp)
  obtain a sc where x: "x = (a, sc)" by (cases x)
  have ok: "gok sp" "gget sp a = None" using Cons.prems x by (simp_all add: gok_Cons)
  have one: "1 \<le> sp_all sc" using Cons.prems(2) [rule_format, of a sc] x by (simp add: gget_Cons)
  have rest: "\<forall>k c. gget sp k = Some c \<longrightarrow> 1 \<le> sp_all c"
    using Cons.prems(2) ok(2) x by (metis gget_Cons option.distinct(1))
  have old: "0 \<le> ct_all (gget_or zero_counters counts a)"
    using Cons.prems(3) by (cases "gget counts a") (auto simp: counted_def gget_or_Some split: option.splits dest: spec [of _ a])
  have "counted (gput a (add_counts (gget_or zero_counters counts a) sc) counts)"
    using Cons.prems(3) one old by (auto simp: counted_def gget_put gget_or_put intro: gok_put)
  from Cons.IH [OF ok(1) rest this] show ?case by (simp add: x)
qed simp

lemma aggregate_bucket_value:
  assumes "bucket_ok b"
  shows "ct_value (aggregate_bucket oldest acc b) q =
    ct_value acc q + (if oldest \<le> sb_minute b then bucket_value b q else 0)"
proof -
  have ok: "gok (sb_species b)" using assms by (simp add: bucket_ok_def)
  have sp: "gget_or no_sightings (sb_species b) k =
      (case gget (sb_species b) k of None \<Rightarrow> no_sightings | Some sc \<Rightarrow> sc)" for k
    by (rule gget_or_Some [of no_sightings, THEN trans]) (simp split: option.split)
  show ?thesis
    by (cases q)
      (auto simp: aggregate_bucket_def ct_value_def bucket_value_def add_species_get [OF ok] sp split: option.split)
qed

lemma aggregate_fold:
  assumes "\<forall>b \<in> set bs. bucket_ok b" and "counted (fst acc)"
  shows "ct_value (foldl (aggregate_bucket oldest) acc bs) q =
      ct_value acc q + sum_list (map (\<lambda>b. if oldest \<le> sb_minute b then bucket_value b q else 0) bs) \<and>
    counted (fst (foldl (aggregate_bucket oldest) acc bs))"
  using assms
proof (induction bs arbitrary: acc)
  case (Cons b bs)
  have "counted (fst (aggregate_bucket oldest acc b))"
    using Cons.prems by (simp add: aggregate_bucket_def bucket_ok_def counted_add_species)
  with Cons.IH [of "aggregate_bucket oldest acc b"] Cons.prems show ?case
    by (simp add: aggregate_bucket_value)
qed simp

section \<open>Runs\<close>

datatype stats_op =
    Sighting gotime int bool bool
  | Recalculation gotime
  | Export gotime
  | Clearing

fun stats_step :: "stats_tracker \<Rightarrow> stats_op \<Rightarrow> stats_tracker" where
  "stats_step st (Sighting t pid iv shiny) = record_sighting st pid iv shiny t"
| "stats_step st (Recalculation t) = recalculate st t"
| "stats_step st (Export t) = fst (export_groups st t)"
| "stats_step st Clearing = reset_stats st"

definition stats_run :: "stats_config \<Rightarrow> stats_op list \<Rightarrow> stats_tracker" where
  "stats_run cfg ops = foldl stats_step (new_stats_tracker cfg) ops"

text \<open>The sightings that count: since the last reset, of a species in range.\<close>

fun ring_history :: "(int \<times> int \<times> bool \<times> bool) list \<Rightarrow> stats_op list \<Rightarrow> (int \<times> int \<times> bool \<times> bool) list" where
  "ring_history K [] = K"
| "ring_history K (Sighting t pid iv shiny # ops) =
     ring_history (if in_int32 pid then K @ [(minute_of t, pid, iv, shiny)] else K) ops"
| "ring_history K (Clearing # ops) = ring_history [] ops"
| "ring_history K (Recalculation t # ops) = ring_history K ops"
| "ring_history K (Export t # ops) = ring_history K ops"

fun op_time :: "stats_op \<Rightarrow> gotime option" where
  "op_time (Sighting t pid iv shiny) = Some t"
| "op_time (Recalculation t) = Some t"
| "op_time (Export t) = Some t"
| "op_time Clearing = None"

definition sighted :: "stats_config \<Rightarrow> stats_op list \<Rightarrow> gotime \<Rightarrow> sight_query \<Rightarrow> int" where
  "sighted cfg ops now q =
     sum_list (map (\<lambda>(m, s). if minute_of now - window_minutes (sc_window_hours cfg) \<le> m then sight_weight q s else 0)
       (ring_history [] ops))"

lemma recalculate_frame [simp]:
  "st_cfg (recalculate st now) = st_cfg st" "st_buckets (recalculate st now) = st_buckets st"
  by (simp_all add: recalculate_def Let_def split: prod.split)

lemma stats_step_cfg: "st_cfg (stats_step st p) = st_cfg st"
  by (cases p) (simp_all add: record_sighting_def reset_stats_def export_groups_def Let_def)

lemma stats_fold_cfg: "st_cfg (foldl stats_step st ops) = st_cfg st"
  by (induction ops arbitrary: st) (simp_all add: stats_step_cfg)

lemma ring_fresh: "0 \<le> now \<Longrightarrow> sightings.holds hours (new_bucket_ring hours) [] now"
  by (auto simp: sightings.holds_def sightings.tally_Nil new_bucket_ring_def ring_ok_def bucket_ok_def
      bucket_value_def no_sightings_def split: sight_query.split)

lemma ring_holds_run:
  assumes "sorted (now # List.map_filter op_time ops)" and "0 \<le> unix now"
    and "sightings.holds (sc_window_hours (st_cfg st)) (st_buckets st) K (minute_of now)"
  shows "sightings.holds (sc_window_hours (st_cfg st)) (st_buckets (foldl stats_step st ops)) (ring_history K ops)
    (minute_of (last (now # List.map_filter op_time ops)))"
  using assms
proof (induction ops arbitrary: st K now)
  case (Cons p ops)
  let ?h = "sc_window_hours (st_cfg st)"
  have pos: "0 \<le> minute_of t" if "now \<le> t" for t
    using Cons.prems(2) unix_mono [OF that] by (simp add: minute_of_def)
  show ?case
  proof (cases p)
    case (Sighting t pid iv shiny)
    have le: "now \<le> t" using Cons.prems(1) Sighting by (simp add: map_filter_simps)
    have "sightings.holds ?h (st_buckets (record_sighting st pid iv shiny t))
        (if in_int32 pid then K @ [(minute_of t, pid, iv, shiny)] else K) (minute_of t)"
      using sightings.holds_put [OF Cons.prems(3) minute_mono [OF le]]
        sightings.holds_later [OF Cons.prems(3) minute_mono [OF le]]
      by (simp add: record_sighting_def)
    with Cons.IH [of t "record_sighting st pid iv shiny t"] Cons.prems(1,2) le unix_mono [OF le]
      stats_step_cfg [of st p]
    show ?thesis by (simp add: Sighting map_filter_simps)
  next
    case (Recalculation t)
    have le: "now \<le> t" using Cons.prems(1) Recalculation by (simp add: map_filter_simps)
    with Cons.IH [of t "recalculate st t"] Cons.prems(1,2) unix_mono [OF le]
      sightings.holds_later [OF Cons.prems(3) minute_mono [OF le]]
    show ?thesis by (simp add: Recalculation map_filter_simps)
  next
    case (Export t)
    have le: "now \<le> t" using Cons.prems(1) Export by (simp add: map_filter_simps)
    have "st_buckets (stats_step st p) = st_buckets st" by (simp add: Export export_groups_def Let_def)
    with Cons.IH [of t "stats_step st p"] Cons.prems(1,2) unix_mono [OF le] stats_step_cfg [of st p]
      sightings.holds_later [OF Cons.prems(3) minute_mono [OF le]]
    show ?thesis by (simp add: Export map_filter_simps)
  next
    case Clearing
    have "sightings.holds ?h (new_bucket_ring ?h) [] (minute_of now)" using pos by (intro ring_fresh) simp
    with Cons.IH [of now "reset_stats st" "[]"] Cons.prems(1,2)
    show ?thesis by (simp add: Clearing map_filter_simps reset_stats_def)
  qed
qed (simp add: map_filter_simps)

text \<open>Every clock reading of the run, and of the read after it, is in order.\<close>

definition clock_ok :: "stats_op list \<Rightarrow> gotime \<Rightarrow> bool" where
  "clock_ok ops now \<longleftrightarrow> sorted (0 # List.map_filter op_time ops @ [now])"

lemma aggregate_run:
  assumes "clock_ok ops now"
  shows "ct_value (aggregate (stats_run cfg ops) now) q = sighted cfg ops now q"
    and "counted (fst (aggregate (stats_run cfg ops) now))"
proof -
  let ?st = "stats_run cfg ops" and ?h = "sc_window_hours cfg"
  let ?old = "minute_of now - window_minutes ?h"
  have cfg: "st_cfg ?st = cfg" by (simp add: stats_run_def stats_fold_cfg new_stats_tracker_def)
  have srt: "sorted (0 # List.map_filter op_time ops)" "last (0 # List.map_filter op_time ops) \<le> now"
    using assms by (auto simp: clock_ok_def sorted_append)
  have "sightings.holds ?h (st_buckets ?st) (ring_history [] ops) (minute_of (last (0 # List.map_filter op_time ops)))"
    using ring_holds_run [of 0 ops "new_stats_tracker cfg" "[]"] srt(1) ring_fresh [of 0 ?h]
    by (simp add: stats_run_def new_stats_tracker_def unix_def minute_of_def)
  then have holds: "sightings.holds ?h (st_buckets ?st) (ring_history [] ops) (minute_of now)"
    by (rule sightings.holds_later) (rule minute_mono [OF srt(2)])
  have ok: "ring_ok ?h (st_buckets ?st)" using holds by (rule sightings.holds_valid)
  have len: "length (st_buckets ?st) = nat (window_minutes ?h + 1)" using ok by (simp add: ring_ok_def)
  have old: "?old \<le> m \<longleftrightarrow> minute_of now - (window_minutes ?h + 1) < m" for m by auto
  have fold: "ct_value (aggregate ?st now) q =
      ct_value ([], 0) q + sum_list (map (\<lambda>b. if ?old \<le> sb_minute b then bucket_value b q else 0) (st_buckets ?st))"
    "counted (fst (aggregate ?st now))"
    using aggregate_fold [of "st_buckets ?st" "([], 0)" ?old q] ok
    by (simp_all add: aggregate_def oldest_minute_def cfg ring_ok_def counted_def)
  show "counted (fst (aggregate ?st now))" by (rule fold(2))
  have zero: "ct_value ([], 0) q = 0" by (simp add: ct_value_def split: sight_query.split)
  have "sum_list (map (\<lambda>b. if ?old \<le> sb_minute b then bucket_value b q else 0) (st_buckets ?st)) =
      (\<Sum>i < nat (window_minutes ?h + 1). if ?old \<le> sb_minute (st_buckets ?st ! i) then bucket_value (st_buckets ?st ! i) q else 0)"
    by (simp add: sum_list_sum_nth len atLeast0LessThan)
  also have "\<dots> = sightings.tally (ring_history [] ops) (\<lambda>m. minute_of now - (window_minutes ?h + 1) < m) q"
    unfolding old using window_minutes_pos [of ?h] by (intro sightings.window_count [OF holds]) simp
  also have "\<dots> = sighted cfg ops now q"
    by (simp add: sightings.tally_def sighted_def old)
  finally show "ct_value (aggregate ?st now) q = sighted cfg ops now q" using fold(1) zero by simp
qed

lemma counted_key: "counted counts \<Longrightarrow> (gget counts k = None) = (ct_all (gget_or zero_counters counts k) \<le> 0)"
  by (cases "gget counts k") (auto simp: counted_def gget_or_Some split: option.splits dest: spec [of _ k])

lemma recalculate_parts:
  assumes "clock_ok ops now"
  obtains counts where "aggregate (stats_run cfg ops) now = (counts, sighted cfg ops now AnySpecies)"
    and "gok counts"
    and "\<And>k. gget counts k = None \<Longrightarrow> sighted cfg ops now (OfSpecies k) = 0 \<and> sighted cfg ops now (IvOf k) = 0"
    and "\<And>k c. gget counts k = Some c \<Longrightarrow> 0 < sighted cfg ops now (OfSpecies k) \<and>
      c = \<lparr>ct_all = sighted cfg ops now (OfSpecies k), ct_iv = sighted cfg ops now (IvOf k),
           ct_shiny = sighted cfg ops now (ShinyOf k)\<rparr>"
proof -
  obtain counts tot where agg: "aggregate (stats_run cfg ops) now = (counts, tot)"
    by (cases "aggregate (stats_run cfg ops) now")
  have val: "ct_value (counts, tot) q = sighted cfg ops now q" for q using aggregate_run(1) [OF assms, of cfg q] agg by simp
  have tot: "tot = sighted cfg ops now AnySpecies" using val [of AnySpecies] by (simp add: ct_value_def)
  have vals: "ct_all (gget_or zero_counters counts k) = sighted cfg ops now (OfSpecies k)"
    "ct_iv (gget_or zero_counters counts k) = sighted cfg ops now (IvOf k)"
    "ct_shiny (gget_or zero_counters counts k) = sighted cfg ops now (ShinyOf k)" for k
    using val [of "OfSpecies k"] val [of "IvOf k"] val [of "ShinyOf k"] by (simp_all add: ct_value_def)
  have counted: "counted counts" using aggregate_run(2) [OF assms, of cfg] agg by simp
  show ?thesis
  proof (rule that [OF agg [unfolded tot]])
    show "gok counts" using counted by (simp add: counted_def)
    show "sighted cfg ops now (OfSpecies k) = 0 \<and> sighted cfg ops now (IvOf k) = 0" if "gget counts k = None" for k
      using vals(1,2) [of k] that by (simp add: gget_or_Some)
    show "0 < sighted cfg ops now (OfSpecies k) \<and>
      c = \<lparr>ct_all = sighted cfg ops now (OfSpecies k), ct_iv = sighted cfg ops now (IvOf k),
           ct_shiny = sighted cfg ops now (ShinyOf k)\<rparr>" if k: "gget counts k = Some c" for k c
    proof -
      have "ct_all c = sighted cfg ops now (OfSpecies k)" "ct_iv c = sighted cfg ops now (IvOf k)"
          "ct_shiny c = sighted cfg ops now (ShinyOf k)"
        using vals [of k] k by (simp_all add: gget_or_Some)
      moreover have "1 \<le> ct_all c" using counted k by (auto simp: counted_def gget_or_Some dest: spec [of _ k])
      ultimately show ?thesis by (cases c) simp
    qed
  qed
qed

lemma stats_run_cfg: "st_cfg (stats_run cfg ops) = cfg"
  by (simp add: stats_run_def stats_fold_cfg new_stats_tracker_def)

lemma recalculate_group:
  assumes "clock_ok ops now"
  shows "get_rarity_group (recalculate (stats_run cfg ops) now) k =
    (if sighted cfg ops now AnySpecies < sc_min_sample_size cfg then get_rarity_group (stats_run cfg ops) k
     else if 0 < sighted cfg ops now (OfSpecies k)
     then group_of_share cfg (share_of (sighted cfg ops now (OfSpecies k)) (sighted cfg ops now AnySpecies)) else -1)"
proof -
  obtain counts where c: "aggregate (stats_run cfg ops) now = (counts, sighted cfg ops now AnySpecies)" "gok counts"
    "\<And>k. gget counts k = None \<Longrightarrow> sighted cfg ops now (OfSpecies k) = 0 \<and> sighted cfg ops now (IvOf k) = 0"
    "\<And>k c. gget counts k = Some c \<Longrightarrow> 0 < sighted cfg ops now (OfSpecies k) \<and>
      c = \<lparr>ct_all = sighted cfg ops now (OfSpecies k), ct_iv = sighted cfg ops now (IvOf k),
           ct_shiny = sighted cfg ops now (ShinyOf k)\<rparr>"
    by (rule recalculate_parts [OF assms, where cfg = cfg]) (rule that, assumption, assumption, blast+)
  show ?thesis
    using c(3) [of k] c(4) [of k]
    by (cases "gget counts k")
      (simp_all add: recalculate_def c(1) stats_run_cfg get_rarity_group_def gget_or_def gget_mapv)
qed

lemma recalculate_shiny:
  assumes "clock_ok ops now"
  shows "gget (st_shiny (recalculate (stats_run cfg ops) now)) k =
    (if 100 \<le> sighted cfg ops now (IvOf k) \<and> 0 < sighted cfg ops now (ShinyOf k)
     then Some \<lparr>ss_total = sighted cfg ops now (IvOf k), ss_seen = sighted cfg ops now (ShinyOf k),
                ss_ratio = fdiv (f64_of_int (sighted cfg ops now (IvOf k))) (f64_of_int (sighted cfg ops now (ShinyOf k)))\<rparr>
     else None)"
proof -
  obtain counts where c: "aggregate (stats_run cfg ops) now = (counts, sighted cfg ops now AnySpecies)" "gok counts"
    "\<And>k. gget counts k = None \<Longrightarrow> sighted cfg ops now (OfSpecies k) = 0 \<and> sighted cfg ops now (IvOf k) = 0"
    "\<And>k c. gget counts k = Some c \<Longrightarrow> 0 < sighted cfg ops now (OfSpecies k) \<and>
      c = \<lparr>ct_all = sighted cfg ops now (OfSpecies k), ct_iv = sighted cfg ops now (IvOf k),
           ct_shiny = sighted cfg ops now (ShinyOf k)\<rparr>"
    by (rule recalculate_parts [OF assms, where cfg = cfg]) (rule that, assumption, assumption, blast+)
  show ?thesis
    using c(3) [of k] c(4) [of k]
    by (cases "gget counts k")
      (simp_all add: recalculate_def c(1) gget_mapv gget_keep c(2) shiny_of_def)
qed

text \<open>C39: A recalculation of the statistics, after any run of sightings, recalculations, exports and resets on a
  clock that does not go back: when the window holds the minimum sample, a species sighted in the window has the
  group of its share of the sightings and every other species is unknown, and below the minimum sample the groups
  stay as they were; the shiny rate is reported exactly for species with at least 100 encounters with IV and one
  shiny in the window. Sightings are counted in the window of the configured hours and the current minute, since
  the last reset, whatever ring slots were recycled.\<close>

theorem rarity_recalculation_exact:
  assumes "clock_ok ops now"
  shows "let st = stats_run cfg ops; st' = recalculate st now; n = (\<lambda>q. sighted cfg ops now q)
    in (\<forall>k. get_rarity_group st' k =
          (if n AnySpecies < sc_min_sample_size cfg then get_rarity_group st k
           else if 0 < n (OfSpecies k) then group_of_share cfg (share_of (n (OfSpecies k)) (n AnySpecies)) else -1)) \<and>
       (\<forall>k. gget (st_shiny st') k =
          (if 100 \<le> n (IvOf k) \<and> 0 < n (ShinyOf k)
           then Some \<lparr>ss_total = n (IvOf k), ss_seen = n (ShinyOf k),
                      ss_ratio = fdiv (f64_of_int (n (IvOf k))) (f64_of_int (n (ShinyOf k)))\<rparr> else None))"
  unfolding Let_def
  by (intro conjI allI recalculate_group [OF assms] recalculate_shiny [OF assms])

lemma rarity_recalculation_exact_witness:
  "get_rarity_group (recalculate (stats_run
     \<lparr>sc_min_sample_size = 2, sc_window_hours = 1, sc_refresh_interval_mins = 5, sc_uncommon = 50,
       sc_rare = 1, sc_very_rare = 1, sc_ultra_rare = 1\<rparr>
     [Sighting 60000000000 7 True False, Sighting 120000000000 16 False False, Sighting 130000000000 16 False False])
     3720000000000) 99 = -1"
  using rarity_recalculation_exact [of "[Sighting 60000000000 7 True False, Sighting 120000000000 16 False False,
      Sighting 130000000000 16 False False]" 3720000000000
    "\<lparr>sc_min_sample_size = 2, sc_window_hours = 1, sc_refresh_interval_mins = 5, sc_uncommon = 50,
       sc_rare = 1, sc_very_rare = 1, sc_ultra_rare = 1\<rparr>"]
  by (simp add: clock_ok_def map_filter_simps Let_def sighted_def in_int32_def sight_weight_def
      window_minutes_def minute_of_def unix_def)

lemma share_of_mono: "m \<le> n \<Longrightarrow> 0 < tot \<Longrightarrow> share_of m tot \<le> share_of n tot"
proof -
  assume le: "m \<le> n" and pos: "0 < tot"
  have "f64_of_int 1 \<le> f64_of_int tot" using pos by (intro f64_of_int_mono) simp
  then have t: "0 < f64_of_int tot" by simp
  have "f64_of_int m / f64_of_int tot \<le> f64_of_int n / f64_of_int tot"
    using f64_of_int_mono [OF le] t by (simp add: divide_right_mono)
  then have "fdiv (f64_of_int m) (f64_of_int tot) \<le> fdiv (f64_of_int n) (f64_of_int tot)"
    unfolding fdiv_def by (rule f64_round_mono)
  then show "share_of m tot \<le> share_of n tot"
    unfolding share_of_def fmul_def by (intro f64_round_mono) simp
qed

lemma group_of_share_antimono: "p \<le> q \<Longrightarrow> group_of_share cfg q \<le> group_of_share cfg p"
  by (auto simp: group_of_share_def)

text \<open>Rarity follows frequency: after a recalculation with at least the minimum sample, of two species sighted in
  the window the one sighted at least as often never has the rarer group, for any thresholds.\<close>

theorem commoner_never_rarer:
  assumes "clock_ok ops now" and "sc_min_sample_size cfg \<le> sighted cfg ops now AnySpecies"
    and "0 < sighted cfg ops now (OfSpecies a)" and "sighted cfg ops now (OfSpecies a) \<le> sighted cfg ops now (OfSpecies b)"
  shows "get_rarity_group (recalculate (stats_run cfg ops) now) b \<le> get_rarity_group (recalculate (stats_run cfg ops) now) a"
proof -
  have "sighted cfg ops now (OfSpecies a) \<le> sighted cfg ops now AnySpecies"
    unfolding sighted_def by (rule sum_list_mono) (auto simp: sight_weight_def split: prod.splits)
  then have pos: "0 < sighted cfg ops now AnySpecies" using assms(3) by simp
  show ?thesis
    using assms(2-4) group_of_share_antimono [OF share_of_mono [OF assms(4) pos], of cfg]
    by (simp add: recalculate_group [OF assms(1)])
qed

lemma commoner_never_rarer_witness:
  "let cfg = \<lparr>sc_min_sample_size = 2, sc_window_hours = 1, sc_refresh_interval_mins = 5, sc_uncommon = 50,
       sc_rare = 1, sc_very_rare = 1, sc_ultra_rare = 1\<rparr>;
     st = recalculate (stats_run cfg
     [Sighting 60000000000 7 True False, Sighting 120000000000 16 False False, Sighting 130000000000 16 False False])
     150000000000
   in get_rarity_group st 16 \<le> get_rarity_group st 7"
  unfolding Let_def
  by (rule commoner_never_rarer)
    (simp_all add: clock_ok_def map_filter_simps sighted_def in_int32_def sight_weight_def
      window_minutes_def minute_of_def unix_def)

end
