(* ===== verification/DeliveryTypes.thy ===== *)
theory DeliveryTypes
  imports Tracking
begin

text \<open>
  The data of \<open>internal/delivery\<close> (\<open>delivery.go\<close>): jobs, time-to-hide, tracked messages, and the pure
  functions on platform and message identifiers. Message bytes are opaque strings; of the attached
  snapshot only the fields the queue writes are kept.
\<close>

record tth =
  tth_days :: int
  tth_hours :: int
  tth_minutes :: int
  tth_seconds :: int

definition tth_duration :: "tth \<Rightarrow> duration" where
  "tth_duration t = tth_days t * 24 * ns_hour + tth_hours t * ns_hour + tth_minutes t * ns_minute + tth_seconds t * ns_second"

record snapshot =
  sn_message_id :: string
  sn_created_at :: int

record job =
  jb_target :: string
  jb_type :: string
  jb_message :: string
  jb_tth :: tth
  jb_clean :: int
  jb_edit_key :: string
  jb_reply_key :: string
  jb_msg_type :: string
  jb_name :: string
  jb_language :: string
  jb_template :: string
  jb_delete_sent_id :: string
  jb_reply_to_id :: string
  jb_bypass_rate_limit :: bool
  jb_snapshot :: "snapshot option"

record tracked_message =
  tm_sent_id :: string
  tm_target :: string
  tm_type :: string
  tm_msg_type :: string
  tm_clean :: int
  tm_reply_key :: string
  tm_template :: string

definition before_colon :: "string \<Rightarrow> string" where
  "before_colon s = takeWhile (\<lambda>c. c \<noteq> CHR '':'') s"

definition platform_from_type :: "string \<Rightarrow> string" where
  "platform_from_type ty = (if ty = ''webhook'' then ''discord'' else before_colon ty)"

text \<open>\<open>strings.LastIndex\<close> of a colon: what follows it, or nothing without one.\<close>

definition split_sent_id :: "string \<Rightarrow> string" where
  "split_sent_id s = (if CHR '':'' \<in> set s then rev (before_colon (rev s)) else [])"

definition extract_message_id :: "string \<Rightarrow> string" where
  "extract_message_id sent_id = (let i = split_sent_id sent_id in if i \<noteq> [] then i else sent_id)"

lemma split_composite: "CHR '':'' \<notin> set i \<Longrightarrow> split_sent_id (c @ CHR '':'' # i) = i"
  unfolding split_sent_id_def before_colon_def
  by (simp, subst takeWhile_append2) auto

text \<open>Which platform bits a job's clean flag carries.\<close>

definition plain_job :: "string \<Rightarrow> string \<Rightarrow> job" where
  "plain_job ty target = \<lparr>jb_target = target, jb_type = ty, jb_message = ''{}'',
     jb_tth = \<lparr>tth_days = 0, tth_hours = 1, tth_minutes = 0, tth_seconds = 0\<rparr>, jb_clean = 0, jb_edit_key = [],
     jb_reply_key = [], jb_msg_type = ''raid'', jb_name = [], jb_language = ''en'', jb_template = [],
     jb_delete_sent_id = [], jb_reply_to_id = [], jb_bypass_rate_limit = False, jb_snapshot = None\<rparr>"

end
