(* ===== verification/Lanes.thy ===== *)
theory Lanes
  imports DeliveryTypes
begin

text \<open>
  \<open>FairQueue\<close> of \<open>delivery/queue.go\<close>: one bounded lane and one drainer goroutine per destination, spawned on
  the first job and reaped when idle. The goroutines interleave, so the queue is a step relation: every step
  is one critical section under \<open>lanesMu\<close>, one channel operation, or one processed job. A lane is an
  address into the heap of lanes, so an enqueuer may still hold a lane that the map has dropped. Each
  goroutine inside \<open>enqueue\<close> that has released the lock is an element of \<open>fq_enqs\<close>. What a job does when it is
  processed is the component of the sender; here a processed job is appended to a history.
\<close>

section \<open>State\<close>

text \<open>The drainer: waiting in \<open>select\<close>, inside \<open>processJob\<close>, before \<open>pending--\<close>, returned.\<close>

datatype drainer = Waiting | Working job | Finishing | Gone

record lane =
  ln_target :: string
  ln_chan :: "job list"
  ln_closed :: bool
  ln_pending :: int
  ln_drainer :: drainer

text \<open>An enqueuer: in the first \<open>select\<close>, blocked on a full lane, or about to give up (non-blocking).\<close>

datatype enq_phase = Selecting | Blocked | Dropping

record enqueuer =
  en_job :: job
  en_block :: bool
  en_lane :: nat
  en_phase :: enq_phase

record fair_queue =
  fq_lanes :: "(string, nat) gomap"
  fq_heap :: "lane list"
  fq_stopped :: bool
  fq_cap :: nat
  fq_enqs :: "enqueuer list"
  fq_backpressure :: nat
  fq_accepted :: "job list"
  fq_processed :: "job list"

definition new_fair_queue :: "int \<Rightarrow> fair_queue" where
  "new_fair_queue per_route_buffer =
     \<lparr>fq_lanes = [], fq_heap = [], fq_stopped = False,
      fq_cap = (if per_route_buffer \<le> 0 then 200 else nat per_route_buffer),
      fq_enqs = [], fq_backpressure = 0, fq_accepted = [], fq_processed = []\<rparr>"

definition at_lane :: "nat \<Rightarrow> (lane \<Rightarrow> lane) \<Rightarrow> fair_queue \<Rightarrow> fair_queue" where
  "at_lane i f q = q\<lparr>fq_heap := (fq_heap q)[i := f (fq_heap q ! i)]\<rparr>"

definition remove_nth :: "nat \<Rightarrow> 'a list \<Rightarrow> 'a list" where
  "remove_nth n xs = take n xs @ drop (Suc n) xs"

section \<open>\<open>enqueue\<close>\<close>

text \<open>The first critical section; \<open>None\<close> is the answer false of a stopped queue.\<close>

definition spawn_lane :: "string \<Rightarrow> fair_queue \<Rightarrow> fair_queue" where
  "spawn_lane target q =
     q\<lparr>fq_heap := fq_heap q @ [\<lparr>ln_target = target, ln_chan = [], ln_closed = False, ln_pending = 0,
                               ln_drainer = Waiting\<rparr>],
       fq_lanes := gput target (length (fq_heap q)) (fq_lanes q)\<rparr>"

definition reserve :: "job \<Rightarrow> bool \<Rightarrow> fair_queue \<Rightarrow> fair_queue option" where
  "reserve job block q =
     (if fq_stopped q then None
      else let (i, q1) = (case gget (fq_lanes q) (jb_target job) of
                 Some i \<Rightarrow> (i, q)
               | None \<Rightarrow> (length (fq_heap q), spawn_lane (jb_target job) q));
               q2 = at_lane i (\<lambda>l. l\<lparr>ln_pending := ln_pending l + 1\<rparr>) q1
           in Some (q2\<lparr>fq_enqs := fq_enqs q2 @ [\<lparr>en_job = job, en_block = block, en_lane = i, en_phase = Selecting\<rparr>]\<rparr>))"

text \<open>Sending on a closed channel panics; the deferred \<open>recover\<close> turns that into the answer false.\<close>

definition send_panics :: "nat \<Rightarrow> fair_queue \<Rightarrow> fair_queue" where
  "send_panics n q = q\<lparr>fq_enqs := remove_nth n (fq_enqs q)\<rparr>"

definition send_ok :: "nat \<Rightarrow> fair_queue \<Rightarrow> fair_queue" where
  "send_ok n q =
     (let e = fq_enqs q ! n
      in (at_lane (en_lane e) (\<lambda>l. l\<lparr>ln_chan := ln_chan l @ [en_job e]\<rparr>) q)
           \<lparr>fq_enqs := remove_nth n (fq_enqs q), fq_accepted := fq_accepted q @ [en_job e]\<rparr>)"

text \<open>The default branch on a full lane: a blocking send counts backpressure and waits, a clean-delete gives up.\<close>

definition send_full :: "nat \<Rightarrow> fair_queue \<Rightarrow> fair_queue" where
  "send_full n q =
     (let e = fq_enqs q ! n
      in if en_block e
         then q\<lparr>fq_enqs := (fq_enqs q)[n := e\<lparr>en_phase := Blocked\<rparr>], fq_backpressure := Suc (fq_backpressure q)\<rparr>
         else q\<lparr>fq_enqs := (fq_enqs q)[n := e\<lparr>en_phase := Dropping\<rparr>]\<rparr>)"

definition drop_job :: "nat \<Rightarrow> fair_queue \<Rightarrow> fair_queue" where
  "drop_job n q =
     (at_lane (en_lane (fq_enqs q ! n)) (\<lambda>l. l\<lparr>ln_pending := ln_pending l - 1\<rparr>) q)
       \<lparr>fq_enqs := remove_nth n (fq_enqs q)\<rparr>"

section \<open>\<open>runLane\<close> and \<open>Stop\<close>\<close>

definition receive :: "nat \<Rightarrow> fair_queue \<Rightarrow> fair_queue" where
  "receive i q = at_lane i (\<lambda>l. l\<lparr>ln_chan := tl (ln_chan l), ln_drainer := Working (hd (ln_chan l))\<rparr>) q"

definition process_done :: "nat \<Rightarrow> fair_queue \<Rightarrow> fair_queue" where
  "process_done i q =
     (case ln_drainer (fq_heap q ! i) of
        Working j \<Rightarrow> (at_lane i (\<lambda>l. l\<lparr>ln_drainer := Finishing\<rparr>) q)\<lparr>fq_processed := fq_processed q @ [j]\<rparr>
      | _ \<Rightarrow> q)"

definition release :: "nat \<Rightarrow> fair_queue \<Rightarrow> fair_queue" where
  "release i q = at_lane i (\<lambda>l. l\<lparr>ln_pending := ln_pending l - 1, ln_drainer := Waiting\<rparr>) q"

definition idle_fires :: "nat \<Rightarrow> fair_queue \<Rightarrow> fair_queue" where
  "idle_fires i q =
     (let l = fq_heap q ! i
      in if ln_pending l = 0
         then (at_lane i (\<lambda>l. l\<lparr>ln_drainer := Gone\<rparr>) q)\<lparr>fq_lanes := gdel (ln_target l) (fq_lanes q)\<rparr>
         else q)"

definition drainer_exits :: "nat \<Rightarrow> fair_queue \<Rightarrow> fair_queue" where
  "drainer_exits i q = at_lane i (\<lambda>l. l\<lparr>ln_drainer := Gone\<rparr>) q"

definition close_lanes :: "nat list \<Rightarrow> lane list \<Rightarrow> lane list" where
  "close_lanes is h = foldl (\<lambda>h i. h[i := (h ! i)\<lparr>ln_closed := True\<rparr>]) h is"

definition stop_queue :: "fair_queue \<Rightarrow> fair_queue" where
  "stop_queue q = q\<lparr>fq_stopped := True, fq_heap := close_lanes (map snd (fq_lanes q)) (fq_heap q)\<rparr>"

section \<open>Interleavings\<close>

inductive lane_step :: "fair_queue \<Rightarrow> fair_queue \<Rightarrow> bool" where
  reserve: "reserve job block q = Some q' \<Longrightarrow> lane_step q q'"
| send_panics: "n < length (fq_enqs q) \<Longrightarrow> en_phase (fq_enqs q ! n) \<noteq> Dropping \<Longrightarrow>
    ln_closed (fq_heap q ! en_lane (fq_enqs q ! n)) \<Longrightarrow> lane_step q (send_panics n q)"
| send_ok: "n < length (fq_enqs q) \<Longrightarrow> en_phase (fq_enqs q ! n) \<noteq> Dropping \<Longrightarrow>
    \<not> ln_closed (fq_heap q ! en_lane (fq_enqs q ! n)) \<Longrightarrow>
    length (ln_chan (fq_heap q ! en_lane (fq_enqs q ! n))) < fq_cap q \<Longrightarrow> lane_step q (send_ok n q)"
| send_full: "n < length (fq_enqs q) \<Longrightarrow> en_phase (fq_enqs q ! n) = Selecting \<Longrightarrow>
    \<not> ln_closed (fq_heap q ! en_lane (fq_enqs q ! n)) \<Longrightarrow>
    \<not> length (ln_chan (fq_heap q ! en_lane (fq_enqs q ! n))) < fq_cap q \<Longrightarrow> lane_step q (send_full n q)"
| drop_job: "n < length (fq_enqs q) \<Longrightarrow> en_phase (fq_enqs q ! n) = Dropping \<Longrightarrow> lane_step q (drop_job n q)"
| receive: "i < length (fq_heap q) \<Longrightarrow> ln_drainer (fq_heap q ! i) = Waiting \<Longrightarrow>
    ln_chan (fq_heap q ! i) \<noteq> [] \<Longrightarrow> lane_step q (receive i q)"
| process_done: "i < length (fq_heap q) \<Longrightarrow> ln_drainer (fq_heap q ! i) = Working j \<Longrightarrow> lane_step q (process_done i q)"
| release: "i < length (fq_heap q) \<Longrightarrow> ln_drainer (fq_heap q ! i) = Finishing \<Longrightarrow> lane_step q (release i q)"
| idle_fires: "i < length (fq_heap q) \<Longrightarrow> ln_drainer (fq_heap q ! i) = Waiting \<Longrightarrow> lane_step q (idle_fires i q)"
| drainer_exits: "i < length (fq_heap q) \<Longrightarrow> ln_drainer (fq_heap q ! i) = Waiting \<Longrightarrow>
    ln_closed (fq_heap q ! i) \<Longrightarrow> ln_chan (fq_heap q ! i) = [] \<Longrightarrow> lane_step q (drainer_exits i q)"
| stop_queue: "\<not> fq_stopped q \<Longrightarrow> lane_step q (stop_queue q)"

inductive lane_reachable :: "nat \<Rightarrow> fair_queue \<Rightarrow> bool" for cap where
  start: "lane_reachable cap (new_fair_queue (int cap))"
| step: "lane_reachable cap q \<Longrightarrow> lane_step q q' \<Longrightarrow> lane_reachable cap q'"

section \<open>The invariant\<close>

fun work :: "drainer \<Rightarrow> int" where
  "work (Working j) = 1"
| "work Finishing = 1"
| "work Waiting = 0"
| "work Gone = 0"

fun in_hand :: "drainer \<Rightarrow> job list" where
  "in_hand (Working j) = [j]"
| "in_hand Finishing = []"
| "in_hand Waiting = []"
| "in_hand Gone = []"

definition enqs_at :: "enqueuer list \<Rightarrow> nat \<Rightarrow> int" where
  "enqs_at es i = int (length (filter (\<lambda>e. en_lane e = i) es))"

text \<open>\<open>pending\<close> counts the queued, the in-flight and the about-to-be-queued jobs of an open lane, exactly.\<close>

definition lane_inv :: "fair_queue \<Rightarrow> nat \<Rightarrow> lane \<Rightarrow> bool" where
  "lane_inv q i l \<longleftrightarrow>
     int (length (ln_chan l)) + work (ln_drainer l) + enqs_at (fq_enqs q) i \<le> ln_pending l \<and>
     (\<not> ln_closed l \<longrightarrow> int (length (ln_chan l)) + work (ln_drainer l) + enqs_at (fq_enqs q) i = ln_pending l) \<and>
     (ln_closed l \<longrightarrow> fq_stopped q) \<and>
     (ln_drainer l = Gone \<longrightarrow> ln_chan l = []) \<and>
     (ln_drainer l = Gone \<longrightarrow> \<not> ln_closed l \<longrightarrow> ln_pending l = 0) \<and>
     (ln_drainer l \<noteq> Gone \<longrightarrow> gget (fq_lanes q) (ln_target l) = Some i) \<and>
     (fq_stopped q \<longrightarrow> ln_drainer l \<noteq> Gone \<longrightarrow> ln_closed l) \<and>
     length (ln_chan l) \<le> fq_cap q"

abbreviation lane_jobs :: "lane \<Rightarrow> job list" where
  "lane_jobs l \<equiv> in_hand (ln_drainer l) @ ln_chan l"

definition carried :: "(string, nat) gomap \<Rightarrow> lane list \<Rightarrow> string \<Rightarrow> job list" where
  "carried lanes h t = (case gget lanes t of None \<Rightarrow> [] | Some i \<Rightarrow> lane_jobs (h ! i))"

definition for_target :: "string \<Rightarrow> job list \<Rightarrow> job list" where
  "for_target t js = filter (\<lambda>j. jb_target j = t) js"

definition lanes_inv :: "fair_queue \<Rightarrow> bool" where
  "lanes_inv q \<longleftrightarrow> gok (fq_lanes q) \<and>
     (\<forall>i < length (fq_heap q). lane_inv q i (fq_heap q ! i)) \<and>
     (\<forall>t i. gget (fq_lanes q) t = Some i \<longrightarrow> i < length (fq_heap q) \<and> ln_target (fq_heap q ! i) = t \<and>
        (ln_closed (fq_heap q ! i) \<or> ln_drainer (fq_heap q ! i) \<noteq> Gone)) \<and>
     (\<forall>e \<in> set (fq_enqs q). en_lane e < length (fq_heap q) \<and> ln_target (fq_heap q ! en_lane e) = jb_target (en_job e)) \<and>
     (\<forall>i < length (fq_heap q). \<forall>j \<in> set (lane_jobs (fq_heap q ! i)). jb_target j = ln_target (fq_heap q ! i)) \<and>
     (\<forall>t. for_target t (fq_accepted q) = for_target t (fq_processed q) @ carried (fq_lanes q) (fq_heap q) t)"

lemma count_remove_nth:
  "n < length xs \<Longrightarrow> length (filter P xs) = length (filter P (remove_nth n xs)) + (if P (xs ! n) then 1 else 0)"
  by (subst id_take_nth_drop [of n xs], simp) (simp add: remove_nth_def)

lemma enqs_at_remove:
  "n < length es \<Longrightarrow> enqs_at (remove_nth n es) i = enqs_at es i - (if en_lane (es ! n) = i then 1 else 0)"
  using count_remove_nth [of n es "\<lambda>e. en_lane e = i"] by (simp add: enqs_at_def)

lemma enqs_at_snoc: "enqs_at (es @ [e]) i = enqs_at es i + (if en_lane e = i then 1 else 0)"
  by (simp add: enqs_at_def)

lemma enqs_at_update:
  "n < length es \<Longrightarrow> en_lane e = en_lane (es ! n) \<Longrightarrow> enqs_at (es[n := e]) i = enqs_at es i"
proof -
  assume n: "n < length es" and e: "en_lane e = en_lane (es ! n)"
  have "map en_lane (es[n := e]) = map en_lane es" using n e by (simp add: map_update) (metis list_update_id length_map nth_map)
  then have "filter (\<lambda>x. x = i) (map en_lane (es[n := e])) = filter (\<lambda>x. x = i) (map en_lane es)" by simp
  then show ?thesis by (simp add: enqs_at_def filter_map o_def) (metis length_map)
qed

lemma enqs_at_pos: "n < length es \<Longrightarrow> en_lane (es ! n) = i \<Longrightarrow> enqs_at es i \<ge> 1"
  using enqs_at_remove [of n es i] by (simp add: enqs_at_def)

lemma enqs_at_nonneg [simp]: "0 \<le> enqs_at es i" by (simp add: enqs_at_def)

lemma remove_nth_subset: "set (remove_nth n xs) \<subseteq> set xs"
  by (auto simp: remove_nth_def dest: in_set_takeD in_set_dropD)

lemma work_nonneg [simp]: "0 \<le> work d" by (cases d) simp_all

lemma work_le: "work d \<le> 1" by (cases d) simp_all

lemmas heap_simps = at_lane_def nth_list_update

text \<open>Most steps touch one lane and the enqueuers.\<close>

lemma inv_one_lane:
  assumes inv: "lanes_inv q" and i: "i < length (fq_heap q)"
    and l': "ln_target l' = ln_target (fq_heap q ! i)" "ln_closed l' = ln_closed (fq_heap q ! i)"
      "ln_drainer l' = Gone \<Longrightarrow> ln_closed l'" "\<forall>j \<in> set (lane_jobs l'). jb_target j = ln_target l'"
    and q': "fq_lanes q' = fq_lanes q" "fq_heap q' = (fq_heap q)[i := l']" "fq_stopped q' = fq_stopped q"
      "fq_cap q' = fq_cap q"
    and lane: "lane_inv q' i l'"
    and es: "\<And>k. k \<noteq> i \<Longrightarrow> enqs_at (fq_enqs q') k = enqs_at (fq_enqs q) k"
      "\<forall>e \<in> set (fq_enqs q'). en_lane e < length (fq_heap q) \<and> ln_target (fq_heap q ! en_lane e) = jb_target (en_job e)"
    and hist: "\<And>t. t \<noteq> ln_target l' \<Longrightarrow> for_target t (fq_accepted q') = for_target t (fq_accepted q) \<and>
        for_target t (fq_processed q') = for_target t (fq_processed q)"
      "gget (fq_lanes q) (ln_target l') = Some i \<Longrightarrow>
        for_target (ln_target l') (fq_accepted q') = for_target (ln_target l') (fq_processed q') @ lane_jobs l'"
      "gget (fq_lanes q) (ln_target l') \<noteq> Some i \<Longrightarrow> fq_accepted q' = fq_accepted q \<and> fq_processed q' = fq_processed q"
  shows "lanes_inv q'"
  unfolding lanes_inv_def
proof (intro conjI allI impI)
  show "gok (fq_lanes q')" using inv by (simp add: lanes_inv_def q')
  show "lane_inv q' k (fq_heap q' ! k)" if "k < length (fq_heap q')" for k
  proof (cases "k = i")
    case True
    with lane i show ?thesis by (simp add: q')
  next
    case False
    have "lane_inv q k (fq_heap q ! k)" using inv that by (simp add: lanes_inv_def q')
    with False es(1) [OF False] show ?thesis by (simp add: lane_inv_def q')
  qed
  fix t k assume reg: "gget (fq_lanes q') t = Some k"
  then have k: "k < length (fq_heap q)" "ln_target (fq_heap q ! k) = t"
      "ln_closed (fq_heap q ! k) \<or> ln_drainer (fq_heap q ! k) \<noteq> Gone"
    using inv by (auto simp: lanes_inv_def q')
  show "k < length (fq_heap q')" using k by (simp add: q')
  show "ln_target (fq_heap q' ! k) = t" using k i l' by (simp add: q' nth_list_update)
  show "ln_closed (fq_heap q' ! k) \<or> ln_drainer (fq_heap q' ! k) \<noteq> Gone"
    using k i l' by (auto simp: q' nth_list_update)
next
  show "\<forall>e \<in> set (fq_enqs q'). en_lane e < length (fq_heap q') \<and>
      ln_target (fq_heap q' ! en_lane e) = jb_target (en_job e)"
    using es(2) l'(1) i by (auto simp: q' nth_list_update)
next
  fix k assume k: "k < length (fq_heap q')"
  show "\<forall>j \<in> set (lane_jobs (fq_heap q' ! k)). jb_target j = ln_target (fq_heap q' ! k)"
  proof (cases "k = i")
    case True
    then show ?thesis using i l'(4) by (simp add: q')
  next
    case False
    have "\<forall>j \<in> set (lane_jobs (fq_heap q ! k)). jb_target j = ln_target (fq_heap q ! k)"
      using inv k unfolding lanes_inv_def q' by simp
    with False show ?thesis by (simp add: q')
  qed
next
  fix t
  have old: "for_target t (fq_accepted q) = for_target t (fq_processed q) @ carried (fq_lanes q) (fq_heap q) t"
    using inv by (simp add: lanes_inv_def)
  show "for_target t (fq_accepted q') = for_target t (fq_processed q') @ carried (fq_lanes q') (fq_heap q') t"
  proof (cases "gget (fq_lanes q) t = Some i")
    case True
    then have "t = ln_target l'" using inv l'(1) by (auto simp: lanes_inv_def)
    with True hist(2) i show ?thesis by (simp add: carried_def q')
  next
    case False
    then have same: "carried (fq_lanes q') (fq_heap q') t = carried (fq_lanes q) (fq_heap q) t"
      by (auto simp: carried_def q' split: option.split)
    show ?thesis
    proof (cases "t = ln_target l'")
      case True
      with False hist(3) old same show ?thesis by simp
    next
      case False
      with hist(1) old same show ?thesis by simp
    qed
  qed
qed

lemma inv_lane: "lanes_inv q \<Longrightarrow> i < length (fq_heap q) \<Longrightarrow> lane_inv q i (fq_heap q ! i)"
  by (simp add: lanes_inv_def)

lemma inv_enq:
  "lanes_inv q \<Longrightarrow> n < length (fq_enqs q) \<Longrightarrow> en_lane (fq_enqs q ! n) < length (fq_heap q) \<and>
     ln_target (fq_heap q ! en_lane (fq_enqs q ! n)) = jb_target (en_job (fq_enqs q ! n))"
  by (simp add: lanes_inv_def)

lemma inv_hist:
  "lanes_inv q \<Longrightarrow> for_target t (fq_accepted q) = for_target t (fq_processed q) @ carried (fq_lanes q) (fq_heap q) t"
  by (simp add: lanes_inv_def)

lemma inv_jobs:
  "lanes_inv q \<Longrightarrow> i < length (fq_heap q) \<Longrightarrow> \<forall>j \<in> set (lane_jobs (fq_heap q ! i)). jb_target j = ln_target (fq_heap q ! i)"
  unfolding lanes_inv_def by blast

lemma inv_registered:
  "lanes_inv q \<Longrightarrow> i < length (fq_heap q) \<Longrightarrow> ln_drainer (fq_heap q ! i) \<noteq> Gone \<Longrightarrow>
     gget (fq_lanes q) (ln_target (fq_heap q ! i)) = Some i"
  using inv_lane [of q i] by (simp add: lane_inv_def)

lemma inv_open_alive:
  assumes "lanes_inv q" "n < length (fq_enqs q)" "\<not> ln_closed (fq_heap q ! en_lane (fq_enqs q ! n))"
  shows "ln_drainer (fq_heap q ! en_lane (fq_enqs q ! n)) \<noteq> Gone"
proof
  let ?i = "en_lane (fq_enqs q ! n)"
  assume g: "ln_drainer (fq_heap q ! ?i) = Gone"
  have "lane_inv q ?i (fq_heap q ! ?i)" using inv_lane inv_enq assms by blast
  with g assms(3) enqs_at_pos [OF assms(2) refl] show False by (auto simp: lane_inv_def)
qed

lemma enqs_after_remove:
  "lanes_inv q \<Longrightarrow> \<forall>e \<in> set (remove_nth n (fq_enqs q)). en_lane e < length (fq_heap q) \<and>
     ln_target (fq_heap q ! en_lane e) = jb_target (en_job e)"
  using remove_nth_subset [of n "fq_enqs q"] by (auto simp: lanes_inv_def)

lemma for_target_simps [simp]:
  "for_target t (xs @ ys) = for_target t xs @ for_target t ys"
  "for_target t [j] = (if jb_target j = t then [j] else [])"
  "for_target t [] = []"
  by (simp_all add: for_target_def)

lemma inv_send_panics:
  assumes "lanes_inv q" "n < length (fq_enqs q)" "ln_closed (fq_heap q ! en_lane (fq_enqs q ! n))"
  shows "lanes_inv (send_panics n q)"
proof (rule inv_one_lane [OF assms(1)])
  let ?i = "en_lane (fq_enqs q ! n)"
  show i: "?i < length (fq_heap q)" using inv_enq assms by blast
  show "lane_inv (send_panics n q) ?i (fq_heap q ! ?i)"
    using inv_lane [OF assms(1) i] assms by (simp add: lane_inv_def send_panics_def enqs_at_remove)
  show "\<forall>j \<in> set (lane_jobs (fq_heap q ! ?i)). jb_target j = ln_target (fq_heap q ! ?i)"
    by (rule inv_jobs [OF assms(1) i])
  show "for_target (ln_target (fq_heap q ! ?i)) (fq_accepted (send_panics n q)) =
      for_target (ln_target (fq_heap q ! ?i)) (fq_processed (send_panics n q)) @ lane_jobs (fq_heap q ! ?i)"
    if "gget (fq_lanes q) (ln_target (fq_heap q ! ?i)) = Some ?i"
    using inv_hist [OF assms(1)] that by (simp add: send_panics_def carried_def)
qed (use assms in \<open>simp_all add: send_panics_def enqs_at_remove enqs_after_remove\<close>)

lemma inv_send_full:
  assumes "lanes_inv q" "n < length (fq_enqs q)"
  shows "lanes_inv (send_full n q)"
proof (rule inv_one_lane [OF assms(1)])
  let ?i = "en_lane (fq_enqs q ! n)"
  have es: "\<exists>ph. fq_enqs (send_full n q) = (fq_enqs q)[n := (fq_enqs q ! n)\<lparr>en_phase := ph\<rparr>]"
    by (auto simp: send_full_def Let_def)
  then have cnt: "enqs_at (fq_enqs (send_full n q)) k = enqs_at (fq_enqs q) k" for k
    using assms(2) by (auto simp: enqs_at_update)
  have rest: "fq_lanes (send_full n q) = fq_lanes q" "fq_heap (send_full n q) = fq_heap q"
    "fq_stopped (send_full n q) = fq_stopped q" "fq_cap (send_full n q) = fq_cap q"
    "fq_accepted (send_full n q) = fq_accepted q" "fq_processed (send_full n q) = fq_processed q"
    by (simp_all add: send_full_def Let_def)
  show i: "?i < length (fq_heap q)" using inv_enq assms by blast
  show "lane_inv (send_full n q) ?i (fq_heap q ! ?i)"
    using inv_lane [OF assms(1) i] by (simp add: lane_inv_def cnt rest)
  show "\<forall>j \<in> set (lane_jobs (fq_heap q ! ?i)). jb_target j = ln_target (fq_heap q ! ?i)"
    by (rule inv_jobs [OF assms(1) i])
  show "ln_drainer (fq_heap q ! ?i) = Gone \<Longrightarrow> ln_closed (fq_heap q ! ?i)"
    using inv_open_alive [OF assms] by blast
  show "\<forall>e \<in> set (fq_enqs (send_full n q)). en_lane e < length (fq_heap q) \<and>
      ln_target (fq_heap q ! en_lane e) = jb_target (en_job e)"
    using es inv_enq [OF assms] assms(1) by (auto simp: lanes_inv_def dest!: subsetD [OF set_update_subset_insert])
  show "for_target (ln_target (fq_heap q ! ?i)) (fq_accepted (send_full n q)) =
      for_target (ln_target (fq_heap q ! ?i)) (fq_processed (send_full n q)) @ lane_jobs (fq_heap q ! ?i)"
    if "gget (fq_lanes q) (ln_target (fq_heap q ! ?i)) = Some ?i"
    using inv_hist [OF assms(1)] that by (simp add: rest carried_def)
  show "fq_heap (send_full n q) = (fq_heap q)[?i := fq_heap q ! ?i]" by (simp add: rest)
qed (simp_all add: send_full_def Let_def enqs_at_update assms)

lemma inv_send_ok:
  assumes "lanes_inv q" "n < length (fq_enqs q)" "\<not> ln_closed (fq_heap q ! en_lane (fq_enqs q ! n))"
    "length (ln_chan (fq_heap q ! en_lane (fq_enqs q ! n))) < fq_cap q"
  shows "lanes_inv (send_ok n q)"
proof -
  let ?e = "fq_enqs q ! n" and ?i = "en_lane (fq_enqs q ! n)"
  let ?l = "(fq_heap q ! ?i)\<lparr>ln_chan := ln_chan (fq_heap q ! ?i) @ [en_job ?e]\<rparr>"
  have i: "?i < length (fq_heap q)" and t: "jb_target (en_job ?e) = ln_target (fq_heap q ! ?i)"
    using inv_enq assms by simp_all
  have alive: "ln_drainer (fq_heap q ! ?i) \<noteq> Gone" using inv_open_alive assms by blast
  have reg: "gget (fq_lanes q) (ln_target (fq_heap q ! ?i)) = Some ?i" by (rule inv_registered [OF assms(1) i alive])
  show ?thesis
  proof (rule inv_one_lane [OF assms(1) i, where l' = ?l])
    show "lane_inv (send_ok n q) ?i ?l"
      using inv_lane [OF assms(1) i] assms i alive
      by (simp add: lane_inv_def send_ok_def Let_def enqs_at_remove heap_simps)
    show "\<forall>j \<in> set (lane_jobs ?l). jb_target j = ln_target ?l"
      using inv_jobs [OF assms(1) i] t by auto
    show "for_target (ln_target ?l) (fq_accepted (send_ok n q)) =
        for_target (ln_target ?l) (fq_processed (send_ok n q)) @ lane_jobs ?l"
      using inv_hist [OF assms(1), of "ln_target (fq_heap q ! ?i)"] reg t
      by (simp add: send_ok_def Let_def heap_simps carried_def)
  qed (use reg alive t assms in \<open>simp_all add: send_ok_def Let_def heap_simps enqs_at_remove enqs_after_remove\<close>)
qed

lemma inv_drop_job:
  assumes "lanes_inv q" "n < length (fq_enqs q)"
  shows "lanes_inv (drop_job n q)"
proof -
  let ?i = "en_lane (fq_enqs q ! n)"
  let ?l = "(fq_heap q ! ?i)\<lparr>ln_pending := ln_pending (fq_heap q ! ?i) - 1\<rparr>"
  have i: "?i < length (fq_heap q)" using inv_enq assms by simp
  show ?thesis
  proof (rule inv_one_lane [OF assms(1) i, where l' = ?l])
    show "lane_inv (drop_job n q) ?i ?l"
      using inv_lane [OF assms(1) i] assms i inv_open_alive [OF assms]
      by (simp add: lane_inv_def drop_job_def enqs_at_remove heap_simps) linarith
    show "ln_drainer ?l = Gone \<Longrightarrow> ln_closed ?l" using inv_open_alive [OF assms] by auto
    show "\<forall>j \<in> set (lane_jobs ?l). jb_target j = ln_target ?l" using inv_jobs [OF assms(1) i] by simp
    show "for_target (ln_target ?l) (fq_accepted (drop_job n q)) =
        for_target (ln_target ?l) (fq_processed (drop_job n q)) @ lane_jobs ?l"
      if "gget (fq_lanes q) (ln_target ?l) = Some ?i"
      using inv_hist [OF assms(1)] that by (simp add: drop_job_def heap_simps carried_def)
  qed (use assms in \<open>simp_all add: drop_job_def heap_simps enqs_at_remove enqs_after_remove\<close>)
qed

text \<open>The drainer's steps.\<close>

lemma inv_receive:
  assumes "lanes_inv q" "i < length (fq_heap q)" "ln_drainer (fq_heap q ! i) = Waiting" "ln_chan (fq_heap q ! i) \<noteq> []"
  shows "lanes_inv (receive i q)"
proof -
  let ?l = "(fq_heap q ! i)\<lparr>ln_chan := tl (ln_chan (fq_heap q ! i)), ln_drainer := Working (hd (ln_chan (fq_heap q ! i)))\<rparr>"
  have reg: "gget (fq_lanes q) (ln_target (fq_heap q ! i)) = Some i"
    using inv_registered [OF assms(1,2)] assms(3) by simp
  obtain j js where ch: "ln_chan (fq_heap q ! i) = j # js" using assms(4) by (cases "ln_chan (fq_heap q ! i)") auto
  show ?thesis
  proof (rule inv_one_lane [OF assms(1,2), where l' = ?l])
    show "lane_inv (receive i q) i ?l"
      using inv_lane [OF assms(1,2)] assms ch by (auto simp: lane_inv_def receive_def heap_simps)
    show "\<forall>j \<in> set (lane_jobs ?l). jb_target j = ln_target ?l" using inv_jobs [OF assms(1,2)] ch by simp
    show "for_target (ln_target ?l) (fq_accepted (receive i q)) =
        for_target (ln_target ?l) (fq_processed (receive i q)) @ lane_jobs ?l"
      using inv_hist [OF assms(1)] reg ch assms(3) by (simp add: receive_def heap_simps carried_def)
    show "\<forall>e \<in> set (fq_enqs (receive i q)). en_lane e < length (fq_heap q) \<and>
        ln_target (fq_heap q ! en_lane e) = jb_target (en_job e)"
      using assms(1) by (simp add: lanes_inv_def receive_def heap_simps)
  qed (use reg in \<open>simp_all add: receive_def heap_simps\<close>)
qed

lemma inv_process_done:
  assumes "lanes_inv q" "i < length (fq_heap q)" "ln_drainer (fq_heap q ! i) = Working j"
  shows "lanes_inv (process_done i q)"
proof -
  let ?l = "(fq_heap q ! i)\<lparr>ln_drainer := Finishing\<rparr>"
  have reg: "gget (fq_lanes q) (ln_target (fq_heap q ! i)) = Some i"
    using inv_registered [OF assms(1,2)] assms(3) by simp
  have t: "jb_target j = ln_target (fq_heap q ! i)" using inv_jobs [OF assms(1,2)] assms(3) by simp
  have q': "process_done i q = q\<lparr>fq_heap := (fq_heap q)[i := ?l], fq_processed := fq_processed q @ [j]\<rparr>"
    using assms(3) by (simp add: process_done_def at_lane_def)
  show ?thesis
    unfolding q'
  proof (rule inv_one_lane [OF assms(1,2), where l' = ?l])
    show "lane_inv (q\<lparr>fq_heap := (fq_heap q)[i := ?l], fq_processed := fq_processed q @ [j]\<rparr>) i ?l"
      using inv_lane [OF assms(1,2)] assms by (auto simp: lane_inv_def)
    show "\<forall>j \<in> set (lane_jobs ?l). jb_target j = ln_target ?l" using inv_jobs [OF assms(1,2)] by simp
    show "\<forall>e \<in> set (fq_enqs (q\<lparr>fq_heap := (fq_heap q)[i := ?l], fq_processed := fq_processed q @ [j]\<rparr>)).
        en_lane e < length (fq_heap q) \<and> ln_target (fq_heap q ! en_lane e) = jb_target (en_job e)"
      using assms(1) by (simp add: lanes_inv_def)
  qed (use reg t assms(3) inv_hist [OF assms(1), of "ln_target (fq_heap q ! i)"] in \<open>simp_all add: carried_def\<close>)
qed

lemma inv_release:
  assumes "lanes_inv q" "i < length (fq_heap q)" "ln_drainer (fq_heap q ! i) = Finishing"
  shows "lanes_inv (release i q)"
proof -
  let ?l = "(fq_heap q ! i)\<lparr>ln_pending := ln_pending (fq_heap q ! i) - 1, ln_drainer := Waiting\<rparr>"
  have reg: "gget (fq_lanes q) (ln_target (fq_heap q ! i)) = Some i"
    using inv_registered [OF assms(1,2)] assms(3) by simp
  show ?thesis
  proof (rule inv_one_lane [OF assms(1,2), where l' = ?l])
    show "lane_inv (release i q) i ?l"
      using inv_lane [OF assms(1,2)] assms by (auto simp: lane_inv_def release_def heap_simps)
    show "\<forall>j \<in> set (lane_jobs ?l). jb_target j = ln_target ?l" using inv_jobs [OF assms(1,2)] assms(3) by simp
    show "for_target (ln_target ?l) (fq_accepted (release i q)) =
        for_target (ln_target ?l) (fq_processed (release i q)) @ lane_jobs ?l"
      using inv_hist [OF assms(1)] reg assms(3) by (simp add: release_def heap_simps carried_def)
    show "\<forall>e \<in> set (fq_enqs (release i q)). en_lane e < length (fq_heap q) \<and>
        ln_target (fq_heap q ! en_lane e) = jb_target (en_job e)"
      using assms by (simp add: lanes_inv_def release_def heap_simps)
  qed (use reg in \<open>simp_all add: release_def heap_simps\<close>)
qed

lemma inv_drainer_exits:
  assumes "lanes_inv q" "i < length (fq_heap q)" "ln_drainer (fq_heap q ! i) = Waiting"
    "ln_closed (fq_heap q ! i)" "ln_chan (fq_heap q ! i) = []"
  shows "lanes_inv (drainer_exits i q)"
proof -
  let ?l = "(fq_heap q ! i)\<lparr>ln_drainer := Gone\<rparr>"
  have reg: "gget (fq_lanes q) (ln_target (fq_heap q ! i)) = Some i"
    using inv_registered [OF assms(1,2)] assms(3) by simp
  show ?thesis
  proof (rule inv_one_lane [OF assms(1,2), where l' = ?l])
    show "lane_inv (drainer_exits i q) i ?l"
      using inv_lane [OF assms(1,2)] assms by (simp add: lane_inv_def drainer_exits_def heap_simps)
    show "for_target (ln_target ?l) (fq_accepted (drainer_exits i q)) =
        for_target (ln_target ?l) (fq_processed (drainer_exits i q)) @ lane_jobs ?l"
      using inv_hist [OF assms(1)] reg assms(3) by (simp add: drainer_exits_def heap_simps carried_def)
    show "\<forall>e \<in> set (fq_enqs (drainer_exits i q)). en_lane e < length (fq_heap q) \<and>
        ln_target (fq_heap q ! en_lane e) = jb_target (en_job e)"
      using assms by (simp add: lanes_inv_def drainer_exits_def heap_simps)
  qed (use reg assms in \<open>simp_all add: drainer_exits_def heap_simps\<close>)
qed

lemma inv_idle_fires:
  assumes inv: "lanes_inv q" and i: "i < length (fq_heap q)" and w: "ln_drainer (fq_heap q ! i) = Waiting"
  shows "lanes_inv (idle_fires i q)"
proof (cases "ln_pending (fq_heap q ! i) = 0")
  case False
  then show ?thesis using inv by (simp add: idle_fires_def Let_def)
next
  case True
  let ?l = "fq_heap q ! i" and ?q = "idle_fires i q"
  have q': "fq_lanes ?q = gdel (ln_target ?l) (fq_lanes q)" "fq_heap ?q = (fq_heap q)[i := ?l\<lparr>ln_drainer := Gone\<rparr>]"
    "fq_stopped ?q = fq_stopped q" "fq_cap ?q = fq_cap q" "fq_enqs ?q = fq_enqs q"
    "fq_accepted ?q = fq_accepted q" "fq_processed ?q = fq_processed q"
    using True by (simp_all add: idle_fires_def at_lane_def Let_def)
  have reg: "gget (fq_lanes q) (ln_target ?l) = Some i" using inv_registered [OF inv i] w by simp
  have li: "lane_inv q i ?l" by (rule inv_lane [OF inv i])
  have "int (length (ln_chan ?l)) \<le> 0"
    using li True enqs_at_nonneg [of "fq_enqs q" i] work_nonneg [of "ln_drainer ?l"] unfolding lane_inv_def by linarith
  then have empty: "ln_chan ?l = []" by simp
  have other: "ln_target (fq_heap q ! k) \<noteq> ln_target ?l"
    if "k < length (fq_heap q)" "k \<noteq> i" "ln_drainer (fq_heap q ! k) \<noteq> Gone" for k
    using inv_registered [OF inv that(1,3)] reg that(2) by auto
  have lanes: "lane_inv ?q k (fq_heap ?q ! k)" if k: "k < length (fq_heap ?q)" for k
  proof (cases "k = i")
    case True
    with li i w empty \<open>ln_pending ?l = 0\<close> show ?thesis by (auto simp: lane_inv_def q')
  next
    case False
    with inv_lane [OF inv, of k] other [of k] k show ?thesis by (auto simp: lane_inv_def q' gget_del)
  qed
  have hist: "for_target t (fq_accepted ?q) = for_target t (fq_processed ?q) @ carried (fq_lanes ?q) (fq_heap ?q) t" for t
  proof (cases "t = ln_target ?l")
    case True
    with inv_hist [OF inv, of t] reg w empty show ?thesis by (simp add: q' carried_def gget_del)
  next
    case False
    have "gget (fq_lanes q) t \<noteq> Some i" using False inv by (auto simp: lanes_inv_def)
    with inv_hist [OF inv, of t] False show ?thesis
      by (auto simp: q' carried_def gget_del split: option.split)
  qed
  have reg': "k < length (fq_heap ?q) \<and> ln_target (fq_heap ?q ! k) = t \<and>
        (ln_closed (fq_heap ?q ! k) \<or> ln_drainer (fq_heap ?q ! k) \<noteq> Gone)" if "gget (fq_lanes ?q) t = Some k" for t k
  proof -
    have k: "gget (fq_lanes q) t = Some k" "t \<noteq> ln_target ?l" using that by (auto simp: q' gget_del split: if_splits)
    then have "k \<noteq> i" using inv by (auto simp: lanes_inv_def)
    with k inv show ?thesis by (auto simp: lanes_inv_def q')
  qed
  have jobs: "\<forall>j \<in> set (lane_jobs (fq_heap ?q ! k)). jb_target j = ln_target (fq_heap ?q ! k)"
    if "k < length (fq_heap ?q)" for k
    using inv_jobs [OF inv, of k] that i empty by (cases "k = i") (auto simp: q')
  have enqs: "\<forall>e \<in> set (fq_enqs ?q). en_lane e < length (fq_heap ?q) \<and> ln_target (fq_heap ?q ! en_lane e) = jb_target (en_job e)"
    using inv i by (auto simp: lanes_inv_def q' nth_list_update)
  have "gok (fq_lanes ?q)" using inv by (simp add: lanes_inv_def q' gok_del)
  then show ?thesis unfolding lanes_inv_def using lanes hist reg' jobs enqs by blast
qed

text \<open>Reserving a place, and stopping.\<close>

lemma inv_spawn:
  assumes inv: "lanes_inv q" and none: "gget (fq_lanes q) t = None" and run: "\<not> fq_stopped q"
  shows "lanes_inv (spawn_lane t q)"
proof -
  let ?q = "spawn_lane t q" and ?n = "length (fq_heap q)"
  have q': "fq_lanes ?q = gput t ?n (fq_lanes q)"
    "fq_heap ?q = fq_heap q @ [\<lparr>ln_target = t, ln_chan = [], ln_closed = False, ln_pending = 0, ln_drainer = Waiting\<rparr>]"
    "fq_stopped ?q = fq_stopped q" "fq_cap ?q = fq_cap q" "fq_enqs ?q = fq_enqs q"
    "fq_accepted ?q = fq_accepted q" "fq_processed ?q = fq_processed q"
    by (simp_all add: spawn_lane_def)
  have "\<forall>e \<in> set (fq_enqs q). en_lane e \<noteq> ?n" using inv by (auto simp: lanes_inv_def)
  then have zero: "enqs_at (fq_enqs q) ?n = 0" by (auto simp: enqs_at_def filter_empty_conv)
  have lanes: "lane_inv ?q k (fq_heap ?q ! k)" if k: "k < length (fq_heap ?q)" for k
  proof (cases "k < ?n")
    case True
    have "ln_target (fq_heap q ! k) \<noteq> t" if "ln_drainer (fq_heap q ! k) \<noteq> Gone"
      using inv_registered [OF inv True that] none by auto
    with inv_lane [OF inv True] True show ?thesis by (auto simp: lane_inv_def q' nth_append gget_put)
  next
    case False
    then have "k = ?n" using k by (simp add: q')
    then show ?thesis using zero run by (simp add: lane_inv_def q' gget_put)
  qed
  have reg: "k < length (fq_heap ?q) \<and> ln_target (fq_heap ?q ! k) = u \<and>
        (ln_closed (fq_heap ?q ! k) \<or> ln_drainer (fq_heap ?q ! k) \<noteq> Gone)" if "gget (fq_lanes ?q) u = Some k" for u k
    using that inv by (auto simp: lanes_inv_def q' gget_put nth_append split: if_splits)
  have hist: "for_target u (fq_accepted ?q) = for_target u (fq_processed ?q) @ carried (fq_lanes ?q) (fq_heap ?q) u" for u
  proof (cases "u = t")
    case True
    with inv_hist [OF inv, of u] none show ?thesis by (simp add: q' carried_def gget_put)
  next
    case False
    have "k < ?n" if "gget (fq_lanes q) u = Some k" for k using that inv by (auto simp: lanes_inv_def)
    with inv_hist [OF inv, of u] False show ?thesis
      by (auto simp: q' carried_def gget_put nth_append split: option.split)
  qed
  have jobs: "\<forall>j \<in> set (lane_jobs (fq_heap ?q ! k)). jb_target j = ln_target (fq_heap ?q ! k)"
    if "k < length (fq_heap ?q)" for k
    using inv_jobs [OF inv, of k] that by (cases "k < ?n") (auto simp: q' nth_append)
  have enqs: "\<forall>e \<in> set (fq_enqs ?q). en_lane e < length (fq_heap ?q) \<and> ln_target (fq_heap ?q ! en_lane e) = jb_target (en_job e)"
    using inv by (auto simp: lanes_inv_def q' nth_append)
  have "gok (fq_lanes ?q)" using inv by (simp add: lanes_inv_def q' gok_put)
  then show ?thesis unfolding lanes_inv_def using lanes hist reg jobs enqs by blast
qed

definition join_lane :: "nat \<Rightarrow> job \<Rightarrow> bool \<Rightarrow> fair_queue \<Rightarrow> fair_queue" where
  "join_lane i job block q =
     (at_lane i (\<lambda>l. l\<lparr>ln_pending := ln_pending l + 1\<rparr>) q)
       \<lparr>fq_enqs := fq_enqs q @ [\<lparr>en_job = job, en_block = block, en_lane = i, en_phase = Selecting\<rparr>]\<rparr>"

lemma reserve_eq:
  "reserve job block q =
     (if fq_stopped q then None
      else Some (case gget (fq_lanes q) (jb_target job) of Some i \<Rightarrow> join_lane i job block q
           | None \<Rightarrow> join_lane (length (fq_heap q)) job block (spawn_lane (jb_target job) q)))"
  by (simp add: reserve_def join_lane_def Let_def at_lane_def split: option.split)

lemma inv_join:
  assumes inv: "lanes_inv q" and reg: "gget (fq_lanes q) (jb_target job) = Some i" and run: "\<not> fq_stopped q"
  shows "lanes_inv (join_lane i job block q)"
proof -
  let ?l = "(fq_heap q ! i)\<lparr>ln_pending := ln_pending (fq_heap q ! i) + 1\<rparr>"
  have i: "i < length (fq_heap q)" and t: "ln_target (fq_heap q ! i) = jb_target job"
    and cl: "ln_closed (fq_heap q ! i) \<or> ln_drainer (fq_heap q ! i) \<noteq> Gone"
    using inv reg by (auto simp: lanes_inv_def)
  have open_lane: "\<not> ln_closed (fq_heap q ! i)" using inv_lane [OF inv i] run by (simp add: lane_inv_def)
  show ?thesis
  proof (rule inv_one_lane [OF inv i, where l' = ?l])
    show "lane_inv (join_lane i job block q) i ?l"
      using inv_lane [OF inv i] open_lane cl
      by (auto simp: lane_inv_def join_lane_def at_lane_def enqs_at_snoc)
    show "\<forall>j \<in> set (lane_jobs ?l). jb_target j = ln_target ?l" using inv_jobs [OF inv i] by simp
    show "\<forall>e \<in> set (fq_enqs (join_lane i job block q)). en_lane e < length (fq_heap q) \<and>
        ln_target (fq_heap q ! en_lane e) = jb_target (en_job e)"
      using inv i t by (auto simp: lanes_inv_def join_lane_def at_lane_def)
    show "for_target (ln_target ?l) (fq_accepted (join_lane i job block q)) =
        for_target (ln_target ?l) (fq_processed (join_lane i job block q)) @ lane_jobs ?l"
      using inv_hist [OF inv, of "jb_target job"] reg t by (simp add: join_lane_def at_lane_def carried_def)
  qed (use cl open_lane in \<open>simp_all add: join_lane_def at_lane_def enqs_at_snoc\<close>)
qed

lemma inv_reserve: "lanes_inv q \<Longrightarrow> reserve job block q = Some q' \<Longrightarrow> lanes_inv q'"
proof -
  assume inv: "lanes_inv q" and res: "reserve job block q = Some q'"
  then have run: "\<not> fq_stopped q" by (simp add: reserve_eq split: if_splits)
  show "lanes_inv q'"
  proof (cases "gget (fq_lanes q) (jb_target job)")
    case None
    have "lanes_inv (join_lane (length (fq_heap q)) job block (spawn_lane (jb_target job) q))"
      using inv_spawn [OF inv None run] run by (intro inv_join) (simp_all add: spawn_lane_def gget_put)
    with res run None show ?thesis by (simp add: reserve_eq)
  next
    case (Some i)
    have "q' = join_lane i job block q" using res run Some by (simp add: reserve_eq)
    with inv_join [OF inv Some run, of block] show ?thesis by simp
  qed
qed

lemma length_close_lanes [simp]: "length (close_lanes is h) = length h"
  unfolding close_lanes_def by (induction "is" arbitrary: h) simp_all

lemma nth_close_lanes:
  "k < length h \<Longrightarrow> close_lanes is h ! k = (if k \<in> set is then (h ! k)\<lparr>ln_closed := True\<rparr> else h ! k)"
proof (induction "is" arbitrary: h)
  case (Cons i "is")
  have "close_lanes (i # is) h = close_lanes is (h[i := (h ! i)\<lparr>ln_closed := True\<rparr>])"
    by (simp add: close_lanes_def)
  with Cons show ?case by (cases "i = k") auto
qed (simp add: close_lanes_def)

lemma inv_stop:
  assumes inv: "lanes_inv q"
  shows "lanes_inv (stop_queue q)"
proof -
  let ?q = "stop_queue q"
  have q': "fq_lanes ?q = fq_lanes q" "fq_stopped ?q" "fq_cap ?q = fq_cap q" "fq_enqs ?q = fq_enqs q"
    "fq_accepted ?q = fq_accepted q" "fq_processed ?q = fq_processed q" "length (fq_heap ?q) = length (fq_heap q)"
    by (simp_all add: stop_queue_def)
  have nth: "ln_target (fq_heap ?q ! k) = ln_target (fq_heap q ! k) \<and> ln_chan (fq_heap ?q ! k) = ln_chan (fq_heap q ! k) \<and>
      ln_pending (fq_heap ?q ! k) = ln_pending (fq_heap q ! k) \<and> ln_drainer (fq_heap ?q ! k) = ln_drainer (fq_heap q ! k) \<and>
      (ln_closed (fq_heap ?q ! k) \<longleftrightarrow> ln_closed (fq_heap q ! k) \<or> k \<in> snd ` set (fq_lanes q))"
    if "k < length (fq_heap q)" for k
    using that by (simp add: stop_queue_def nth_close_lanes)
  have mem: "k \<in> snd ` set (fq_lanes q)" if "gget (fq_lanes q) u = Some k" for u k
    using gget_mem [OF that] by force
  have lanes: "lane_inv ?q k (fq_heap ?q ! k)" if k: "k < length (fq_heap ?q)" for k
  proof -
    have k: "k < length (fq_heap q)" using k by (simp add: q')
    show ?thesis
      using inv_lane [OF inv k] nth [OF k] mem by (auto simp: lane_inv_def q')
  qed
  have reg: "k < length (fq_heap ?q) \<and> ln_target (fq_heap ?q ! k) = u \<and>
        (ln_closed (fq_heap ?q ! k) \<or> ln_drainer (fq_heap ?q ! k) \<noteq> Gone)" if "gget (fq_lanes ?q) u = Some k" for u k
    using that inv nth [of k] by (auto simp: lanes_inv_def q')
  have hist: "for_target u (fq_accepted ?q) = for_target u (fq_processed ?q) @ carried (fq_lanes ?q) (fq_heap ?q) u" for u
  proof -
    have "lane_jobs (fq_heap ?q ! k) = lane_jobs (fq_heap q ! k)" if "gget (fq_lanes q) u = Some k" for k
      using nth [of k] that inv by (auto simp: lanes_inv_def)
    with inv_hist [OF inv, of u] show ?thesis by (auto simp: q' carried_def split: option.split)
  qed
  have jobs: "\<forall>j \<in> set (lane_jobs (fq_heap ?q ! k)). jb_target j = ln_target (fq_heap ?q ! k)"
    if "k < length (fq_heap ?q)" for k
    using inv_jobs [OF inv, of k] nth [of k] that by (simp add: q')
  have enqs: "\<forall>e \<in> set (fq_enqs ?q). en_lane e < length (fq_heap ?q) \<and> ln_target (fq_heap ?q ! en_lane e) = jb_target (en_job e)"
    using inv nth by (auto simp: lanes_inv_def q')
  have "gok (fq_lanes ?q)" using inv by (simp add: lanes_inv_def q')
  then show ?thesis unfolding lanes_inv_def using lanes hist reg jobs enqs by blast
qed

lemma inv_step: "lane_step q q' \<Longrightarrow> lanes_inv q \<Longrightarrow> lanes_inv q'"
  by (induction rule: lane_step.induct)
    (simp_all add: inv_reserve inv_send_panics inv_send_ok inv_send_full inv_drop_job inv_receive inv_process_done
      inv_release inv_idle_fires inv_drainer_exits inv_stop)

lemma inv_new: "lanes_inv (new_fair_queue c)"
  by (simp add: lanes_inv_def new_fair_queue_def carried_def)

lemma inv_reachable: "lane_reachable cap q \<Longrightarrow> lanes_inv q"
  by (induction rule: lane_reachable.induct) (simp_all add: inv_new inv_step)

section \<open>What the queue promises\<close>

text \<open>C7: in any interleaving of senders, drainers, idle timers and the shutdown, the jobs a destination
  accepted are, in order, those it has processed, then the one in hand, then its queue: no accepted
  job is lost, repeated or overtaken, even when an idle lane is reaped while a sender comes back to it.\<close>

theorem lanes_fifo_exactly_once:
  assumes "lane_reachable cap q"
  shows "for_target t (fq_accepted q) = for_target t (fq_processed q) @
     (case gget (fq_lanes q) t of None \<Rightarrow> [] | Some i \<Rightarrow> in_hand (ln_drainer (fq_heap q ! i)) @ ln_chan (fq_heap q ! i))"
  using inv_hist [OF inv_reachable [OF assms]] by (simp add: carried_def)

definition sample_queue :: fair_queue where
  "sample_queue = receive 0 (send_ok 0 (the (reserve (plain_job ''discord:user'' ''u'') True (new_fair_queue (int 1)))))"

lemmas queue_eval = reserve_eq join_lane_def spawn_lane_def at_lane_def new_fair_queue_def send_ok_def receive_def
  remove_nth_def plain_job_def gget_put Let_def

lemma sample_queue_reachable: "lane_reachable 1 sample_queue"
proof -
  let ?j = "plain_job ''discord:user'' ''u''"
  let ?q0 = "new_fair_queue (int 1)"
  let ?q1 = "the (reserve ?j True ?q0)"
  have "lane_step ?q0 ?q1" by (rule lane_step.reserve [where job = ?j and block = True]) (simp add: queue_eval)
  then have 1: "lane_reachable 1 ?q1" by (rule lane_reachable.step [OF lane_reachable.start])
  have "lane_step ?q1 (send_ok 0 ?q1)" by (rule lane_step.send_ok) (simp_all add: queue_eval)
  then have 2: "lane_reachable 1 (send_ok 0 ?q1)" by (rule lane_reachable.step [OF 1])
  have "lane_step (send_ok 0 ?q1) (receive 0 (send_ok 0 ?q1))" by (rule lane_step.receive) (simp_all add: queue_eval)
  then show ?thesis unfolding sample_queue_def by (rule lane_reachable.step [OF 2])
qed

lemma lanes_fifo_exactly_once_witness: "for_target ''u'' (fq_accepted sample_queue) = [plain_job ''discord:user'' ''u'']"
  using lanes_fifo_exactly_once [OF sample_queue_reachable, of "''u''"]
  by (simp add: sample_queue_def queue_eval)

text \<open>C36: A destination is served by one drainer at a time, and a lane that holds a job, or has a sender about
  to put one, is never left without its drainer while the queue runs. The counter by which a lane is reaped is exact: while
  the lane is open it counts the jobs in the lane, the one in the drainer's hands and the senders about to put one, so it is
  zero exactly when there is none of these.\<close>

theorem one_drainer_per_destination:
  assumes "lane_reachable cap q" and "i < length (fq_heap q)" and "k < length (fq_heap q)"
  shows "(ln_target (fq_heap q ! i) = ln_target (fq_heap q ! k) \<and> ln_drainer (fq_heap q ! i) \<noteq> Gone \<and>
      ln_drainer (fq_heap q ! k) \<noteq> Gone \<longrightarrow> i = k) \<and>
    (ln_chan (fq_heap q ! i) \<noteq> [] \<longrightarrow> ln_drainer (fq_heap q ! i) \<noteq> Gone) \<and>
    (\<forall>e \<in> set (fq_enqs q). en_lane e = i \<longrightarrow> ln_closed (fq_heap q ! i) \<or> ln_drainer (fq_heap q ! i) \<noteq> Gone) \<and>
    (\<not> ln_closed (fq_heap q ! i) \<longrightarrow> ln_pending (fq_heap q ! i) = int (length (ln_chan (fq_heap q ! i)) +
       (case ln_drainer (fq_heap q ! i) of Working _ \<Rightarrow> 1 | Finishing \<Rightarrow> 1 | _ \<Rightarrow> 0) +
       length (filter (\<lambda>e. en_lane e = i) (fq_enqs q))))"
proof (intro conjI)
  note inv = inv_reachable [OF assms(1)]
  show "ln_target (fq_heap q ! i) = ln_target (fq_heap q ! k) \<and> ln_drainer (fq_heap q ! i) \<noteq> Gone \<and>
      ln_drainer (fq_heap q ! k) \<noteq> Gone \<longrightarrow> i = k"
  proof (intro impI, elim conjE)
    assume same: "ln_target (fq_heap q ! i) = ln_target (fq_heap q ! k)"
      and alive: "ln_drainer (fq_heap q ! i) \<noteq> Gone" "ln_drainer (fq_heap q ! k) \<noteq> Gone"
    from inv_registered [OF inv assms(2) alive(1)] inv_registered [OF inv assms(3) alive(2)] show "i = k"
      unfolding same by simp
  qed
  show "ln_chan (fq_heap q ! i) \<noteq> [] \<longrightarrow> ln_drainer (fq_heap q ! i) \<noteq> Gone"
    using inv_lane [OF inv assms(2)] by (auto simp: lane_inv_def)
  show "\<forall>e \<in> set (fq_enqs q). en_lane e = i \<longrightarrow> ln_closed (fq_heap q ! i) \<or> ln_drainer (fq_heap q ! i) \<noteq> Gone"
    using inv_open_alive [OF inv] by (metis in_set_conv_nth)
  show "\<not> ln_closed (fq_heap q ! i) \<longrightarrow> ln_pending (fq_heap q ! i) = int (length (ln_chan (fq_heap q ! i)) +
       (case ln_drainer (fq_heap q ! i) of Working _ \<Rightarrow> 1 | Finishing \<Rightarrow> 1 | _ \<Rightarrow> 0) +
       length (filter (\<lambda>e. en_lane e = i) (fq_enqs q)))"
    using inv_lane [OF inv assms(2)] by (cases "ln_drainer (fq_heap q ! i)") (auto simp: lane_inv_def enqs_at_def)
qed

lemma one_drainer_per_destination_witness: "ln_drainer (fq_heap sample_queue ! 0) \<noteq> Gone"
proof -
  have "0 < length (fq_heap sample_queue)" "ln_drainer (fq_heap sample_queue ! 0) \<noteq> Waiting"
    by (simp_all add: sample_queue_def queue_eval)
  with one_drainer_per_destination [OF sample_queue_reachable, of 0 0] show ?thesis
    by (simp add: sample_queue_def queue_eval)
qed

section \<open>Shutdown\<close>

fun drainer_steps :: "drainer \<Rightarrow> nat" where
  "drainer_steps Gone = 0"
| "drainer_steps Waiting = 1"
| "drainer_steps Finishing = 2"
| "drainer_steps (Working j) = 3"

text \<open>A bound on the steps a stopped queue can still take.\<close>

definition drain_bound :: "fair_queue \<Rightarrow> nat" where
  "drain_bound q = length (fq_enqs q) +
     sum_list (map (\<lambda>l. 3 * length (ln_chan l) + drainer_steps (ln_drainer l)) (fq_heap q))"

definition effective :: "fair_queue \<Rightarrow> fair_queue \<Rightarrow> bool" where
  "effective q q' \<longleftrightarrow> lane_step q q' \<and> q' \<noteq> q"

lemma sum_list_update_less:
  "i < length xs \<Longrightarrow> f y < (f (xs ! i) :: nat) \<Longrightarrow> sum_list (map f (xs[i := y])) < sum_list (map f xs)"
proof (induction xs arbitrary: i)
  case (Cons x xs)
  then show ?case by (cases i) simp_all
qed simp

lemma sum_list_update_same:
  "i < length xs \<Longrightarrow> f y = (f (xs ! i) :: nat) \<Longrightarrow> sum_list (map f (xs[i := y])) = sum_list (map f xs)"
proof (induction xs arbitrary: i)
  case (Cons x xs)
  then show ?case by (cases i) simp_all
qed simp

lemma length_remove_nth: "n < length xs \<Longrightarrow> length (remove_nth n xs) < length xs"
  by (simp add: remove_nth_def)

lemma stopped_closed:
  assumes "lanes_inv q" "fq_stopped q" "n < length (fq_enqs q)"
  shows "ln_closed (fq_heap q ! en_lane (fq_enqs q ! n))"
proof (rule ccontr)
  assume "\<not> ln_closed (fq_heap q ! en_lane (fq_enqs q ! n))"
  moreover from this have "ln_drainer (fq_heap q ! en_lane (fq_enqs q ! n)) \<noteq> Gone" using inv_open_alive assms by blast
  ultimately show False using inv_lane [OF assms(1), of "en_lane (fq_enqs q ! n)"] inv_enq assms by (auto simp: lane_inv_def)
qed

lemma stopped_step:
  assumes "lane_step q q'" "lanes_inv q" "fq_stopped q" "q' \<noteq> q"
  shows "drain_bound q' < drain_bound q \<and> fq_stopped q' \<and> fq_accepted q' = fq_accepted q"
  using assms
proof (induction rule: lane_step.induct)
  case (reserve job block q q')
  then show ?case by (simp add: reserve_eq)
next
  case (send_panics n q)
  then show ?case using length_remove_nth [of n "fq_enqs q"] by (simp add: drain_bound_def send_panics_def)
next
  case (send_ok n q)
  then show ?case using stopped_closed by blast
next
  case (send_full n q)
  then show ?case using stopped_closed by blast
next
  case (drop_job n q)
  have "en_lane (fq_enqs q ! n) < length (fq_heap q)" using inv_enq drop_job by blast
  then have "sum_list (map (\<lambda>l. 3 * length (ln_chan l) + drainer_steps (ln_drainer l)) (fq_heap (drop_job n q))) =
      sum_list (map (\<lambda>l. 3 * length (ln_chan l) + drainer_steps (ln_drainer l)) (fq_heap q))"
    by (simp add: drop_job_def at_lane_def sum_list_update_same)
  with drop_job length_remove_nth [of n "fq_enqs q"] show ?case
    by (simp add: drain_bound_def) (simp add: drop_job_def at_lane_def)
next
  case (receive i q)
  then show ?case
    by (cases "ln_chan (fq_heap q ! i)") (auto simp: drain_bound_def receive_def at_lane_def intro!: sum_list_update_less)
next
  case (process_done i q j)
  then show ?case by (auto simp: drain_bound_def process_done_def at_lane_def intro!: sum_list_update_less)
next
  case (release i q)
  then show ?case by (auto simp: drain_bound_def release_def at_lane_def intro!: sum_list_update_less)
next
  case (idle_fires i q)
  then show ?case
    by (auto simp: drain_bound_def idle_fires_def Let_def at_lane_def intro!: sum_list_update_less split: if_splits)
next
  case (drainer_exits i q)
  then show ?case by (auto simp: drain_bound_def drainer_exits_def at_lane_def intro!: sum_list_update_less)
next
  case (stop_queue q)
  then show ?case by simp
qed

lemma stopped_steps:
  assumes "(effective ^^ n) q q'" "lanes_inv q" "fq_stopped q"
  shows "n + drain_bound q' \<le> drain_bound q \<and> fq_stopped q' \<and> fq_accepted q' = fq_accepted q \<and> lanes_inv q'"
  using assms
proof (induction n arbitrary: q')
  case (Suc n)
  from Suc.prems(1) obtain p where p: "(effective ^^ n) q p" "effective p q'" by auto
  with Suc.IH [OF p(1) Suc.prems(2,3)] stopped_step [of p q'] inv_step [of p q'] show ?case
    by (auto simp: effective_def)
qed simp

text \<open>In a stopped queue with work left, some step changes the state.\<close>

lemma stopped_progress:
  assumes inv: "lanes_inv q" and st: "fq_stopped q" and i: "i < length (fq_heap q)" and alive: "ln_drainer (fq_heap q ! i) \<noteq> Gone"
  shows "\<exists>q'. effective q q'"
proof -
  have closed: "ln_closed (fq_heap q ! i)" using inv_lane [OF inv i] st alive by (simp add: lane_inv_def)
  have change: "at_lane i f q \<noteq> q" if "ln_drainer (f (fq_heap q ! i)) \<noteq> ln_drainer (fq_heap q ! i)" for f
  proof
    assume "at_lane i f q = q"
    then have "fq_heap (at_lane i f q) ! i = fq_heap q ! i" by simp
    with i that show False by (simp add: at_lane_def)
  qed
  show ?thesis
  proof (cases "ln_drainer (fq_heap q ! i)")
    case Waiting
    show ?thesis
    proof (cases "ln_chan (fq_heap q ! i) = []")
      case True
      with lane_step.drainer_exits [OF i Waiting closed True] change [of "\<lambda>l. l\<lparr>ln_drainer := Gone\<rparr>"] Waiting
      show ?thesis by (auto simp: effective_def drainer_exits_def)
    next
      case False
      with lane_step.receive [OF i Waiting False] Waiting
        change [of "\<lambda>l. l\<lparr>ln_chan := tl (ln_chan l), ln_drainer := Working (hd (ln_chan l))\<rparr>"]
      show ?thesis by (auto simp: effective_def receive_def)
    qed
  next
    case (Working j)
    have "fq_processed (process_done i q) \<noteq> fq_processed q" using Working by (simp add: process_done_def)
    then have "process_done i q \<noteq> q" by auto
    with lane_step.process_done [OF i Working] show ?thesis by (auto simp: effective_def)
  next
    case Finishing
    with lane_step.release [OF i Finishing] change [of "\<lambda>l. l\<lparr>ln_pending := ln_pending l - 1, ln_drainer := Waiting\<rparr>"]
    show ?thesis by (auto simp: effective_def release_def)
  next
    case Gone
    with alive show ?thesis by simp
  qed
qed

text \<open>C13: shutting down ends, and nothing accepted is thrown away: from a stopped queue at most
  \<open>drain_bound\<close> further steps change anything, and when none can, every drainer has returned and every
  destination has processed exactly what it had accepted.\<close>

theorem stop_drains:
  assumes "lane_reachable cap q" and "fq_stopped q" and "(effective ^^ n) q q'"
  shows "n \<le> drain_bound q \<and> ((\<nexists>q''. effective q' q'') \<longrightarrow>
     (\<forall>i < length (fq_heap q'). ln_drainer (fq_heap q' ! i) = Gone) \<and>
     (\<forall>t. for_target t (fq_processed q') = for_target t (fq_accepted q)))"
proof -
  note inv = inv_reachable [OF assms(1)]
  have s: "n + drain_bound q' \<le> drain_bound q" "fq_stopped q'" "fq_accepted q' = fq_accepted q" "lanes_inv q'"
    using stopped_steps [OF assms(3) inv assms(2)] by simp_all
  have all_gone: "\<forall>i < length (fq_heap q'). ln_drainer (fq_heap q' ! i) = Gone" if "\<nexists>q''. effective q' q''"
    using that stopped_progress [OF s(4,2)] by blast
  have "for_target t (fq_processed q') = for_target t (fq_accepted q)" if "\<nexists>q''. effective q' q''" for t
  proof -
    have "carried (fq_lanes q') (fq_heap q') t = []"
    proof (cases "gget (fq_lanes q') t")
      case (Some i)
      then have i: "i < length (fq_heap q')" using s(4) by (auto simp: lanes_inv_def)
      then have "ln_drainer (fq_heap q' ! i) = Gone" using all_gone [OF that] by simp
      moreover from this have "ln_chan (fq_heap q' ! i) = []" using inv_lane [OF s(4) i] by (simp add: lane_inv_def)
      ultimately show ?thesis using Some by (simp add: carried_def)
    qed (simp add: carried_def)
    then show ?thesis using inv_hist [OF s(4), of t] s(3) by simp
  qed
  then show ?thesis using s(1) all_gone by auto
qed

lemma stop_drains_witness: "1 \<le> drain_bound (stop_queue sample_queue)"
proof -
  have stp: "lane_reachable 1 (stop_queue sample_queue)"
    by (rule lane_reachable.step [OF sample_queue_reachable lane_step.stop_queue])
      (simp add: sample_queue_def queue_eval)
  have len: "0 < length (fq_heap (stop_queue sample_queue))"
    by (simp add: stop_queue_def sample_queue_def queue_eval)
  have alive: "ln_drainer (fq_heap (stop_queue sample_queue) ! 0) \<noteq> Gone"
    using len by (simp add: stop_queue_def nth_close_lanes) (simp add: sample_queue_def queue_eval)
  have "\<exists>p. effective (stop_queue sample_queue) p"
    by (rule stopped_progress [OF inv_reachable [OF stp] _ len alive]) (simp add: stop_queue_def)
  then obtain p where "(effective ^^ 1) (stop_queue sample_queue) p" by auto
  with stop_drains [OF stp] show ?thesis by (simp add: stop_queue_def)
qed

end
