(* ===== verification/Deliver.thy ===== *)
theory Deliver
  imports DeliveryTypes RateLimit
begin

text \<open>
  What a drainer does with one job: \<open>processJob\<close>, \<open>recordFailure\<close> and \<open>isTargetDisabled\<close> of
  \<open>delivery/queue.go\<close>, with the message tracker of \<open>delivery/tracker.go\<close> and the pause switch of
  \<open>delivery/dispatcher.go\<close>. The platform senders and the ttlcache of the tracker are code outside this
  component: they are the arguments \<open>io\<close> and \<open>co\<close>. What leaves the process is a list of effects. The clock is read once
  per job. The goroutine that runs the rate-limit hooks is the effect it has.
\<close>

section \<open>The message tracker\<close>

text \<open>The cache: a lookup and an insert with a lifetime, both at a time.\<close>

record 'c cache_ops =
  co_get :: "'c \<Rightarrow> string \<Rightarrow> gotime \<Rightarrow> tracked_message option"
  co_set :: "'c \<Rightarrow> string \<Rightarrow> tracked_message \<Rightarrow> duration \<Rightarrow> gotime \<Rightarrow> 'c"

record 'c message_tracker =
  mt_cache :: 'c
  mt_replies :: "(string, (string, string) gomap) gomap"

definition track_message ::
    "'c cache_ops \<Rightarrow> 'c message_tracker \<Rightarrow> string \<Rightarrow> tracked_message \<Rightarrow> duration \<Rightarrow> gotime \<Rightarrow> 'c message_tracker" where
  "track_message co mt key msg ttl now =
     (let mt1 = mt\<lparr>mt_cache := co_set co (mt_cache mt) key msg ttl now\<rparr>
      in if tm_reply_key msg = [] then mt1
         else mt1\<lparr>mt_replies := gput (tm_reply_key msg)
                (gput (tm_target msg) key (gget_or [] (mt_replies mt1) (tm_reply_key msg))) (mt_replies mt1)\<rparr>)"

definition lookup_edit :: "'c cache_ops \<Rightarrow> 'c message_tracker \<Rightarrow> string \<Rightarrow> gotime \<Rightarrow> tracked_message option" where
  "lookup_edit co mt key now = co_get co (mt_cache mt) key now"

definition lookup_reply_message ::
    "'c cache_ops \<Rightarrow> 'c message_tracker \<Rightarrow> string \<Rightarrow> string \<Rightarrow> gotime \<Rightarrow> tracked_message option" where
  "lookup_reply_message co mt reply_key target now =
     (if reply_key = [] then None
      else case gget (gget_or [] (mt_replies mt) reply_key) target of
             None \<Rightarrow> None
           | Some key \<Rightarrow> co_get co (mt_cache mt) key now)"

definition lookup_reply :: "'c cache_ops \<Rightarrow> 'c message_tracker \<Rightarrow> string \<Rightarrow> string \<Rightarrow> gotime \<Rightarrow> string" where
  "lookup_reply co mt reply_key target now =
     (case lookup_reply_message co mt reply_key target now of None \<Rightarrow> [] | Some msg \<Rightarrow> tm_sent_id msg)"

definition lookup_reply_targets :: "'c message_tracker \<Rightarrow> string \<Rightarrow> string list" where
  "lookup_reply_targets mt reply_key =
     (if reply_key = [] then [] else map fst (gget_or [] (mt_replies mt) reply_key))"

text \<open>The part of the eviction handler that maintains the reply index.\<close>

definition drop_reply_pointer :: "'c message_tracker \<Rightarrow> string \<Rightarrow> tracked_message \<Rightarrow> 'c message_tracker" where
  "drop_reply_pointer mt key msg =
     (if tm_reply_key msg = [] then mt
      else case gget (mt_replies mt) (tm_reply_key msg) of
             None \<Rightarrow> mt
           | Some pointers \<Rightarrow>
               if gget_or [] pointers (tm_target msg) = key
               then let pointers' = gdel (tm_target msg) pointers
                    in mt\<lparr>mt_replies := (if length pointers' = 0 then gdel (tm_reply_key msg) (mt_replies mt)
                                        else gput (tm_reply_key msg) pointers' (mt_replies mt))\<rparr>
               else mt)"

section \<open>State and effects\<close>

datatype send_error = PermanentError string | TransientError

record sender_io =
  io_send :: "job \<Rightarrow> send_error + string option"
  io_edit :: "string \<Rightarrow> string \<Rightarrow> bool"

text \<open>\<open>Sum\<close>: a failed send, or a sent message with its identifier (or a nil \<open>SentMessage\<close>).\<close>

datatype effect =
    SendMessage job
  | EditMessage string string
  | DeleteMessage string
  | WriteSnapshot snapshot
  | HookBreach string string string string int int
  | HookBan string string string string
  | HookDisabled string string string

record fail_record =
  fr_count :: int
  fr_blocked_at :: gotime

record 'c delivery_state =
  ds_tracker :: "'c message_tracker"
  ds_fails :: "(string, fail_record) gomap"
  ds_limiter :: "limiter option"
  ds_paused :: bool

record delivery_config =
  dc_platforms :: "string list"
  dc_fail_threshold :: int
  dc_hooks :: bool
  dc_on_disabled :: bool
  dc_snapshots :: bool

definition config_threshold :: "int \<Rightarrow> int" where
  "config_threshold t = (if t \<le> 0 then 10 else t)"

definition fail_block_duration :: duration where
  "fail_block_duration = 5 * ns_minute"

section \<open>Consecutive failures\<close>

definition record_failure ::
    "delivery_config \<Rightarrow> job \<Rightarrow> gotime \<Rightarrow> (string, fail_record) gomap \<Rightarrow> (string, fail_record) gomap \<times> effect list" where
  "record_failure cfg job now fails =
     (let r0 = gget_or \<lparr>fr_count = 0, fr_blocked_at = zero_time\<rparr> fails (jb_target job);
          r = r0\<lparr>fr_count := fr_count r0 + 1\<rparr>
      in if fr_count r = dc_fail_threshold cfg
         then (gput (jb_target job) (r\<lparr>fr_blocked_at := now\<rparr>) fails,
               if dc_on_disabled cfg then [HookDisabled (jb_target job) (jb_name job) (jb_type job)] else [])
         else (gput (jb_target job) r fails, []))"

definition is_target_disabled ::
    "delivery_config \<Rightarrow> string \<Rightarrow> gotime \<Rightarrow> (string, fail_record) gomap \<Rightarrow> (string, fail_record) gomap \<times> bool" where
  "is_target_disabled cfg target now fails =
     (case gget fails target of
        None \<Rightarrow> (fails, False)
      | Some r \<Rightarrow>
          if fr_count r < dc_fail_threshold cfg then (fails, False)
          else if now - fr_blocked_at r > fail_block_duration then (gdel target fails, False)
          else (fails, True))"

section \<open>\<open>processJob\<close>\<close>

definition stamp_snapshot :: "bool \<Rightarrow> gotime \<Rightarrow> string \<Rightarrow> snapshot \<Rightarrow> snapshot" where
  "stamp_snapshot always now sent_id sn =
     sn\<lparr>sn_message_id := extract_message_id sent_id,
        sn_created_at := (if always \<or> sn_created_at sn = 0 then unix now else sn_created_at sn)\<rparr>"

text \<open>The edit of an existing message; \<open>None\<close> falls through to a new message.\<close>

definition try_edit ::
    "'c cache_ops \<Rightarrow> sender_io \<Rightarrow> delivery_config \<Rightarrow> 'c delivery_state \<Rightarrow> job \<Rightarrow> gotime \<Rightarrow> effect list \<times> bool" where
  "try_edit co io cfg ds job now =
     (if jb_edit_key job = [] then ([], False)
      else case lookup_edit co (ds_tracker ds) (jb_edit_key job) now of
             None \<Rightarrow> ([], False)
           | Some existing \<Rightarrow>
               (if io_edit io (tm_sent_id existing) (jb_message job)
                then (EditMessage (tm_sent_id existing) (jb_message job) #
                      (case jb_snapshot job of
                         Some sn \<Rightarrow> if dc_snapshots cfg then [WriteSnapshot (stamp_snapshot True now (tm_sent_id existing) sn)] else []
                       | None \<Rightarrow> []), True)
                else ([EditMessage (tm_sent_id existing) (jb_message job)], False)))"

definition stamp_reply :: "'c cache_ops \<Rightarrow> 'c delivery_state \<Rightarrow> job \<Rightarrow> gotime \<Rightarrow> job" where
  "stamp_reply co ds job now =
     (if jb_reply_key job \<noteq> [] \<and> jb_reply_to_id job = []
      then let i = lookup_reply co (ds_tracker ds) (jb_reply_key job) (jb_target job) now
           in if i \<noteq> [] then job\<lparr>jb_reply_to_id := i\<rparr> else job
      else job)"

text \<open>The authoritative rate limit: the new limiter, whether to go on, and the hooks.\<close>

definition limit_job ::
    "delivery_config \<Rightarrow> limiter option \<Rightarrow> job \<Rightarrow> gotime \<Rightarrow> limiter option \<times> bool \<times> effect list" where
  "limit_job cfg lo job now =
     (case lo of None \<Rightarrow> (None, True, [])
      | Some l \<Rightarrow>
          if jb_bypass_rate_limit job then (Some l, True, [])
          else let (l', r) = check l (jb_target job) (jb_type job) now
               in if rr_allowed r then (Some l', True, [])
                  else (Some l', False,
                        if rr_just_breached r \<and> dc_hooks cfg
                        then HookBreach (jb_target job) (jb_type job) (jb_name job) (jb_language job)
                               (rr_limit r) (rr_reset_seconds r) #
                             (if rr_banned r then [HookBan (jb_target job) (jb_type job) (jb_name job) (jb_language job)] else [])
                        else []))"

definition track_key :: "job \<Rightarrow> string \<Rightarrow> string" where
  "track_key job sent_id =
     (if jb_edit_key job \<noteq> [] then jb_edit_key job
      else ''clean:'' @ jb_type job @ '':'' @ jb_target job @ '':'' @ sent_id)"

definition wants_tracking :: "job \<Rightarrow> bool" where
  "wants_tracking job \<longleftrightarrow> is_clean (jb_clean job) \<or> is_edit (jb_clean job) \<or> jb_edit_key job \<noteq> [] \<or> jb_reply_key job \<noteq> []"

definition tracked_of :: "job \<Rightarrow> string \<Rightarrow> tracked_message" where
  "tracked_of job sent_id =
     \<lparr>tm_sent_id = sent_id, tm_target = jb_target job, tm_type = jb_type job, tm_msg_type = jb_msg_type job,
      tm_clean = jb_clean job, tm_reply_key = jb_reply_key job, tm_template = jb_template job\<rparr>"

text \<open>After a successful send: the failure counter, the snapshot, the tracker.\<close>

definition after_send ::
    "'c cache_ops \<Rightarrow> delivery_config \<Rightarrow> 'c delivery_state \<Rightarrow> job \<Rightarrow> string option \<Rightarrow> gotime \<Rightarrow> 'c delivery_state \<times> effect list" where
  "after_send co cfg ds job sent now =
     (let ds1 = ds\<lparr>ds_fails := gdel (jb_target job) (ds_fails ds)\<rparr>;
          snaps = (case (jb_snapshot job, sent) of
                     (Some sn, Some i) \<Rightarrow> if dc_snapshots cfg then [WriteSnapshot (stamp_snapshot False now i sn)] else []
                   | _ \<Rightarrow> [])
      in case sent of
           None \<Rightarrow> (ds1, snaps)
         | Some i \<Rightarrow>
             if wants_tracking job \<and> tth_duration (jb_tth job) > 0
             then (ds1\<lparr>ds_tracker := track_message co (ds_tracker ds1) (track_key job i) (tracked_of job i)
                          (tth_duration (jb_tth job)) now\<rparr>, snaps)
             else (ds1, snaps))"

definition process_new ::
    "'c cache_ops \<Rightarrow> sender_io \<Rightarrow> delivery_config \<Rightarrow> 'c delivery_state \<Rightarrow> job \<Rightarrow> gotime \<Rightarrow> 'c delivery_state \<times> effect list" where
  "process_new co io cfg ds job0 now =
     (let job = stamp_reply co ds job0 now
      in if \<not> jb_bypass_rate_limit job \<and> ds_paused ds then (ds, [])
         else if is_clean (jb_clean job) \<and> tth_duration (jb_tth job) \<le> 0 then (ds, [])
         else let (fails, disabled) = is_target_disabled cfg (jb_target job) now (ds_fails ds);
                  ds1 = ds\<lparr>ds_fails := fails\<rparr>
              in if disabled then (ds1, [])
                 else let (lo, go, hooks) = limit_job cfg (ds_limiter ds1) job now;
                          ds2 = ds1\<lparr>ds_limiter := lo\<rparr>
                      in if \<not> go then (ds2, hooks)
                         else case io_send io job of
                                Inl err \<Rightarrow>
                                  (let (fails', es) = record_failure cfg job now (ds_fails ds2)
                                   in (ds2\<lparr>ds_fails := fails'\<rparr>, SendMessage job # es))
                              | Inr sent \<Rightarrow>
                                  (let (ds3, es) = after_send co cfg ds2 job sent now in (ds3, SendMessage job # es)))"

definition process_job ::
    "'c cache_ops \<Rightarrow> sender_io \<Rightarrow> delivery_config \<Rightarrow> 'c delivery_state \<Rightarrow> job \<Rightarrow> gotime \<Rightarrow> 'c delivery_state \<times> effect list" where
  "process_job co io cfg ds job now =
     (if platform_from_type (jb_type job) \<notin> set (dc_platforms cfg) then (ds, [])
      else if jb_delete_sent_id job \<noteq> [] then (ds, [DeleteMessage (jb_delete_sent_id job)])
      else let (edits, edited) = try_edit co io cfg ds job now
           in if edited then (ds, edits)
              else let (ds', es) = process_new co io cfg ds job now in (ds', edits @ es))"

section \<open>When a message goes out\<close>

lemma SendMessage_not_edit: "SendMessage j \<notin> set (fst (try_edit co io cfg ds job now))"
  by (auto simp: try_edit_def split: option.splits if_splits)

lemma SendMessage_not_hook: "SendMessage j \<notin> set (snd (snd (limit_job cfg lo job now)))"
  by (auto simp: limit_job_def Let_def case_prod_unfold split: option.splits)

lemma SendMessage_not_failure: "SendMessage j \<notin> set (snd (record_failure cfg job now fails))"
  by (auto simp: record_failure_def Let_def)

lemma SendMessage_not_after: "SendMessage j \<notin> set (snd (after_send co cfg ds job sent now))"
  by (auto simp: after_send_def Let_def split: option.splits)

lemma stamp_reply_fields [simp]:
  "jb_bypass_rate_limit (stamp_reply co ds job now) = jb_bypass_rate_limit job"
  "jb_clean (stamp_reply co ds job now) = jb_clean job"
  "jb_tth (stamp_reply co ds job now) = jb_tth job"
  "jb_target (stamp_reply co ds job now) = jb_target job"
  "jb_type (stamp_reply co ds job now) = jb_type job"
  by (simp_all add: stamp_reply_def Let_def)

lemma limit_job_go:
  "fst (snd (limit_job cfg lo job now)) \<longleftrightarrow>
     (case lo of None \<Rightarrow> True
      | Some l \<Rightarrow> jb_bypass_rate_limit job \<or> rr_allowed (snd (check l (jb_target job) (jb_type job) now)))"
  by (auto simp: limit_job_def Let_def case_prod_unfold split: option.split)

lemma limit_job_charge:
  "fst (limit_job cfg lo job now) =
     (if jb_bypass_rate_limit job then lo
      else map_option (\<lambda>l. fst (check l (jb_target job) (jb_type job) now)) lo)"
  by (auto simp: limit_job_def Let_def case_prod_unfold split: option.split)

lemma limit_go_stamped:
  "fst (snd (limit_job cfg lo (stamp_reply co ds job now) now)) \<longleftrightarrow>
     (case lo of None \<Rightarrow> True
      | Some l \<Rightarrow> jb_bypass_rate_limit job \<or> rr_allowed (snd (check l (jb_target job) (jb_type job) now)))"
  by (cases lo) (simp_all add: limit_job_go)

text \<open>Whether a job gets as far as the rate limit.\<close>

definition reaches_limit ::
    "'c cache_ops \<Rightarrow> sender_io \<Rightarrow> delivery_config \<Rightarrow> 'c delivery_state \<Rightarrow> job \<Rightarrow> gotime \<Rightarrow> bool" where
  "reaches_limit co io cfg ds job now \<longleftrightarrow>
     platform_from_type (jb_type job) \<in> set (dc_platforms cfg) \<and> jb_delete_sent_id job = [] \<and>
     \<not> (\<exists>existing. jb_edit_key job \<noteq> [] \<and> lookup_edit co (ds_tracker ds) (jb_edit_key job) now = Some existing \<and>
          io_edit io (tm_sent_id existing) (jb_message job)) \<and>
     (jb_bypass_rate_limit job \<or> \<not> ds_paused ds) \<and>
     (is_clean (jb_clean job) \<longrightarrow> tth_duration (jb_tth job) > 0) \<and>
     (\<forall>r. gget (ds_fails ds) (jb_target job) = Some r \<longrightarrow> fr_count r \<ge> dc_fail_threshold cfg \<longrightarrow>
          now - fr_blocked_at r > fail_block_duration)"

lemma try_edit_done:
  "snd (try_edit co io cfg ds job now) \<longleftrightarrow>
     (\<exists>existing. jb_edit_key job \<noteq> [] \<and> lookup_edit co (ds_tracker ds) (jb_edit_key job) now = Some existing \<and>
        io_edit io (tm_sent_id existing) (jb_message job))"
  by (auto simp: try_edit_def split: option.split)

lemma disabled_iff:
  "snd (is_target_disabled cfg target now fails) \<longleftrightarrow>
     (\<exists>r. gget fails target = Some r \<and> fr_count r \<ge> dc_fail_threshold cfg \<and> \<not> now - fr_blocked_at r > fail_block_duration)"
  by (auto simp: is_target_disabled_def split: option.split)

lemma process_new_sends:
  "SendMessage j \<in> set (snd (process_new co io cfg ds job now)) \<longleftrightarrow>
     j = stamp_reply co ds job now \<and> (jb_bypass_rate_limit job \<or> \<not> ds_paused ds) \<and>
     (is_clean (jb_clean job) \<longrightarrow> tth_duration (jb_tth job) > 0) \<and>
     \<not> snd (is_target_disabled cfg (jb_target job) now (ds_fails ds)) \<and>
     fst (snd (limit_job cfg (ds_limiter ds) (stamp_reply co ds job now) now))"
  using SendMessage_not_hook [of j cfg "ds_limiter ds" "stamp_reply co ds job now" now]
  by (auto simp: process_new_def Let_def case_prod_unfold SendMessage_not_failure SendMessage_not_after split: sum.split)

lemma process_new_charge:
  "ds_limiter (fst (process_new co io cfg ds job now)) =
     (if (jb_bypass_rate_limit job \<or> \<not> ds_paused ds) \<and>
         (is_clean (jb_clean job) \<longrightarrow> tth_duration (jb_tth job) > 0) \<and>
         \<not> snd (is_target_disabled cfg (jb_target job) now (ds_fails ds))
      then fst (limit_job cfg (ds_limiter ds) (stamp_reply co ds job now) now) else ds_limiter ds)"
  by (auto simp: process_new_def after_send_def Let_def case_prod_unfold split: sum.split option.split)

text \<open>C14: a job is sent as a new message exactly when its platform has a sender, it is not a deletion, no
  tracked message could be edited in its place, delivery is not paused, a message to be cleaned has
  time left, its destination is not blocked for repeated failures and the rate limiter allows it; a bypass
  job skips the pause and the limiter; and the limiter is charged for exactly the other jobs
  that get that far: deletions, edits and suppressed messages cost no budget.\<close>

theorem send_exactly_when:
  "(SendMessage j \<in> set (snd (process_job co io cfg ds job now)) \<longleftrightarrow>
      j = stamp_reply co ds job now \<and> reaches_limit co io cfg ds job now \<and>
      (case ds_limiter ds of None \<Rightarrow> True
       | Some l \<Rightarrow> jb_bypass_rate_limit job \<or> rr_allowed (snd (check l (jb_target job) (jb_type job) now)))) \<and>
   ds_limiter (fst (process_job co io cfg ds job now)) =
     (if reaches_limit co io cfg ds job now \<and> \<not> jb_bypass_rate_limit job
      then map_option (\<lambda>l. fst (check l (jb_target job) (jb_type job) now)) (ds_limiter ds) else ds_limiter ds)"
proof (rule conjI)
  show "SendMessage j \<in> set (snd (process_job co io cfg ds job now)) \<longleftrightarrow>
      j = stamp_reply co ds job now \<and> reaches_limit co io cfg ds job now \<and>
      (case ds_limiter ds of None \<Rightarrow> True
       | Some l \<Rightarrow> jb_bypass_rate_limit job \<or> rr_allowed (snd (check l (jb_target job) (jb_type job) now)))"
    using SendMessage_not_edit [of j co io cfg ds job now]
    by (auto simp: process_job_def Let_def case_prod_unfold process_new_sends reaches_limit_def limit_go_stamped
        try_edit_done disabled_iff)
  show "ds_limiter (fst (process_job co io cfg ds job now)) =
     (if reaches_limit co io cfg ds job now \<and> \<not> jb_bypass_rate_limit job
      then map_option (\<lambda>l. fst (check l (jb_target job) (jb_type job) now)) (ds_limiter ds) else ds_limiter ds)"
    by (auto simp: process_job_def Let_def case_prod_unfold process_new_charge reaches_limit_def limit_job_charge
        try_edit_done disabled_iff)
qed

section \<open>Repeated failures\<close>

fun deliver_all ::
    "'c cache_ops \<Rightarrow> sender_io \<Rightarrow> delivery_config \<Rightarrow> 'c delivery_state \<Rightarrow> (job \<times> gotime) list
     \<Rightarrow> 'c delivery_state \<times> effect list" where
  "deliver_all co io cfg ds [] = (ds, [])"
| "deliver_all co io cfg ds ((job, now) # xs) =
     (let (ds1, es) = process_job co io cfg ds job now; (ds2, es') = deliver_all co io cfg ds1 xs in (ds2, es @ es'))"

text \<open>A plain alert to a destination whose sends all fail.\<close>

definition plain_failing :: "sender_io \<Rightarrow> delivery_config \<Rightarrow> 'c delivery_state \<Rightarrow> job \<Rightarrow> bool" where
  "plain_failing io cfg ds job \<longleftrightarrow> (\<forall>j. \<exists>e. io_send io j = Inl e) \<and>
     platform_from_type (jb_type job) \<in> set (dc_platforms cfg) \<and> jb_delete_sent_id job = [] \<and> jb_edit_key job = [] \<and>
     jb_reply_key job = [] \<and> \<not> is_clean (jb_clean job) \<and> ds_limiter ds = None \<and> \<not> ds_paused ds"

lemma failing_step:
  assumes "plain_failing io cfg ds job"
  shows "process_job co io cfg ds job now =
    (let (fails, disabled) = is_target_disabled cfg (jb_target job) now (ds_fails ds)
     in if disabled then (ds\<lparr>ds_fails := fails\<rparr>, [])
        else let (fails', es) = record_failure cfg job now fails in (ds\<lparr>ds_fails := fails'\<rparr>, SendMessage job # es))"
proof -
  obtain e where e: "io_send io job = Inl e" using assms by (auto simp: plain_failing_def)
  have "stamp_reply co ds job now = job" using assms by (simp add: plain_failing_def stamp_reply_def)
  then show ?thesis
    using assms e by (auto simp: plain_failing_def process_job_def process_new_def try_edit_def limit_job_def Let_def
        case_prod_unfold)
qed

lemma failing_below:
  assumes "plain_failing io cfg ds job"
    and "gget_or \<lparr>fr_count = 0, fr_blocked_at = zero_time\<rparr> (ds_fails ds) (jb_target job) = \<lparr>fr_count = k, fr_blocked_at = b\<rparr>"
    and "0 \<le> k" "k < dc_fail_threshold cfg"
  shows "process_job co io cfg ds job now =
     (ds\<lparr>ds_fails := gput (jb_target job) \<lparr>fr_count = k + 1,
          fr_blocked_at = (if k + 1 = dc_fail_threshold cfg then now else b)\<rparr> (ds_fails ds)\<rparr>,
      SendMessage job # (if k + 1 = dc_fail_threshold cfg \<and> dc_on_disabled cfg
         then [HookDisabled (jb_target job) (jb_name job) (jb_type job)] else []))"
proof -
  have "is_target_disabled cfg (jb_target job) now (ds_fails ds) = (ds_fails ds, False)"
    using assms(2-4) by (auto simp: is_target_disabled_def gget_or_def split: option.split)
  with failing_step [OF assms(1)] assms(2) show ?thesis
    by (simp add: record_failure_def Let_def)
qed

lemma failing_run:
  assumes "\<forall>x \<in> set jobs. plain_failing io cfg ds (fst x) \<and> jb_target (fst x) = target"
    and "gget_or \<lparr>fr_count = 0, fr_blocked_at = zero_time\<rparr> (ds_fails ds) target = \<lparr>fr_count = k, fr_blocked_at = b\<rparr>"
    and "0 \<le> k" "dc_fail_threshold cfg = k + int (length jobs)" "jobs \<noteq> []"
  shows "\<exists>fails. deliver_all co io cfg ds jobs = (ds\<lparr>ds_fails := fails\<rparr>, map (\<lambda>(j, _). SendMessage j) jobs @
         (if dc_on_disabled cfg then [HookDisabled target (jb_name (fst (last jobs))) (jb_type (fst (last jobs)))] else [])) \<and>
      gget fails target = Some \<lparr>fr_count = dc_fail_threshold cfg, fr_blocked_at = snd (last jobs)\<rparr>"
  using assms
proof (induction jobs arbitrary: ds k b)
  case (Cons x jobs)
  obtain j t where x: "x = (j, t)" by (cases x)
  have j: "plain_failing io cfg ds j" "jb_target j = target" using Cons.prems(1) by (simp_all add: x)
  let ?fs = "gput target \<lparr>fr_count = k + 1, fr_blocked_at = (if k + 1 = dc_fail_threshold cfg then t else b)\<rparr> (ds_fails ds)"
  let ?ds = "ds\<lparr>ds_fails := ?fs\<rparr>"
  have step: "process_job co io cfg ds j t = (?ds, SendMessage j # (if k + 1 = dc_fail_threshold cfg \<and> dc_on_disabled cfg
         then [HookDisabled target (jb_name j) (jb_type j)] else []))"
    using failing_below [OF j(1), where k = k and b = b and now = t and co = co] j(2) Cons.prems by simp
  have plain: "\<forall>x \<in> set jobs. plain_failing io cfg ?ds (fst x) \<and> jb_target (fst x) = target"
    using Cons.prems(1) by (simp add: plain_failing_def)
  show ?case
  proof (cases "jobs = []")
    case True
    with step Cons.prems(4) show ?thesis by (auto simp: x gget_put)
  next
    case False
    then have k: "k + 1 \<noteq> dc_fail_threshold cfg" using Cons.prems(4) by simp
    have "\<exists>fails. deliver_all co io cfg ?ds jobs = (?ds\<lparr>ds_fails := fails\<rparr>, map (\<lambda>(j, _). SendMessage j) jobs @
         (if dc_on_disabled cfg then [HookDisabled target (jb_name (fst (last jobs))) (jb_type (fst (last jobs)))] else [])) \<and>
      gget fails target = Some \<lparr>fr_count = dc_fail_threshold cfg, fr_blocked_at = snd (last jobs)\<rparr>"
      by (rule Cons.IH [OF plain, where k = "k + 1" and b = b])
        (use Cons.prems False k in \<open>simp_all add: gget_or_put\<close>)
    then show ?thesis using step k False by (auto simp: x)
  qed
qed simp

lemma blocked_job:
  assumes "gget (ds_fails ds) (jb_target job) = Some \<lparr>fr_count = dc_fail_threshold cfg, fr_blocked_at = b\<rparr>"
    and "t \<le> b + fail_block_duration"
  shows "SendMessage j \<notin> set (snd (process_job co io cfg ds job t))"
    and "jb_delete_sent_id job = [] \<Longrightarrow> jb_edit_key job = [] \<Longrightarrow> process_job co io cfg ds job t = (ds, [])"
proof -
  have blocked: "is_target_disabled cfg (jb_target job) t (ds_fails ds) = (ds_fails ds, True)"
    using assms by (simp add: is_target_disabled_def)
  then show "SendMessage j \<notin> set (snd (process_job co io cfg ds job t))"
    using SendMessage_not_edit [of j co io cfg ds job t]
    by (auto simp: process_job_def process_new_sends Let_def case_prod_unfold)
  show "process_job co io cfg ds job t = (ds, [])" if "jb_delete_sent_id job = []" "jb_edit_key job = []"
    using blocked that by (simp add: process_job_def try_edit_def process_new_def Let_def)
qed


definition null_cache :: "unit cache_ops" where
  "null_cache = \<lparr>co_get = (\<lambda>_ _ _. None), co_set = (\<lambda>_ _ _ _ _. ())\<rparr>"

definition failing_io :: sender_io where
  "failing_io = \<lparr>io_send = (\<lambda>_. Inl TransientError), io_edit = (\<lambda>_ _. False)\<rparr>"

definition sample_delivery_config :: delivery_config where
  "sample_delivery_config = \<lparr>dc_platforms = [''discord''], dc_fail_threshold = 2, dc_hooks = False,
     dc_on_disabled = True, dc_snapshots = False\<rparr>"

definition sample_delivery_state :: "unit delivery_state" where
  "sample_delivery_state = \<lparr>ds_tracker = \<lparr>mt_cache = (), mt_replies = []\<rparr>, ds_fails = [], ds_limiter = None,
     ds_paused = False\<rparr>"


end
