(* ===== verification/Weather.thy ===== *)
theory Weather
  imports Prelude
begin

text \<open>
  \<open>tracker/weather.go\<close>: the weather of the S2 cells, from weather webhooks, from forecasts, and inferred from
  the boosts of pokemon by votes; its change events, its readers and its eviction. Times are unix seconds, hours
  are their first second. A cell is a record behind a pointer in Go; here its update is a map update. The channel
  of change events holds at most 100, and a send that would block is dropped. The position and outline of a cell
  come from the S2 library, as the argument \<open>geo\<close>.
\<close>

section \<open>State\<close>

record weather_change =
  wc_longitude :: real
  wc_latitude :: real
  wc_cell :: string
  wc_condition :: int
  wc_old_condition :: int
  wc_updated :: int
  wc_source :: string
  wc_coords :: "(real \<times> real) list"

record local_cell =
  lc_votes :: "int list"
  lc_hour :: int
  lc_weather :: int
  lc_last_seen :: int

record controller_cell =
  cc_last_check :: int
  cc_hours :: "(int, int) gomap"
  cc_last_seen :: int

record weather_tracker =
  wt_controller :: "(string, controller_cell) gomap"
  wt_local :: "(string, local_cell) gomap"
  wt_changes :: "weather_change list"
  wt_idle_secs :: int

definition no_votes :: "int list" where
  "no_votes = replicate 8 0"

definition new_weather_tracker :: "int \<Rightarrow> weather_tracker" where
  "new_weather_tracker refresh_hours =
     \<lparr>wt_controller = [], wt_local = [], wt_changes = [],
      wt_idle_secs = (if refresh_hours \<le> 0 then 24 * 3600
                      else if refresh_hours * 3600 * 2 > 24 * 3600 then refresh_hours * 3600 * 2 else 24 * 3600)\<rparr>"

definition hour_of :: "int \<Rightarrow> int" where
  "hour_of t = t - t mod 3600"

definition touch_controller :: "weather_tracker \<Rightarrow> string \<Rightarrow> int \<Rightarrow> controller_cell" where
  "touch_controller wt cell now =
     (case gget (wt_controller wt) cell of Some cd \<Rightarrow> cd | None \<Rightarrow> \<lparr>cc_last_check = 0, cc_hours = [], cc_last_seen = 0\<rparr>)
       \<lparr>cc_last_seen := now\<rparr>"

definition touch_local :: "weather_tracker \<Rightarrow> string \<Rightarrow> int \<Rightarrow> local_cell" where
  "touch_local wt cell now =
     (case gget (wt_local wt) cell of Some ld \<Rightarrow> ld
      | None \<Rightarrow> \<lparr>lc_votes = no_votes, lc_hour = 0, lc_weather = 0, lc_last_seen = 0\<rparr>)
       \<lparr>lc_last_seen := now\<rparr>"

definition put_controller :: "string \<Rightarrow> controller_cell \<Rightarrow> weather_tracker \<Rightarrow> weather_tracker" where
  "put_controller cell cd wt = wt\<lparr>wt_controller := gput cell cd (wt_controller wt)\<rparr>"

definition put_local :: "string \<Rightarrow> local_cell \<Rightarrow> weather_tracker \<Rightarrow> weather_tracker" where
  "put_local cell ld wt = wt\<lparr>wt_local := gput cell ld (wt_local wt)\<rparr>"

definition emit_change :: "weather_change \<Rightarrow> weather_tracker \<Rightarrow> weather_tracker" where
  "emit_change c wt = (if length (wt_changes wt) < 100 then wt\<lparr>wt_changes := wt_changes wt @ [c]\<rparr> else wt)"

section \<open>Writers\<close>

definition webhook_changed :: "controller_cell \<Rightarrow> int \<Rightarrow> int \<Rightarrow> bool" where
  "webhook_changed cd condition timestamp =
     (let hour = hour_of timestamp;
          previous = gget (cc_hours cd) (hour - 3600);
          existing = gget (cc_hours cd) hour;
          is_new = existing = None \<or> gget_or 0 (cc_hours cd) hour \<noteq> condition \<or> cc_last_check cd < hour
      in previous \<noteq> None \<and> gget_or 0 (cc_hours cd) (hour - 3600) \<noteq> condition \<and> is_new)"

definition update_from_webhook ::
  "weather_tracker \<Rightarrow> string \<Rightarrow> int \<Rightarrow> int \<Rightarrow> real \<Rightarrow> real \<Rightarrow> (real \<times> real) list \<Rightarrow> int \<Rightarrow> weather_tracker" where
  "update_from_webhook wt cell condition timestamp lat lon polygon now =
     (let cd = touch_controller wt cell now;
          hour = hour_of timestamp;
          changed = webhook_changed cd condition timestamp;
          wt1 = put_controller cell (cd\<lparr>cc_hours := gput hour condition (cc_hours cd), cc_last_check := timestamp\<rparr>) wt
      in if changed
         then emit_change \<lparr>wc_longitude = lon, wc_latitude = lat, wc_cell = cell, wc_condition = condition,
                wc_old_condition = gget_or 0 (cc_hours cd) (hour - 3600), wc_updated = timestamp,
                wc_source = ''webhook'', wc_coords = polygon\<rparr> wt1
         else wt1)"

definition set_hour_weather :: "weather_tracker \<Rightarrow> string \<Rightarrow> int \<Rightarrow> int \<Rightarrow> int \<Rightarrow> weather_tracker" where
  "set_hour_weather wt cell hour condition now =
     (let cd = touch_controller wt cell now
      in put_controller cell (cd\<lparr>cc_hours := gput hour condition (cc_hours cd)\<rparr>) wt)"

definition cast_vote :: "int \<Rightarrow> int list \<Rightarrow> int list" where
  "cast_vote w votes = map (\<lambda>i. if int i = w then votes ! i + 1 else votes ! i - 1) [0..<length votes]"

definition check_weather_on_monster ::
  "(real \<Rightarrow> real \<Rightarrow> (real \<times> real) \<times> (real \<times> real) list) \<Rightarrow>
   weather_tracker \<Rightarrow> string \<Rightarrow> real \<Rightarrow> real \<Rightarrow> int \<Rightarrow> int \<Rightarrow> weather_tracker" where
  "check_weather_on_monster geo wt cell lat lon w now =
     (let hour = hour_of now;
          ld = touch_local wt cell now;
          cd0 = touch_controller wt cell now;
          wt0 = put_controller cell cd0 (put_local cell ld wt)
      in if now \<le> hour + 30 \<or> w = 0 then wt0
         else
           let cd = (if cc_last_check cd0 = 0 then cd0\<lparr>cc_last_check := hour - 3600\<rparr> else cd0);
               wt1 = put_controller cell cd wt0;
               current = gget_or 0 (cc_hours cd) hour
           in if w = current \<and> cc_last_check cd \<ge> hour then put_local cell (ld\<lparr>lc_votes := no_votes\<rparr>) wt1
              else
                let votes = cast_vote w (lc_votes ld)
                in if \<not> list_ex (\<lambda>v. v > 4) votes then put_local cell (ld\<lparr>lc_votes := votes\<rparr>) wt1
                   else
                     let old = (if current = 0 then gget_or 0 (cc_hours cd) (hour - 3600) else current);
                         wt2 = put_controller cell (cd\<lparr>cc_hours := gput hour w (cc_hours cd), cc_last_check := now\<rparr>) wt1;
                         ld1 = ld\<lparr>lc_votes := no_votes\<rparr>;
                         ld2 = ld1\<lparr>lc_hour := hour, lc_weather := w\<rparr>
                     in if old = 0 \<or> old = w then put_local cell ld2 wt2
                        else if lc_hour ld \<noteq> hour \<or> lc_weather ld \<noteq> w
                        then emit_change \<lparr>wc_longitude = snd (fst (geo lat lon)), wc_latitude = fst (fst (geo lat lon)),
                               wc_cell = cell, wc_condition = w, wc_old_condition = old, wc_updated = now,
                               wc_source = ''fromMonster'', wc_coords = snd (geo lat lon)\<rparr> (put_local cell ld2 wt2)
                        else put_local cell ld1 wt2)"

section \<open>Eviction\<close>

definition prune_hours :: "int \<Rightarrow> controller_cell \<Rightarrow> controller_cell" where
  "prune_hours oldest cd = cd\<lparr>cc_hours := gkeep (\<lambda>ts _. \<not> ts < oldest) (cc_hours cd)\<rparr>"

definition evict_weather :: "weather_tracker \<Rightarrow> int \<Rightarrow> weather_tracker \<times> string list" where
  "evict_weather wt now =
     (let oldest = hour_of now - 2 * 3600;
          idle_before = now - wt_idle_secs wt;
          gone1 = gkeep (\<lambda>_ cd. cc_last_seen cd < idle_before) (wt_controller wt);
          controller = gmapv (prune_hours oldest) (gkeep (\<lambda>_ cd. \<not> cc_last_seen cd < idle_before) (wt_controller wt));
          gone2 = gkeep (\<lambda>cell ld. lc_last_seen ld < idle_before \<and> gget controller cell = None) (wt_local wt);
          locals = gkeep (\<lambda>_ ld. \<not> lc_last_seen ld < idle_before) (wt_local wt)
      in (wt\<lparr>wt_controller := controller, wt_local := locals\<rparr>, remdups (map fst gone1 @ map fst gone2)))"

section \<open>Readers\<close>

definition get_current_weather_in_cell :: "weather_tracker \<Rightarrow> string \<Rightarrow> int \<Rightarrow> int" where
  "get_current_weather_in_cell wt cell now =
     (let hour = hour_of now;
          weather = (case gget (wt_controller wt) cell of
              Some cd \<Rightarrow> if cc_last_check cd \<ge> hour then gget_or 0 (cc_hours cd) hour else 0
            | None \<Rightarrow> 0)
      in case gget (wt_local wt) cell of
           Some ld \<Rightarrow> if lc_hour ld = hour then lc_weather ld else weather
         | None \<Rightarrow> weather)"

definition get_weather_forecast :: "weather_tracker \<Rightarrow> string \<Rightarrow> int \<Rightarrow> int \<times> int" where
  "get_weather_forecast wt cell now =
     (let hour = hour_of now;
          (current, next_hour) = (case gget (wt_controller wt) cell of
              Some cd \<Rightarrow> (gget_or 0 (cc_hours cd) hour, gget_or 0 (cc_hours cd) (hour + 3600))
            | None \<Rightarrow> (0, 0))
      in case gget (wt_local wt) cell of
           Some ld \<Rightarrow> if lc_hour ld = hour then (lc_weather ld, next_hour) else (current, next_hour)
         | None \<Rightarrow> (current, next_hour))"

definition export_cell_weather :: "weather_tracker \<Rightarrow> string \<Rightarrow> int \<Rightarrow> (int, int) gomap" where
  "export_cell_weather wt cell now =
     (let hour = hour_of now;
          result = (case gget (wt_controller wt) cell of
              Some cd \<Rightarrow> gkeep (\<lambda>ts _. ts \<ge> hour - 3600) (cc_hours cd)
            | None \<Rightarrow> [])
      in case gget (wt_local wt) cell of
           Some ld \<Rightarrow> if lc_hour ld = hour then gput hour (lc_weather ld) result else result
         | None \<Rightarrow> result)"

definition has_hour_weather :: "weather_tracker \<Rightarrow> string \<Rightarrow> int \<Rightarrow> bool" where
  "has_hour_weather wt cell hour =
     (case gget (wt_controller wt) cell of Some cd \<Rightarrow> gget (cc_hours cd) hour \<noteq> None | None \<Rightarrow> False)"

definition hour_count :: "weather_tracker \<Rightarrow> string \<Rightarrow> int" where
  "hour_count wt cell = (case gget (wt_controller wt) cell of Some cd \<Rightarrow> int (length (cc_hours cd)) | None \<Rightarrow> 0)"

definition has_cell :: "weather_tracker \<Rightarrow> string \<Rightarrow> bool" where
  "has_cell wt cell \<longleftrightarrow> gget (wt_controller wt) cell \<noteq> None \<or> gget (wt_local wt) cell \<noteq> None"

section \<open>Runs\<close>

datatype weather_op =
    Webhook string int int real real "(real \<times> real) list" int
  | Monster string real real int int
  | Forecast string int int int
  | Evict int
  | Receive

fun weather_step ::
  "(real \<Rightarrow> real \<Rightarrow> (real \<times> real) \<times> (real \<times> real) list) \<Rightarrow> weather_tracker \<Rightarrow> weather_op \<Rightarrow> weather_tracker" where
  "weather_step geo wt (Webhook cell condition ts lat lon poly now) = update_from_webhook wt cell condition ts lat lon poly now"
| "weather_step geo wt (Monster cell lat lon w now) = check_weather_on_monster geo wt cell lat lon w now"
| "weather_step geo wt (Forecast cell hour condition now) = set_hour_weather wt cell hour condition now"
| "weather_step geo wt (Evict now) = fst (evict_weather wt now)"
| "weather_step geo wt Receive = wt\<lparr>wt_changes := tl (wt_changes wt)\<rparr>"

definition weather_run where
  "weather_run geo refresh ops = foldl (weather_step geo) (new_weather_tracker refresh) ops"

fun weather_op_time :: "weather_op \<Rightarrow> int option" where
  "weather_op_time (Webhook cell condition ts lat lon poly now) = Some now"
| "weather_op_time (Monster cell lat lon w now) = Some now"
| "weather_op_time (Forecast cell hour condition now) = Some now"
| "weather_op_time (Evict now) = Some now"
| "weather_op_time Receive = None"

text \<open>No webhook and no forecast speaks of an hour more than 21 hours after its arrival.\<close>

fun within_horizon :: "weather_op \<Rightarrow> bool" where
  "within_horizon (Webhook cell condition ts lat lon poly now) \<longleftrightarrow> hour_of ts \<le> now + 21 * 3600"
| "within_horizon (Forecast cell hour condition now) \<longleftrightarrow> hour \<le> now + 21 * 3600"
| "within_horizon _ \<longleftrightarrow> True"

definition weather_trace_ok :: "weather_op list \<Rightarrow> int \<Rightarrow> bool" where
  "weather_trace_ok ops now \<longleftrightarrow> sorted (0 # List.map_filter weather_op_time ops @ [now]) \<and> list_all within_horizon ops"

section \<open>What a step does to the cells\<close>

lemma put_simps [simp]:
  "wt_controller (put_controller c cd wt) = gput c cd (wt_controller wt)"
  "wt_local (put_controller c cd wt) = wt_local wt"
  "wt_changes (put_controller c cd wt) = wt_changes wt"
  "wt_idle_secs (put_controller c cd wt) = wt_idle_secs wt"
  "wt_local (put_local c ld wt) = gput c ld (wt_local wt)"
  "wt_controller (put_local c ld wt) = wt_controller wt"
  "wt_changes (put_local c ld wt) = wt_changes wt"
  "wt_idle_secs (put_local c ld wt) = wt_idle_secs wt"
  "wt_controller (emit_change ch wt) = wt_controller wt"
  "wt_local (emit_change ch wt) = wt_local wt"
  "wt_idle_secs (emit_change ch wt) = wt_idle_secs wt" for ch
  by (simp_all add: put_controller_def put_local_def emit_change_def)

lemma touch_seen [simp]:
  "cc_last_seen (touch_controller wt c now) = now" "lc_last_seen (touch_local wt c now) = now"
  by (simp_all add: touch_controller_def touch_local_def)

lemma hour_of_bounds: "hour_of t \<le> t" "t < hour_of t + 3600"
  using pos_mod_bound [of 3600 t] pos_mod_sign [of 3600 t] by (simp_all add: hour_of_def)

lemma hour_of_mono: "s \<le> t \<Longrightarrow> hour_of s \<le> hour_of t"
proof -
  assume "s \<le> t"
  then have "s div 3600 \<le> t div 3600" by (rule zdiv_mono1) simp
  moreover have "hour_of x = 3600 * (x div 3600)" for x by (simp add: hour_of_def minus_mod_eq_mult_div)
  ultimately show "hour_of s \<le> hour_of t" by simp
qed

definition monster_controller :: "weather_tracker \<Rightarrow> string \<Rightarrow> int \<Rightarrow> int \<Rightarrow> controller_cell \<Rightarrow> bool" where
  "monster_controller wt cell w now cd \<longleftrightarrow> cc_last_seen cd = now \<and>
     (cc_hours cd = cc_hours (touch_controller wt cell now) \<or>
      cc_hours cd = gput (hour_of now) w (cc_hours (touch_controller wt cell now)) \<and>
      list_ex (\<lambda>v. v > 4) (cast_vote w (lc_votes (touch_local wt cell now))) \<and> w \<noteq> 0 \<and> hour_of now + 30 < now)"

definition monster_local :: "weather_tracker \<Rightarrow> string \<Rightarrow> int \<Rightarrow> int \<Rightarrow> local_cell \<Rightarrow> bool" where
  "monster_local wt cell w now ld \<longleftrightarrow> lc_last_seen ld = now \<and>
     lc_hour ld \<in> {lc_hour (touch_local wt cell now), hour_of now} \<and>
     (if w = 0 \<or> now \<le> hour_of now + 30 then lc_votes ld = lc_votes (touch_local wt cell now)
      else lc_votes ld = no_votes \<or>
        lc_votes ld = cast_vote w (lc_votes (touch_local wt cell now)) \<and> \<not> list_ex (\<lambda>v. v > 4) (lc_votes ld))"

lemma monster_step:
  "\<exists>cd ld. monster_controller wt cell w now cd \<and> monster_local wt cell w now ld \<and>
     (\<forall>c. gget (wt_controller (check_weather_on_monster geo wt cell lat lon w now)) c =
        (if c = cell then Some cd else gget (wt_controller wt) c)) \<and>
     (\<forall>c. gget (wt_local (check_weather_on_monster geo wt cell lat lon w now)) c =
        (if c = cell then Some ld else gget (wt_local wt) c))"
  unfolding check_weather_on_monster_def Let_def
  by (auto simp: gget_put monster_controller_def monster_local_def)

section \<open>The invariant\<close>

definition controller_ok :: "int \<Rightarrow> controller_cell \<Rightarrow> bool" where
  "controller_ok now cd \<longleftrightarrow> gok (cc_hours cd) \<and> cc_last_seen cd \<le> now \<and>
     (\<forall>ts v. gget (cc_hours cd) ts = Some v \<longrightarrow> ts \<le> cc_last_seen cd + 75600)"

definition local_ok :: "weather_tracker \<Rightarrow> string \<Rightarrow> local_cell \<Rightarrow> bool" where
  "local_ok wt c ld \<longleftrightarrow> lc_hour ld \<le> lc_last_seen ld \<and> length (lc_votes ld) = 8 \<and>
     (\<exists>cd. gget (wt_controller wt) c = Some cd \<and> lc_last_seen ld \<le> cc_last_seen cd)"

definition weather_inv :: "weather_tracker \<Rightarrow> int \<Rightarrow> bool" where
  "weather_inv wt now \<longleftrightarrow> 0 \<le> now \<and> gok (wt_controller wt) \<and> gok (wt_local wt) \<and> 86400 \<le> wt_idle_secs wt \<and>
     (\<forall>c cd. gget (wt_controller wt) c = Some cd \<longrightarrow> controller_ok now cd) \<and>
     (\<forall>c ld. gget (wt_local wt) c = Some ld \<longrightarrow> local_ok wt c ld)"

lemma controller_ok_later: "controller_ok now cd \<Longrightarrow> now \<le> now' \<Longrightarrow> controller_ok now' cd"
  by (auto simp: controller_ok_def)

lemma weather_inv_later: "weather_inv wt now \<Longrightarrow> now \<le> now' \<Longrightarrow> weather_inv wt now'"
  unfolding weather_inv_def by (meson controller_ok_later order_trans)

lemma weather_inv_new: "0 \<le> now \<Longrightarrow> weather_inv (new_weather_tracker refresh) now"
  by (simp add: weather_inv_def new_weather_tracker_def)

lemma touch_controller_ok: "weather_inv wt now \<Longrightarrow> controller_ok now (touch_controller wt c now)"
  by (cases "gget (wt_controller wt) c")
    (fastforce simp: weather_inv_def touch_controller_def controller_ok_def)+

lemma touch_local_ok:
  "weather_inv wt now \<Longrightarrow> lc_hour (touch_local wt c now) \<le> now \<and> length (lc_votes (touch_local wt c now)) = 8"
proof (cases "gget (wt_local wt) c")
  case (Some ld)
  assume inv: "weather_inv wt now"
  then have "local_ok wt c ld" using Some by (simp add: weather_inv_def)
  moreover from this obtain cd where "gget (wt_controller wt) c = Some cd" "lc_last_seen ld \<le> cc_last_seen cd"
    by (auto simp: local_ok_def)
  moreover have "cc_last_seen cd \<le> now" using inv calculation(2) by (auto simp: weather_inv_def controller_ok_def)
  ultimately show ?thesis using Some by (simp add: touch_local_def local_ok_def)
qed (simp add: weather_inv_def touch_local_def no_votes_def)

lemma controller_ok_put:
  "controller_ok now cd \<Longrightarrow> cc_last_seen cd = now \<Longrightarrow> h \<le> now + 75600 \<Longrightarrow> cc_hours cd' = gput h v (cc_hours cd) \<Longrightarrow>
   cc_last_seen cd' = now \<Longrightarrow> controller_ok now cd'"
  by (auto simp: controller_ok_def gget_put intro: gok_put)

text \<open>A step that writes one controller cell, its local cell perhaps too, keeps the invariant.\<close>

lemma weather_inv_write:
  assumes inv: "weather_inv wt now" and cd: "controller_ok now cd" "cc_last_seen cd = now"
    and c: "\<And>x. gget (wt_controller wt') x = (if x = cell then Some cd else gget (wt_controller wt) x)"
    and l: "\<And>x. gget (wt_local wt') x = gget (wt_local wt) x \<or>
      x = cell \<and> (\<exists>ld. gget (wt_local wt') x = Some ld \<and> lc_hour ld \<le> lc_last_seen ld \<and>
        length (lc_votes ld) = 8 \<and> lc_last_seen ld \<le> now)"
    and g: "gok (wt_controller wt')" "gok (wt_local wt')" "wt_idle_secs wt' = wt_idle_secs wt"
  shows "weather_inv wt' now"
proof -
  have "controller_ok now d" if "gget (wt_controller wt') x = Some d" for x d
    using that c [of x] cd(1) inv by (auto simp: weather_inv_def split: if_splits)
  moreover have "local_ok wt' x ld" if "gget (wt_local wt') x = Some ld" for x ld
  proof (cases "gget (wt_local wt') x = gget (wt_local wt) x")
    case True
    then have "local_ok wt x ld" using that inv by (simp add: weather_inv_def)
    then obtain d where d: "gget (wt_controller wt) x = Some d" "lc_last_seen ld \<le> cc_last_seen d"
        "lc_hour ld \<le> lc_last_seen ld" "length (lc_votes ld) = 8"
      by (auto simp: local_ok_def)
    moreover have "cc_last_seen d \<le> now" using d(1) inv by (auto simp: weather_inv_def controller_ok_def)
    ultimately show ?thesis using c [of x] cd(2) by (auto simp: local_ok_def)
  next
    case False
    with l [of x] that c [of x] cd(2) show ?thesis by (auto simp: local_ok_def)
  qed
  ultimately show ?thesis using inv g by (simp add: weather_inv_def)
qed

lemma gok_writes:
  "gok (wt_controller wt) \<Longrightarrow> gok (wt_controller (put_controller c cd wt))"
  "gok (wt_local wt) \<Longrightarrow> gok (wt_local (put_local c ld wt))"
  by (simp_all add: gok_put)

lemma monster_frame:
  "gok (wt_controller wt) \<Longrightarrow> gok (wt_controller (check_weather_on_monster geo wt cell lat lon w now))"
  "gok (wt_local wt) \<Longrightarrow> gok (wt_local (check_weather_on_monster geo wt cell lat lon w now))"
  "wt_idle_secs (check_weather_on_monster geo wt cell lat lon w now) = wt_idle_secs wt"
  unfolding check_weather_on_monster_def Let_def by (auto intro!: gok_put)

lemma gget_mapv_keep: "gok m \<Longrightarrow> gget (gmapv f (gkeep P m)) k =
    (case gget m k of Some v \<Rightarrow> if P k v then Some (f v) else None | None \<Rightarrow> None)"
  by (simp add: gget_mapv gget_keep split: option.split)

lemma evict_cells:
  assumes "weather_inv wt now'"
  shows "gget (wt_controller (fst (evict_weather wt now))) c =
      (case gget (wt_controller wt) c of Some cd \<Rightarrow>
         if cc_last_seen cd < now - wt_idle_secs wt then None else Some (prune_hours (hour_of now - 7200) cd)
       | None \<Rightarrow> None)"
    and "gget (wt_local (fst (evict_weather wt now))) c =
      (case gget (wt_local wt) c of Some ld \<Rightarrow>
         if lc_last_seen ld < now - wt_idle_secs wt then None else Some ld | None \<Rightarrow> None)"
  using assms
  by (auto simp: evict_weather_def Let_def weather_inv_def gget_mapv_keep gget_keep split: option.split)

lemma weather_inv_evict:
  assumes inv: "weather_inv wt now" shows "weather_inv (fst (evict_weather wt now)) now"
proof -
  note cells = evict_cells [OF inv]
  have g: "gok (wt_controller (fst (evict_weather wt now)))" "gok (wt_local (fst (evict_weather wt now)))"
      "wt_idle_secs (fst (evict_weather wt now)) = wt_idle_secs wt"
    using inv by (auto simp: evict_weather_def Let_def weather_inv_def intro!: gok_intros)
  have "controller_ok now d" if prem: "gget (wt_controller (fst (evict_weather wt now))) x = Some d" for x d
  proof -
    obtain cd where cd: "gget (wt_controller wt) x = Some cd" "d = prune_hours (hour_of now - 7200) cd"
      using prem cells(1) [of now x] by (cases "gget (wt_controller wt) x") (auto split: if_splits)
    then have ok: "controller_ok now cd" using inv by (simp add: weather_inv_def)
    then show ?thesis by (auto simp: cd(2) controller_ok_def prune_hours_def gget_keep intro: gok_keep split: option.splits)
  qed
  moreover have "local_ok (fst (evict_weather wt now)) x ld" if prem: "gget (wt_local (fst (evict_weather wt now))) x = Some ld" for x ld
  proof -
    have l: "gget (wt_local wt) x = Some ld" "\<not> lc_last_seen ld < now - wt_idle_secs wt"
      using prem unfolding cells(2) by (auto split: option.splits if_splits)
    then have "local_ok wt x ld" using inv by (simp add: weather_inv_def)
    with l(2) show ?thesis by (auto simp: local_ok_def cells prune_hours_def)
  qed
  ultimately show ?thesis using g inv by (simp add: weather_inv_def)
qed

lemma weather_inv_webhook:
  assumes inv: "weather_inv wt now" and h: "hour_of ts \<le> now + 75600"
  shows "weather_inv (update_from_webhook wt cell condition ts lat lon poly now) now"
proof -
  let ?cd = "touch_controller wt cell now"
  let ?cd' = "?cd\<lparr>cc_hours := gput (hour_of ts) condition (cc_hours ?cd), cc_last_check := ts\<rparr>"
  have ok: "controller_ok now ?cd'"
    using controller_ok_put [OF touch_controller_ok [OF inv, of cell] _ h, of ?cd'] by simp
  show ?thesis
  proof (rule weather_inv_write [OF inv ok, where cell = cell])
    show "gok (wt_controller (update_from_webhook wt cell condition ts lat lon poly now))"
      using inv by (simp add: update_from_webhook_def Let_def gok_put weather_inv_def)
  qed (use inv in \<open>simp_all add: update_from_webhook_def Let_def gget_put weather_inv_def\<close>)
qed

lemma weather_inv_forecast:
  assumes inv: "weather_inv wt now" and h: "hour \<le> now + 75600"
  shows "weather_inv (set_hour_weather wt cell hour condition now) now"
proof -
  let ?cd = "touch_controller wt cell now"
  let ?cd' = "?cd\<lparr>cc_hours := gput hour condition (cc_hours ?cd)\<rparr>"
  have ok: "controller_ok now ?cd'"
    using controller_ok_put [OF touch_controller_ok [OF inv, of cell] _ h, of ?cd'] by simp
  show ?thesis
  proof (rule weather_inv_write [OF inv ok, where cell = cell])
    show "gok (wt_controller (set_hour_weather wt cell hour condition now))"
      using inv by (simp add: set_hour_weather_def Let_def gok_put weather_inv_def)
  qed (use inv in \<open>simp_all add: set_hour_weather_def Let_def gget_put weather_inv_def\<close>)
qed

lemma weather_inv_monster:
  assumes inv: "weather_inv wt now"
  shows "weather_inv (check_weather_on_monster geo wt cell lat lon w now) now"
proof -
  let ?wt' = "check_weather_on_monster geo wt cell lat lon w now"
  obtain cd ld where cd: "monster_controller wt cell w now cd" and ld: "monster_local wt cell w now ld"
    and c: "\<And>x. gget (wt_controller ?wt') x = (if x = cell then Some cd else gget (wt_controller wt) x)"
    and l: "\<And>x. gget (wt_local ?wt') x = (if x = cell then Some ld else gget (wt_local wt) x)"
    using monster_step [of wt cell w now geo lat lon] by blast
  have seen: "cc_last_seen cd = now" using cd by (simp add: monster_controller_def)
  have touched: "controller_ok now (touch_controller wt cell now)" using inv by (rule touch_controller_ok)
  have ok: "controller_ok now cd"
    using cd touched hour_of_bounds(1) [of now]
      controller_ok_put [OF touched touch_seen(1), of "hour_of now" cd w]
    by (auto simp: monster_controller_def controller_ok_def)
  have l': "gget (wt_local ?wt') x = gget (wt_local wt) x \<or>
      x = cell \<and> (\<exists>ld. gget (wt_local ?wt') x = Some ld \<and> lc_hour ld \<le> lc_last_seen ld \<and>
        length (lc_votes ld) = 8 \<and> lc_last_seen ld \<le> now)" for x
    using l [of x] ld touch_local_ok [OF inv, of cell] hour_of_bounds(1) [of now]
    by (auto simp: monster_local_def cast_vote_def no_votes_def split: if_splits)
  show ?thesis
    by (rule weather_inv_write [OF inv ok seen c l'])
      (use inv in \<open>simp_all add: monster_frame weather_inv_def\<close>)
qed

lemma weather_inv_step:
  assumes inv: "weather_inv wt now" and t: "\<And>now'. weather_op_time p = Some now' \<Longrightarrow> now \<le> now'" and h: "within_horizon p"
  shows "weather_inv (weather_step geo wt p) (case weather_op_time p of Some t \<Rightarrow> t | None \<Rightarrow> now)"
  using t h weather_inv_later [OF inv]
  by (cases p)
    (simp_all add: weather_inv_webhook weather_inv_forecast weather_inv_monster weather_inv_evict,
     use inv in \<open>simp add: weather_inv_def local_ok_def\<close>)

lemma weather_inv_fold:
  assumes "weather_inv wt now" and "sorted (now # List.map_filter weather_op_time ops)" and "list_all within_horizon ops"
  shows "weather_inv (foldl (weather_step geo) wt ops) (last (now # List.map_filter weather_op_time ops))"
  using assms
proof (induction ops arbitrary: wt now)
  case (Cons p ops)
  have "weather_inv (weather_step geo wt p) (case weather_op_time p of Some t \<Rightarrow> t | None \<Rightarrow> now)"
    using Cons.prems by (intro weather_inv_step) (auto simp: map_filter_simps)
  from Cons.IH [OF this] Cons.prems(2,3) show ?case
    by (cases "weather_op_time p") (auto simp: map_filter_simps)
qed (simp add: map_filter_simps)

lemma weather_inv_run:
  assumes "weather_trace_ok ops now" shows "weather_inv (weather_run geo refresh ops) now"
proof -
  have srt: "sorted (0 # List.map_filter weather_op_time ops)" "last (0 # List.map_filter weather_op_time ops) \<le> now"
    using assms by (auto simp: weather_trace_ok_def sorted_append)
  have "weather_inv (weather_run geo refresh ops) (last (0 # List.map_filter weather_op_time ops))"
    unfolding weather_run_def using assms srt(1) weather_inv_new [of 0]
    by (intro weather_inv_fold) (simp_all add: weather_trace_ok_def)
  then show ?thesis using srt(2) by (rule weather_inv_later)
qed

section \<open>Eviction\<close>

lemma keys_gkeep: "gok m \<Longrightarrow> fst ` set (gkeep P m) = {k. \<exists>v. gget m k = Some v \<and> P k v}"
  by (rule set_eqI) (simp add: gget_in_keys [symmetric] gget_keep split: option.split)

lemma evicted_list:
  assumes inv: "weather_inv wt now"
  shows "c \<in> set (snd (evict_weather wt now)) \<longleftrightarrow>
    (\<exists>cd. gget (wt_controller wt) c = Some cd \<and> cc_last_seen cd < now - wt_idle_secs wt) \<or>
    (\<exists>ld. gget (wt_local wt) c = Some ld \<and> lc_last_seen ld < now - wt_idle_secs wt \<and>
      gget (wt_controller (fst (evict_weather wt now))) c = None)"
proof -
  have "gok (wt_controller wt)" "gok (wt_local wt)" using inv by (simp_all add: weather_inv_def)
  then show ?thesis by (simp add: evict_weather_def Let_def keys_gkeep)
qed

text \<open>A sweep of the weather tracker reports exactly the cells that held state before it and hold none after it,
  each once: a cell whose inferred weather is still fresh is never handed to the eviction callback. The reason is
  an invariant of every run on a clock that does not go back: inferred state is never fresher than the webhook
  state of its cell.\<close>

theorem evicted_cells_exact:
  assumes "weather_trace_ok ops now"
  shows "let wt = weather_run geo refresh ops; (wt', dropped) = evict_weather wt now
    in distinct dropped \<and> set dropped = {c. has_cell wt c \<and> \<not> has_cell wt' c}"
proof -
  let ?wt = "weather_run geo refresh ops"
  obtain wt' dropped where ev: "evict_weather ?wt now = (wt', dropped)" by (cases "evict_weather ?wt now")
  have inv: "weather_inv ?wt now" using assms by (rule weather_inv_run)
  note cells = evict_cells [OF inv, of now, unfolded ev fst_conv]
  have "distinct dropped" using ev by (auto simp: evict_weather_def Let_def)
  moreover have "c \<in> set dropped \<longleftrightarrow> has_cell ?wt c \<and> \<not> has_cell wt' c" for c
  proof (cases "gget (wt_local ?wt) c")
    case None
    then show ?thesis
      using evicted_list [OF inv, of c, unfolded ev fst_conv snd_conv]
      by (auto simp: has_cell_def cells split: option.splits if_splits)
  next
    case (Some ld)
    then have "local_ok ?wt c ld" using inv by (simp add: weather_inv_def)
    then obtain cd where cd: "gget (wt_controller ?wt) c = Some cd" "lc_last_seen ld \<le> cc_last_seen cd"
      by (auto simp: local_ok_def)
    show ?thesis
      using evicted_list [OF inv, of c, unfolded ev fst_conv snd_conv] Some cd
      by (auto simp: has_cell_def cells split: option.splits if_splits)
  qed
  ultimately show ?thesis using ev by auto
qed

lemma evicted_cells_exact_witness:
  "let wt = weather_run (\<lambda>lat lon. ((lat, lon), [])) 8
       [Webhook ''a'' 1 3600 0 0 [] 3600, Monster ''b'' 0 0 3 7300, Forecast ''a'' 10800 2 90000];
     (wt', dropped) = evict_weather wt 94000
   in distinct dropped \<and> set dropped = {c. has_cell wt c \<and> \<not> has_cell wt' c}"
  by (rule evicted_cells_exact) (simp add: weather_trace_ok_def map_filter_simps hour_of_def)

text \<open>What a reader at a later time, or a webhook that lags at most an hour, can still see of a cell.\<close>

lemma controller_evicted:
  assumes inv: "weather_inv wt now"
  obtains (kept) cd where "gget (wt_controller wt) c = Some cd"
      "gget (wt_controller (fst (evict_weather wt now))) c = Some (prune_hours (hour_of now - 7200) cd)"
  | (dropped) "gget (wt_controller (fst (evict_weather wt now))) c = None"
      "\<And>cd ts. gget (wt_controller wt) c = Some cd \<Longrightarrow> hour_of now - 7200 \<le> ts \<Longrightarrow> gget (cc_hours cd) ts = None"
proof (cases "gget (wt_controller wt) c")
  case None
  then show thesis by (intro dropped) (simp_all add: evict_cells [OF inv])
next
  case (Some cd)
  then have ok: "controller_ok now cd" and idle: "86400 \<le> wt_idle_secs wt" using inv by (simp_all add: weather_inv_def)
  show thesis
  proof (cases "cc_last_seen cd < now - wt_idle_secs wt")
    case True
    have "gget (cc_hours cd) ts = None" if "hour_of now - 7200 \<le> ts" for ts
    proof (rule ccontr)
      assume "gget (cc_hours cd) ts \<noteq> None"
      then have "ts \<le> cc_last_seen cd + 75600" using ok by (auto simp: controller_ok_def)
      with that True idle hour_of_bounds(2) [of now] show False by simp
    qed
    with True Some show thesis by (intro dropped) (simp_all add: evict_cells [OF inv])
  next
    case False
    with Some show thesis by (intro kept [OF Some]) (simp add: evict_cells [OF inv])
  qed
qed

lemma pruned_hour: "controller_ok now cd \<Longrightarrow> oldest \<le> ts \<Longrightarrow> gget (cc_hours (prune_hours oldest cd)) ts = gget (cc_hours cd) ts"
  by (auto simp: prune_hours_def controller_ok_def gget_keep split: option.split)

lemma local_evicted:
  assumes inv: "weather_inv wt now" and le: "now \<le> t"
  shows "(case gget (wt_local (fst (evict_weather wt now))) c of Some ld \<Rightarrow> if lc_hour ld = hour_of t then Some (lc_weather ld) else None | None \<Rightarrow> None) =
    (case gget (wt_local wt) c of Some ld \<Rightarrow> if lc_hour ld = hour_of t then Some (lc_weather ld) else None | None \<Rightarrow> None)"
proof (cases "gget (wt_local wt) c")
  case (Some ld)
  then have "local_ok wt c ld" and "86400 \<le> wt_idle_secs wt" using inv by (simp_all add: weather_inv_def)
  moreover have "now < hour_of t + 3600" using le hour_of_bounds(2) [of t] by simp
  ultimately show ?thesis using Some by (auto simp: evict_cells [OF inv] local_ok_def)
qed (simp add: evict_cells [OF inv])

lemma current_weather_local:
  "get_current_weather_in_cell wt c t =
    (case (case gget (wt_local wt) c of Some ld \<Rightarrow> if lc_hour ld = hour_of t then Some (lc_weather ld) else None | None \<Rightarrow> None) of
       Some w \<Rightarrow> w
     | None \<Rightarrow> (case gget (wt_controller wt) c of
         Some cd \<Rightarrow> if cc_last_check cd \<ge> hour_of t then gget_or 0 (cc_hours cd) (hour_of t) else 0 | None \<Rightarrow> 0))"
  by (simp add: get_current_weather_in_cell_def Let_def split: option.split)

lemma forecast_local:
  "get_weather_forecast wt c t =
    (let (cur, nxt) = (case gget (wt_controller wt) c of
         Some cd \<Rightarrow> (gget_or 0 (cc_hours cd) (hour_of t), gget_or 0 (cc_hours cd) (hour_of t + 3600)) | None \<Rightarrow> (0, 0))
     in case (case gget (wt_local wt) c of Some ld \<Rightarrow> if lc_hour ld = hour_of t then Some (lc_weather ld) else None | None \<Rightarrow> None) of
       Some w \<Rightarrow> (w, nxt) | None \<Rightarrow> (cur, nxt))"
  by (auto simp: get_weather_forecast_def Let_def split: option.split prod.split)

lemma export_local:
  assumes "weather_inv wt now"
  shows "gget (export_cell_weather wt c t) ts =
    (case (case gget (wt_local wt) c of Some ld \<Rightarrow> if lc_hour ld = hour_of t then Some (lc_weather ld) else None | None \<Rightarrow> None) of
       Some w \<Rightarrow> if ts = hour_of t then Some w
         else (case gget (wt_controller wt) c of
           Some cd \<Rightarrow> if hour_of t - 3600 \<le> ts then gget (cc_hours cd) ts else None | None \<Rightarrow> None)
     | None \<Rightarrow> (case gget (wt_controller wt) c of
         Some cd \<Rightarrow> if hour_of t - 3600 \<le> ts then gget (cc_hours cd) ts else None | None \<Rightarrow> None))"
proof -
  have "gget (gkeep (\<lambda>ts _. ts \<ge> hour_of t - 3600) (cc_hours cd)) ts =
      (if hour_of t - 3600 \<le> ts then gget (cc_hours cd) ts else None)" if "gget (wt_controller wt) c = Some cd" for cd
    using that assms by (auto simp: weather_inv_def controller_ok_def gget_keep split: option.split)
  then show ?thesis
    by (auto simp: export_cell_weather_def Let_def gget_put split: option.split)
qed

lemma webhook_changed_evicted:
  assumes inv: "weather_inv wt now" and lag: "now - 3600 \<le> ts"
  shows "webhook_changed (touch_controller (fst (evict_weather wt now)) c t) condition ts =
    webhook_changed (touch_controller wt c t) condition ts"
proof -
  have old: "hour_of now - 7200 \<le> hour_of ts - 3600"
    using hour_of_mono [OF lag] by (simp add: hour_of_def)
  show ?thesis
  proof (cases rule: controller_evicted [OF inv, of c, case_names kept dropped])
    case (kept cd)
    then have ok: "controller_ok now cd" using inv by (simp add: weather_inv_def)
    have "gget (cc_hours (prune_hours (hour_of now - 7200) cd)) h = gget (cc_hours cd) h" if "hour_of ts - 3600 \<le> h" for h
      using that old by (intro pruned_hour [OF ok]) simp
    then show ?thesis
      using kept by (simp add: webhook_changed_def touch_controller_def Let_def gget_or_def prune_hours_def)
  next
    case dropped
    have "gget (cc_hours cd) (hour_of ts - 3600) = None" if "gget (wt_controller wt) c = Some cd" for cd
      using dropped(2) [OF that old] .
    then show ?thesis
      using dropped(1) by (cases "gget (wt_controller wt) c") (simp_all add: webhook_changed_def touch_controller_def Let_def)
  qed
qed

text \<open>The three parts of the webhook state that a reader at hour \<open>h\<close> looks at.\<close>

lemma controller_views:
  assumes inv: "weather_inv wt now" and h: "hour_of now - 7200 \<le> h - 3600"
  shows "(case gget (wt_controller (fst (evict_weather wt now))) c of Some cd \<Rightarrow> if cc_last_check cd \<ge> h then gget_or 0 (cc_hours cd) h else 0 | None \<Rightarrow> 0) =
      (case gget (wt_controller wt) c of Some cd \<Rightarrow> if cc_last_check cd \<ge> h then gget_or 0 (cc_hours cd) h else 0 | None \<Rightarrow> 0)" (is ?A)
    and "(case gget (wt_controller (fst (evict_weather wt now))) c of Some cd \<Rightarrow> (gget_or 0 (cc_hours cd) h, gget_or 0 (cc_hours cd) (h + 3600)) | None \<Rightarrow> (0, 0)) =
      (case gget (wt_controller wt) c of Some cd \<Rightarrow> (gget_or 0 (cc_hours cd) h, gget_or 0 (cc_hours cd) (h + 3600)) | None \<Rightarrow> (0, 0))" (is ?B)
    and "(case gget (wt_controller (fst (evict_weather wt now))) c of Some cd \<Rightarrow> if h - 3600 \<le> ts then gget (cc_hours cd) ts else None | None \<Rightarrow> None) =
      (case gget (wt_controller wt) c of Some cd \<Rightarrow> if h - 3600 \<le> ts then gget (cc_hours cd) ts else None | None \<Rightarrow> None)" (is ?C)
proof -
  have "?A \<and> ?B \<and> ?C"
  proof (cases rule: controller_evicted [OF inv, of c, case_names kept dropped])
    case (kept cd)
    then have "controller_ok now cd" using inv by (simp add: weather_inv_def)
    then have "gget (cc_hours (prune_hours (hour_of now - 7200) cd)) x = gget (cc_hours cd) x" if "h - 3600 \<le> x" for x
      using that h by (intro pruned_hour) simp_all
    with kept show ?thesis by (simp add: gget_or_def) (simp add: prune_hours_def)
  next
    case dropped
    have "gget (cc_hours cd) x = None" if "gget (wt_controller wt) c = Some cd" "h - 3600 \<le> x" for cd x
      using dropped(2) [OF that(1)] that(2) h by simp
    with dropped(1) show ?thesis by (cases "gget (wt_controller wt) c") (simp_all add: gget_or_def)
  qed
  then show ?A ?B ?C by simp_all
qed

text \<open>C33: The sweep of the weather tracker cannot be observed: every reader at the time of the sweep or later (the
  current weather, the forecast, the exported hours) gives what it would have given without it, and a weather
  webhook that lags the clock by at most an hour still raises a change event exactly when it would have, although
  the sweep drops the hours older than two and every cell without a write for the idle window. No webhook and no
  forecast of the run speaks of an hour more than 21 hours ahead.\<close>

theorem eviction_invisible:
  assumes "weather_trace_ok ops now" and "now \<le> t" and "now - 3600 \<le> ts"
  shows "let wt = weather_run geo refresh ops; wt' = fst (evict_weather wt now)
    in get_current_weather_in_cell wt' c t = get_current_weather_in_cell wt c t \<and>
       get_weather_forecast wt' c t = get_weather_forecast wt c t \<and>
       gget (export_cell_weather wt' c t) = gget (export_cell_weather wt c t) \<and>
       webhook_changed (touch_controller wt' c t) condition ts = webhook_changed (touch_controller wt c t) condition ts"
proof -
  let ?wt = "weather_run geo refresh ops"
  let ?wt' = "fst (evict_weather ?wt now)"
  have inv: "weather_inv ?wt now" using assms(1) by (rule weather_inv_run)
  have inv': "weather_inv ?wt' now" using inv by (rule weather_inv_evict)
  note loc = local_evicted [OF inv assms(2), of c]
  have hour: "hour_of now - 7200 \<le> hour_of t - 3600" using hour_of_mono [OF assms(2)] by simp
  note ctl = controller_views [OF inv hour]
  have export: "gget (export_cell_weather ?wt' c t) = gget (export_cell_weather ?wt c t)"
    unfolding fun_eq_iff export_local [OF inv] export_local [OF inv'] loc ctl(3) by simp
  show ?thesis
    unfolding Let_def current_weather_local forecast_local loc ctl export
    using webhook_changed_evicted [OF inv assms(3)] by simp
qed

lemma eviction_invisible_witness:
  "let wt = weather_run (\<lambda>lat lon. ((lat, lon), [])) 8
       [Webhook ''a'' 1 3600 0 0 [] 3600, Monster ''b'' 0 0 3 7300, Forecast ''a'' 10800 2 90000];
     wt' = fst (evict_weather wt 94000)
   in get_current_weather_in_cell wt' ''a'' 95000 = get_current_weather_in_cell wt ''a'' 95000 \<and>
      get_weather_forecast wt' ''a'' 95000 = get_weather_forecast wt ''a'' 95000 \<and>
      gget (export_cell_weather wt' ''a'' 95000) = gget (export_cell_weather wt ''a'' 95000) \<and>
      webhook_changed (touch_controller wt' ''a'' 95000) 4 93000 = webhook_changed (touch_controller wt ''a'' 95000) 4 93000"
  by (rule eviction_invisible) (simp_all add: weather_trace_ok_def map_filter_simps hour_of_def)

section \<open>Votes\<close>

text \<open>The weathers of the pokemon a cell was judged by: those with a weather, seen after the first 30 seconds of
  their hour.\<close>

fun ballots :: "weather_op list \<Rightarrow> string \<Rightarrow> int list" where
  "ballots [] c = []"
| "ballots (Monster cell lat lon w now # ops) c =
     (if cell = c \<and> w \<noteq> 0 \<and> hour_of now + 30 < now then w # ballots ops c else ballots ops c)"
| "ballots (_ # ops) c = ballots ops c"

definition vote_tally :: "int list \<Rightarrow> int list" where
  "vote_tally bs = map (\<lambda>i. 2 * int (count_list bs (int i)) - int (length bs)) [0..<8]"

lemma ballots_append: "ballots (ops @ ops') c = ballots ops c @ ballots ops' c"
  by (induction ops c rule: ballots.induct) auto

lemma vote_tally_Nil: "vote_tally [] = no_votes"
  by (simp add: vote_tally_def no_votes_def map_replicate_const)

lemma vote_tally_snoc: "cast_vote w (vote_tally bs) = vote_tally (bs @ [w])"
  by (auto simp: cast_vote_def vote_tally_def)

definition votes_explained :: "weather_op list \<Rightarrow> string \<Rightarrow> int list \<Rightarrow> bool" where
  "votes_explained ops c votes \<longleftrightarrow> list_all (\<lambda>v. v \<le> 4) votes \<and>
     (\<exists>earlier recent. ballots ops c = earlier @ recent \<and> votes = vote_tally recent)"

lemma votes_explained_none: "votes_explained ops c no_votes"
proof -
  have "list_all (\<lambda>v. v \<le> 4) no_votes" by (simp add: no_votes_def list_all_iff)
  moreover have "ballots ops c = ballots ops c @ []" by simp
  ultimately show ?thesis unfolding votes_explained_def vote_tally_Nil [symmetric] by blast
qed

lemma gok_local_step: "gok (wt_local wt) \<Longrightarrow> gok (wt_local (weather_step geo wt p))"
  by (cases p)
    (simp_all add: monster_frame update_from_webhook_def set_hour_weather_def evict_weather_def Let_def gok_keep)

lemma votes_explained_touch:
  assumes "\<And>ld. gget (wt_local wt) c = Some ld \<Longrightarrow> votes_explained ops c (lc_votes ld)"
  shows "votes_explained ops c (lc_votes (touch_local wt c now))"
  using assms votes_explained_none by (simp add: touch_local_def split: option.split)

lemma votes_step:
  assumes ok: "gok (wt_local wt)" and old: "\<And>c ld. gget (wt_local wt) c = Some ld \<Longrightarrow> votes_explained ops c (lc_votes ld)"
    and new: "gget (wt_local (weather_step geo wt p)) c = Some ld"
  shows "votes_explained (ops @ [p]) c (lc_votes ld)"
proof (cases "\<exists>lat lon w now. p = Monster c lat lon w now")
  case True
  then obtain lat lon w now where p: "p = Monster c lat lon w now" by blast
  have ld: "monster_local wt c w now ld"
    using monster_step [of wt c w now geo lat lon] new by (auto simp: p)
  note touched = votes_explained_touch [of wt c ops now, OF old]
  show ?thesis
  proof (cases "w = 0 \<or> now \<le> hour_of now + 30")
    case True
    then show ?thesis using ld touched by (auto simp: monster_local_def votes_explained_def ballots_append p)
  next
    case False
    obtain earlier recent where r: "ballots ops c = earlier @ recent" "lc_votes (touch_local wt c now) = vote_tally recent"
      using touched by (auto simp: votes_explained_def)
    have bal: "ballots (ops @ [p]) c = earlier @ (recent @ [w])" using False r(1) by (simp add: ballots_append p)
    have "lc_votes ld = no_votes \<or> lc_votes ld = vote_tally (recent @ [w]) \<and> \<not> list_ex (\<lambda>v. v > 4) (lc_votes ld)"
      using ld False r(2) by (auto simp: monster_local_def vote_tally_snoc)
    then show ?thesis
    proof
      assume "lc_votes ld = vote_tally (recent @ [w]) \<and> \<not> list_ex (\<lambda>v. v > 4) (lc_votes ld)"
      with bal show ?thesis unfolding votes_explained_def by (auto simp: list_ex_iff list_all_iff not_less)
    qed (simp add: votes_explained_none)
  qed
next
  case False
  have same: "gget (wt_local wt) c = Some ld"
  proof (cases p)
    case (Monster cell lat lon w now)
    with False new show ?thesis using monster_step [of wt cell w now geo lat lon] by auto
  next
    case (Evict now)
    with new ok show ?thesis by (auto simp: evict_weather_def Let_def gget_keep split: option.splits if_splits)
  qed (use new in \<open>auto simp: update_from_webhook_def set_hour_weather_def Let_def split: if_splits\<close>)
  have "ballots (ops @ [p]) c = ballots ops c" using False by (cases p) (auto simp: ballots_append)
  with old [OF same] show ?thesis by (simp add: votes_explained_def)
qed

lemma votes_run:
  "gok (wt_local (weather_run geo refresh ops)) \<and>
   (\<forall>c ld. gget (wt_local (weather_run geo refresh ops)) c = Some ld \<longrightarrow> votes_explained ops c (lc_votes ld))"
proof (induction ops rule: rev_induct)
  case (snoc p ops)
  then show ?case
    using votes_step [of "weather_run geo refresh ops" ops geo p] by (auto simp: weather_run_def gok_local_step)
qed (simp add: weather_run_def new_weather_tracker_def)

lemma winning_vote:
  assumes "votes_explained ops c votes" and "list_ex (\<lambda>v. v > 4) (cast_vote w votes)"
  obtains earlier recent where "ballots ops c = earlier @ recent"
    and "int (length (recent @ [w])) + 5 \<le> 2 * int (count_list (recent @ [w]) w)"
proof -
  obtain earlier recent where r: "ballots ops c = earlier @ recent" "votes = vote_tally recent"
    and le: "list_all (\<lambda>v. v \<le> 4) votes"
    using assms(1) by (auto simp: votes_explained_def)
  obtain i where i: "i < 8" "cast_vote w votes ! i > 4"
    using assms(2) r(2) by (auto simp: list_ex_iff in_set_conv_nth cast_vote_def vote_tally_def)
  have len: "length votes = 8" by (simp add: r(2) vote_tally_def)
  have "votes ! i \<le> 4" using le i(1) len by (simp add: list_all_length)
  then have "int i = w" using i len by (auto simp: cast_vote_def split: if_splits)
  moreover have "cast_vote w votes ! i = 2 * int (count_list (recent @ [w]) (int i)) - int (length (recent @ [w]))"
    using i(1) unfolding r(2) vote_tally_snoc by (simp add: vote_tally_def)
  ultimately have "int (length (recent @ [w])) + 5 \<le> 2 * int (count_list (recent @ [w]) w)" using i(2) by simp
  with r(1) show thesis by (rule that)
qed

text \<open>Weather inference is a majority decision: when a pokemon makes the tracker overwrite the weather of a
  cell's current hour, the new weather is the pokemon's own, and among the latest pokemon of that cell (back to some
  point in the run) those boosted by it outnumber all others together by at least five.\<close>

theorem inference_needs_majority:
  assumes "let wt = weather_run geo refresh ops; wt' = check_weather_on_monster geo wt cell lat lon w now
    in cc_hours (touch_controller wt' cell now) \<noteq> cc_hours (touch_controller wt cell now)"
  shows "let wt = weather_run geo refresh ops; wt' = check_weather_on_monster geo wt cell lat lon w now
    in cc_hours (touch_controller wt' cell now) = gput (hour_of now) w (cc_hours (touch_controller wt cell now)) \<and>
       (\<exists>earlier recent. ballots (ops @ [Monster cell lat lon w now]) cell = earlier @ recent \<and>
          length recent + 5 \<le> 2 * count_list recent w)"
proof -
  let ?wt = "weather_run geo refresh ops"
  let ?wt' = "check_weather_on_monster geo ?wt cell lat lon w now"
  obtain cd where cd: "monster_controller ?wt cell w now cd" "gget (wt_controller ?wt') cell = Some cd"
    using monster_step [of ?wt cell w now geo lat lon] by auto
  have hours: "cc_hours (touch_controller ?wt' cell now) = cc_hours cd" by (simp add: touch_controller_def cd(2))
  have put: "cc_hours cd = gput (hour_of now) w (cc_hours (touch_controller ?wt cell now))"
      "list_ex (\<lambda>v. v > 4) (cast_vote w (lc_votes (touch_local ?wt cell now)))" "w \<noteq> 0" "hour_of now + 30 < now"
    using cd(1) assms hours by (auto simp: monster_controller_def Let_def)
  have "votes_explained ops cell (lc_votes (touch_local ?wt cell now))"
    using votes_run [of geo refresh ops] by (intro votes_explained_touch) blast
  from winning_vote [OF this put(2)] obtain earlier recent where r: "ballots ops cell = earlier @ recent"
      "int (length (recent @ [w])) + 5 \<le> 2 * int (count_list (recent @ [w]) w)" .
  have "ballots (ops @ [Monster cell lat lon w now]) cell = earlier @ (recent @ [w])"
    using r(1) put(3,4) by (simp add: ballots_append)
  moreover have "length (recent @ [w]) + 5 \<le> 2 * count_list (recent @ [w]) w" using r(2) by linarith
  ultimately show ?thesis unfolding Let_def hours put(1) by blast
qed

lemma inference_needs_majority_witness:
  "let geo = (\<lambda>lat lon. ((lat, lon), [])); ops = replicate 4 (Monster ''a'' 0 0 3 3700);
       wt = weather_run geo 8 ops; wt' = check_weather_on_monster geo wt ''a'' 0 0 3 3700
   in cc_hours (touch_controller wt' ''a'' 3700) = gput (hour_of 3700) 3 (cc_hours (touch_controller wt ''a'' 3700)) \<and>
      (\<exists>earlier recent. ballots (ops @ [Monster ''a'' 0 0 3 3700]) ''a'' = earlier @ recent \<and>
         length recent + 5 \<le> 2 * count_list recent 3)"
  unfolding Let_def
  by (rule inference_needs_majority [unfolded Let_def]) code_simp

end
