(* ===== verification/RecentActivity.thy ===== *)
theory RecentActivity
  imports Prelude
begin

text \<open>
  \<open>tracker/recent_activity.go\<close>: which raid bosses, quest rewards, grunts, costumes and forms were seen in the last
  six hours, for the suggestions of the slash commands. The eight flat maps and the four maps of maps of the struct
  are indexed by the constructors of \<open>activity\<close> and \<open>pair_activity\<close>; \<open>r.now()\<close> is an argument. Readers prune
  what has expired, so they return the new tracker too.
\<close>

datatype activity =
  RaidBosses | MaxBattleBosses | QuestPokemon | QuestItems | QuestCandy | QuestMega | QuestXL | InvasionGrunts

datatype pair_activity = CostumesByPokemon | RaidCostumesByPokemon | RaidFormsByPokemon | FormsByPokemon

record recent_activity =
  ra_seen :: "activity \<Rightarrow> (int, gotime) gomap"
  ra_pairs :: "pair_activity \<Rightarrow> (int, (int, gotime) gomap) gomap"

definition new_recent_activity :: recent_activity where
  "new_recent_activity = \<lparr>ra_seen = (\<lambda>_. []), ra_pairs = (\<lambda>_. [])\<rparr>"

definition recent_activity_ttl :: duration where
  "recent_activity_ttl = 6 * ns_hour"

definition record_activity :: "recent_activity \<Rightarrow> activity \<Rightarrow> int \<Rightarrow> gotime \<Rightarrow> recent_activity" where
  "record_activity r a k now =
     (if k \<le> 0 then r else r\<lparr>ra_seen := (ra_seen r)(a := gput k now (ra_seen r a))\<rparr>)"

definition record_pair :: "recent_activity \<Rightarrow> pair_activity \<Rightarrow> int \<Rightarrow> int \<Rightarrow> gotime \<Rightarrow> recent_activity" where
  "record_pair r a pokemon k now =
     (if pokemon \<le> 0 \<or> k \<le> 0 then r
      else r\<lparr>ra_pairs := (ra_pairs r)(a := gput pokemon (gput k now (gget_or [] (ra_pairs r a) pokemon)) (ra_pairs r a))\<rparr>)"

definition active_ids :: "(int, gotime) gomap \<Rightarrow> gotime \<Rightarrow> (int, gotime) gomap \<times> int list" where
  "active_ids m now =
     (let m' = gkeep (\<lambda>_ ts. \<not> ts < now - recent_activity_ttl) m in (m', map fst m'))"

definition active :: "recent_activity \<Rightarrow> activity \<Rightarrow> gotime \<Rightarrow> recent_activity \<times> int list" where
  "active r a now =
     (let (m, ids) = active_ids (ra_seen r a) now in (r\<lparr>ra_seen := (ra_seen r)(a := m)\<rparr>, ids))"

definition recent_pairs :: "recent_activity \<Rightarrow> pair_activity \<Rightarrow> int \<Rightarrow> gotime \<Rightarrow> recent_activity \<times> int list" where
  "recent_pairs r a pokemon now =
     (case gget (ra_pairs r a) pokemon of
        None \<Rightarrow> (r, [])
      | Some inner \<Rightarrow>
          (let (m, ids) = active_ids inner now
           in (r\<lparr>ra_pairs := (ra_pairs r)(a := gput pokemon m (ra_pairs r a))\<rparr>, ids)))"

section \<open>Runs\<close>

datatype activity_op =
    Seen activity int gotime
  | SeenPair pair_activity int int gotime
  | ReadSeen activity gotime
  | ReadPairs pair_activity int gotime

fun activity_step :: "recent_activity \<Rightarrow> activity_op \<Rightarrow> recent_activity" where
  "activity_step r (Seen a k now) = record_activity r a k now"
| "activity_step r (SeenPair a p k now) = record_pair r a p k now"
| "activity_step r (ReadSeen a now) = fst (active r a now)"
| "activity_step r (ReadPairs a p now) = fst (recent_pairs r a p now)"

fun activity_time :: "activity_op \<Rightarrow> gotime" where
  "activity_time (Seen a k now) = now"
| "activity_time (SeenPair a p k now) = now"
| "activity_time (ReadSeen a now) = now"
| "activity_time (ReadPairs a p now) = now"

definition activity_run :: "activity_op list \<Rightarrow> recent_activity" where
  "activity_run ops = foldl activity_step new_recent_activity ops"

text \<open>When an id was last seen in a category, if ever.\<close>

definition last_seen :: "activity_op list \<Rightarrow> activity \<Rightarrow> int \<Rightarrow> gotime option" where
  "last_seen ops a k = foldl (\<lambda>acc p. case p of Seen a' k' t \<Rightarrow> if a' = a \<and> k' = k \<and> 0 < k then Some t else acc | _ \<Rightarrow> acc) None ops"

definition last_pair :: "activity_op list \<Rightarrow> pair_activity \<Rightarrow> int \<Rightarrow> int \<Rightarrow> gotime option" where
  "last_pair ops a p k = foldl (\<lambda>acc q. case q of
      SeenPair a' p' k' t \<Rightarrow> if a' = a \<and> p' = p \<and> k' = k \<and> 0 < p \<and> 0 < k then Some t else acc | _ \<Rightarrow> acc) None ops"

text \<open>A map tracks the last sightings up to what has expired at \<open>now\<close>.\<close>

definition tracks :: "(int, gotime) gomap \<Rightarrow> (int \<Rightarrow> gotime option) \<Rightarrow> gotime \<Rightarrow> bool" where
  "tracks m seen_at now \<longleftrightarrow> gok m \<and>
     (\<forall>k. gget m k = seen_at k \<or> gget m k = None \<and> (\<exists>t. seen_at k = Some t \<and> t < now - recent_activity_ttl))"

lemma tracks_None: "tracks m seen_at now \<Longrightarrow> gget m k = None \<Longrightarrow> seen_at k = Some t \<Longrightarrow> t < now - recent_activity_ttl"
  unfolding tracks_def by (metis option.distinct(1) option.inject)

lemma tracks_Some: "tracks m seen_at now \<Longrightarrow> gget m k = Some t \<Longrightarrow> seen_at k = Some t"
  unfolding tracks_def by (metis option.distinct(1))

lemma tracks_later: "tracks m seen_at now \<Longrightarrow> now \<le> now' \<Longrightarrow> tracks m seen_at now'"
  unfolding tracks_def by (meson diff_right_mono less_le_trans)

lemma tracks_put: "tracks m seen_at now \<Longrightarrow> tracks (gput k t m) (seen_at(k := Some t)) now"
  by (auto simp: tracks_def gget_put intro: gok_put)

lemma tracks_prune:
  assumes "tracks m seen_at now" shows "tracks (fst (active_ids m now)) seen_at now"
proof -
  have ok: "gok m" using assms by (simp add: tracks_def)
  have "gget (fst (active_ids m now)) k = seen_at k \<or>
      gget (fst (active_ids m now)) k = None \<and> (\<exists>t. seen_at k = Some t \<and> t < now - recent_activity_ttl)" for k
  proof (cases "gget m k")
    case None
    with tracks_None [OF assms None] ok show ?thesis
      by (cases "seen_at k") (simp_all add: active_ids_def Let_def gget_keep)
  next
    case (Some t)
    then have "seen_at k = Some t" using assms by (rule tracks_Some [rotated])
    with Some ok show ?thesis by (auto simp: active_ids_def Let_def gget_keep)
  qed
  then show ?thesis using ok by (simp add: tracks_def active_ids_def Let_def gok_keep)
qed

lemma tracks_Nil: "(\<And>k. seen_at k = None) \<Longrightarrow> tracks [] seen_at now"
  by (simp add: tracks_def)

lemma active_ids_tracked:
  assumes "tracks m seen_at now"
  shows "distinct (snd (active_ids m now)) \<and>
    set (snd (active_ids m now)) = {k. \<exists>t. seen_at k = Some t \<and> now - recent_activity_ttl \<le> t}"
proof -
  have ok: "gok m" using assms by (simp add: tracks_def)
  let ?P = "\<lambda>(_ :: int) ts. \<not> ts < now - recent_activity_ttl"
  have "k \<in> fst ` set (gkeep ?P m) \<longleftrightarrow> (\<exists>t. seen_at k = Some t \<and> now - recent_activity_ttl \<le> t)" for k
  proof -
    have "k \<in> fst ` set (gkeep ?P m) \<longleftrightarrow> gget (gkeep ?P m) k \<noteq> None" by (rule gget_in_keys [symmetric])
    also have "\<dots> \<longleftrightarrow> (\<exists>t. gget m k = Some t \<and> now - recent_activity_ttl \<le> t)"
      using ok by (auto simp: gget_keep not_less split: option.split)
    also have "\<dots> \<longleftrightarrow> (\<exists>t. seen_at k = Some t \<and> now - recent_activity_ttl \<le> t)"
    proof (cases "gget m k")
      case None
      with tracks_None [OF assms None] show ?thesis by (auto simp: not_le [symmetric])
    next
      case (Some t)
      then have "seen_at k = Some t" using assms by (rule tracks_Some [rotated])
      with Some show ?thesis by simp
    qed
    finally show ?thesis .
  qed
  moreover have "distinct (map fst (gkeep ?P m))" using ok gok_keep by (auto simp: gok_def)
  ultimately show ?thesis by (auto simp: active_ids_def Let_def)
qed

lemma seen_snoc:
  "last_seen (ops @ [p]) a = (case p of Seen a' k t \<Rightarrow> if a' = a \<and> 0 < k then (last_seen ops a)(k := Some t) else last_seen ops a
    | _ \<Rightarrow> last_seen ops a)"
  by (rule ext) (auto simp: last_seen_def split: activity_op.split)

lemma pair_snoc:
  "last_pair (ops @ [q]) a p = (case q of SeenPair a' p' k t \<Rightarrow>
      if a' = a \<and> p' = p \<and> 0 < p \<and> 0 < k then (last_pair ops a p)(k := Some t) else last_pair ops a p
    | _ \<Rightarrow> last_pair ops a p)"
  by (rule ext) (auto simp: last_pair_def split: activity_op.split)

definition activity_inv :: "activity_op list \<Rightarrow> recent_activity \<Rightarrow> gotime \<Rightarrow> bool" where
  "activity_inv ops r now \<longleftrightarrow> (\<forall>a. tracks (ra_seen r a) (last_seen ops a) now) \<and>
     (\<forall>a p. tracks (gget_or [] (ra_pairs r a) p) (last_pair ops a p) now)"

lemma activity_inv_step:
  assumes inv: "activity_inv ops r now" and le: "now \<le> activity_time q"
  shows "activity_inv (ops @ [q]) (activity_step r q) (activity_time q)"
proof -
  let ?t = "activity_time q"
  have s: "tracks (ra_seen r a) (last_seen ops a) ?t" for a
    using inv le by (auto simp: activity_inv_def intro: tracks_later)
  have p: "tracks (gget_or [] (ra_pairs r a) p) (last_pair ops a p) ?t" for a p
    using inv le by (auto simp: activity_inv_def intro: tracks_later)
  show ?thesis
  proof (cases q)
    case (Seen a k t)
    then show ?thesis using s p tracks_put [OF s [of a], of k t]
      by (auto simp: activity_inv_def record_activity_def seen_snoc pair_snoc)
  next
    case (SeenPair a po k t)
    then show ?thesis using s p tracks_put [OF p [of a po], of k t]
      by (auto simp: activity_inv_def record_pair_def seen_snoc pair_snoc gget_or_put)
  next
    case (ReadSeen a t)
    then show ?thesis using s p tracks_prune [OF s [of a]]
      by (auto simp: activity_inv_def active_def seen_snoc pair_snoc split_beta Let_def)
  next
    case (ReadPairs a po t)
    then show ?thesis using s p tracks_prune [OF p [of a po]]
      by (auto simp: activity_inv_def recent_pairs_def seen_snoc pair_snoc split_beta Let_def gget_or_put
          gget_or_def [of "[]" "ra_pairs r a" po] split: option.split)
  qed
qed

lemma activity_inv_run:
  "sorted (map activity_time ops) \<Longrightarrow> (\<And>t. t \<in> set (map activity_time ops) \<Longrightarrow> t \<le> now) \<Longrightarrow>
   activity_inv ops (activity_run ops) now"
proof (induction ops arbitrary: now rule: rev_induct)
  case Nil
  show ?case
    by (simp add: activity_run_def new_recent_activity_def activity_inv_def tracks_Nil last_seen_def last_pair_def)
next
  case (snoc q ops)
  have "activity_inv ops (activity_run ops) (activity_time q)"
    using snoc.prems(1) by (intro snoc.IH) (auto simp: sorted_append)
  then have "activity_inv (ops @ [q]) (activity_run (ops @ [q])) (activity_time q)"
    using activity_inv_step by (simp add: activity_run_def)
  then show ?case using snoc.prems(2) [of "activity_time q"] by (auto simp: activity_inv_def intro: tracks_later)
qed

text \<open>The suggestions are exactly what was seen in the last six hours: after any run of sightings and reads on a
  clock that does not go back, a read of a category lists the positive ids whose last sighting in it is not older than
  six hours, each once, and a read of a pokemon's costumes or forms those of that pokemon; reads that pruned the maps
  on the way change nothing.\<close>

theorem recent_activity_exact:
  assumes "sorted (map activity_time ops @ [now])"
  shows "distinct (snd (active (activity_run ops) a now)) \<and>
    set (snd (active (activity_run ops) a now)) = {k. \<exists>t. last_seen ops a k = Some t \<and> now - recent_activity_ttl \<le> t} \<and>
    distinct (snd (recent_pairs (activity_run ops) b p now)) \<and>
    set (snd (recent_pairs (activity_run ops) b p now)) = {k. \<exists>t. last_pair ops b p k = Some t \<and> now - recent_activity_ttl \<le> t}"
proof -
  have inv: "activity_inv ops (activity_run ops) now"
    using assms by (intro activity_inv_run) (auto simp: sorted_append)
  have s: "snd (active r a now) = snd (active_ids (ra_seen r a) now)" for r
    by (simp add: active_def split_beta Let_def)
  have q: "snd (recent_pairs r b p now) = snd (active_ids (gget_or [] (ra_pairs r b) p) now)" for r
    by (simp add: recent_pairs_def split_beta Let_def gget_or_def active_ids_def gkeep_def split: option.split)
  have t: "tracks (ra_seen (activity_run ops) a) (last_seen ops a) now"
    "tracks (gget_or [] (ra_pairs (activity_run ops) b) p) (last_pair ops b p) now"
    using inv by (simp_all add: activity_inv_def)
  show ?thesis
    unfolding s q using active_ids_tracked [OF t(1)] active_ids_tracked [OF t(2)] by simp
qed

lemma recent_activity_exact_witness:
  "let ops = [Seen RaidBosses 150 0, SeenPair FormsByPokemon 25 2 5, Seen RaidBosses 384 (5 * 3600000000000)];
       r = activity_run ops; now = 7 * 3600000000000
   in distinct (snd (active r RaidBosses now)) \<and>
      set (snd (active r RaidBosses now)) = {k. \<exists>t. last_seen ops RaidBosses k = Some t \<and> now - recent_activity_ttl \<le> t} \<and>
      distinct (snd (recent_pairs r FormsByPokemon 25 now)) \<and>
      set (snd (recent_pairs r FormsByPokemon 25 now)) =
        {k. \<exists>t. last_pair ops FormsByPokemon 25 k = Some t \<and> now - recent_activity_ttl \<le> t}"
  unfolding Let_def by (rule recent_activity_exact) simp

end
