(* ===== verification/GymTracker.thy ===== *)
theory GymTracker
  imports Prelude
begin

text \<open>
  \<open>tracker/gymstate.go\<close>: the last known state of every gym, with the last team that held it, the cooldown
  between battle alerts, the clean-up of gyms unseen for a day, and the cache file that carries the states over a
  restart. The file's JSON is the list of its entries (a \<open>time.Time\<close> survives the encoding, the cooldown is
  not encoded); I/O errors are left out, and a file that does not parse is \<open>None\<close>.
\<close>

record gym_state =
  gs_team_id :: int
  gs_slots_available :: int
  gs_in_battle :: bool
  gs_last_owner_id :: int
  gs_last_seen :: gotime
  gs_battle_cooldown_until :: gotime

type_synonym gym_tracker = "(string, gym_state) gomap"

definition new_gym_tracker :: gym_tracker where
  "new_gym_tracker = []"

definition new_last_owner :: "gym_state option \<Rightarrow> int \<Rightarrow> int" where
  "new_last_owner old team =
     (if team > 0 then team
      else case old of Some s \<Rightarrow> if gs_last_owner_id s > 0 then gs_last_owner_id s else -1 | None \<Rightarrow> -1)"

definition update_locked :: "gym_tracker \<Rightarrow> string \<Rightarrow> int \<Rightarrow> int \<Rightarrow> bool \<Rightarrow> gotime \<Rightarrow> gym_tracker \<times> gym_state option" where
  "update_locked g gid team slots battle now =
     (let old = gget g gid; owner = new_last_owner old team
      in case old of
           Some s \<Rightarrow> (gput gid (s\<lparr>gs_team_id := team, gs_slots_available := slots, gs_in_battle := battle,
                         gs_last_owner_id := owner, gs_last_seen := now\<rparr>) g, Some s)
         | None \<Rightarrow> (gput gid \<lparr>gs_team_id = team, gs_slots_available = slots, gs_in_battle = battle,
                         gs_last_owner_id = owner, gs_last_seen = now, gs_battle_cooldown_until = zero_time\<rparr> g, None))"

definition update_gym :: "gym_tracker \<Rightarrow> string \<Rightarrow> int \<Rightarrow> int \<Rightarrow> bool \<Rightarrow> gotime \<Rightarrow> gym_tracker \<times> gym_state option" where
  "update_gym g gid team slots battle now = update_locked g gid team slots battle now"

definition set_cooldown :: "gym_tracker \<Rightarrow> string \<Rightarrow> gotime \<Rightarrow> gym_tracker" where
  "set_cooldown g gid until =
     (case gget g gid of Some s \<Rightarrow> gput gid (s\<lparr>gs_battle_cooldown_until := until\<rparr>) g | None \<Rightarrow> g)"

definition update_with_battle_cooldown ::
  "gym_tracker \<Rightarrow> string \<Rightarrow> int \<Rightarrow> int \<Rightarrow> bool \<Rightarrow> gotime \<Rightarrow> gym_tracker \<times> gym_state option \<times> bool" where
  "update_with_battle_cooldown g gid team slots battle now =
     (let cooldown = (case gget g gid of Some s \<Rightarrow> gs_battle_cooldown_until s > now | None \<Rightarrow> False);
          (g1, old) = update_locked g gid team slots battle now
      in (if battle then set_cooldown g1 gid (now + 5 * ns_minute) else g1, old, cooldown))"

record gym_entry =
  gy_team_id :: int
  gy_slots_available :: int
  gy_in_battle :: bool
  gy_last_owner_id :: int
  gy_last_seen :: gotime

definition save_gym :: "gym_state \<Rightarrow> gym_entry" where
  "save_gym s = \<lparr>gy_team_id = gs_team_id s, gy_slots_available = gs_slots_available s, gy_in_battle = gs_in_battle s,
     gy_last_owner_id = gs_last_owner_id s, gy_last_seen = gs_last_seen s\<rparr>"

definition load_gym :: "gym_entry \<Rightarrow> gym_state" where
  "load_gym e = \<lparr>gs_team_id = gy_team_id e, gs_slots_available = gy_slots_available e, gs_in_battle = gy_in_battle e,
     gs_last_owner_id = gy_last_owner_id e, gs_last_seen = gy_last_seen e, gs_battle_cooldown_until = zero_time\<rparr>"

definition save_gyms :: "gym_tracker \<Rightarrow> (string, gym_entry) gomap" where
  "save_gyms g = gmapv save_gym g"

definition load_gyms_cache :: "gym_tracker \<Rightarrow> (string, gym_entry) gomap option \<Rightarrow> gotime \<Rightarrow> gym_tracker" where
  "load_gyms_cache g file now =
     (case file of None \<Rightarrow> g
      | Some loaded \<Rightarrow> foldl (\<lambda>acc (k, e). if gy_last_seen e > now - 24 * ns_hour then gput k (load_gym e) acc else acc) g loaded)"

definition cleanup_gyms :: "gym_tracker \<Rightarrow> gotime \<Rightarrow> gym_tracker" where
  "cleanup_gyms g now = gkeep (\<lambda>_ s. \<not> gs_last_seen s < now - 24 * ns_hour) g"

section \<open>Runs\<close>

datatype gym_op =
    GymUpdate string int int bool gotime
  | BattleUpdate string int int bool gotime
  | GymCleanup gotime
  | Restart gotime

fun gym_step :: "gym_tracker \<Rightarrow> gym_op \<Rightarrow> gym_tracker" where
  "gym_step g (GymUpdate gid team slots battle now) = fst (update_gym g gid team slots battle now)"
| "gym_step g (BattleUpdate gid team slots battle now) = fst (update_with_battle_cooldown g gid team slots battle now)"
| "gym_step g (GymCleanup now) = cleanup_gyms g now"
| "gym_step g (Restart now) = load_gyms_cache new_gym_tracker (Some (save_gyms g)) now"

fun gym_time :: "gym_op \<Rightarrow> gotime" where
  "gym_time (GymUpdate gid team slots battle now) = now"
| "gym_time (BattleUpdate gid team slots battle now) = now"
| "gym_time (GymCleanup now) = now"
| "gym_time (Restart now) = now"

definition gym_run :: "gym_op list \<Rightarrow> gym_tracker" where
  "gym_run ops = foldl gym_step new_gym_tracker ops"

text \<open>The sightings of a gym, and its battles since the last restart.\<close>

fun sightings :: "string \<Rightarrow> gym_op list \<Rightarrow> (int \<times> int \<times> bool \<times> gotime) list" where
  "sightings g [] = []"
| "sightings g (GymUpdate gid team slots battle now # ops) = (if gid = g then (team, slots, battle, now) # sightings g ops else sightings g ops)"
| "sightings g (BattleUpdate gid team slots battle now # ops) = (if gid = g then (team, slots, battle, now) # sightings g ops else sightings g ops)"
| "sightings g (_ # ops) = sightings g ops"

definition battles :: "string \<Rightarrow> gym_op list \<Rightarrow> gotime list" where
  "battles g ops = foldl (\<lambda>acc q. case q of
      BattleUpdate gid team slots battle now \<Rightarrow> if gid = g \<and> battle then acc @ [now] else acc
    | Restart now \<Rightarrow> []
    | _ \<Rightarrow> acc) [] ops"

definition latest_owner :: "(int \<times> int \<times> bool \<times> gotime) list \<Rightarrow> int" where
  "latest_owner ss = 
     (let teams = filter (\<lambda>team. team > 0) (map fst ss) in if teams = [] then -1 else last teams)"

definition seen_time :: "int \<times> int \<times> bool \<times> gotime \<Rightarrow> gotime" where
  "seen_time s = snd (snd (snd s))"

definition never_lost :: "(int \<times> int \<times> bool \<times> gotime) list \<Rightarrow> bool" where
  "never_lost ss \<longleftrightarrow> successively (\<lambda>s t. seen_time t - seen_time s < 24 * ns_hour) ss"

lemma sightings_append: "sightings g (ops @ ops') = sightings g ops @ sightings g ops'"
  by (induction g ops rule: sightings.induct) auto

lemma never_lost_snoc:
  "never_lost (ss @ [x]) \<longleftrightarrow> never_lost ss \<and> (ss = [] \<or> seen_time x - seen_time (last ss) < 24 * ns_hour)"
  by (auto simp: never_lost_def successively_append_iff)

lemma latest_owner_snoc:
  "latest_owner (ss @ [x]) = (if 0 < fst x then fst x else latest_owner ss)"
  by (simp add: latest_owner_def Let_def)

lemma latest_owner_range: "0 < latest_owner ss \<or> latest_owner ss = -1"
proof (cases "filter (\<lambda>team. team > 0) (map fst ss) = []")
  case False
  then have "last (filter (\<lambda>team. team > 0) (map fst ss)) \<in> set (filter (\<lambda>team. team > 0) (map fst ss))"
    by (rule last_in_set)
  then have "0 < last (filter (\<lambda>team. team > 0) (map fst ss))" unfolding set_filter by blast
  with False show ?thesis by (simp add: latest_owner_def Let_def)
qed (simp add: latest_owner_def)

section \<open>The invariant of one gym\<close>

definition gym_known :: "(int \<times> int \<times> bool \<times> gotime) list \<Rightarrow> gotime list \<Rightarrow> gym_state \<Rightarrow> gotime \<Rightarrow> bool" where
  "gym_known ss bs s now \<longleftrightarrow> ss \<noteq> [] \<and>
     last ss = (gs_team_id s, gs_slots_available s, gs_in_battle s, gs_last_seen s) \<and> gs_last_seen s \<le> now \<and>
     (never_lost ss \<longrightarrow> gs_last_owner_id s = latest_owner ss) \<and>
     (\<forall>b \<in> set bs. b \<le> gs_last_seen s) \<and>
     (\<forall>t \<ge> now. gs_battle_cooldown_until s > t \<longleftrightarrow> (\<exists>b \<in> set bs. t < b + 5 * ns_minute))"

definition gym_unknown :: "(int \<times> int \<times> bool \<times> gotime) list \<Rightarrow> gotime list \<Rightarrow> gotime \<Rightarrow> bool" where
  "gym_unknown ss bs now \<longleftrightarrow> (ss = [] \<or> seen_time (last ss) \<le> now - 24 * ns_hour) \<and>
     (\<forall>b \<in> set bs. b \<le> now - 24 * ns_hour)"

definition gym_view :: "(int \<times> int \<times> bool \<times> gotime) list \<Rightarrow> gotime list \<Rightarrow> gym_state option \<Rightarrow> gotime \<Rightarrow> bool" where
  "gym_view ss bs so now \<longleftrightarrow> 0 \<le> now \<and> (case so of Some s \<Rightarrow> gym_known ss bs s now | None \<Rightarrow> gym_unknown ss bs now)"

lemma gym_view_later: "gym_view ss bs so now \<Longrightarrow> now \<le> now' \<Longrightarrow> gym_view ss bs so now'"
  by (auto simp: gym_view_def gym_known_def gym_unknown_def split: option.splits)

lemma unknown_battle: "gym_unknown ss bs now \<Longrightarrow> b \<in> set bs \<Longrightarrow> now \<le> t \<Longrightarrow> \<not> t < b + 5 * ns_minute"
  by (auto simp: gym_unknown_def)

text \<open>The cooldown flag of an update is exact in every view.\<close>

lemma view_cooldown:
  "gym_view ss bs so now \<Longrightarrow>
   (case so of Some s \<Rightarrow> gs_battle_cooldown_until s > now | None \<Rightarrow> False) \<longleftrightarrow> (\<exists>b \<in> set bs. now < b + 5 * ns_minute)"
  using unknown_battle [of ss bs now] by (auto simp: gym_view_def gym_known_def split: option.splits)

lemma gget_update_locked:
  "gget (fst (update_locked g gid team slots battle now)) x =
    (if x = gid then Some \<lparr>gs_team_id = team, gs_slots_available = slots, gs_in_battle = battle,
        gs_last_owner_id = new_last_owner (gget g gid) team, gs_last_seen = now,
        gs_battle_cooldown_until = (case gget g gid of Some s \<Rightarrow> gs_battle_cooldown_until s | None \<Rightarrow> zero_time)\<rparr>
     else gget g x)"
  by (cases "gget g gid") (auto simp: update_locked_def Let_def gget_put)

lemma gget_set_cooldown:
  "gget (set_cooldown g gid u) x =
    (if x = gid then map_option (\<lambda>s. s\<lparr>gs_battle_cooldown_until := u\<rparr>) (gget g gid) else gget g x)"
  by (auto simp: set_cooldown_def gget_put split: option.split)

lemma gok_update_locked: "gok g \<Longrightarrow> gok (fst (update_locked g gid team slots battle now))"
  by (auto simp: update_locked_def Let_def gok_put split: option.split)

lemma gok_set_cooldown: "gok g \<Longrightarrow> gok (set_cooldown g gid u)"
  by (auto simp: set_cooldown_def gok_put split: option.split)

lemma view_owner:
  assumes v: "gym_view ss bs so t" and lost: "never_lost (ss @ [(team, slots, battle, t)])"
  shows "new_last_owner so team = latest_owner (ss @ [(team, slots, battle, t)])"
proof (cases so)
  case None
  then have "ss = []" using v lost by (auto simp: gym_view_def gym_unknown_def never_lost_snoc seen_time_def)
  with None show ?thesis by (simp add: new_last_owner_def latest_owner_def)
next
  case (Some s)
  then have "gs_last_owner_id s = latest_owner ss"
    using v lost by (auto simp: gym_view_def gym_known_def never_lost_snoc)
  with Some latest_owner_range [of ss] show ?thesis by (auto simp: new_last_owner_def latest_owner_snoc)
qed

lemma view_update:
  assumes v: "gym_view ss bs so t"
  shows "gym_view (ss @ [(team, slots, battle, t)]) bs
    (Some \<lparr>gs_team_id = team, gs_slots_available = slots, gs_in_battle = battle,
        gs_last_owner_id = new_last_owner so team, gs_last_seen = t,
        gs_battle_cooldown_until = (case so of Some s \<Rightarrow> gs_battle_cooldown_until s | None \<Rightarrow> zero_time)\<rparr>) t"
proof (cases so)
  case None
  then have u: "gym_unknown ss bs t" and t: "0 \<le> t" using v by (simp_all add: gym_view_def)
  then have "b \<le> t" if "b \<in> set bs" for b using that by (fastforce simp: gym_unknown_def)
  with u t unknown_battle [OF u] view_owner [OF v, of team slots battle] None show ?thesis
    by (auto simp: gym_view_def gym_known_def zero_time_def)
next
  case (Some s)
  then have k: "gym_known ss bs s t" and t: "0 \<le> t" using v by (simp_all add: gym_view_def)
  then have "b \<le> t" if "b \<in> set bs" for b using that by (fastforce simp: gym_known_def)
  with k t view_owner [OF v, of team slots battle] Some show ?thesis
    by (auto simp: gym_view_def gym_known_def)
qed

lemma view_battle:
  assumes v: "gym_view ss bs (Some s) t" and seen: "gs_last_seen s = t"
  shows "gym_view ss (bs @ [t]) (Some (s\<lparr>gs_battle_cooldown_until := t + 5 * ns_minute\<rparr>)) t"
proof -
  have "b \<le> t" if "b \<in> set bs" for b using v seen that by (auto simp: gym_view_def gym_known_def)
  then have "(\<exists>b \<in> set (bs @ [t]). t' < b + 5 * ns_minute) \<longleftrightarrow> t' < t + 5 * ns_minute" for t'
    by (auto intro: less_le_trans)
  with v seen \<open>\<And>b. b \<in> set bs \<Longrightarrow> b \<le> t\<close> show ?thesis by (auto simp: gym_view_def gym_known_def)
qed

lemma view_cleanup:
  assumes v: "gym_view ss bs (Some s) t" and "gs_last_seen s \<le> t - 24 * ns_hour"
  shows "gym_view ss bs None t"
  using assms by (fastforce simp: gym_view_def gym_known_def gym_unknown_def seen_time_def)

lemma view_restart:
  assumes v: "gym_view ss bs (Some s) t"
  shows "gym_view ss [] (Some (load_gym (save_gym s))) t"
  using v by (auto simp: gym_view_def gym_known_def load_gym_def save_gym_def zero_time_def)

lemma view_restart_None: "gym_view ss bs None t \<Longrightarrow> gym_view ss [] None t"
  by (simp add: gym_view_def gym_unknown_def)

section \<open>The invariant of the tracker\<close>

definition gym_inv :: "gym_op list \<Rightarrow> gym_tracker \<Rightarrow> gotime \<Rightarrow> bool" where
  "gym_inv ops g now \<longleftrightarrow> gok g \<and> (\<forall>x. gym_view (sightings x ops) (battles x ops) (gget g x) now)"

lemma battles_snoc:
  "battles x (ops @ [q]) = (case q of
      BattleUpdate gid team slots battle now \<Rightarrow> if gid = x \<and> battle then battles x ops @ [now] else battles x ops
    | Restart now \<Rightarrow> [] | _ \<Rightarrow> battles x ops)"
  by (simp add: battles_def split: gym_op.split)

lemma gym_inv_update:
  assumes "gym_inv ops g t"
  shows "gok (fst (update_locked g gid team slots battle t))"
    and "gym_view (sightings x ops @ (if x = gid then [(team, slots, battle, t)] else [])) (battles x ops)
      (gget (fst (update_locked g gid team slots battle t)) x) t"
  using assms by (auto simp: gym_inv_def gok_update_locked gget_update_locked view_update)

lemma load_cache_get:
  "gok loaded \<Longrightarrow> gget (foldl (\<lambda>acc (k, e). if gy_last_seen e > c then gput k (load_gym e) acc else acc) g loaded) x =
    (case gget loaded x of Some e \<Rightarrow> if gy_last_seen e > c then Some (load_gym e) else gget g x | None \<Rightarrow> gget g x)"
proof (induction loaded arbitrary: g)
  case (Cons p loaded)
  obtain k e where p: "p = (k, e)" by (cases p)
  with Cons.prems have none: "gget loaded k = None" and ok: "gok loaded" by (simp_all add: gok_Cons)
  from Cons.IH [OF ok] none show ?case by (auto simp: p gget_Cons gget_put split: option.split)
qed simp

lemma load_cache_gok:
  "gok g \<Longrightarrow> gok (foldl (\<lambda>acc (k, e). if gy_last_seen e > c then gput k (load_gym e) acc else acc) g loaded)"
  by (induction loaded arbitrary: g) (auto simp: gok_put)

lemma gym_inv_step:
  assumes inv: "gym_inv ops g now" and le: "now \<le> gym_time q"
  shows "gym_inv (ops @ [q]) (gym_step g q) (gym_time q)"
proof -
  let ?t = "gym_time q"
  have inv': "gym_inv ops g ?t" using inv gym_view_later [OF _ le] by (simp add: gym_inv_def)
  then have ok: "gok g" and view: "gym_view (sightings x ops) (battles x ops) (gget g x) ?t" for x
    by (simp_all add: gym_inv_def)
  show ?thesis
  proof (cases q)
    case (GymUpdate gid team slots battle t)
    let ?g1 = "fst (update_locked g gid team slots battle t)"
    have up: "gok ?g1" "gym_view (sightings x ops @ (if x = gid then [(team, slots, battle, t)] else [])) (battles x ops) (gget ?g1 x) t" for x
      using gym_inv_update [of ops g t] inv' GymUpdate by auto
    have "gym_view (sightings x (ops @ [q])) (battles x (ops @ [q])) (gget (gym_step g q) x) t" for x
      using up(2) [of x] by (auto simp: GymUpdate update_gym_def sightings_append battles_snoc)
    with up(1) show ?thesis by (simp add: gym_inv_def GymUpdate update_gym_def)
  next
    case (BattleUpdate gid team slots battle t)
    let ?g1 = "fst (update_locked g gid team slots battle t)"
    have up: "gok ?g1" "gym_view (sightings x ops @ (if x = gid then [(team, slots, battle, t)] else [])) (battles x ops) (gget ?g1 x) t" for x
      using gym_inv_update [of ops g t] inv' BattleUpdate by auto
    have step: "fst (update_with_battle_cooldown g gid team slots b t) =
        (let g1 = fst (update_locked g gid team slots b t) in if b then set_cooldown g1 gid (t + 5 * ns_minute) else g1)" for b
      by (simp add: update_with_battle_cooldown_def split_beta Let_def)
    show ?thesis
    proof (cases battle)
      case True
      obtain s where s: "gget ?g1 gid = Some s" "gs_last_seen s = t" by (simp add: gget_update_locked)
      have "gym_view (sightings gid ops @ [(team, slots, battle, t)]) (battles gid ops @ [t])
          (Some (s\<lparr>gs_battle_cooldown_until := t + 5 * ns_minute\<rparr>)) t"
        using up(2) [of gid] s by (intro view_battle) simp_all
      then have "gym_view (sightings x (ops @ [q])) (battles x (ops @ [q])) (gget (gym_step g q) x) t" for x
        using up(2) [of x] s True
        by (cases "x = gid") (simp_all add: step Let_def sightings_append battles_snoc BattleUpdate gget_set_cooldown)
      with up(1) True show ?thesis by (simp add: gym_inv_def step Let_def BattleUpdate gok_set_cooldown)
    next
      case False
      then have "gym_view (sightings x (ops @ [q])) (battles x (ops @ [q])) (gget (gym_step g q) x) t" for x
        using up(2) [of x] by (cases "x = gid") (simp_all add: step Let_def sightings_append battles_snoc BattleUpdate)
      with up(1) False show ?thesis by (simp add: gym_inv_def step Let_def BattleUpdate)
    qed
  next
    case (GymCleanup t)
    have "gym_view (sightings x ops) (battles x ops) (gget (cleanup_gyms g t) x) t" for x
      using view [of x] view_cleanup [of "sightings x ops" "battles x ops" _ t] ok GymCleanup
      by (auto simp: cleanup_gyms_def gget_keep split: option.splits)
    with ok GymCleanup show ?thesis
      by (simp add: gym_inv_def sightings_append battles_snoc cleanup_gyms_def gok_keep)
  next
    case (Restart t)
    have get: "gget (load_gyms_cache new_gym_tracker (Some (save_gyms g)) t) x = (case gget g x of Some s \<Rightarrow>
        if gs_last_seen s > t - 24 * ns_hour then Some (load_gym (save_gym s)) else None | None \<Rightarrow> None)" for x
      using ok by (auto simp: load_gyms_cache_def save_gyms_def load_cache_get gok_mapv gget_mapv
          new_gym_tracker_def save_gym_def split: option.split)
    have "gym_view (sightings x ops) [] (gget (load_gyms_cache new_gym_tracker (Some (save_gyms g)) t) x) t" for x
    proof (cases "gget g x")
      case None
      then show ?thesis using view [of x] view_restart_None Restart by (simp add: get)
    next
      case (Some s)
      then have "gym_view (sightings x ops) (battles x ops) (Some s) t" using view [of x] Restart by simp
      with Some view_restart view_cleanup [THEN view_restart_None] show ?thesis by (auto simp: get not_less)
    qed
    moreover have "gok (load_gyms_cache new_gym_tracker (Some (save_gyms g)) t)" by (simp add: load_gyms_cache_def load_cache_gok new_gym_tracker_def)
    ultimately show ?thesis by (simp add: gym_inv_def sightings_append battles_snoc Restart)
  qed
qed

lemma gym_inv_run:
  "sorted (0 # map gym_time ops @ [now]) \<Longrightarrow> gym_inv ops (gym_run ops) now"
proof (induction ops arbitrary: now rule: rev_induct)
  case Nil
  then show ?case
    by (simp add: gym_inv_def gym_run_def new_gym_tracker_def gym_view_def gym_unknown_def battles_def)
next
  case (snoc q ops)
  have "gym_inv ops (gym_run ops) (gym_time q)"
    using snoc.prems by (intro snoc.IH) (auto simp: sorted_append)
  then have "gym_inv (ops @ [q]) (gym_run (ops @ [q])) (gym_time q)"
    using gym_inv_step by (simp add: gym_run_def)
  then show ?case using snoc.prems by (auto simp: gym_inv_def sorted_append intro: gym_view_later)
qed

text \<open>A gym seen in the last 24 hours is remembered, over clean-ups and restarts: its cached team, slots and battle
  flag are those of its last webhook, and if it was never unseen for a day its last owner is the last team that
  held it, or -1 when none ever did.\<close>

theorem gym_state_remembered:
  assumes "sorted (0 # map gym_time ops @ [now])" and "sightings x ops \<noteq> []"
    and "now - seen_time (last (sightings x ops)) < 24 * ns_hour"
  shows "\<exists>s. gget (gym_run ops) x = Some s \<and>
    last (sightings x ops) = (gs_team_id s, gs_slots_available s, gs_in_battle s, gs_last_seen s) \<and>
    (never_lost (sightings x ops) \<longrightarrow> gs_last_owner_id s = latest_owner (sightings x ops))"
proof -
  have "gym_view (sightings x ops) (battles x ops) (gget (gym_run ops) x) now"
    using gym_inv_run [OF assms(1)] by (simp add: gym_inv_def)
  with assms(2,3) show ?thesis by (auto simp: gym_view_def gym_known_def gym_unknown_def split: option.splits)
qed

lemma gym_state_remembered_witness:
  "let ops = [GymUpdate ''g'' 2 3 False 10, BattleUpdate ''g'' 0 6 True 20, GymCleanup 30, Restart 40]
   in \<exists>s. gget (gym_run ops) ''g'' = Some s \<and>
    last (sightings ''g'' ops) = (gs_team_id s, gs_slots_available s, gs_in_battle s, gs_last_seen s) \<and>
    (never_lost (sightings ''g'' ops) \<longrightarrow> gs_last_owner_id s = latest_owner (sightings ''g'' ops))"
  unfolding Let_def by (rule gym_state_remembered [of _ 50]) (simp_all add: seen_time_def)

text \<open>The battle cooldown is exact: an update is told that the gym is cooling down if and only if an update since the
  last restart saw it in battle less than five minutes before, so two battle alerts of one gym are never closer.\<close>

theorem battle_cooldown_exact:
  assumes "sorted (0 # map gym_time ops @ [now])"
  shows "snd (snd (update_with_battle_cooldown (gym_run ops) x team slots battle now)) \<longleftrightarrow>
    (\<exists>b \<in> set (battles x ops). now < b + 5 * ns_minute)"
proof -
  have "gym_view (sightings x ops) (battles x ops) (gget (gym_run ops) x) now"
    using gym_inv_run [OF assms] by (simp add: gym_inv_def)
  from view_cooldown [OF this] show ?thesis by (simp add: update_with_battle_cooldown_def split_beta Let_def)
qed

lemma battle_cooldown_exact_witness:
  "let ops = [GymUpdate ''g'' 2 3 False 10, BattleUpdate ''g'' 0 6 True 20, GymCleanup 30]
   in snd (snd (update_with_battle_cooldown (gym_run ops) ''g'' 1 5 True 300000000000)) \<longleftrightarrow>
     (\<exists>b \<in> set (battles ''g'' ops). 300000000000 < b + 5 * ns_minute)"
  unfolding Let_def by (rule battle_cooldown_exact) simp

end
