(* ===== verification/Care.thy ===== *)
theory Care
  imports Prelude Float64
begin

text \<open>
  Who is told about a weather change, and about which pokemon: \<open>tracker/weathercare.go\<close>, \<open>tracker/activepokemon.go\<close>
  and the boosts of \<open>gamedata/types.go\<close>. Times are unix seconds. The tickers that call \<open>cleanup\<close> are operations
  of a run. The boost table is an argument, as \<open>InitWeatherTypeBoost\<close> may replace it; its default is written out.
\<close>

section \<open>Boosts\<close>

definition default_weather_type_boost :: "(int, int list) gomap" where
  "default_weather_type_boost =
     [(1, [5, 10, 12]), (2, [7, 11, 13]), (3, [1, 6]), (4, [2, 4, 18]), (5, [3, 14, 16]), (6, [9, 15]), (7, [8, 17])]"

definition is_boosted_by_weather :: "(int, int list) gomap \<Rightarrow> int list \<Rightarrow> int \<Rightarrow> bool" where
  "is_boosted_by_weather table types weather =
     (case gget table weather of None \<Rightarrow> False | Some boosted \<Rightarrow> list_ex (\<lambda>t. t \<in> set boosted) types)"

definition is_affected_by_weather_change :: "(int, int list) gomap \<Rightarrow> int list \<Rightarrow> bool \<Rightarrow> int \<Rightarrow> bool" where
  "is_affected_by_weather_change table types currently_boosted new_weather =
     (if types = [] then False
      else let new_boosts = (case gget table new_weather of
               Some boosted \<Rightarrow> list_ex (\<lambda>t. t \<in> set boosted) types | None \<Rightarrow> False)
           in if currently_boosted then \<not> new_boosts else new_boosts)"

definition get_types :: "(string, int list) gomap \<Rightarrow> int \<Rightarrow> int \<Rightarrow> int list" where
  "get_types pt pokemon form =
     (case gget pt (itoa pokemon @ ''_'' @ itoa form) of Some types \<Rightarrow> types
      | None \<Rightarrow> gget_or [] pt (itoa pokemon @ ''_0''))"

section \<open>Weather care\<close>

record care_entry =
  ce_id :: string
  ce_name :: string
  ce_type :: string
  ce_language :: string
  ce_template :: string
  ce_clean :: int
  ce_ping :: string
  ce_cares_until :: int

type_synonym weather_cares = "(string, (string, care_entry) gomap) gomap"

definition merge_care :: "care_entry \<Rightarrow> care_entry \<Rightarrow> care_entry" where
  "merge_care existing e =
     (let e1 = (if ce_cares_until e > ce_cares_until existing then existing\<lparr>ce_cares_until := ce_cares_until e\<rparr> else existing);
          e2 = (if ce_clean e > 0 then e1\<lparr>ce_clean := Bit_Operations.or (ce_clean e1) (ce_clean e)\<rparr> else e1)
      in e2\<lparr>ce_ping := ce_ping e, ce_language := ce_language e, ce_template := ce_template e\<rparr>)"

definition register_care :: "weather_cares \<Rightarrow> string \<Rightarrow> care_entry \<Rightarrow> weather_cares" where
  "register_care cells cell e =
     (let users = gget_or [] cells cell
      in gput cell (gput (ce_id e) (case gget users (ce_id e) of Some x \<Rightarrow> merge_care x e | None \<Rightarrow> e) users) cells)"

definition get_caring_users :: "weather_cares \<Rightarrow> string \<Rightarrow> int \<Rightarrow> weather_cares \<times> care_entry list" where
  "get_caring_users cells cell now =
     (case gget cells cell of
        None \<Rightarrow> (cells, [])
      | Some entries \<Rightarrow>
          (let kept = gkeep (\<lambda>_ e. \<not> ce_cares_until e \<le> now) entries in (gput cell kept cells, map snd kept)))"

definition cleanup_cares :: "weather_cares \<Rightarrow> int \<Rightarrow> weather_cares" where
  "cleanup_cares cells now =
     gkeep (\<lambda>_ entries. entries \<noteq> []) (gmapv (gkeep (\<lambda>_ e. \<not> ce_cares_until e \<le> now)) cells)"

section \<open>Active pokemon\<close>

record active_pokemon =
  ap_pokemon_id :: int
  ap_form :: int
  ap_iv :: f64
  ap_cp :: int
  ap_latitude :: real
  ap_longitude :: real
  ap_disappear_time :: int
  ap_boosted :: bool
  ap_types :: "int list"

record active_tracker =
  at_cells :: "(string, (string, (string, active_pokemon) gomap) gomap) gomap"
  at_max_per_user :: int

definition new_active_tracker :: "int \<Rightarrow> active_tracker" where
  "new_active_tracker max_per_user =
     \<lparr>at_cells = [], at_max_per_user = (if max_per_user \<le> 0 then 50 else max_per_user)\<rparr>"

definition user_encounters :: "active_tracker \<Rightarrow> string \<Rightarrow> string \<Rightarrow> (string, active_pokemon) gomap" where
  "user_encounters apt cell user = gget_or [] (gget_or [] (at_cells apt) cell) user"

definition oldest_encounter :: "(string, active_pokemon) gomap \<Rightarrow> string \<times> int" where
  "oldest_encounter m =
     foldl (\<lambda>(oid, ot) (eid, p). if ap_disappear_time p < ot then (eid, ap_disappear_time p) else (oid, ot))
       ([], 2 ^ 63 - 1) m"

definition add_encounter :: "int \<Rightarrow> int \<Rightarrow> string \<Rightarrow> active_pokemon \<Rightarrow> (string, active_pokemon) gomap \<Rightarrow> (string, active_pokemon) gomap" where
  "add_encounter max_per_user now eid p m =
     (let m1 = gput eid p (gkeep (\<lambda>_ q. \<not> ap_disappear_time q \<le> now) m)
      in if int (length m1) > max_per_user \<and> fst (oldest_encounter m1) \<noteq> []
         then gdel (fst (oldest_encounter m1)) m1 else m1)"

definition register_active :: "active_tracker \<Rightarrow> string \<Rightarrow> string \<Rightarrow> string \<Rightarrow> active_pokemon \<Rightarrow> int \<Rightarrow> active_tracker" where
  "register_active apt cell user eid p now =
     apt\<lparr>at_cells := gput cell (gput user (add_encounter (at_max_per_user apt) now eid p (user_encounters apt cell user))
        (gget_or [] (at_cells apt) cell)) (at_cells apt)\<rparr>"

text \<open>The loop over a user's encounters: what is left of the map, and the pokemon found.\<close>

fun affected_loop :: "(int, int list) gomap \<Rightarrow> int \<Rightarrow> int \<Rightarrow> int \<Rightarrow> active_pokemon list \<Rightarrow> (string, active_pokemon) gomap \<Rightarrow>
    (string, active_pokemon) gomap \<times> active_pokemon list" where
  "affected_loop table now weather mx found [] = ([], found)"
| "affected_loop table now weather mx found ((eid, p) # m) =
     (if ap_disappear_time p \<le> now then affected_loop table now weather mx found m
      else if is_affected_by_weather_change table (ap_types p) (ap_boosted p) weather
      then (if int (length (found @ [p])) \<ge> mx then ((eid, p) # m, found @ [p])
            else let (rest, r) = affected_loop table now weather mx (found @ [p]) m in ((eid, p) # rest, r))
      else let (rest, r) = affected_loop table now weather mx found m in ((eid, p) # rest, r))"

definition get_affected_pokemon ::
  "(int, int list) gomap \<Rightarrow> active_tracker \<Rightarrow> string \<Rightarrow> string \<Rightarrow> int \<Rightarrow> int \<Rightarrow> int \<Rightarrow> active_tracker \<times> active_pokemon list" where
  "get_affected_pokemon table apt cell user new_weather max_count now =
     (case gget (at_cells apt) cell of
        None \<Rightarrow> (apt, [])
      | Some users \<Rightarrow> (case gget users user of
          None \<Rightarrow> (apt, [])
        | Some encounters \<Rightarrow>
            (let (m, found) = affected_loop table now new_weather max_count [] encounters
             in (apt\<lparr>at_cells := gput cell (gput user m users) (at_cells apt)\<rparr>, found))))"

definition cleanup_active :: "active_tracker \<Rightarrow> int \<Rightarrow> active_tracker" where
  "cleanup_active apt now =
     apt\<lparr>at_cells := gkeep (\<lambda>_ users. users \<noteq> [])
       (gmapv (\<lambda>users. gkeep (\<lambda>_ m. m \<noteq> []) (gmapv (gkeep (\<lambda>_ p. \<not> ap_disappear_time p \<le> now)) users)) (at_cells apt))\<rparr>"

section \<open>Caring users\<close>

datatype care_op = CareRegister string care_entry | CareQuery string int | CareCleanup int

fun care_step :: "weather_cares \<Rightarrow> care_op \<Rightarrow> weather_cares" where
  "care_step cells (CareRegister cell e) = register_care cells cell e"
| "care_step cells (CareQuery cell now) = fst (get_caring_users cells cell now)"
| "care_step cells (CareCleanup now) = cleanup_cares cells now"

fun care_time :: "care_op \<Rightarrow> int option" where
  "care_time (CareRegister cell e) = None"
| "care_time (CareQuery cell now) = Some now"
| "care_time (CareCleanup now) = Some now"

definition care_run :: "care_op list \<Rightarrow> weather_cares" where
  "care_run ops = foldl care_step [] ops"

text \<open>The registrations of a user for a cell.\<close>

definition registrations :: "care_op list \<Rightarrow> string \<Rightarrow> string \<Rightarrow> care_entry list" where
  "registrations ops cell u =
     concat (map (\<lambda>q. case q of CareRegister c e \<Rightarrow> if c = cell \<and> ce_id e = u then [e] else [] | _ \<Rightarrow> []) ops)"

definition care_of :: "weather_cares \<Rightarrow> string \<Rightarrow> string \<Rightarrow> care_entry option" where
  "care_of cells cell u = gget (gget_or [] cells cell) u"

definition cares_ok :: "weather_cares \<Rightarrow> bool" where
  "cares_ok cells \<longleftrightarrow> gok cells \<and> (\<forall>cell. gok (gget_or [] cells cell))"

definition still_cares :: "int \<Rightarrow> care_entry option \<Rightarrow> care_entry option" where
  "still_cares now so = (case so of Some e \<Rightarrow> if ce_cares_until e \<le> now then None else Some e | None \<Rightarrow> None)"

lemma gget_or_keep_Nil:
  "gok m \<Longrightarrow> gget_or [] (gkeep (\<lambda>_ x. x \<noteq> []) (gmapv f m)) k = (if gget m k = None then [] else f (gget_or [] m k))"
  by (auto simp: gget_or_def gget_mapv gget_keep gok_mapv split: option.split)

lemma gget_still: "gok m \<Longrightarrow> gget (gkeep (\<lambda>_ e. \<not> ce_cares_until e \<le> now) m) u = still_cares now (gget m u)"
  by (simp add: gget_keep still_cares_def split: option.split)

lemma care_of_register:
  "care_of (register_care cells cell e) c u =
    (if c = cell \<and> u = ce_id e then Some (case care_of cells cell (ce_id e) of Some x \<Rightarrow> merge_care x e | None \<Rightarrow> e)
     else care_of cells c u)"
  by (simp add: care_of_def register_care_def Let_def gget_or_put gget_put)

lemma care_of_query:
  "cares_ok cells \<Longrightarrow> care_of (fst (get_caring_users cells cell now)) c u =
    (if c = cell then still_cares now (care_of cells c u) else care_of cells c u)"
proof (cases "gget cells cell")
  case (Some m)
  assume ok: "cares_ok cells"
  then have "gok (gget_or [] cells cell)" unfolding cares_ok_def by blast
  then have "gok m" using Some by (simp add: gget_or_def)
  with Some show ?thesis
    by (auto simp: care_of_def get_caring_users_def Let_def gget_or_put gget_still) (simp add: gget_or_def)
qed (auto simp: care_of_def get_caring_users_def gget_or_def still_cares_def)

lemma care_of_cleanup: "cares_ok cells \<Longrightarrow> care_of (cleanup_cares cells now) c u = still_cares now (care_of cells c u)"
  by (auto simp: care_of_def cleanup_cares_def cares_ok_def gget_or_keep_Nil gget_still)
    (simp add: gget_or_def still_cares_def)

lemma cares_ok_step: "cares_ok cells \<Longrightarrow> cares_ok (care_step cells q)"
proof (cases q)
  case (CareRegister cell e)
  assume ok: "cares_ok cells"
  with CareRegister show ?thesis
    by (auto simp: cares_ok_def register_care_def Let_def gget_or_put intro!: gok_put)
next
  case (CareQuery cell now)
  assume ok: "cares_ok cells"
  show ?thesis
  proof (cases "gget cells cell")
    case (Some m)
    have "gok (gget_or [] cells cell)" using ok unfolding cares_ok_def by blast
    then have "gok m" using Some by (simp add: gget_or_def)
    with ok Some CareQuery show ?thesis
      by (auto simp: cares_ok_def get_caring_users_def Let_def gget_or_put intro!: gok_put gok_keep)
  qed (use ok CareQuery in \<open>simp add: get_caring_users_def\<close>)
next
  case (CareCleanup now)
  assume ok: "cares_ok cells"
  with CareCleanup show ?thesis
    by (auto simp: cares_ok_def cleanup_cares_def gget_or_keep_Nil intro!: gok_keep gok_mapv)
qed

text \<open>What the tracker knows of one user and cell: whether they care at any time from now on, and the latest text fields.\<close>

definition care_view :: "string \<Rightarrow> care_entry list \<Rightarrow> care_entry option \<Rightarrow> int \<Rightarrow> bool" where
  "care_view u rs so now \<longleftrightarrow>
     (\<forall>t \<ge> now. (\<exists>r \<in> set rs. t < ce_cares_until r) \<longleftrightarrow> (\<exists>e. so = Some e \<and> t < ce_cares_until e)) \<and>
     (\<forall>e. so = Some e \<longrightarrow> rs \<noteq> [] \<and> ce_id e = u \<and> ce_ping e = ce_ping (last rs) \<and> ce_language e = ce_language (last rs) \<and>
        ce_template e = ce_template (last rs) \<and> (\<exists>r \<in> set rs. ce_cares_until e = ce_cares_until r))"

lemma care_view_later: "care_view u rs so now \<Longrightarrow> now \<le> now' \<Longrightarrow> care_view u rs so now'"
  by (simp add: care_view_def)

lemma care_view_still: "care_view u rs so now \<Longrightarrow> care_view u rs (still_cares now so) now"
  by (cases so) (auto simp: care_view_def still_cares_def)

lemma merge_care_fields [simp]:
  "ce_id (merge_care x e) = ce_id x" "ce_ping (merge_care x e) = ce_ping e" "ce_language (merge_care x e) = ce_language e"
  "ce_template (merge_care x e) = ce_template e" "ce_cares_until (merge_care x e) = max (ce_cares_until x) (ce_cares_until e)"
  by (auto simp: merge_care_def Let_def)

lemma care_view_register:
  assumes v: "care_view (ce_id e) rs so now"
  shows "care_view (ce_id e) (rs @ [e]) (Some (case so of Some x \<Rightarrow> merge_care x e | None \<Rightarrow> e)) now"
proof (cases so)
  case None
  have "\<not> t < ce_cares_until r" if "now \<le> t" "r \<in> set rs" for t r
    using v that unfolding None care_view_def by simp
  then have "(\<exists>r \<in> set (rs @ [e]). t < ce_cares_until r) \<longleftrightarrow> t < ce_cares_until e" if "now \<le> t" for t
    using that by auto
  then show ?thesis unfolding None care_view_def by simp
next
  case (Some x)
  have i: "ce_id x = ce_id e" and r: "\<exists>r \<in> set rs. ce_cares_until x = ce_cares_until r"
    and t: "\<And>t. now \<le> t \<Longrightarrow> (\<exists>r \<in> set rs. t < ce_cares_until r) \<longleftrightarrow> t < ce_cares_until x"
    using v unfolding Some care_view_def by simp_all
  have "(\<exists>r \<in> set (rs @ [e]). t < ce_cares_until r) \<longleftrightarrow> t < ce_cares_until (merge_care x e)" if "now \<le> t" for t
    using t [OF that] by (auto simp: less_max_iff_disj)
  moreover have "\<exists>r \<in> set (rs @ [e]). ce_cares_until (merge_care x e) = ce_cares_until r"
    using r by (auto simp: max_def)
  ultimately show ?thesis unfolding Some care_view_def using i by simp
qed

definition care_inv :: "care_op list \<Rightarrow> weather_cares \<Rightarrow> int \<Rightarrow> bool" where
  "care_inv ops cells now \<longleftrightarrow> cares_ok cells \<and>
     (\<forall>cell u. care_view u (registrations ops cell u) (care_of cells cell u) now)"

lemma care_inv_step:
  assumes inv: "care_inv ops cells now" and le: "\<And>t. care_time q = Some t \<Longrightarrow> now \<le> t"
  shows "care_inv (ops @ [q]) (care_step cells q) (case care_time q of Some t \<Rightarrow> t | None \<Rightarrow> now)"
proof -
  have ok: "cares_ok cells" and view: "care_view u (registrations ops cell u) (care_of cells cell u) now" for cell u
    using inv by (simp_all add: care_inv_def)
  have view': "care_view u (registrations ops cell u) (care_of cells cell u) t" if "now \<le> t" for cell u t
    using view that by (rule care_view_later)
  show ?thesis
  proof (cases q)
    case (CareRegister cell e)
    have "care_view u (registrations (ops @ [q]) c u) (care_of (register_care cells cell e) c u) now" for c u
      using view [of u c] care_view_register [OF view [of "ce_id e" cell]]
      by (auto simp: CareRegister registrations_def care_of_register)
    with ok cares_ok_step [of cells q] show ?thesis by (simp add: care_inv_def CareRegister)
  next
    case (CareQuery cell t)
    have "care_view u (registrations (ops @ [q]) c u) (care_of (fst (get_caring_users cells cell t)) c u) t" for c u
      using view' [of t u c] care_view_still [OF view' [of t u c]] le ok
      by (cases "c = cell") (simp_all add: CareQuery registrations_def care_of_query)
    with ok cares_ok_step [of cells q] show ?thesis by (simp add: care_inv_def CareQuery)
  next
    case (CareCleanup t)
    have "care_view u (registrations (ops @ [q]) c u) (care_of (cleanup_cares cells t) c u) t" for c u
      using care_view_still [OF view' [of t u c]] le ok
      by (simp add: CareCleanup registrations_def care_of_cleanup)
    with ok cares_ok_step [of cells q] show ?thesis by (simp add: care_inv_def CareCleanup)
  qed
qed

lemma care_inv_run:
  "sorted (0 # List.map_filter care_time ops @ [now]) \<Longrightarrow> care_inv ops (care_run ops) now"
proof (induction ops arbitrary: now rule: rev_induct)
  case Nil
  show ?case
    by (simp add: care_inv_def care_run_def cares_ok_def care_of_def care_view_def registrations_def)
next
  case (snoc q ops)
  let ?t = "case care_time q of Some t \<Rightarrow> t | None \<Rightarrow> now"
  have srt: "sorted (0 # List.map_filter care_time ops @ [?t])" "?t \<le> now"
    using snoc.prems by (auto simp: map_filter_append map_filter_simps sorted_append split: option.splits)
  have "care_inv (ops @ [q]) (care_run (ops @ [q])) ?t"
    using care_inv_step [OF snoc.IH [OF srt(1)], of q] by (cases "care_time q") (simp_all add: care_run_def)
  then show ?case using srt(2) by (auto simp: care_inv_def intro: care_view_later)
qed

lemma caring_users_still:
  assumes ok: "cares_ok cells"
  shows "map ce_id (snd (get_caring_users cells cell now)) = map (ce_id \<circ> snd) (gkeep (\<lambda>_ e. \<not> ce_cares_until e \<le> now) (gget_or [] cells cell))"
    and "e \<in> set (snd (get_caring_users cells cell now)) \<longleftrightarrow> (\<exists>u. still_cares now (care_of cells cell u) = Some e)"
proof -
  have gok: "gok (gget_or [] cells cell)" using ok unfolding cares_ok_def by blast
  have list: "snd (get_caring_users cells cell now) = map snd (gkeep (\<lambda>_ e. \<not> ce_cares_until e \<le> now) (gget_or [] cells cell))"
    by (simp add: get_caring_users_def Let_def gget_or_def gkeep_def split: option.split)
  then show "map ce_id (snd (get_caring_users cells cell now)) =
      map (ce_id \<circ> snd) (gkeep (\<lambda>_ e. \<not> ce_cares_until e \<le> now) (gget_or [] cells cell))" by simp
  have "e \<in> set (snd (get_caring_users cells cell now)) \<longleftrightarrow>
      (\<exists>u. (u, e) \<in> set (gkeep (\<lambda>_ e. \<not> ce_cares_until e \<le> now) (gget_or [] cells cell)))"
    by (force simp: list)
  then show "e \<in> set (snd (get_caring_users cells cell now)) \<longleftrightarrow> (\<exists>u. still_cares now (care_of cells cell u) = Some e)"
    using gok by (simp add: gmem_iff gok_keep gget_still care_of_def)
qed

text \<open>C34: Who is told about a weather change is exact, over any run of registrations, queries and clean-ups: a query
  for a cell returns, each once, exactly the users with a registration for the cell that still runs, with the longest
  of their registered times and the ping, language and template of their latest registration.\<close>

theorem caring_users_exact:
  assumes "sorted (0 # List.map_filter care_time ops @ [now])"
  shows "let users = snd (get_caring_users (care_run ops) cell now); regs = registrations ops cell
    in distinct (map ce_id users) \<and>
       ce_id ` set users = {u. \<exists>r \<in> set (regs u). now < ce_cares_until r} \<and>
       (\<forall>e \<in> set users. ce_cares_until e = Max (ce_cares_until ` set (regs (ce_id e))) \<and>
          ce_ping e = ce_ping (last (regs (ce_id e))) \<and> ce_language e = ce_language (last (regs (ce_id e))) \<and>
          ce_template e = ce_template (last (regs (ce_id e))))"
proof -
  let ?users = "snd (get_caring_users (care_run ops) cell now)" and ?regs = "registrations ops cell"
  have inv: "care_inv ops (care_run ops) now" using assms by (rule care_inv_run)
  have ok: "cares_ok (care_run ops)" and view: "care_view u (?regs u) (care_of (care_run ops) cell u) now" for u
    using inv by (simp_all add: care_inv_def)
  have gok: "gok (gget_or [] (care_run ops) cell)" using ok unfolding cares_ok_def by blast
  have mem: "e \<in> set ?users \<longleftrightarrow> (\<exists>u. care_of (care_run ops) cell u = Some e \<and> now < ce_cares_until e)" for e
    by (simp add: caring_users_still [OF ok] still_cares_def not_le split: option.splits) (metis option.inject not_le)
  have key: "ce_id e = u" if "care_of (care_run ops) cell u = Some e" for u e
    using view [of u] that by (simp add: care_view_def)
  have "distinct (map ce_id ?users)"
  proof -
    have "map (ce_id \<circ> snd) (gkeep P (gget_or [] (care_run ops) cell)) = map fst (gkeep P (gget_or [] (care_run ops) cell))" for P
      using gok key by (auto simp: gmem_iff gkeep_mem care_of_def)
    then show ?thesis using gok_keep [OF gok] unfolding caring_users_still(1) [OF ok] gok_def by metis
  qed
  moreover have "ce_id ` set ?users = {u. \<exists>r \<in> set (?regs u). now < ce_cares_until r}"
  proof -
    have "(\<exists>e \<in> set ?users. ce_id e = u) \<longleftrightarrow> (\<exists>r \<in> set (?regs u). now < ce_cares_until r)" for u
    proof -
      have "(\<exists>e \<in> set ?users. ce_id e = u) \<longleftrightarrow> (\<exists>e. care_of (care_run ops) cell u = Some e \<and> now < ce_cares_until e)"
        using mem key by blast
      also have "\<dots> \<longleftrightarrow> (\<exists>r \<in> set (?regs u). now < ce_cares_until r)"
        using view [of u] unfolding care_view_def by blast
      finally show ?thesis .
    qed
    then show ?thesis by (simp add: set_eq_iff image_iff) (metis (no_types))
  qed
  moreover have "ce_cares_until e = Max (ce_cares_until ` set (?regs (ce_id e))) \<and>
      ce_ping e = ce_ping (last (?regs (ce_id e))) \<and> ce_language e = ce_language (last (?regs (ce_id e))) \<and>
      ce_template e = ce_template (last (?regs (ce_id e)))" if e: "e \<in> set ?users" for e
  proof -
    have so: "care_of (care_run ops) cell (ce_id e) = Some e" "now < ce_cares_until e" using e mem key by auto
    note v = view [of "ce_id e", unfolded so(1) care_view_def]
    have max: "\<not> ce_cares_until e < ce_cares_until r" if "r \<in> set (?regs (ce_id e))" for r
      using v so(2) that by (metis less_irrefl less_imp_le option.inject)
    have "Max (ce_cares_until ` set (?regs (ce_id e))) = ce_cares_until e"
      using v max by (intro Max_eqI) (auto simp: not_less)
    with v show ?thesis by simp
  qed
  ultimately show ?thesis unfolding Let_def by blast
qed

lemma caring_users_exact_witness:
  "let e = \<lparr>ce_id = ''u'', ce_name = ''n'', ce_type = ''t'', ce_language = ''en'', ce_template = ''1'', ce_clean = 0,
         ce_ping = [], ce_cares_until = 100\<rparr>;
       ops = [CareRegister ''c'' e, CareCleanup 50, CareRegister ''c'' (e\<lparr>ce_cares_until := 70, ce_language := ''de''\<rparr>)];
       users = snd (get_caring_users (care_run ops) ''c'' 60); regs = registrations ops ''c''
   in distinct (map ce_id users) \<and>
      ce_id ` set users = {u. \<exists>r \<in> set (regs u). 60 < ce_cares_until r} \<and>
      (\<forall>e \<in> set users. ce_cares_until e = Max (ce_cares_until ` set (regs (ce_id e))) \<and>
         ce_ping e = ce_ping (last (regs (ce_id e))) \<and> ce_language e = ce_language (last (regs (ce_id e))) \<and>
         ce_template e = ce_template (last (regs (ce_id e))))"
  unfolding Let_def by (rule caring_users_exact [unfolded Let_def]) (simp add: map_filter_simps)

section \<open>Affected pokemon\<close>

lemma is_affected_iff:
  "is_affected_by_weather_change table types boosted w \<longleftrightarrow> types \<noteq> [] \<and> boosted \<noteq> is_boosted_by_weather table types w"
  by (auto simp: is_affected_by_weather_change_def is_boosted_by_weather_def Let_def split: option.split)

definition affected_of :: "(int, int list) gomap \<Rightarrow> int \<Rightarrow> int \<Rightarrow> (string, active_pokemon) gomap \<Rightarrow> active_pokemon list" where
  "affected_of table now w m = map snd (filter (\<lambda>(_, p). now < ap_disappear_time p \<and> ap_types p \<noteq> [] \<and>
     ap_boosted p \<noteq> is_boosted_by_weather table (ap_types p) w) m)"

lemma affected_loop_found:
  "snd (affected_loop table now w mx found m) = found @ take (nat (max 1 (mx - int (length found)))) (affected_of table now w m)"
proof (induction table now w mx found m rule: affected_loop.induct)
  case (2 table now w mx found eid p m)
  show ?case
  proof (cases "now < ap_disappear_time p \<and> is_affected_by_weather_change table (ap_types p) (ap_boosted p) w")
    case False
    with 2 show ?thesis by (auto simp: affected_of_def is_affected_iff split_beta Let_def)
  next
    case True
    then have a: "affected_of table now w ((eid, p) # m) = p # affected_of table now w m"
      by (simp add: affected_of_def is_affected_iff)
    show ?thesis
    proof (cases "int (length (found @ [p])) \<ge> mx")
      case full: True
      then have "nat (max 1 (mx - int (length found))) = 1" by (auto simp: max_def)
      with True full a show ?thesis by simp
    next
      case more: False
      then have n: "nat (max 1 (mx - int (length found))) = Suc (nat (max 1 (mx - int (length (found @ [p])))))"
        by (auto simp: max_def)
      have "snd (affected_loop table now w mx found ((eid, p) # m)) = snd (affected_loop table now w mx (found @ [p]) m)"
        using True more by (simp add: split_beta Let_def)
      also have "\<dots> = (found @ [p]) @ take (nat (max 1 (mx - int (length (found @ [p]))))) (affected_of table now w m)"
        using True more by (intro "2.IH"(2)) simp_all
      finally show ?thesis unfolding a n by simp
    qed
  qed
qed (simp add: affected_of_def)

text \<open>The pokemon listed in a weather alert are, in the order of the map, the user's unexpired pokemon of the cell
  whose boost flips with the new weather, and the list is cut to the configured count; at least one is listed when
  there is one, even for a count of zero or below.\<close>

theorem affected_pokemon_exact:
  "snd (get_affected_pokemon table apt cell user w mx now) =
     take (nat (max 1 mx)) (map snd (filter (\<lambda>(_, p). now < ap_disappear_time p \<and> ap_types p \<noteq> [] \<and>
       ap_boosted p \<noteq> is_boosted_by_weather table (ap_types p) w) (user_encounters apt cell user)))"
proof (cases "gget (at_cells apt) cell")
  case (Some users)
  then show ?thesis
    by (cases "gget users user")
      (simp_all add: get_affected_pokemon_def user_encounters_def gget_or_def split_beta Let_def affected_loop_found
        affected_of_def)
qed (simp add: get_affected_pokemon_def user_encounters_def gget_or_def)

lemma oldest_found:
  assumes "\<forall>(eid, p) \<in> set m. eid \<noteq> [] \<and> ap_disappear_time p < 2 ^ 63 - 1" and "m \<noteq> []"
  shows "fst (oldest_encounter m) \<in> fst ` set m \<and> fst (oldest_encounter m) \<noteq> []"
proof -
  let ?f = "\<lambda>(oid, ot) (eid, p). if ap_disappear_time p < ot then (eid, ap_disappear_time p) else (oid, ot)"
  have inv: "fst (foldl ?f acc m) = fst acc \<or> fst (foldl ?f acc m) \<in> fst ` set m" for acc m
    by (induction m arbitrary: acc) (force split: prod.splits if_splits)+
  obtain x ms where m: "m = x # ms" using assms(2) by (cases m) auto
  obtain eid p where x: "x = (eid, p)" by (cases x)
  have "oldest_encounter m = foldl ?f (eid, ap_disappear_time p) ms"
    using assms(1) by (simp add: oldest_encounter_def m x)
  with inv [of "(eid, ap_disappear_time p)" ms] have "fst (oldest_encounter m) \<in> fst ` set m" by (auto simp: m x)
  then show ?thesis using assms(1) by auto
qed

lemma length_gdel:
  assumes "k \<in> fst ` set m" shows "length (gdel k m) < length m"
proof -
  obtain v where "(k, v) \<in> set m" using assms by auto
  then show ?thesis unfolding gdel_def by (rule length_filter_less) simp
qed

definition encounters_sane :: "(string, active_pokemon) gomap \<Rightarrow> bool" where
  "encounters_sane m \<longleftrightarrow> (\<forall>(eid, p) \<in> set m. eid \<noteq> [] \<and> ap_disappear_time p < 2 ^ 63 - 1)"

lemma add_encounter_bounded:
  assumes "encounters_sane m" and "int (length m) \<le> mx" and "eid \<noteq> []" and "ap_disappear_time p < 2 ^ 63 - 1" and "0 < mx"
  shows "encounters_sane (add_encounter mx now eid p m) \<and> int (length (add_encounter mx now eid p m)) \<le> mx"
proof -
  let ?kept = "gkeep (\<lambda>_ q. \<not> ap_disappear_time q \<le> now) m"
  let ?m1 = "gput eid p ?kept"
  have sane: "encounters_sane ?m1"
    using assms(1,3,4) by (auto simp: encounters_sane_def gkeep_mem dest!: gput_mem)
  have len: "int (length ?m1) \<le> mx + 1"
    using assms(2) length_gkeep [of "\<lambda>_ q. \<not> ap_disappear_time q \<le> now" m] by (auto simp: length_gput)
  show ?thesis
  proof (cases "int (length ?m1) > mx")
    case True
    then have ne: "?m1 \<noteq> []" using assms(5) by auto
    have old: "fst (oldest_encounter ?m1) \<in> fst ` set ?m1 \<and> fst (oldest_encounter ?m1) \<noteq> []"
      using sane ne by (intro oldest_found) (simp_all add: encounters_sane_def)
    have add: "add_encounter mx now eid p m = gdel (fst (oldest_encounter ?m1)) ?m1"
      using True old by (simp add: add_encounter_def Let_def)
    have "encounters_sane (gdel k ?m1)" for k using sane by (auto simp: encounters_sane_def gdel_def)
    moreover have "length (gdel (fst (oldest_encounter ?m1)) ?m1) < length ?m1" using old by (intro length_gdel) simp
    ultimately show ?thesis unfolding add using len by auto
  next
    case False
    with sane show ?thesis by (simp add: add_encounter_def Let_def)
  qed
qed

datatype active_op =
    ActiveRegister string string string active_pokemon int
  | ActiveQuery string string int int int
  | ActiveCleanup int

fun active_step :: "(int, int list) gomap \<Rightarrow> active_tracker \<Rightarrow> active_op \<Rightarrow> active_tracker" where
  "active_step table apt (ActiveRegister cell user eid p now) = register_active apt cell user eid p now"
| "active_step table apt (ActiveQuery cell user w mx now) = fst (get_affected_pokemon table apt cell user w mx now)"
| "active_step table apt (ActiveCleanup now) = cleanup_active apt now"

fun proper_op :: "active_op \<Rightarrow> bool" where
  "proper_op (ActiveRegister cell user eid p now) \<longleftrightarrow> eid \<noteq> [] \<and> ap_disappear_time p < 2 ^ 63 - 1"
| "proper_op _ \<longleftrightarrow> True"

definition within_cap :: "int \<Rightarrow> (string, active_pokemon) gomap \<Rightarrow> bool" where
  "within_cap mx m \<longleftrightarrow> encounters_sane m \<and> int (length m) \<le> mx"

definition active_inv :: "active_tracker \<Rightarrow> bool" where
  "active_inv apt \<longleftrightarrow> 0 < at_max_per_user apt \<and> gok (at_cells apt) \<and>
     (\<forall>cell. gok (gget_or [] (at_cells apt) cell)) \<and>
     (\<forall>cell user. within_cap (at_max_per_user apt) (user_encounters apt cell user))"

lemma within_cap_subset: "within_cap mx m \<Longrightarrow> set m' \<subseteq> set m \<Longrightarrow> length m' \<le> length m \<Longrightarrow> within_cap mx m'"
  by (auto simp: within_cap_def encounters_sane_def)

lemma affected_loop_rest:
  "set (fst (affected_loop table now w mx found m)) \<subseteq> set m \<and> length (fst (affected_loop table now w mx found m)) \<le> length m"
  by (induction table now w mx found m rule: affected_loop.induct) (auto simp: split_beta Let_def)

lemma active_inv_query: "active_inv apt \<Longrightarrow> active_inv (fst (get_affected_pokemon table apt cell user w mx now))"
proof (cases "gget (at_cells apt) cell")
  case (Some users)
  assume inv: "active_inv apt"
  show ?thesis
  proof (cases "gget users user")
    case None
    with Some inv show ?thesis by (simp add: get_affected_pokemon_def)
  next
    case m: (Some m)
    let ?m' = "fst (affected_loop table now w mx [] m)"
    have eq: "fst (get_affected_pokemon table apt cell user w mx now) =
        apt\<lparr>at_cells := gput cell (gput user ?m' users) (at_cells apt)\<rparr>"
      using Some m by (simp add: get_affected_pokemon_def split_beta Let_def)
    have users: "gget_or [] (at_cells apt) cell = users" and enc: "user_encounters apt cell user = m"
      using Some m by (simp_all add: user_encounters_def gget_or_def)
    have "gok users" using inv unfolding active_inv_def users [symmetric] by blast
    moreover have "within_cap (at_max_per_user apt) ?m'"
      using inv affected_loop_rest [of table now w mx "[]" m] enc within_cap_subset [of _ m ?m']
      unfolding active_inv_def by blast
    ultimately show ?thesis
      using inv users by (auto simp: active_inv_def eq gget_or_put user_encounters_def intro!: gok_put)
  qed
qed (simp add: get_affected_pokemon_def)

lemma active_inv_register:
  assumes inv: "active_inv apt" and "eid \<noteq> []" "ap_disappear_time p < 2 ^ 63 - 1"
  shows "active_inv (register_active apt cell user eid p now)"
proof -
  have "within_cap (at_max_per_user apt) (add_encounter (at_max_per_user apt) now eid p (user_encounters apt cell user))"
    using inv assms(2,3) add_encounter_bounded [of "user_encounters apt cell user" "at_max_per_user apt" eid p now]
    by (simp add: active_inv_def within_cap_def)
  then show ?thesis
    using inv by (auto simp: active_inv_def register_active_def gget_or_put user_encounters_def intro!: gok_put)
qed

lemma active_inv_cleanup:
  assumes inv: "active_inv apt" shows "active_inv (cleanup_active apt now)"
proof -
  let ?prune = "gkeep (\<lambda>_ p. \<not> ap_disappear_time p \<le> now)"
  let ?users = "\<lambda>users. gkeep (\<lambda>_ m. m \<noteq> []) (gmapv ?prune users)"
  have ok: "gok (at_cells apt)" and oku: "gok (gget_or [] (at_cells apt) cell)" for cell
    using inv unfolding active_inv_def by blast+
  have cell: "gget_or [] (at_cells (cleanup_active apt now)) cell =
      (if gget (at_cells apt) cell = None then [] else ?users (gget_or [] (at_cells apt) cell))" for cell
    using ok by (simp add: cleanup_active_def gget_or_keep_Nil)
  have enc: "user_encounters (cleanup_active apt now) cell user = [] \<or>
      user_encounters (cleanup_active apt now) cell user = ?prune (user_encounters apt cell user)" for cell user
    using oku by (auto simp: user_encounters_def cell gget_or_keep_Nil)
  have "within_cap (at_max_per_user apt) (user_encounters (cleanup_active apt now) cell user)" for cell user
  proof -
    have "within_cap (at_max_per_user apt) (user_encounters apt cell user)" using inv by (simp add: active_inv_def)
    then show ?thesis
      using enc [of cell user] by (auto elim: within_cap_subset simp: gkeep_mem length_gkeep)
  qed
  moreover have "gok (gget_or [] (at_cells (cleanup_active apt now)) cell)" for cell
    using oku [of cell] by (simp add: cell gok_keep gok_mapv)
  ultimately show ?thesis
    using inv ok by (simp add: active_inv_def gok_keep gok_mapv) (simp add: cleanup_active_def gok_keep gok_mapv)
qed

lemma active_step_max: "at_max_per_user (active_step table apt q) = at_max_per_user apt"
proof (cases q)
  case (ActiveQuery cell user w mx now)
  then show ?thesis by (simp add: get_affected_pokemon_def split_beta Let_def split: option.split)
qed (simp_all add: register_active_def cleanup_active_def)

lemma active_inv_step:
  assumes "active_inv apt" and "proper_op q" shows "active_inv (active_step table apt q)"
  using assms by (cases q) (simp_all add: active_inv_register active_inv_query active_inv_cleanup)

lemma active_inv_fold:
  assumes "active_inv apt" and "list_all proper_op ops"
  shows "active_inv (foldl (active_step table) apt ops) \<and>
    at_max_per_user (foldl (active_step table) apt ops) = at_max_per_user apt"
  using assms
proof (induction ops arbitrary: apt)
  case (Cons q ops)
  then have "active_inv (active_step table apt q)" by (intro active_inv_step) simp_all
  from Cons.IH [OF this] Cons.prems(2) show ?case by (simp add: active_step_max)
qed simp

text \<open>The active-pokemon tracker is bounded: after any run of registrations, queries and clean-ups, no user has more
  pokemon remembered for a cell than the configured cap (50 when none is configured), for encounters with an id and a
  disappearance time below the largest 64-bit integer.\<close>

theorem active_pokemon_bounded:
  assumes "list_all proper_op ops"
  shows "int (length (user_encounters (foldl (active_step table) (new_active_tracker mx) ops) cell user)) \<le>
    (if mx \<le> 0 then 50 else mx)"
proof -
  have "active_inv (new_active_tracker mx)"
    by (simp add: active_inv_def within_cap_def new_active_tracker_def user_encounters_def encounters_sane_def)
  note inv = active_inv_fold [OF this assms, of table]
  then have "within_cap (at_max_per_user (new_active_tracker mx))
      (user_encounters (foldl (active_step table) (new_active_tracker mx) ops) cell user)"
    by (metis active_inv_def)
  then show ?thesis by (simp add: within_cap_def new_active_tracker_def)
qed

lemma active_pokemon_bounded_witness:
  "let p = \<lparr>ap_pokemon_id = 1, ap_form = 0, ap_iv = 0, ap_cp = 10, ap_latitude = 0, ap_longitude = 0,
        ap_disappear_time = 100, ap_boosted = False, ap_types = [3]\<rparr>
   in int (length (user_encounters (foldl (active_step default_weather_type_boost) (new_active_tracker 1)
        [ActiveRegister ''c'' ''u'' ''e1'' p 5, ActiveRegister ''c'' ''u'' ''e2'' p 6, ActiveCleanup 7]) ''c'' ''u'')) \<le>
      (if (1 :: int) \<le> 0 then 50 else 1)"
  unfolding Let_def by (rule active_pokemon_bounded) simp

end
