(* ===== verification/Pipeline.thy ===== *)
theory Pipeline
  imports PokemonMatch Dedup Encounter Mute RateLimit Rarity RecentActivity Weather Care Deliver
begin

text \<open>
  The handler of pokemon webhooks (\<open>cmd/processor/pokemon.go\<close>) with the filters every handler shares
  (\<open>cmd/processor/helpers.go\<close>), composed of the components as the code composes them: statistics, recent activity,
  duplicate check, weather inference, match, the three filters, encounter tracking, weather care, and the render jobs.
  A handler runs in a goroutine of its own; each component call is atomic under the component's lock, and the handler is
  one step here, with one reading of the clock. The enrichment (template variables, tiles) is left out of the
  jobs: no decision depends on it. The S2 cell of a position, the external validator and the human store are
  arguments.
\<close>

section \<open>Configuration, state, jobs\<close>

record wild_pokemon = pokemon_webhook +
  wp_encounter_id :: string
  wp_verified :: bool
  wp_disappear_time_verified :: bool
  wp_shiny :: "bool option"

text \<open>\<open>store.HumanLite\<close>, the fields read here.\<close>

record lite_human =
  lh_id :: string
  lh_type :: string
  lh_name :: string
  lh_language :: string
  lh_enabled :: bool
  lh_admin_disable :: bool

record 'c service_env =
  se_disable_pokemon :: bool
  se_enable_inference :: bool
  se_change_tracking :: bool
  se_change_alert :: bool
  se_locale :: string
  se_rendering :: bool
  se_matcher :: pokemon_matcher
  se_pvp :: pvp_config
  se_state :: "state option"
  se_search :: rtree_search
  se_hash :: "string \<Rightarrow> fingerprint"
  se_cell_id :: "f64 \<Rightarrow> f64 \<Rightarrow> string"
  se_geo :: "real \<Rightarrow> real \<Rightarrow> (real \<times> real) \<times> (real \<times> real) list"
  se_validator :: "(string \<Rightarrow> string list \<Rightarrow> matched_user \<Rightarrow> bool \<times> string) option"
  se_humans :: "(string \<Rightarrow> lite_human option) option"
  se_types :: "(string, int list) gomap"
  se_cache :: "'c cache_ops"

record 'c service =
  sv_limiter :: "limiter option"
  sv_mutes :: "mute_store option"
  sv_stats :: stats_tracker
  sv_recent :: "recent_activity option"
  sv_seen :: expiring_set
  sv_weather :: weather_tracker
  sv_cares :: weather_cares
  sv_active :: "active_tracker option"
  sv_encounters :: encounter_tracker
  sv_tracker :: "'c message_tracker option"

record render_job =
  rj_alert_type :: string
  rj_template_type :: string
  rj_is_pokemon :: bool
  rj_is_change :: bool
  rj_is_encountered :: bool
  rj_users :: "matched_user list"
  rj_areas :: "web_area list"
  rj_log_reference :: string
  rj_reply_key :: string
  rj_change_type :: string
  rj_edit_key :: string
  rj_override_clean_tth :: int

text \<open>A message of \<open>dispatchBypass\<close>: target, type, name, content.\<close>

type_synonym bypass = "string \<times> string \<times> string \<times> string"

section \<open>Filters\<close>

definition effective_language :: "string \<Rightarrow> string \<Rightarrow> string" where
  "effective_language lang locale = (if lang \<noteq> [] then lang else if locale \<noteq> [] then locale else ''en'')"

definition distinct_languages :: "matched_user list \<Rightarrow> string \<Rightarrow> string list" where
  "distinct_languages matched locale =
     foldl (\<lambda>langs m. let l = effective_language (mu_language m) locale in if l \<in> set langs then langs else langs @ [l]) [] matched"

definition group_by_language :: "matched_user list \<Rightarrow> string \<Rightarrow> (string, matched_user list) gomap" where
  "group_by_language matched locale =
     foldl (\<lambda>out m. gappend (effective_language (mu_language m) locale) [m] out) [] matched"

definition filter_blocked :: "limiter option \<Rightarrow> 'u matched_user_scheme list \<Rightarrow> gotime \<Rightarrow> 'u matched_user_scheme list" where
  "filter_blocked lo matched now =
     (case lo of None \<Rightarrow> matched | Some l \<Rightarrow> filter (\<lambda>m. \<not> is_blocked l (mu_id m) (mu_type m) now) matched)"

definition with_area_names :: "mute_event \<Rightarrow> web_area list \<Rightarrow> mute_event" where
  "with_area_names ev areas =
     (if mv_area ev = [] \<and> length areas > 0 then ev\<lparr>mv_area := map wa_name areas\<rparr> else ev)"

definition filter_muted :: "mute_store option \<Rightarrow> matched_user list \<Rightarrow> web_area list \<Rightarrow> mute_event \<Rightarrow> gotime \<Rightarrow> matched_user list" where
  "filter_muted mo matched areas ev now =
     (case mo of None \<Rightarrow> matched
      | Some s \<Rightarrow>
          if length matched = 0 then matched
          else filter (\<lambda>m. \<not> match_mute s (mu_id m) ((with_area_names ev areas)\<lparr>mv_matched_rule_uid := mu_rule_uid m\<rparr>) (unix now)) matched)"

definition bypass_messages :: "bool \<Rightarrow> (matched_user \<times> bool \<times> string) list \<Rightarrow> bypass list" where
  "bypass_messages dispatching decisions =
     (if dispatching
      then map (\<lambda>(m, _, msg). (mu_id m, mu_type m, mu_name m, msg))
             (filter (\<lambda>(_, allow, msg). \<not> allow \<and> msg \<noteq> []) decisions)
      else [])"

definition filter_validation ::
  "(string \<Rightarrow> string list \<Rightarrow> matched_user \<Rightarrow> bool \<times> string) option \<Rightarrow> string \<Rightarrow> bool \<Rightarrow> web_area list \<Rightarrow> matched_user list \<Rightarrow> matched_user list \<times> bypass list" where
  "filter_validation vo ty dispatching areas matched =
     (case vo of None \<Rightarrow> (matched, [])
      | Some validate \<Rightarrow>
          if length matched = 0 then (matched, [])
          else
            let decisions = map (\<lambda>m. (m, validate ty (map wa_name areas) m)) matched
            in (map fst (filter (\<lambda>(_, allow, _). allow) decisions), bypass_messages dispatching decisions))"

text \<open>The three filters in the order all handlers but the raid handler apply them.\<close>

definition alert_filters ::
  "('c, 'e) service_env_scheme \<Rightarrow> ('c, 's) service_scheme \<Rightarrow> string \<Rightarrow> mute_event \<Rightarrow> web_area list \<Rightarrow> matched_user list \<Rightarrow> gotime
   \<Rightarrow> matched_user list \<times> bypass list" where
  "alert_filters env sv ty ev areas matched now =
     (let m1 = filter_blocked (sv_limiter sv) matched now;
          (m2, bypass) = filter_validation (se_validator env) ty (sv_tracker sv \<noteq> None) areas m1
      in (filter_muted (sv_mutes sv) m2 areas ev now, bypass))"

section \<open>Change notifications\<close>

definition rebuild_matched_user ::
  "('c, 'e) service_env_scheme \<Rightarrow> string \<Rightarrow> int \<Rightarrow> string \<Rightarrow> matched_user option" where
  "rebuild_matched_user env target clean template =
     (case se_humans env of None \<Rightarrow> None
      | Some get_lite \<Rightarrow> (case get_lite target of None \<Rightarrow> None
        | Some h \<Rightarrow>
            if \<not> lh_enabled h \<or> lh_admin_disable h then None
            else Some \<lparr>mu_id = lh_id h, mu_name = lh_name h, mu_type = lh_type h,
                mu_language = effective_language (lh_language h) (se_locale env),
                mu_latitude = 0, mu_longitude = 0, mu_template = template, mu_distance = 0, mu_clean = clean,
                mu_ping = [], mu_bearing = 0, mu_cardinal_direction = [], mu_track_distance = 0, mu_pokemon_id = 0,
                mu_pvp_ranking_cap = 0, mu_pvp_ranking_league = 0, mu_pvp_ranking_worst = 0, mu_rsvp_changes = 0,
                mu_rule_uid = 0\<rparr>))"

definition prior_only_users ::
  "('c, 'e) service_env_scheme \<Rightarrow> 'c message_tracker \<Rightarrow> string \<Rightarrow> matched_user list \<Rightarrow> gotime \<Rightarrow> matched_user list" where
  "prior_only_users env mt encounter matched now =
     List.map_filter (\<lambda>target.
        if target \<in> mu_id ` set matched then None
        else case lookup_reply_message (se_cache env) mt encounter target now of
               None \<Rightarrow> None
             | Some prior \<Rightarrow> rebuild_matched_user env target (tm_clean prior) (tm_template prior))
       (lookup_reply_targets mt encounter)"

fun change_type_bucket :: "change_type \<Rightarrow> string" where
  "change_type_bucket ChangeWeatherBoost = ''stats''"
| "change_type_bucket ChangeStats = ''stats''"
| "change_type_bucket _ = ''species''"

definition pokemon_job :: "string \<Rightarrow> bool \<Rightarrow> web_area list \<Rightarrow> matched_user list \<Rightarrow> render_job" where
  "pokemon_job encounter encountered areas users =
     \<lparr>rj_alert_type = ''pokemon'', rj_template_type = [], rj_is_pokemon = True, rj_is_change = False, rj_is_encountered = encountered,
      rj_users = users, rj_areas = areas, rj_log_reference = encounter, rj_reply_key = encounter, rj_change_type = [],
      rj_edit_key = [], rj_override_clean_tth = 0\<rparr>"

definition dispatch_pokemon_alert ::
  "bool \<Rightarrow> string \<Rightarrow> string \<Rightarrow> encounter_change option \<Rightarrow> matched_user list \<Rightarrow> matched_user list \<Rightarrow> web_area list \<Rightarrow> bool
   \<Rightarrow> render_job list" where
  "dispatch_pokemon_alert dispatching locale encounter change matched prior_only areas encountered =
     (if \<not> dispatching
      then (if length matched = 0 then [] else [pokemon_job encounter encountered areas matched])
      else
        (if length matched > 0
         then map (\<lambda>(_, users). pokemon_job encounter encountered areas users) (group_by_language matched locale)
         else []) @
        (case change of
           Some ch \<Rightarrow>
             if length prior_only > 0 \<and> ec_type ch \<noteq> ChangeEncountered
             then map (\<lambda>(_, users). (pokemon_job encounter encountered areas users)
                      \<lparr>rj_is_change := True, rj_change_type := change_type_string (ec_type ch)\<rparr>)
                    (group_by_language prior_only locale)
             else []
         | None \<Rightarrow> []))"

section \<open>The handler\<close>

definition note_pokemon :: "('c, 's) service_scheme \<Rightarrow> wild_pokemon \<Rightarrow> gotime \<Rightarrow> ('c, 's) service_scheme" where
  "note_pokemon sv w now =
     (let iv_scanned = pw_individual_attack w \<noteq> None;
          shiny = (wp_shiny w = Some True);
          sv1 = sv\<lparr>sv_stats := record_sighting (sv_stats sv) (pw_pokemon_id w) iv_scanned shiny now\<rparr>
      in case sv_recent sv1 of
           None \<Rightarrow> sv1
         | Some r \<Rightarrow>
             (let r1 = (if pw_costume w > 0 then record_pair r CostumesByPokemon (pw_pokemon_id w) (pw_costume w) now else r);
                  r2 = (if pw_form w > 0 then record_pair r1 FormsByPokemon (pw_pokemon_id w) (pw_form w) now else r1)
              in sv1\<lparr>sv_recent := Some r2\<rparr>))"

definition infer_weather :: "('c, 'e) service_env_scheme \<Rightarrow> ('c, 's) service_scheme \<Rightarrow> wild_pokemon \<Rightarrow> gotime \<Rightarrow> ('c, 's) service_scheme" where
  "infer_weather env sv w now =
     (if pw_weather w > 0 \<and> se_enable_inference env
      then sv\<lparr>sv_weather := check_weather_on_monster (se_geo env) (sv_weather sv) (se_cell_id env (pw_latitude w) (pw_longitude w))
             (pw_latitude w) (pw_longitude w) (pw_weather w) (unix now)\<rparr>
      else sv)"

definition wild_event :: "int \<Rightarrow> mute_event" where
  "wild_event pokemon = \<lparr>mv_gym_id = [], mv_pokemon_id = pokemon, mv_area = [], mv_pokestop_id = [], mv_station_id = [],
     mv_matched_rule_uid = 0\<rparr>"

text \<open>The users left after the matcher and the three filters, the areas, and the validator's messages.\<close>

definition matched_pokemon ::
  "('c, 'e) service_env_scheme \<Rightarrow> ('c, 's) service_scheme \<Rightarrow> wild_pokemon \<Rightarrow> processed_pokemon \<Rightarrow> gotime \<Rightarrow> matched_user list \<times> web_area list \<times> bypass list" where
  "matched_pokemon env sv w processed now =
     (let (matched, areas) = pokemon_match (se_search env) (se_matcher env) processed (se_state env);
          (allowed, bypass) = alert_filters env sv ''pokemon'' (wild_event (pw_pokemon_id w)) areas matched now
      in (allowed, areas, bypass))"

definition strip_pvp :: "wild_pokemon \<Rightarrow> pokemon_webhook" where
  "strip_pvp w = (pokemon_webhook.truncate w)\<lparr>pw_pvp := \<lparr>pf_pvp = [], pf_great = None, pf_ultra = None, pf_little = None\<rparr>\<rparr>"

definition track_change ::
  "('c, 'e) service_env_scheme \<Rightarrow> ('c, 's) service_scheme \<Rightarrow> wild_pokemon \<Rightarrow> matched_user list \<Rightarrow> gotime \<Rightarrow> ('c, 's) service_scheme \<times> encounter_change option" where
  "track_change env sv w matched now =
     (if se_change_tracking env \<and> (length matched > 0 \<or> has_encounter (sv_encounters sv) (wp_encounter_id w))
      then (let (et, _, change) = track_encounter (sv_encounters sv) (wp_encounter_id w)
                   (encounter_state_from_pokemon (pokemon_webhook.truncate w)) (Some (strip_pvp w)) now
            in (sv\<lparr>sv_encounters := et\<rparr>, change))
      else (sv, None))"

definition care_of_match :: "wild_pokemon \<Rightarrow> matched_user \<Rightarrow> care_entry" where
  "care_of_match w u = \<lparr>ce_id = mu_id u, ce_name = mu_name u, ce_type = mu_type u, ce_language = mu_language u,
     ce_template = mu_template u, ce_clean = mu_clean u, ce_ping = mu_ping u, ce_cares_until = pw_disappear_time w\<rparr>"

definition active_of_match :: "('c, 'e) service_env_scheme \<Rightarrow> wild_pokemon \<Rightarrow> processed_pokemon \<Rightarrow> active_pokemon" where
  "active_of_match env w processed =
     \<lparr>ap_pokemon_id = pw_pokemon_id w, ap_form = pw_form w, ap_iv = pp_iv processed, ap_cp = pp_cp processed,
      ap_latitude = pw_latitude w, ap_longitude = pw_longitude w, ap_disappear_time = pw_disappear_time w,
      ap_boosted = pw_weather w > 0, ap_types = get_types (se_types env) (pw_pokemon_id w) (pw_form w)\<rparr>"

definition register_weather_care ::
  "('c, 'e) service_env_scheme \<Rightarrow> ('c, 's) service_scheme \<Rightarrow> wild_pokemon \<Rightarrow> processed_pokemon \<Rightarrow> matched_user list \<Rightarrow> gotime \<Rightarrow> ('c, 's) service_scheme" where
  "register_weather_care env sv w processed matched now =
     (if \<not> se_change_alert env then sv
      else
        let cell = se_cell_id env (pw_latitude w) (pw_longitude w);
            cares = foldl (\<lambda>cs u. register_care cs cell (care_of_match w u)) (sv_cares sv) matched;
            active = (case sv_active sv of None \<Rightarrow> None
              | Some apt \<Rightarrow> Some (foldl (\<lambda>a u. register_active a cell (mu_id u) (wp_encounter_id w)
                    (active_of_match env w processed) (unix now)) apt matched))
        in sv\<lparr>sv_cares := cares, sv_active := active\<rparr>)"

definition process_pokemon ::
  "('c, 'e) service_env_scheme \<Rightarrow> ('c, 's) service_scheme \<Rightarrow> wild_pokemon \<Rightarrow> gotime \<Rightarrow> ('c, 's) service_scheme \<times> bypass list \<times> render_job list" where
  "process_pokemon env sv w now =
     (if se_disable_pokemon env then (sv, [], [])
      else
        let sv1 = note_pokemon sv w now;
            verified = wp_verified w \<or> wp_disappear_time_verified w;
            (seen, dup) = check_pokemon (se_hash env) (sv_seen sv1) (wp_encounter_id w) verified (pw_cp w) (pw_disappear_time w) now;
            sv2 = sv1\<lparr>sv_seen := seen\<rparr>
        in if dup then (sv2, [], [])
           else
             let sv3 = infer_weather env sv2 w now;
                 rarity = get_rarity_group (sv_stats sv3) (pw_pokemon_id w);
                 processed = process_pokemon_webhook (pokemon_webhook.truncate w) rarity (se_pvp env) now;
                 (matched, areas, bypass) = matched_pokemon env sv3 w processed now;
                 (sv4, change) = track_change env sv3 w matched now
             in if length matched = 0 \<and> change = None then (sv4, bypass, [])
                else
                  let sv5 = register_weather_care env sv4 w processed matched now;
                      prior_only = (case (change, sv_tracker sv5) of
                          (Some _, Some mt) \<Rightarrow>
                            if se_change_tracking env
                            then prior_only_users env mt (wp_encounter_id w) matched now else []
                        | _ \<Rightarrow> []);
                      jobs = (if \<not> se_rendering env then []
                        else if se_change_tracking env
                        then dispatch_pokemon_alert (sv_tracker sv5 \<noteq> None) (se_locale env) (wp_encounter_id w) change
                               matched prior_only areas (pp_encountered processed)
                        else [pokemon_job (wp_encounter_id w) (pp_encountered processed) areas matched])
                  in (sv5, bypass, jobs))"

section \<open>Frames\<close>

lemma note_pokemon_frame [simp]:
  "sv_seen (note_pokemon sv w now) = sv_seen sv" "sv_limiter (note_pokemon sv w now) = sv_limiter sv"
  "sv_mutes (note_pokemon sv w now) = sv_mutes sv" "sv_tracker (note_pokemon sv w now) = sv_tracker sv"
  "sv_encounters (note_pokemon sv w now) = sv_encounters sv" "sv_weather (note_pokemon sv w now) = sv_weather sv"
  "sv_cares (note_pokemon sv w now) = sv_cares sv" "sv_active (note_pokemon sv w now) = sv_active sv"
  by (simp_all add: note_pokemon_def Let_def split: option.split)

lemma infer_weather_frame [simp]:
  "sv_limiter (infer_weather env sv w now) = sv_limiter sv" "sv_mutes (infer_weather env sv w now) = sv_mutes sv"
  "sv_tracker (infer_weather env sv w now) = sv_tracker sv" "sv_encounters (infer_weather env sv w now) = sv_encounters sv"
  "sv_stats (infer_weather env sv w now) = sv_stats sv" "sv_seen (infer_weather env sv w now) = sv_seen sv"
  by (simp_all add: infer_weather_def)

lemma track_change_frame [simp]:
  "sv_limiter (fst (track_change env sv w matched now)) = sv_limiter sv" "sv_mutes (fst (track_change env sv w matched now)) = sv_mutes sv"
  "sv_tracker (fst (track_change env sv w matched now)) = sv_tracker sv" "sv_seen (fst (track_change env sv w matched now)) = sv_seen sv"
  by (simp_all add: track_change_def split_beta Let_def)

lemma register_frame [simp]:
  "sv_tracker (register_weather_care env sv w processed matched now) = sv_tracker sv"
  "sv_seen (register_weather_care env sv w processed matched now) = sv_seen sv"
  by (simp_all add: register_weather_care_def Let_def)

lemma filter_blocked_frame [simp]: "filter_blocked lo [] now = []"
  by (simp add: filter_blocked_def split: option.split)

section \<open>The filters, and the buckets by language\<close>

definition validated :: "('c, 'e) service_env_scheme \<Rightarrow> string \<Rightarrow> web_area list \<Rightarrow> matched_user \<Rightarrow> bool" where
  "validated env ty areas m \<longleftrightarrow> (case se_validator env of None \<Rightarrow> True | Some v \<Rightarrow> fst (v ty (map wa_name areas) m))"

definition muted_for :: "('c, 's) service_scheme \<Rightarrow> web_area list \<Rightarrow> mute_event \<Rightarrow> gotime \<Rightarrow> matched_user \<Rightarrow> bool" where
  "muted_for sv areas ev now m \<longleftrightarrow> (case sv_mutes sv of None \<Rightarrow> False
     | Some s \<Rightarrow> match_mute s (mu_id m) ((with_area_names ev areas)\<lparr>mv_matched_rule_uid := mu_rule_uid m\<rparr>) (unix now))"

definition throttled :: "('c, 's) service_scheme \<Rightarrow> gotime \<Rightarrow> 'u matched_user_scheme \<Rightarrow> bool" where
  "throttled sv now m \<longleftrightarrow> (case sv_limiter sv of None \<Rightarrow> False | Some l \<Rightarrow> is_blocked l (mu_id m) (mu_type m) now)"

definition may_alert :: "('c, 'e) service_env_scheme \<Rightarrow> ('c, 's) service_scheme \<Rightarrow> string \<Rightarrow> web_area list \<Rightarrow> mute_event \<Rightarrow> gotime \<Rightarrow> matched_user \<Rightarrow> bool" where
  "may_alert env sv ty areas ev now m \<longleftrightarrow> \<not> throttled sv now m \<and> validated env ty areas m \<and> \<not> muted_for sv areas ev now m"

lemma validation_filter: "fst (filter_validation (se_validator env) ty d areas matched) = filter (validated env ty areas) matched"
proof (cases "se_validator env")
  case (Some v)
  have "map fst (filter (\<lambda>(_, allow, _). allow) (map (\<lambda>m. (m, v ty (map wa_name areas) m)) ms)) =
      filter (\<lambda>m. fst (v ty (map wa_name areas) m)) ms" for ms
    by (induction ms) (auto simp: split_beta)
  with Some show ?thesis by (simp add: filter_validation_def validated_def [abs_def] Let_def)
qed (simp add: filter_validation_def validated_def [abs_def])

lemma muted_filter: "filter_muted (sv_mutes sv) matched areas ev now = filter (\<lambda>m. \<not> muted_for sv areas ev now m) matched"
  by (simp add: filter_muted_def muted_for_def split: option.split)

lemma blocked_filter: "filter_blocked (sv_limiter sv) matched now = filter (\<lambda>m. \<not> throttled sv now m) matched"
  by (simp add: filter_blocked_def throttled_def split: option.split)

lemma alert_filters_eq: "fst (alert_filters env sv ty ev areas matched now) = filter (may_alert env sv ty areas ev now) matched"
  by (simp add: alert_filters_def split_beta Let_def blocked_filter validation_filter muted_filter filter_filter
      may_alert_def [abs_def] conj_commute conj_left_commute)

lemma matched_pokemon_filter:
  "fst (matched_pokemon env sv w processed now) =
     (let (matched, areas) = pokemon_match (se_search env) (se_matcher env) processed (se_state env)
      in filter (may_alert env sv ''pokemon'' areas (wild_event (pw_pokemon_id w)) now) matched)"
  by (simp add: matched_pokemon_def split_beta Let_def alert_filters_eq)

lemma gappend_get: "gget (gappend k xs m) k' = (if k' = k then Some (gget_or [] m k @ xs) else gget m k')"
  by (simp add: gappend_def gget_put)

lemma mset_gappend: "gok m \<Longrightarrow> mset (concat (map snd (gappend k xs m))) = mset (concat (map snd m)) + mset xs"
proof (induction m)
  case (Cons x m)
  obtain a ys where x: "x = (a, ys)" by (cases x)
  with Cons.prems have ok: "gok m" and none: "gget m a = None" by (simp_all add: gok_Cons)
  show ?case
  proof (cases "a = k")
    case True
    then show ?thesis by (simp add: x gappend_def gput_def gget_or_def gget_Cons)
  next
    case False
    with Cons.IH [OF ok] show ?thesis by (simp add: x gappend_def gput_def gget_or_def gget_Cons)
  qed
qed (simp add: gappend_def gput_def gget_or_def)

lemma group_by_language_props:
  "gok (group_by_language us locale) \<and> mset (concat (map snd (group_by_language us locale))) = mset us \<and>
   (\<forall>l ms. gget (group_by_language us locale) l = Some ms \<longrightarrow> (\<forall>m \<in> set ms. effective_language (mu_language m) locale = l))"
proof (induction us rule: rev_induct)
  case (snoc u us)
  let ?g = "group_by_language us locale" and ?l = "effective_language (mu_language u) locale"
  have step: "group_by_language (us @ [u]) locale = gappend ?l [u] ?g" by (simp add: group_by_language_def)
  have "\<forall>m \<in> set ms. effective_language (mu_language m) locale = l"
    if "gget (gappend ?l [u] ?g) l = Some ms" for l ms
    using that snoc by (auto simp: gappend_get gget_or_def split: if_splits option.splits)
  with snoc show ?case by (simp add: step gok_gappend mset_gappend)
qed (simp add: group_by_language_def)

definition recipients :: "(render_job \<Rightarrow> bool) \<Rightarrow> render_job list \<Rightarrow> matched_user multiset" where
  "recipients P jobs = mset (concat (map rj_users (filter P jobs)))"

lemma recipients_append: "recipients P (xs @ ys) = recipients P xs + recipients P ys"
  by (simp add: recipients_def)

lemma recipients_single [simp]: "recipients P [] = {#}" "recipients P [j] = (if P j then mset (rj_users j) else {#})"
  by (simp_all add: recipients_def)

lemma recipients_none: "(\<And>j. j \<in> set jobs \<Longrightarrow> \<not> P j) \<Longrightarrow> recipients P jobs = {#}"
  by (simp add: recipients_def)

lemma recipients_groups:
  assumes "\<And>us. rj_users (f us) = us" and "\<And>us. P (f us)"
  shows "recipients P (map (\<lambda>(_, us). f us) (group_by_language us locale)) = mset us"
proof -
  have "concat (map rj_users (filter P (map (\<lambda>(_, us). f us) g))) = concat (map snd g)" for g :: "(string, matched_user list) gomap"
    using assms by (induction g) auto
  then show ?thesis using group_by_language_props [of us "locale"] by (simp add: recipients_def)
qed

lemma pokemon_job_simps [simp]:
  "rj_users (pokemon_job e b areas us) = us" "rj_is_change (pokemon_job e b areas us) = False"
  "rj_reply_key (pokemon_job e b areas us) = e"
  by (simp_all add: pokemon_job_def)

lemma dispatch_recipients:
  "recipients (\<lambda>j. \<not> rj_is_change j) (dispatch_pokemon_alert d locale e change matched prior areas b) = mset matched"
  "recipients rj_is_change (dispatch_pokemon_alert d locale e change matched prior areas b) =
     (case change of Some ch \<Rightarrow> if d \<and> ec_type ch \<noteq> ChangeEncountered then mset prior else {#} | None \<Rightarrow> {#})"
proof -
  have plain: "recipients (\<lambda>j. \<not> rj_is_change j) (map (\<lambda>(_, us). pokemon_job e b areas us) (group_by_language us locale)) = mset us"
    "recipients rj_is_change (map (\<lambda>(_, us). pokemon_job e b areas us) (group_by_language us locale)) = {#}" for us
    by (rule recipients_groups) (auto intro!: recipients_none)
  have change: "recipients rj_is_change (map (\<lambda>(_, us). (pokemon_job e b areas us)\<lparr>rj_is_change := True, rj_change_type := ty\<rparr>)
      (group_by_language us locale)) = mset us"
    "recipients (\<lambda>j. \<not> rj_is_change j) (map (\<lambda>(_, us). (pokemon_job e b areas us)\<lparr>rj_is_change := True, rj_change_type := ty\<rparr>)
      (group_by_language us locale)) = {#}" for us ty
    by (rule recipients_groups) (auto intro!: recipients_none)
  show "recipients (\<lambda>j. \<not> rj_is_change j) (dispatch_pokemon_alert d locale e change matched prior areas b) = mset matched"
    by (cases change; cases matched)
      (auto simp: dispatch_pokemon_alert_def recipients_append plain change recipients_single)
  show "recipients rj_is_change (dispatch_pokemon_alert d locale e change matched prior areas b) =
     (case change of Some ch \<Rightarrow> if d \<and> ec_type ch \<noteq> ChangeEncountered then mset prior else {#} | None \<Rightarrow> {#})"
    by (cases change; cases prior)
      (auto simp: dispatch_pokemon_alert_def recipients_append plain change recipients_single)
qed

section \<open>What a webhook does\<close>

abbreviation pokemon_fresh :: "('c, 'e) service_env_scheme \<Rightarrow> ('c, 's) service_scheme \<Rightarrow> wild_pokemon \<Rightarrow> gotime \<Rightarrow> bool" where
  "pokemon_fresh env sv w now \<equiv> \<not> snd (check_pokemon (se_hash env) (sv_seen sv) (wp_encounter_id w)
     (wp_verified w \<or> wp_disappear_time_verified w) (pw_cp w) (pw_disappear_time w) now)"

definition processed_of :: "('c, 'e) service_env_scheme \<Rightarrow> ('c, 's) service_scheme \<Rightarrow> wild_pokemon \<Rightarrow> gotime \<Rightarrow> processed_pokemon" where
  "processed_of env sv w now = process_pokemon_webhook (pokemon_webhook.truncate w)
     (get_rarity_group (sv_stats (note_pokemon sv w now)) (pw_pokemon_id w)) (se_pvp env) now"

definition alerted_users :: "('c, 'e) service_env_scheme \<Rightarrow> ('c, 's) service_scheme \<Rightarrow> wild_pokemon \<Rightarrow> gotime \<Rightarrow> matched_user list" where
  "alerted_users env sv w now =
     (let (matched, areas) = pokemon_match (se_search env) (se_matcher env) (processed_of env sv w now) (se_state env)
      in filter (may_alert env sv ''pokemon'' areas (wild_event (pw_pokemon_id w)) now) matched)"

definition change_of :: "('c, 'e) service_env_scheme \<Rightarrow> ('c, 's) service_scheme \<Rightarrow> wild_pokemon \<Rightarrow> gotime \<Rightarrow> encounter_change option" where
  "change_of env sv w now =
     (if se_change_tracking env \<and> (alerted_users env sv w now \<noteq> [] \<or> has_encounter (sv_encounters sv) (wp_encounter_id w))
      then snd (snd (track_encounter (sv_encounters sv) (wp_encounter_id w)
             (encounter_state_from_pokemon (pokemon_webhook.truncate w)) (Some (strip_pvp w)) now))
      else None)"

lemma may_alert_cong:
  "sv_limiter sv' = sv_limiter sv \<Longrightarrow> sv_mutes sv' = sv_mutes sv \<Longrightarrow> may_alert env sv' ty areas ev now = may_alert env sv ty areas ev now"
  by (rule ext) (simp add: may_alert_def throttled_def muted_for_def)

lemma process_pokemon_jobs:
  assumes "\<not> se_disable_pokemon env" and "pokemon_fresh env sv w now"
  shows "snd (snd (process_pokemon env sv w now)) =
    (let matched = alerted_users env sv w now; change = change_of env sv w now;
         processed = processed_of env sv w now;
         areas = snd (pokemon_match (se_search env) (se_matcher env) processed (se_state env))
     in if (matched = [] \<and> change = None) \<or> \<not> se_rendering env then []
        else if se_change_tracking env
        then dispatch_pokemon_alert (sv_tracker sv \<noteq> None) (se_locale env) (wp_encounter_id w) change matched
               (case (change, sv_tracker sv) of (Some _, Some mt) \<Rightarrow> prior_only_users env mt (wp_encounter_id w) matched now | _ \<Rightarrow> [])
               areas (pp_encountered processed)
        else [pokemon_job (wp_encounter_id w) (pp_encountered processed) areas matched])"
proof -
  define sv3 where "sv3 = infer_weather env ((note_pokemon sv w now)\<lparr>sv_seen := fst (check_pokemon (se_hash env) (sv_seen sv) (wp_encounter_id w)
     (wp_verified w \<or> wp_disappear_time_verified w) (pw_cp w) (pw_disappear_time w) now)\<rparr>) w now"
  have frame: "sv_limiter sv3 = sv_limiter sv" "sv_mutes sv3 = sv_mutes sv" "sv_tracker sv3 = sv_tracker sv"
      "sv_encounters sv3 = sv_encounters sv" "sv_stats sv3 = sv_stats (note_pokemon sv w now)"
    by (simp_all add: sv3_def)
  let ?p = "processed_of env sv w now"
  have m: "fst (matched_pokemon env sv3 w ?p now) = alerted_users env sv w now"
    by (simp add: matched_pokemon_filter alerted_users_def may_alert_cong [OF frame(1,2)])
  have a: "fst (snd (matched_pokemon env sv3 w ?p now)) = snd (pokemon_match (se_search env) (se_matcher env) ?p (se_state env))"
    by (simp add: matched_pokemon_def split_beta Let_def)
  have c: "snd (track_change env sv3 w (alerted_users env sv w now) now) = change_of env sv w now"
    by (auto simp: track_change_def change_of_def frame split_beta Let_def)
  have p: "process_pokemon_webhook (pokemon_webhook.truncate w) (get_rarity_group (sv_stats sv3) (pw_pokemon_id w)) (se_pvp env) now = ?p"
    by (simp add: processed_of_def frame)
  show ?thesis
    using assms unfolding process_pokemon_def
    by (simp add: split_beta Let_def sv3_def [symmetric] p m a c frame(1-4) split: option.split)
qed

text \<open>C15: Who is alerted about a pokemon is exact, from the webhook to the render jobs: unless the webhook repeats one
  within its lifetime, the users of the alerts are, with the multiplicity of the matcher's list, the users of the
  rules that match (the rarity group counted with this sighting) who are not over their rate limit, whom the
  external validator allows, and whose mutes do not silence the event.\<close>

theorem pokemon_alert_exact:
  assumes "\<not> se_disable_pokemon env" and "se_rendering env" and "pokemon_fresh env sv w now"
  shows "let (matched, areas) = pokemon_match (se_search env) (se_matcher env) (processed_of env sv w now) (se_state env);
      ev = (wild_event (pw_pokemon_id w))\<lparr>mv_area := map wa_name areas\<rparr>
    in recipients (\<lambda>j. \<not> rj_is_change j) (snd (snd (process_pokemon env sv w now))) =
       mset (filter (\<lambda>m.
           (case sv_limiter sv of None \<Rightarrow> True | Some l \<Rightarrow> \<not> is_blocked l (mu_id m) (mu_type m) now) \<and>
           (case se_validator env of None \<Rightarrow> True | Some v \<Rightarrow> fst (v ''pokemon'' (map wa_name areas) m)) \<and>
           (case sv_mutes sv of None \<Rightarrow> True
            | Some s \<Rightarrow> \<not> match_mute s (mu_id m) (ev\<lparr>mv_matched_rule_uid := mu_rule_uid m\<rparr>) (unix now))) matched)"
proof -
  have ev: "with_area_names (wild_event k) areas = (wild_event k)\<lparr>mv_area := map wa_name areas\<rparr>" for k areas
    by (simp add: with_area_names_def wild_event_def)
  have "recipients (\<lambda>j. \<not> rj_is_change j) (snd (snd (process_pokemon env sv w now))) = mset (alerted_users env sv w now)"
    unfolding process_pokemon_jobs [OF assms(1,3)]
    using assms(2) by (simp add: Let_def dispatch_recipients)
  moreover have "may_alert env sv ''pokemon'' areas (wild_event k) now = (\<lambda>m.
      (case sv_limiter sv of None \<Rightarrow> True | Some l \<Rightarrow> \<not> is_blocked l (mu_id m) (mu_type m) now) \<and>
      (case se_validator env of None \<Rightarrow> True | Some v \<Rightarrow> fst (v ''pokemon'' (map wa_name areas) m)) \<and>
      (case sv_mutes sv of None \<Rightarrow> True
       | Some s \<Rightarrow> \<not> match_mute s (mu_id m) ((wild_event k)\<lparr>mv_area := map wa_name areas, mv_matched_rule_uid := mu_rule_uid m\<rparr>) (unix now)))"
    for areas k
    by (rule ext) (simp add: may_alert_def throttled_def validated_def muted_for_def ev split: option.split)
  ultimately show ?thesis by (simp add: alerted_users_def split_beta Let_def)
qed

lemma map_filter_iff: "u \<in> set (List.map_filter f xs) \<longleftrightarrow> (\<exists>x \<in> set xs. f x = Some u)"
  by (induction xs) (auto simp: List.map_filter_simps split: option.split)

lemma map_filter_length: "length (List.map_filter f xs) = length (filter (\<lambda>x. \<exists>u. f x = Some u) xs)"
  by (induction xs) (auto simp: List.map_filter_simps split: option.split)

lemma change_recipients:
  assumes "\<not> se_disable_pokemon env" and "se_rendering env" and "pokemon_fresh env sv w now"
  shows "recipients rj_is_change (snd (snd (process_pokemon env sv w now))) =
    (case (change_of env sv w now, sv_tracker sv) of
       (Some ch, Some mt) \<Rightarrow>
         if ec_type ch = ChangeEncountered then {#}
         else mset (prior_only_users env mt (wp_encounter_id w) (alerted_users env sv w now) now)
     | _ \<Rightarrow> {#})"
proof (cases "change_of env sv w now")
  case None
  then show ?thesis
    unfolding process_pokemon_jobs [OF assms(1,3)] using assms(2) by (simp add: Let_def dispatch_recipients)
next
  case (Some ch)
  then have "se_change_tracking env" by (simp add: change_of_def split: if_splits)
  with Some show ?thesis
    unfolding process_pokemon_jobs [OF assms(1,3)] using assms(2)
    by (simp add: Let_def dispatch_recipients split: option.split)
qed

text \<open>C21: Who is told that a pokemon changed is exact. For a webhook that is no repeat, and when the tracked encounter changed in
  more than being encountered, one notification goes out for each target that still has a message about this encounter, is not
  among the users alerted now, and whose row in the human store is there, enabled and not disabled by an administrator; it
  carries the row's id, type, name and language (or the default one) and the template and deletion bits of the earlier
  message, and nothing of a rule. Without such a change nobody is told. A target whose match was dropped by a mute, the rate
  limit or the validator counts as not alerted, so it is notified.\<close>

theorem pokemon_change_exact:
  assumes "\<not> se_disable_pokemon env" and "se_rendering env" and "pokemon_fresh env sv w now"
  shows "let told = recipients rj_is_change (snd (snd (process_pokemon env sv w now)));
      changed = (\<exists>ch. change_of env sv w now = Some ch \<and> ec_type ch \<noteq> ChangeEncountered);
      notify = (\<lambda>mt target prior h. changed \<and> sv_tracker sv = Some mt \<and>
        target \<in> set (lookup_reply_targets mt (wp_encounter_id w)) \<and>
        (\<nexists>u. u \<in> set (alerted_users env sv w now) \<and> mu_id u = target) \<and>
        lookup_reply_message (se_cache env) mt (wp_encounter_id w) target now = Some prior \<and>
        (\<exists>get. se_humans env = Some get \<and> get target = Some h) \<and> lh_enabled h \<and> \<not> lh_admin_disable h)
    in (\<forall>u. u \<in># told \<longleftrightarrow> (\<exists>mt target prior h. notify mt target prior h \<and>
          u = \<lparr>mu_id = lh_id h, mu_name = lh_name h, mu_type = lh_type h,
            mu_language = (if lh_language h \<noteq> [] then lh_language h else if se_locale env \<noteq> [] then se_locale env else ''en''),
            mu_latitude = 0, mu_longitude = 0, mu_template = tm_template prior, mu_distance = 0, mu_clean = tm_clean prior,
            mu_ping = [], mu_bearing = 0, mu_cardinal_direction = [], mu_track_distance = 0, mu_pokemon_id = 0,
            mu_pvp_ranking_cap = 0, mu_pvp_ranking_league = 0, mu_pvp_ranking_worst = 0, mu_rsvp_changes = 0,
            mu_rule_uid = 0\<rparr>)) \<and>
       size told = (case sv_tracker sv of None \<Rightarrow> 0
         | Some mt \<Rightarrow> length (filter (\<lambda>target. \<exists>prior h. notify mt target prior h) (lookup_reply_targets mt (wp_encounter_id w))))"
proof -
  let ?e = "wp_encounter_id w" and ?al = "alerted_users env sv w now"
  define user where "user prior h = \<lparr>mu_id = lh_id h, mu_name = lh_name h, mu_type = lh_type h,
            mu_language = (if lh_language h \<noteq> [] then lh_language h else if se_locale env \<noteq> [] then se_locale env else ''en''),
            mu_latitude = 0, mu_longitude = 0, mu_template = tm_template prior, mu_distance = 0, mu_clean = tm_clean prior,
            mu_ping = [], mu_bearing = 0, mu_cardinal_direction = [], mu_track_distance = 0, mu_pokemon_id = 0,
            mu_pvp_ranking_cap = 0, mu_pvp_ranking_league = 0, mu_pvp_ranking_worst = 0, mu_rsvp_changes = 0,
            mu_rule_uid = 0\<rparr>" for prior :: tracked_message and h :: lite_human
  define ok where "ok mt target prior h \<longleftrightarrow> (\<nexists>u. u \<in> set ?al \<and> mu_id u = target) \<and>
        lookup_reply_message (se_cache env) mt ?e target now = Some prior \<and>
        (\<exists>get. se_humans env = Some get \<and> get target = Some h) \<and> lh_enabled h \<and> \<not> lh_admin_disable h" for mt target prior h
  have told: "(if target \<in> mu_id ` set ?al then None
        else case lookup_reply_message (se_cache env) mt ?e target now of None \<Rightarrow> None
             | Some prior \<Rightarrow> rebuild_matched_user env target (tm_clean prior) (tm_template prior)) = Some u \<longleftrightarrow>
      (\<exists>prior h. ok mt target prior h \<and> u = user prior h)" for mt target u
    by (auto simp: ok_def user_def rebuild_matched_user_def effective_language_def image_iff split: option.splits)
  have mem: "u \<in> set (prior_only_users env mt ?e ?al now) \<longleftrightarrow>
      (\<exists>target \<in> set (lookup_reply_targets mt ?e). \<exists>prior h. ok mt target prior h \<and> u = user prior h)" for mt u
    unfolding prior_only_users_def map_filter_iff told ..
  have len: "length (prior_only_users env mt ?e ?al now) =
      length (filter (\<lambda>target. \<exists>prior h. ok mt target prior h) (lookup_reply_targets mt ?e))" for mt
    unfolding prior_only_users_def map_filter_length told by (intro arg_cong [where f = length] filter_cong refl) blast
  have same: "filter (\<lambda>x. x \<in> set xs \<and> P x) xs = filter P xs" for P and xs :: "string list"
    by (intro filter_cong refl) blast
  show ?thesis
    unfolding Let_def change_recipients [OF assms] user_def [symmetric] ok_def [symmetric]
  proof (cases "change_of env sv w now")
    case (Some ch)
    then show "(\<forall>u. u \<in># (case (change_of env sv w now, sv_tracker sv) of
         (Some ch, Some mt) \<Rightarrow> if ec_type ch = ChangeEncountered then {#} else mset (prior_only_users env mt ?e ?al now)
       | _ \<Rightarrow> {#}) \<longleftrightarrow> (\<exists>mt target prior h. ((\<exists>ch. change_of env sv w now = Some ch \<and> ec_type ch \<noteq> ChangeEncountered) \<and>
           sv_tracker sv = Some mt \<and> target \<in> set (lookup_reply_targets mt ?e) \<and> ok mt target prior h) \<and> u = user prior h)) \<and>
      size (case (change_of env sv w now, sv_tracker sv) of
         (Some ch, Some mt) \<Rightarrow> if ec_type ch = ChangeEncountered then {#} else mset (prior_only_users env mt ?e ?al now)
       | _ \<Rightarrow> {#}) = (case sv_tracker sv of None \<Rightarrow> 0
         | Some mt \<Rightarrow> length (filter (\<lambda>target. \<exists>prior h. (\<exists>ch. change_of env sv w now = Some ch \<and> ec_type ch \<noteq> ChangeEncountered) \<and>
           sv_tracker sv = Some mt \<and> target \<in> set (lookup_reply_targets mt ?e) \<and> ok mt target prior h) (lookup_reply_targets mt ?e)))"
      by (cases "sv_tracker sv") (auto simp: mem len same)
  qed (auto split: option.split)
qed

section \<open>Concrete runs\<close>

text \<open>One rule, one user, a message already sent for the encounter, and the second webhook of an encounter that was
  a ditto before.\<close>

definition sample_wild :: wild_pokemon where
  "sample_wild = pokemon_webhook.extend sample_webhook
     \<lparr>wp_encounter_id = ''e'', wp_verified = True, wp_disappear_time_verified = True, wp_shiny = None\<rparr>"

definition sent_cache :: "unit cache_ops" where
  "sent_cache = \<lparr>co_get = (\<lambda>_ k _. if k = ''k'' then Some \<lparr>tm_sent_id = ''m'', tm_target = ''u2'', tm_type = ''discord:user'',
     tm_msg_type = ''pokemon'', tm_clean = 1, tm_reply_key = ''e'', tm_template = ''1''\<rparr> else None), co_set = (\<lambda>_ _ _ _ _. ())\<rparr>"

definition sample_env :: "unit service_env" where
  "sample_env = \<lparr>se_disable_pokemon = False, se_enable_inference = False, se_change_tracking = True, se_change_alert = True,
     se_locale = ''en'', se_rendering = True, se_matcher = sample_matcher, se_pvp = sample_pvp_config,
     se_state = Some (sample_state\<lparr>st_monsters := Some (build_monster_index [sample_rule])\<rparr>), se_search = (\<lambda>_ _ _. []),
     se_hash = sample_hash, se_cell_id = (\<lambda>_ _. ''c''), se_geo = (\<lambda>lat lon. ((lat, lon), [])), se_validator = None,
     se_humans = Some (\<lambda>i. if i = ''u2'' then Some \<lparr>lh_id = ''u2'', lh_type = ''discord:user'', lh_name = ''misty'', lh_language = [],
        lh_enabled = True, lh_admin_disable = False\<rparr> else None),
     se_types = [], se_cache = sent_cache\<rparr>"

definition sample_service :: "unit service" where
  "sample_service = \<lparr>sv_limiter = None, sv_mutes = None, sv_stats = new_stats_tracker \<lparr>sc_min_sample_size = 10, sc_window_hours = 8,
        sc_refresh_interval_mins = 5, sc_uncommon = 1, sc_rare = 1, sc_very_rare = 1, sc_ultra_rare = 1\<rparr>,
     sv_recent = None, sv_seen = new_expiring_set, sv_weather = new_weather_tracker 8, sv_cares = [], sv_active = None,
     sv_encounters = [(''e'', \<lparr>ee_state = (encounter_state_from_pokemon sample_webhook)\<lparr>en_pokemon_id := 132\<rparr>, ee_webhook = None\<rparr>)],
     sv_tracker = Some \<lparr>mt_cache = (), mt_replies = [(''e'', [(''u2'', ''k'')])]\<rparr>\<rparr>"

lemma sample_fresh: "pokemon_fresh sample_env sample_service sample_wild 0"
  by (simp add: check_pokemon_def check_and_add_def new_expiring_set_def shard_look_def sample_service_def Let_def)

lemma pokemon_alert_exact_witness:
  "let (matched, areas) = pokemon_match (\<lambda>_ _ _. []) sample_matcher (processed_of sample_env sample_service sample_wild 0)
        (se_state sample_env)
   in recipients (\<lambda>j. \<not> rj_is_change j) (snd (snd (process_pokemon sample_env sample_service sample_wild 0))) = mset matched"
  using pokemon_alert_exact [OF _ _ sample_fresh]
  by (simp add: split_beta Let_def) (simp add: sample_env_def sample_service_def)

lemma pokemon_change_exact_witness:
  "image_mset mu_id (recipients rj_is_change
     (snd (snd (process_pokemon (sample_env\<lparr>se_state := None\<rparr>) sample_service sample_wild 0)))) = {#''u2''#}"
proof -
  let ?e = "sample_env\<lparr>se_state := None\<rparr>"
  have fresh: "pokemon_fresh ?e sample_service sample_wild 0" using sample_fresh by (simp add: sample_env_def)
  have none: "se_state env = None \<Longrightarrow> alerted_users env sv w now = []" for env :: "('c, 'e) service_env_scheme" and sv w now
    by (simp add: alerted_users_def pokemon_match_def)
  have on: "\<not> se_disable_pokemon ?e" "se_rendering ?e" by (simp_all add: sample_env_def)
  have changed: "\<exists>ch. change_of ?e sample_service sample_wild 0 = Some ch \<and> ec_type ch \<noteq> ChangeEncountered"
    by (simp add: sample_env_def sample_service_def change_of_def has_encounter_def track_encounter_def detect_change_def
        gget_Cons sample_wild_def pokemon_webhook.defs encounter_state_from_pokemon_def sample_webhook_def Let_def)
  have tracker: "sv_tracker sample_service = Some \<lparr>mt_cache = (), mt_replies = [(''e'', [(''u2'', ''k'')])]\<rparr>"
    "lookup_reply_targets \<lparr>mt_cache = (), mt_replies = [(''e'', [(''u2'', ''k'')])]\<rparr> (wp_encounter_id sample_wild) = [''u2'']"
    by (simp_all add: sample_service_def lookup_reply_targets_def gget_or_def gget_Cons sample_wild_def pokemon_webhook.defs)
  have prior: "\<exists>prior. lookup_reply_message (se_cache ?e) \<lparr>mt_cache = (), mt_replies = [(''e'', [(''u2'', ''k'')])]\<rparr>
      (wp_encounter_id sample_wild) ''u2'' 0 = Some prior"
    by (simp add: sample_env_def sent_cache_def lookup_reply_message_def gget_or_def gget_Cons sample_wild_def pokemon_webhook.defs)
  have row: "\<exists>get h. se_humans ?e = Some get \<and> get ''u2'' = Some h \<and> lh_enabled h \<and> \<not> lh_admin_disable h"
    "\<And>get h. se_humans ?e = Some get \<Longrightarrow> get ''u2'' = Some h \<Longrightarrow> lh_id h = ''u2''"
    by (auto simp: sample_env_def)
  let ?told = "recipients rj_is_change (snd (snd (process_pokemon ?e sample_service sample_wild 0)))"
  have al: "alerted_users ?e sample_service sample_wild 0 = []" by (rule none) simp
  note exact = pokemon_change_exact [OF on fresh, unfolded Let_def al tracker(1) option.case]
  from conjunct2 [OF exact] have "size ?told = 1"
    using changed prior row(1) unfolding tracker(2) by auto
  then obtain u where u: "?told = {#u#}" by (metis One_nat_def size_1_singleton_mset)
  then have "u \<in># ?told" by simp
  with conjunct1 [OF exact] have "mu_id u = ''u2''" using row(2) tracker(2) by fastforce
  with u show ?thesis by simp
qed

end
