(* ===== verification/Handlers.thy ===== *)
theory Handlers
  imports Pipeline EventMatch GymTracker Summary
begin

text \<open>
  The handlers of the other webhook kinds (\<open>cmd/processor/raid.go\<close>, \<open>gym.go\<close>, \<open>quest.go\<close>, \<open>invasion.go\<close>, \<open>lure.go\<close>,
  \<open>maxbattle.go\<close>, \<open>nest.go\<close>, \<open>fort.go\<close>, \<open>showcase.go\<close>). A webhook is the parsed payload, with the fields the handlers read; a payload that
  does not parse only writes a log line. As in Pipeline, a handler is one step with one reading of the clock and
  the template variables are left out of the jobs. The three views of a pokestop payload (lure, incident, showcase) are
  parsed from the same bytes by three handlers; they are three records here.
\<close>

section \<open>Configuration and state\<close>

record ('c, 'r) handler_env = "'c service_env" +
  he_disable_raid :: bool
  he_disable_gym :: bool
  he_disable_quest :: bool
  he_disable_invasion :: bool
  he_disable_lure :: bool
  he_disable_nest :: bool
  he_disable_maxbattle :: bool
  he_disable_fort :: bool
  he_disable_showcase :: bool
  he_disable_weather :: bool
  he_ignore_long_raids :: bool
  he_matcher :: matcher
  he_game :: "game_data option"
  he_raid_get :: "'r cache_get"
  he_raid_set :: "'r cache_set"
  he_templates :: "(string \<Rightarrow> string \<Rightarrow> string \<Rightarrow> string \<Rightarrow> bool) option"
  he_default_template :: string
  he_end_of_day :: "f64 \<Rightarrow> f64 \<Rightarrow> gotime \<Rightarrow> int"
  he_alert_minimum_time :: int
  he_max_altered :: int
  he_boosts :: "(int, int list) gomap"

record ('c, 'r) hub = "'c service" +
  hb_raids :: 'r
  hb_gyms :: gym_tracker
  hb_summary :: "summary_buffer option"

definition alert_job :: "string \<Rightarrow> string \<Rightarrow> matched_user list \<Rightarrow> web_area list \<Rightarrow> string \<Rightarrow> render_job" where
  "alert_job alert template users areas ref =
     \<lparr>rj_alert_type = alert, rj_template_type = template, rj_is_pokemon = False, rj_is_change = False,
      rj_is_encountered = False, rj_users = users, rj_areas = areas, rj_log_reference = ref, rj_reply_key = [],
      rj_change_type = [], rj_edit_key = [], rj_override_clean_tth = 0\<rparr>"

text \<open>The last part of a handler: one job, when somebody is left and a renderer is wired.\<close>

definition one_job :: "bool \<Rightarrow> render_job \<Rightarrow> render_job list" where
  "one_job rendering j = (if length (rj_users j) > 0 \<and> rendering then [j] else [])"

definition no_event :: mute_event where
  "no_event = \<lparr>mv_gym_id = [], mv_pokemon_id = 0, mv_area = [], mv_pokestop_id = [], mv_station_id = [], mv_matched_rule_uid = 0\<rparr>"

section \<open>Raids and eggs\<close>

record raid_webhook =
  rw_gym_id :: string
  rw_latitude :: f64
  rw_longitude :: f64
  rw_pokemon_id :: int
  rw_form :: int
  rw_costume :: int
  rw_evolution :: int
  rw_level :: int
  rw_team_id :: int
  rw_end :: int
  rw_move1 :: int
  rw_move2 :: int
  rw_ex_raid_eligible :: bool
  rw_is_ex_raid_eligible :: bool
  rw_rsvps :: "raid_rsvp list"

definition unix_milli :: "gotime \<Rightarrow> int" where
  "unix_milli t = t div 1000000"

definition note_raid :: "('c, 'r) hub \<Rightarrow> raid_webhook \<Rightarrow> gotime \<Rightarrow> ('c, 'r) hub" where
  "note_raid hb w now =
     (case sv_recent hb of None \<Rightarrow> hb
      | Some r \<Rightarrow>
          (let r1 = record_activity r RaidBosses (rw_pokemon_id w) now;
               r2 = (if rw_costume w > 0 then record_pair r1 RaidCostumesByPokemon (rw_pokemon_id w) (rw_costume w) now else r1);
               r3 = (if rw_form w > 0 then record_pair r2 RaidFormsByPokemon (rw_pokemon_id w) (rw_form w) now else r2)
           in hb\<lparr>sv_recent := Some r3\<rparr>))"

definition raid_matches :: "('c, 'r) handler_env \<Rightarrow> raid_webhook \<Rightarrow> matched_user list \<times> web_area list" where
  "raid_matches env w =
     (let ex = rw_ex_raid_eligible w \<or> rw_is_ex_raid_eligible w
      in if rw_pokemon_id w > 0
         then match_raid (se_search env) (he_matcher env)
                \<lparr>ra_gym_id = rw_gym_id w, ra_pokemon_id = rw_pokemon_id w, ra_form = rw_form w, ra_costume = rw_costume w,
                 ra_level = rw_level w, ra_team_id = rw_team_id w, ra_ex = ex, ra_evolution = rw_evolution w,
                 ra_move1 = rw_move1 w, ra_move2 = rw_move2 w, ra_latitude = rw_latitude w, ra_longitude = rw_longitude w\<rparr>
                (se_state env)
         else match_egg (se_search env) (he_matcher env)
                \<lparr>eg_gym_id = rw_gym_id w, eg_level = rw_level w, eg_team_id = rw_team_id w, eg_ex = ex,
                 eg_latitude = rw_latitude w, eg_longitude = rw_longitude w\<rparr> (se_state env))"

text \<open>The preference of a rule: only the first notification (0), only with sign-ups ahead (2), or always.\<close>

definition has_rsvps :: "raid_webhook \<Rightarrow> gotime \<Rightarrow> bool" where
  "has_rsvps w now \<longleftrightarrow> list_ex (\<lambda>r. rv_timeslot r > unix_milli now) (rw_rsvps w)"

definition rsvp_wanted :: "bool \<Rightarrow> bool \<Rightarrow> matched_user \<Rightarrow> bool" where
  "rsvp_wanted first rsvps m =
     (if mu_rsvp_changes m = 0 then first else if mu_rsvp_changes m = 2 then rsvps else True)"

definition raid_msg_type :: "raid_webhook \<Rightarrow> string" where
  "raid_msg_type w = (if rw_pokemon_id w = 0 then ''egg'' else ''raid'')"

definition raid_reply_key :: "raid_webhook \<Rightarrow> string" where
  "raid_reply_key w = ''raidlife:'' @ rw_gym_id w @ '':'' @ itoa (rw_end w)"

definition raid_edit_key :: "raid_webhook \<Rightarrow> string" where
  "raid_edit_key w = ''raid:'' @ rw_gym_id w @ '':'' @ itoa (rw_end w)"

text \<open>\<open>partitionRaidUsers\<close>: who gets the full template, and who the short one about sign-ups.\<close>

definition wants_full ::
  "(string \<Rightarrow> string \<Rightarrow> tracked_message option) \<Rightarrow> (string \<Rightarrow> string \<Rightarrow> string \<Rightarrow> string \<Rightarrow> bool) option \<Rightarrow> string \<Rightarrow> string \<Rightarrow> string
   \<Rightarrow> matched_user \<Rightarrow> bool" where
  "wants_full lookup templates default_template reply_key msg_type u =
     (if is_edit (mu_clean u) then True
      else case templates of None \<Rightarrow> True
      | Some present \<Rightarrow>
          let prior = lookup reply_key (mu_id u);
              first_visible = (case prior of None \<Rightarrow> True | Some p \<Rightarrow> tm_msg_type p \<noteq> msg_type)
          in if first_visible then True
             else let effective = (if mu_template u = [] then default_template else mu_template u)
                  in \<not> present ''rsvpChanges'' (platform_from_type (mu_type u)) effective [])"

fun partition_raid_users :: "(matched_user \<Rightarrow> bool) \<Rightarrow> matched_user list \<Rightarrow> matched_user list \<times> matched_user list" where
  "partition_raid_users full [] = ([], [])"
| "partition_raid_users full (u # us) =
     (let (fs, rs) = partition_raid_users full us in if full u then (u # fs, rs) else (fs, u # rs))"

definition latest_future_timeslot_sec :: "raid_rsvp list \<Rightarrow> int \<Rightarrow> int" where
  "latest_future_timeslot_sec rsvps now_ms =
     foldl (\<lambda>latest r. if rv_timeslot r \<le> now_ms then latest
              else let sec = (rv_timeslot r + 999) div 1000 in if sec > latest then sec else latest) 0 rsvps"

definition raid_lookup :: "('c, 'r) handler_env \<Rightarrow> ('c, 'r) hub \<Rightarrow> gotime \<Rightarrow> string \<Rightarrow> string \<Rightarrow> tracked_message option" where
  "raid_lookup env hb now key target =
     (case sv_tracker hb of None \<Rightarrow> None | Some mt \<Rightarrow> lookup_reply_message (se_cache env) mt key target now)"

definition raid_jobs ::
  "('c, 'r) handler_env \<Rightarrow> ('c, 'r) hub \<Rightarrow> raid_webhook \<Rightarrow> matched_user list \<Rightarrow> web_area list \<Rightarrow> gotime \<Rightarrow> render_job list" where
  "raid_jobs env hb w matched areas now =
     (if length matched = 0 \<or> \<not> se_rendering env then []
      else
        let msg_type = raid_msg_type w; key = raid_reply_key w;
            (full, rsvp) = partition_raid_users
               (wants_full (raid_lookup env hb now) (he_templates env) (he_default_template env) key msg_type) matched;
            latest = latest_future_timeslot_sec (rw_rsvps w) (unix_milli now);
            job = (\<lambda>template us. (alert_job msg_type template us areas (rw_gym_id w))
                      \<lparr>rj_edit_key := raid_edit_key w, rj_reply_key := key\<rparr>)
        in (if length full > 0 then [job msg_type full] else []) @
           (if length rsvp > 0
            then [if latest > 0 then (job ''rsvpChanges'' rsvp)\<lparr>rj_override_clean_tth := latest\<rparr> else job ''rsvpChanges'' rsvp]
            else []))"

definition raid_event :: "raid_webhook \<Rightarrow> mute_event" where
  "raid_event w = no_event\<lparr>mv_gym_id := rw_gym_id w, mv_pokemon_id := rw_pokemon_id w\<rparr>"

definition process_raid ::
  "('c, 'r) handler_env \<Rightarrow> ('c, 'r) hub \<Rightarrow> raid_webhook \<Rightarrow> gotime \<Rightarrow> ('c, 'r) hub \<times> bypass list \<times> render_job list" where
  "process_raid env hb w now =
     (if he_disable_raid env then (hb, [], [])
      else
        let (cache, dup, first) = check_raid (he_raid_get env) (he_raid_set env) (hb_raids hb) (rw_gym_id w) (rw_end w)
               (rw_pokemon_id w) (rw_rsvps w) now;
            hb1 = hb\<lparr>hb_raids := cache\<rparr>
        in if dup then (hb1, [], [])
           else
             let hb2 = note_raid hb1 w now
             in if he_ignore_long_raids env \<and> rw_end w - unix now > 47 * 60 then (hb2, [], [])
                else
                  let (matched, areas) = raid_matches env w;
                      m1 = filter_blocked (sv_limiter hb2) matched now;
                      m2 = filter (rsvp_wanted first (has_rsvps w now)) m1;
                      (m3, bypass) = filter_validation (se_validator env) (raid_msg_type w) (sv_tracker hb2 \<noteq> None) areas m2;
                      m4 = filter_muted (sv_mutes hb2) m3 areas (raid_event w) now
                  in (hb2, bypass, raid_jobs env hb2 w m4 areas now))"

section \<open>Gyms\<close>

record gym_webhook =
  gw_gym_id :: string
  gw_id :: string
  gw_latitude :: f64
  gw_longitude :: f64
  gw_team_id :: int
  gw_team :: int
  gw_slots_available :: int
  gw_is_in_battle :: bool
  gw_in_battle :: bool

definition gym_id_of :: "gym_webhook \<Rightarrow> string" where
  "gym_id_of w = (if gw_gym_id w = [] then gw_id w else gw_gym_id w)"

definition gym_team_of :: "gym_webhook \<Rightarrow> int" where
  "gym_team_of w = (if gw_team_id w = 0 then gw_team w else gw_team_id w)"

definition gym_data_of :: "gym_webhook \<Rightarrow> gym_state option \<Rightarrow> gym_data" where
  "gym_data_of w old =
     \<lparr>gd_gym_id = gym_id_of w, gd_team_id = gym_team_of w,
      gd_old_team_id = (case old of None \<Rightarrow> - 1 | Some s \<Rightarrow> gs_team_id s),
      gd_slots_available = gw_slots_available w,
      gd_old_slots_available = (case old of None \<Rightarrow> - 1 | Some s \<Rightarrow> gs_slots_available s),
      gd_in_battle = gw_is_in_battle w \<or> gw_in_battle w, gd_latitude = gw_latitude w, gd_longitude = gw_longitude w\<rparr>"

definition process_gym ::
  "('c, 'r) handler_env \<Rightarrow> ('c, 'r) hub \<Rightarrow> gym_webhook \<Rightarrow> gotime \<Rightarrow> ('c, 'r) hub \<times> bypass list \<times> render_job list" where
  "process_gym env hb w now =
     (if he_disable_gym env then (hb, [], [])
      else
        let (gyms, old, cooldown) = update_with_battle_cooldown (hb_gyms hb) (gym_id_of w) (gym_team_of w)
               (gw_slots_available w) (gw_is_in_battle w \<or> gw_in_battle w) now;
            hb1 = hb\<lparr>hb_gyms := gyms\<rparr>;
            data = gym_data_of w old
        in if old \<noteq> None \<and> cooldown \<and> gd_old_team_id data = gym_team_of w \<and>
              gd_old_slots_available data = gw_slots_available w
           then (hb1, [], [])
           else
             let (matched, areas) = gym_match (se_search env) (he_matcher env) data (se_state env);
                 (allowed, bypass) = alert_filters env hb1 ''gym'' (no_event\<lparr>mv_gym_id := gym_id_of w\<rparr>) areas matched now
             in (hb1, bypass, one_job (se_rendering env) (alert_job ''gym'' ''gym'' allowed areas (gym_id_of w))))"

section \<open>Quests\<close>

text \<open>A reward's \<open>info\<close>: JSON values under string keys. The numbers that occur are integers, which \<open>%v\<close> prints in
  decimal; the text of any other value is kept as it is printed.\<close>

datatype info_value = InfoNum int | InfoBool bool | InfoOther string

record quest_reward =
  qw_type :: int
  qw_info :: "(string, info_value) gomap"

record quest_webhook =
  qw_pokestop_id :: string
  qw_latitude :: f64
  qw_longitude :: f64
  qw_rewards :: "quest_reward list"
  qw_with_ar :: bool
  qw_raw :: string

fun info_text :: "info_value \<Rightarrow> string" where
  "info_text (InfoNum n) = itoa n"
| "info_text (InfoBool b) = (if b then ''true'' else ''false'')"
| "info_text (InfoOther s) = s"

fun to_int :: "info_value \<Rightarrow> int" where
  "to_int (InfoNum n) = n"
| "to_int _ = 0"

definition info_part :: "char \<Rightarrow> info_value option \<Rightarrow> string" where
  "info_part tag v = (case v of None \<Rightarrow> [] | Some x \<Rightarrow> tag # info_text x)"

definition reward_key :: "quest_reward \<Rightarrow> string" where
  "reward_key r = itoa (qw_type r) @ '':'' @ info_part (CHR ''p'') (gget (qw_info r) ''pokemon_id'') @
     info_part (CHR ''i'') (gget (qw_info r) ''item_id'') @ info_part (CHR ''a'') (gget (qw_info r) ''amount'') @ '';''"

definition build_quest_rewards_key :: "bool \<Rightarrow> quest_reward list \<Rightarrow> string" where
  "build_quest_rewards_key with_ar rewards = (if with_ar then ''ar:'' else ''std:'') @ concat (map reward_key rewards)"

definition parse_quest_reward :: "quest_reward \<Rightarrow> quest_reward_data" where
  "parse_quest_reward r =
     (let num = (\<lambda>k. case gget (qw_info r) k of None \<Rightarrow> 0 | Some v \<Rightarrow> to_int v)
      in \<lparr>qr_type = qw_type r, qr_pokemon_id = num ''pokemon_id'', qr_item_id = num ''item_id'', qr_amount = num ''amount'',
          qr_form_id = num ''form_id'',
          qr_shiny = (case gget (qw_info r) ''shiny'' of Some (InfoBool b) \<Rightarrow> b | _ \<Rightarrow> False)\<rparr>)"

definition note_reward :: "gotime \<Rightarrow> recent_activity \<Rightarrow> quest_reward_data \<Rightarrow> recent_activity" where
  "note_reward now r q =
     (if qr_type q = 7 then record_activity r QuestPokemon (qr_pokemon_id q) now
      else if qr_type q = 2 then record_activity r QuestItems (qr_item_id q) now
      else if qr_type q = 4 then record_activity r QuestCandy (qr_pokemon_id q) now
      else if qr_type q = 12 then record_activity r QuestMega (qr_pokemon_id q) now
      else r)"

text \<open>The representative (type, reward, form) of the buffer key.\<close>

definition key_reward :: "quest_reward_data list \<Rightarrow> int \<times> int \<times> int" where
  "key_reward rewards =
     (case rewards of [] \<Rightarrow> (0, 0, 0)
      | r # _ \<Rightarrow>
          (qr_type r,
           if qr_type r = 7 \<or> qr_type r = 4 \<or> qr_type r = 12 then qr_pokemon_id r
           else if qr_type r = 2 then qr_item_id r
           else if qr_type r = 3 \<or> qr_type r = 8 then qr_amount r else 0,
           if qr_type r = 7 then qr_form_id r else 0))"

definition quest_entry :: "('c, 'r) handler_env \<Rightarrow> quest_webhook \<Rightarrow> quest_reward_data list \<Rightarrow> gotime \<Rightarrow> matched_user \<Rightarrow> buffered_quest" where
  "quest_entry env w rewards now u =
     (let (ty, reward, form) = key_reward rewards
      in \<lparr>bq_reward_type = ty, bq_reward = reward, bq_form = form, bq_pokestop_id = qw_pokestop_id w,
          bq_with_ar = qw_with_ar w, bq_payload = qw_raw w,
          bq_expires_at = he_end_of_day env (qw_latitude w) (qw_longitude w) now,
          bq_created_at = unix now, bq_clean = mu_clean u\<rparr>)"

definition buffer_quest_matches ::
  "('c, 'r) handler_env \<Rightarrow> matched_user list \<Rightarrow> quest_webhook \<Rightarrow> quest_reward_data list \<Rightarrow> gotime
   \<Rightarrow> summary_buffer option \<Rightarrow> summary_buffer option" where
  "buffer_quest_matches env users w rewards now sbo =
     (case sbo of None \<Rightarrow> None
      | Some sb \<Rightarrow> Some (foldl (\<lambda>b u. append_quest (mu_id u) ''quest'' (quest_entry env w rewards now u) b) sb users))"

definition process_quest ::
  "('c, 'r) handler_env \<Rightarrow> ('c, 'r) hub \<Rightarrow> quest_webhook \<Rightarrow> gotime \<Rightarrow> ('c, 'r) hub \<times> bypass list \<times> render_job list" where
  "process_quest env hb w now =
     (if he_disable_quest env then (hb, [], [])
      else
        let (seen, dup) = check_quest (se_hash env) (sv_seen hb) (qw_pokestop_id w)
               (build_quest_rewards_key (qw_with_ar w) (qw_rewards w)) now;
            hb1 = hb\<lparr>sv_seen := seen\<rparr>
        in if dup then (hb1, [], [])
           else
             let rewards = map parse_quest_reward (qw_rewards w);
                 hb2 = hb1\<lparr>sv_recent := map_option (\<lambda>r. foldl (note_reward now) r rewards) (sv_recent hb1)\<rparr>;
                 (matched, buffered, areas) = quest_match (se_search env) (he_matcher env)
                    \<lparr>qd_pokestop_id = qw_pokestop_id w, qd_latitude = qw_latitude w, qd_longitude = qw_longitude w,
                     qd_rewards = rewards\<rparr> (se_state env);
                 (allowed, bypass) = alert_filters env hb2 ''quest'' (no_event\<lparr>mv_pokestop_id := qw_pokestop_id w\<rparr>) areas
                    matched now;
                 hb3 = (if length buffered > 0
                        then hb2\<lparr>hb_summary := buffer_quest_matches env buffered w rewards now (hb_summary hb2)\<rparr> else hb2)
             in (hb3, bypass, one_job (se_rendering env) (alert_job ''quest'' ''quest'' allowed areas (qw_pokestop_id w))))"

section \<open>Pokestops: lures, invasions, showcases\<close>

record lure_webhook =
  lw_pokestop_id :: string
  lw_latitude :: f64
  lw_longitude :: f64
  lw_lure_expiration :: int
  lw_lure_id :: int

definition has_active_lure :: "int \<Rightarrow> int \<Rightarrow> int \<Rightarrow> bool" where
  "has_active_lure lure_id expiration now_s \<longleftrightarrow> lure_id > 500 \<and> expiration > now_s"

definition process_lure ::
  "('c, 'r) handler_env \<Rightarrow> ('c, 'r) hub \<Rightarrow> lure_webhook \<Rightarrow> gotime \<Rightarrow> ('c, 'r) hub \<times> bypass list \<times> render_job list" where
  "process_lure env hb w now =
     (if he_disable_lure env then (hb, [], [])
      else if \<not> has_active_lure (lw_lure_id w) (lw_lure_expiration w) (unix now) then (hb, [], [])
      else
        let (seen, dup) = (if lw_lure_expiration w > 0
               then check_lure (se_hash env) (sv_seen hb) (lw_pokestop_id w) (lw_lure_expiration w) now
               else (sv_seen hb, False));
            hb1 = hb\<lparr>sv_seen := seen\<rparr>
        in if dup then (hb1, [], [])
           else
             let (matched, areas) = lure_match (se_search env) (he_matcher env)
                   \<lparr>ld_pokestop_id = lw_pokestop_id w, ld_lure_id = lw_lure_id w, ld_latitude = lw_latitude w,
                    ld_longitude = lw_longitude w\<rparr> (se_state env);
                 (allowed, bypass) = alert_filters env hb1 ''pokestop'' (no_event\<lparr>mv_pokestop_id := lw_pokestop_id w\<rparr>) areas
                    matched now
             in (hb1, bypass, one_job (se_rendering env)
                   ((alert_job ''lure'' ''lure'' allowed areas (lw_pokestop_id w))
                      \<lparr>rj_edit_key := ''lure:'' @ lw_pokestop_id w @ '':'' @ itoa (lw_lure_id w)\<rparr>)))"

record invasion_webhook =
  iw_pokestop_id :: string
  iw_latitude :: f64
  iw_longitude :: f64
  iw_incident_expiration :: int
  iw_incident_expire_timestamp :: int
  iw_incident_grunt_type :: int
  iw_grunt_type :: int
  iw_gender :: int
  iw_display_type :: int
  iw_incident_display_type :: int
  iw_has_rankings :: bool

definition showcase_display_type :: int where "showcase_display_type = 9"

definition incident_expired :: "int \<Rightarrow> int \<Rightarrow> bool" where
  "incident_expired expiration now_s \<longleftrightarrow> expiration > 0 \<and> expiration \<le> now_s"

definition invasion_expiration :: "invasion_webhook \<Rightarrow> int" where
  "invasion_expiration w = (if iw_incident_expiration w = 0 then iw_incident_expire_timestamp w else iw_incident_expiration w)"

definition invasion_display_type :: "invasion_webhook \<Rightarrow> int" where
  "invasion_display_type w = (if iw_display_type w = 0 then iw_incident_display_type w else iw_display_type w)"

definition invasion_grunt_type :: "invasion_webhook \<Rightarrow> int" where
  "invasion_grunt_type w =
     (if iw_incident_grunt_type w = 0 \<or> iw_incident_grunt_type w = 352 then iw_grunt_type w else iw_incident_grunt_type w)"

definition invasion_data_of :: "('c, 'r) handler_env \<Rightarrow> invasion_webhook \<Rightarrow> invasion_data" where
  "invasion_data_of env w =
     (let k = invasion_grunt_type w;
          grunt = (case he_game env of None \<Rightarrow> None | Some gd \<Rightarrow> gget (gm_grunts gd) k)
      in \<lparr>id_pokestop_id = iw_pokestop_id w,
          id_grunt_type = resolve_grunt_type_name k (invasion_display_type w) (he_game env),
          id_boss = (case grunt of None \<Rightarrow> False | Some g \<Rightarrow> gr_boss g),
          id_gender = (case grunt of None \<Rightarrow> iw_gender w | Some g \<Rightarrow> if iw_gender w = 0 then gr_gender g else iw_gender w),
          id_latitude = iw_latitude w, id_longitude = iw_longitude w\<rparr>)"

definition process_invasion ::
  "('c, 'r) handler_env \<Rightarrow> ('c, 'r) hub \<Rightarrow> invasion_webhook \<Rightarrow> gotime \<Rightarrow> ('c, 'r) hub \<times> bypass list \<times> render_job list" where
  "process_invasion env hb w now =
     (if he_disable_invasion env then (hb, [], [])
      else if incident_expired (invasion_expiration w) (unix now) then (hb, [], [])
      else
        let (seen, dup) = (if invasion_expiration w > 0
               then check_invasion (se_hash env) (sv_seen hb) (iw_pokestop_id w) (invasion_expiration w) now
               else (sv_seen hb, False));
            hb1 = hb\<lparr>sv_seen := seen\<rparr>;
            grunt = invasion_grunt_type w; display = invasion_display_type w
        in if dup then (hb1, [], [])
           else if grunt = 0 \<and> display = showcase_display_type \<and> \<not> iw_has_rankings w then (hb1, [], [])
           else
             let hb2 = hb1\<lparr>sv_recent := map_option (\<lambda>r. record_activity r InvasionGrunts grunt now) (sv_recent hb1)\<rparr>;
                 (matched, areas) = invasion_match (se_search env) (he_matcher env) (invasion_data_of env w) (se_state env);
                 (allowed, bypass) = alert_filters env hb2 ''invasion'' (no_event\<lparr>mv_pokestop_id := iw_pokestop_id w\<rparr>) areas
                    matched now;
                 ty = (if grunt = 0 \<and> display \<ge> 7 then ''incident'' else ''invasion'')
             in (hb2, bypass, one_job (se_rendering env) (alert_job ty ty allowed areas (iw_pokestop_id w))))"

text \<open>The leaderboard of a showcase: absent, unreadable, or the number of entries and the ranked ones (rank, species,
  and the score as \<open>%g\<close> prints it).\<close>

datatype showcase_rankings = NoRankings | BadRankings | Rankings int "(int \<times> int \<times> string) list"

record showcase_webhook =
  sw_pokestop_id :: string
  sw_latitude :: f64
  sw_longitude :: f64
  sw_showcase_expiry :: int
  sw_rankings :: showcase_rankings

definition showcase_active :: "int \<Rightarrow> int \<Rightarrow> bool" where
  "showcase_active expiry now_s \<longleftrightarrow> expiry > now_s"

fun rank_one :: "(int \<times> int \<times> string) list \<Rightarrow> string" where
  "rank_one [] = ''none''"
| "rank_one ((rank, pokemon, score) # es) = (if rank = 1 then itoa pokemon @ ''@'' @ score else rank_one es)"

fun showcase_fingerprint :: "showcase_rankings \<Rightarrow> string" where
  "showcase_fingerprint NoRankings = ''0:none''"
| "showcase_fingerprint BadRankings = ''parse-error''"
| "showcase_fingerprint (Rankings n es) = itoa n @ '':'' @ rank_one es"

definition process_showcase ::
  "('c, 'r) handler_env \<Rightarrow> ('c, 'r) hub \<Rightarrow> showcase_webhook \<Rightarrow> gotime \<Rightarrow> ('c, 'r) hub \<times> bypass list \<times> render_job list" where
  "process_showcase env hb w now =
     (if he_disable_showcase env then (hb, [], [])
      else if \<not> showcase_active (sw_showcase_expiry w) (unix now) then (hb, [], [])
      else
        let (seen, dup) = check_showcase (se_hash env) (sv_seen hb) (sw_pokestop_id w) (sw_showcase_expiry w)
               (showcase_fingerprint (sw_rankings w)) now;
            hb1 = hb\<lparr>sv_seen := seen\<rparr>
        in if dup then (hb1, [], [])
           else
             let (matched, areas) = invasion_match (se_search env) (he_matcher env)
                   \<lparr>id_pokestop_id = sw_pokestop_id w,
                    id_grunt_type = resolve_grunt_type_name 0 showcase_display_type (he_game env),
                    id_boss = False, id_gender = 0, id_latitude = sw_latitude w, id_longitude = sw_longitude w\<rparr>
                   (se_state env);
                 (allowed, bypass) = alert_filters env hb1 ''pokestop'' (no_event\<lparr>mv_pokestop_id := sw_pokestop_id w\<rparr>) areas
                    matched now
             in (hb1, bypass, one_job (se_rendering env)
                   ((alert_job ''incident'' ''showcase'' allowed areas (sw_pokestop_id w))
                      \<lparr>rj_edit_key := ''showcase:'' @ sw_pokestop_id w @ '':'' @ itoa (sw_showcase_expiry w),
                       rj_override_clean_tth := sw_showcase_expiry w\<rparr>)))"

section \<open>Nests, max battles, forts\<close>

record nest_webhook =
  nw_nest_id :: int
  nw_lat :: f64
  nw_lon :: f64
  nw_pokemon_id :: int
  nw_form :: int
  nw_pokemon_avg :: f64
  nw_reset_time :: int

definition process_nest ::
  "('c, 'r) handler_env \<Rightarrow> ('c, 'r) hub \<Rightarrow> nest_webhook \<Rightarrow> gotime \<Rightarrow> ('c, 'r) hub \<times> bypass list \<times> render_job list" where
  "process_nest env hb w now =
     (if he_disable_nest env then (hb, [], [])
      else
        let (seen, dup) = check_nest (se_hash env) (sv_seen hb) (nw_nest_id w) (nw_pokemon_id w) (nw_reset_time w) now;
            hb1 = hb\<lparr>sv_seen := seen\<rparr>
        in if dup then (hb1, [], [])
           else
             let (matched, areas) = nest_match (se_search env) (he_matcher env)
                   \<lparr>nd_nest_id = nw_nest_id w, nd_pokemon_id = nw_pokemon_id w, nd_form = nw_form w,
                    nd_pokemon_avg = nw_pokemon_avg w, nd_latitude = nw_lat w, nd_longitude = nw_lon w\<rparr> (se_state env);
                 (allowed, bypass) = alert_filters env hb1 ''nest'' (no_event\<lparr>mv_pokemon_id := nw_pokemon_id w\<rparr>) areas matched now
             in (hb1, bypass, one_job (se_rendering env) (alert_job ''nest'' ''nest'' allowed areas (itoa (nw_nest_id w)))))"

record maxbattle_webhook =
  xw_id :: string
  xw_latitude :: f64
  xw_longitude :: f64
  xw_battle_level :: int
  xw_battle_end :: int
  xw_pokemon_id :: int
  xw_pokemon_form :: int
  xw_bread_mode :: int
  xw_move1 :: int
  xw_move2 :: int

definition gmax_of :: "maxbattle_webhook \<Rightarrow> int" where
  "gmax_of w = (if xw_bread_mode w = 2 then 1 else if xw_bread_mode w = 0 \<and> xw_battle_level w > 6 then 1 else 0)"

definition process_maxbattle ::
  "('c, 'r) handler_env \<Rightarrow> ('c, 'r) hub \<Rightarrow> maxbattle_webhook \<Rightarrow> gotime \<Rightarrow> ('c, 'r) hub \<times> bypass list \<times> render_job list" where
  "process_maxbattle env hb w now =
     (if he_disable_maxbattle env then (hb, [], [])
      else
        let (seen, dup) = check_maxbattle (se_hash env) (sv_seen hb) (xw_id w) (xw_battle_end w) (xw_pokemon_id w) now;
            hb1 = hb\<lparr>sv_seen := seen\<rparr>
        in if dup then (hb1, [], [])
           else
             let hb2 = hb1\<lparr>sv_recent := map_option (\<lambda>r. record_activity r MaxBattleBosses (xw_pokemon_id w) now) (sv_recent hb1)\<rparr>;
                 (matched, areas) = maxbattle_match (se_search env) (he_matcher env)
                   \<lparr>xd_station_id = xw_id w, xd_pokemon_id = xw_pokemon_id w, xd_form = xw_pokemon_form w,
                    xd_level = xw_battle_level w, xd_gmax = gmax_of w, xd_evolution = 0, xd_move1 = xw_move1 w,
                    xd_move2 = xw_move2 w, xd_latitude = xw_latitude w, xd_longitude = xw_longitude w\<rparr> (se_state env);
                 (allowed, bypass) = alert_filters env hb2 ''max_battle''
                    (no_event\<lparr>mv_station_id := xw_id w, mv_pokemon_id := xw_pokemon_id w\<rparr>) areas matched now
             in (hb2, bypass, one_job (se_rendering env) (alert_job ''maxbattle'' ''maxbattle'' allowed areas (xw_id w))))"

record fort_snapshot =
  fs_id :: string
  fs_type :: string
  fs_name :: string
  fs_description :: string
  fs_lat :: f64
  fs_lon :: f64

record fort_webhook =
  fw_change_type :: string
  fw_edit_types :: "string list"
  fw_new :: "fort_snapshot option"
  fw_old :: "fort_snapshot option"

text \<open>The accessors \<open>FortID\<close>, \<open>FortType\<close>, \<open>Latitude\<close>, \<open>Longitude\<close>: the new snapshot first.\<close>

definition fort_field :: "'a \<Rightarrow> (fort_snapshot \<Rightarrow> 'a) \<Rightarrow> fort_webhook \<Rightarrow> 'a" where
  "fort_field dflt f w = (case fw_new w of Some s \<Rightarrow> f s | None \<Rightarrow> (case fw_old w of Some s \<Rightarrow> f s | None \<Rightarrow> dflt))"

definition nameless :: "fort_snapshot option \<Rightarrow> bool" where
  "nameless so = (case so of None \<Rightarrow> True | Some s \<Rightarrow> \<not> (fs_name s \<noteq> [] \<or> fs_description s \<noteq> []))"

definition fort_is_empty :: "fort_webhook \<Rightarrow> bool" where
  "fort_is_empty w \<longleftrightarrow> nameless (fw_new w) \<and> nameless (fw_old w)"

definition all_change_types :: "fort_webhook \<Rightarrow> string list" where
  "all_change_types w =
     fw_edit_types w @ [if fw_change_type w = ''edit'' \<and> nameless (fw_old w) then ''new'' else fw_change_type w]"

definition process_fort_update ::
  "('c, 'r) handler_env \<Rightarrow> ('c, 'r) hub \<Rightarrow> fort_webhook \<Rightarrow> gotime \<Rightarrow> ('c, 'r) hub \<times> bypass list \<times> render_job list" where
  "process_fort_update env hb w now =
     (if he_disable_fort env then (hb, [], [])
      else if fort_field [] fs_id w = [] then (hb, [], [])
      else
        let fid = fort_field [] fs_id w;
            (matched, areas) = fort_match (se_search env) (he_matcher env)
              \<lparr>fd_id = fid, fd_fort_type = fort_field [] fs_type w, fd_is_empty = fort_is_empty w,
               fd_change_types = all_change_types w, fd_latitude = fort_field 0 fs_lat w,
               fd_longitude = fort_field 0 fs_lon w\<rparr> (se_state env);
            (allowed, bypass) = alert_filters env hb ''fort_update'' (no_event\<lparr>mv_pokestop_id := fid\<rparr>) areas matched now
        in (hb, bypass, one_job (se_rendering env) (alert_job ''fort-update'' ''fort-update'' allowed areas fid)))"

section \<open>Raids: who gets which template\<close>

lemma recipients_one_job [simp]:
  "recipients P (one_job r j) = (if r \<and> P j then mset (rj_users j) else {#})"
  by (auto simp: one_job_def)

lemma alert_job_users [simp]:
  "rj_users (alert_job a t us areas r) = us" "rj_template_type (alert_job a t us areas r) = t"
  "rj_is_change (alert_job a t us areas r) = False" "rj_areas (alert_job a t us areas r) = areas"
  by (simp_all add: alert_job_def)

lemma note_raid_frame [simp]:
  "sv_limiter (note_raid hb w now) = sv_limiter hb" "sv_mutes (note_raid hb w now) = sv_mutes hb"
  "sv_tracker (note_raid hb w now) = sv_tracker hb" "sv_seen (note_raid hb w now) = sv_seen hb"
  "hb_raids (note_raid hb w now) = hb_raids hb"
  by (simp_all add: note_raid_def Let_def split: option.split)

lemma partition_eq: "partition_raid_users f us = (filter f us, filter (\<lambda>u. \<not> f u) us)"
  by (induction us) simp_all

lemma raid_jobs_recipients:
  assumes "se_rendering env"
  shows "recipients (\<lambda>_. True) (raid_jobs env hb w us areas now) = mset us"
    and "recipients (\<lambda>j. rj_template_type j = ''rsvpChanges'') (raid_jobs env hb w us areas now) =
      mset (filter (\<lambda>u. \<not> wants_full (raid_lookup env hb now) (he_templates env) (he_default_template env)
        (raid_reply_key w) (raid_msg_type w) u) us)"
proof -
  let ?f = "wants_full (raid_lookup env hb now) (he_templates env) (he_default_template env) (raid_reply_key w) (raid_msg_type w)"
  let ?us1 = "filter ?f us" and ?us2 = "filter (\<lambda>u. \<not> ?f u) us"
  have t: "raid_msg_type w \<noteq> ''rsvpChanges''" by (simp add: raid_msg_type_def)
  obtain j1 j2 where j: "rj_users j1 = ?us1" "rj_users j2 = ?us2" "rj_template_type j1 = raid_msg_type w"
      "rj_template_type j2 = ''rsvpChanges''"
    and jobs: "raid_jobs env hb w us areas now = (if us = [] then [] else one_job True j1 @ one_job True j2)"
  proof
    let ?j = "\<lambda>t us. (alert_job (raid_msg_type w) t us areas (rw_gym_id w))
        \<lparr>rj_edit_key := raid_edit_key w, rj_reply_key := raid_reply_key w\<rparr>"
    let ?l = "latest_future_timeslot_sec (rw_rsvps w) (unix_milli now)"
    let ?j2 = "if ?l > 0 then (?j ''rsvpChanges'' ?us2)\<lparr>rj_override_clean_tth := ?l\<rparr> else ?j ''rsvpChanges'' ?us2"
    show "rj_users (?j (raid_msg_type w) ?us1) = ?us1" "rj_users ?j2 = ?us2"
      "rj_template_type (?j (raid_msg_type w) ?us1) = raid_msg_type w" "rj_template_type ?j2 = ''rsvpChanges''"
      by simp_all
    show "raid_jobs env hb w us areas now = (if us = [] then [] else one_job True (?j (raid_msg_type w) ?us1) @ one_job True ?j2)"
      using assms by (simp add: raid_jobs_def one_job_def partition_eq Let_def)
  qed
  have all: "recipients P (raid_jobs env hb w us areas now) =
      (if P j1 then mset ?us1 else {#}) + (if P j2 then mset ?us2 else {#})" for P
    by (simp add: jobs recipients_append j)
  show "recipients (\<lambda>_. True) (raid_jobs env hb w us areas now) = mset us"
    unfolding all by (simp add: mset_filter)
  show "recipients (\<lambda>j. rj_template_type j = ''rsvpChanges'') (raid_jobs env hb w us areas now) = mset ?us2"
    unfolding all by (simp add: j t)
qed

lemma filter_muted_eq: "filter_muted (sv_mutes sv) matched areas ev now = filter (\<lambda>m. \<not> muted_for sv areas ev now m) matched"
  by (rule muted_filter)

definition raid_alerted :: "('c, 'r) handler_env \<Rightarrow> ('c, 'r) hub \<Rightarrow> raid_webhook \<Rightarrow> bool \<Rightarrow> gotime \<Rightarrow> matched_user list" where
  "raid_alerted env hb w first now =
     (let (matched, areas) = raid_matches env w
      in filter (\<lambda>m. rsvp_wanted first (has_rsvps w now) m \<and> may_alert env hb (raid_msg_type w) areas (raid_event w) now m) matched)"

definition long_raid :: "('c, 'r) handler_env \<Rightarrow> raid_webhook \<Rightarrow> gotime \<Rightarrow> bool" where
  "long_raid env w now \<longleftrightarrow> he_ignore_long_raids env \<and> rw_end w - unix now > 47 * 60"

definition raid_check :: "('c, 'r) handler_env \<Rightarrow> ('c, 'r) hub \<Rightarrow> raid_webhook \<Rightarrow> gotime \<Rightarrow> 'r \<times> bool \<times> bool" where
  "raid_check env hb w now = check_raid (he_raid_get env) (he_raid_set env) (hb_raids hb) (rw_gym_id w) (rw_end w)
     (rw_pokemon_id w) (rw_rsvps w) now"

lemma process_raid_jobs:
  assumes "\<not> he_disable_raid env" and "raid_check env hb w now = (c, False, first)" and "\<not> long_raid env w now"
  shows "snd (snd (process_raid env hb w now)) =
    raid_jobs env (note_raid (hb\<lparr>hb_raids := c\<rparr>) w now) w (raid_alerted env hb w first now) (snd (raid_matches env w)) now"
proof -
  let ?hb = "note_raid (hb\<lparr>hb_raids := c\<rparr>) w now"
  obtain matched areas where ma: "raid_matches env w = (matched, areas)" by (cases "raid_matches env w")
  have may: "may_alert env ?hb ty ar ev now = may_alert env hb ty ar ev now" for ty ar ev
    by (rule may_alert_cong) simp_all
  have "filter_muted (sv_mutes hb) (fst (filter_validation (se_validator env) ty d areas
      (filter (rsvp_wanted first (has_rsvps w now)) (filter_blocked (sv_limiter hb) matched now)))) areas (raid_event w) now =
      filter (\<lambda>m. rsvp_wanted first (has_rsvps w now) m \<and> may_alert env hb ty areas (raid_event w) now m) matched" for ty d
    by (simp add: blocked_filter validation_filter muted_filter may_alert_def [abs_def] filter_filter conj_ac)
  then show ?thesis
    using assms ma
    by (cases "he_ignore_long_raids env") (simp_all add: process_raid_def raid_check_def long_raid_def split_beta Let_def raid_alerted_def)
qed

lemma raid_lookup_frame [simp]: "raid_lookup env (note_raid (hb\<lparr>hb_raids := c\<rparr>) w now) now = raid_lookup env hb now"
  by (intro ext) (simp add: raid_lookup_def)

lemma rsvp_entry_eq:
  "rsvp_entry_changed r old = (case find (\<lambda>p. rv_timeslot p = rv_timeslot r) old of None \<Rightarrow> True
     | Some p \<Rightarrow> rv_going_count p \<noteq> rv_going_count r \<or> rv_maybe_count p \<noteq> rv_maybe_count r)"
  by (induction old) auto

lemma rsvp_unchanged_eq:
  "\<not> rsvp_changed old new \<longleftrightarrow> length new \<le> length old \<and>
     (\<forall>r \<in> set new. \<exists>p. find (\<lambda>p. rv_timeslot p = rv_timeslot r) old = Some p \<and>
        rv_going_count p = rv_going_count r \<and> rv_maybe_count p = rv_maybe_count r)"
  unfolding rsvp_changed_def list_ex_iff rsvp_entry_eq by (auto split: option.splits)

lemma rsvp_wanted_iff:
  "rsvp_wanted first (has_rsvps w now) m \<longleftrightarrow> (mu_rsvp_changes m = 0 \<longrightarrow> first) \<and>
      (mu_rsvp_changes m = 2 \<longrightarrow> (\<exists>r \<in> set (rw_rsvps w). rv_timeslot r > unix_milli now))"
  by (simp add: rsvp_wanted_def has_rsvps_def list_ex_iff)

lemma short_template_iff:
  "\<not> wants_full (raid_lookup env hb now) (he_templates env) (he_default_template env) key kind u \<longleftrightarrow> \<not> is_edit (mu_clean u) \<and>
     (\<exists>present mt prior. he_templates env = Some present \<and> sv_tracker hb = Some mt \<and>
        lookup_reply_message (se_cache env) mt key (mu_id u) now = Some prior \<and>
        tm_msg_type prior = kind \<and> present ''rsvpChanges'' (platform_from_type (mu_type u))
          (if mu_template u = [] then he_default_template env else mu_template u) [])"
  by (auto simp: wants_full_def raid_lookup_def Let_def split: option.split)

lemma raid_skipped:
  "he_disable_raid env \<or> \<not> se_rendering env \<or> fst (snd (raid_check env hb w now)) \<or> long_raid env w now \<Longrightarrow>
     snd (snd (process_raid env hb w now)) = []"
  by (auto simp: process_raid_def raid_check_def long_raid_def raid_jobs_def split_beta Let_def)

text \<open>C16: Who is alerted about a raid or egg is exact, and with which template. Nobody is alerted when raids are switched
  off, when the same boss or egg of that gym and end is already remembered and no sign-up slot is new or has other counts, or,
  with \<open>ignore_long_raids\<close>, when the end is more than 47 minutes away. Otherwise the users of the raid or egg rules that match,
  whose sign-up preference admits this notification (0: only the first; 2: only with a sign-up still ahead), and who pass
  the three filters are alerted once per match; of these exactly those get the short template who are not in edit mode,
  already have a message of the same kind about this raid, and whose platform has such a template under the name their rule
  resolves to.\<close>

theorem raid_alert_exact:
  "let remembered = he_raid_get env (hb_raids hb)
         (rw_gym_id w @ '':'' @ itoa (rw_end w) @ '':'' @ itoa (rw_pokemon_id w)) now;
      repeated = (\<exists>old. remembered = Some old \<and> length (rw_rsvps w) \<le> length old \<and>
         (\<forall>r \<in> set (rw_rsvps w). \<exists>p. find (\<lambda>p. rv_timeslot p = rv_timeslot r) old = Some p \<and>
            rv_going_count p = rv_going_count r \<and> rv_maybe_count p = rv_maybe_count r));
      skipped = (he_disable_raid env \<or> \<not> se_rendering env \<or> repeated \<or>
         he_ignore_long_raids env \<and> rw_end w > unix now + 47 * 60);
      ex = (rw_ex_raid_eligible w \<or> rw_is_ex_raid_eligible w);
      (matched, areas) = (if rw_pokemon_id w > 0
         then match_raid (se_search env) (he_matcher env)
                \<lparr>ra_gym_id = rw_gym_id w, ra_pokemon_id = rw_pokemon_id w, ra_form = rw_form w, ra_costume = rw_costume w,
                 ra_level = rw_level w, ra_team_id = rw_team_id w, ra_ex = ex, ra_evolution = rw_evolution w,
                 ra_move1 = rw_move1 w, ra_move2 = rw_move2 w, ra_latitude = rw_latitude w, ra_longitude = rw_longitude w\<rparr>
                (se_state env)
         else match_egg (se_search env) (he_matcher env)
                \<lparr>eg_gym_id = rw_gym_id w, eg_level = rw_level w, eg_team_id = rw_team_id w, eg_ex = ex,
                 eg_latitude = rw_latitude w, eg_longitude = rw_longitude w\<rparr> (se_state env));
      kind = (if rw_pokemon_id w = 0 then ''egg'' else ''raid'');
      alerted = (if skipped then [] else filter (\<lambda>m. (mu_rsvp_changes m = 0 \<longrightarrow> remembered = None) \<and>
         (mu_rsvp_changes m = 2 \<longrightarrow> (\<exists>r \<in> set (rw_rsvps w). rv_timeslot r > unix_milli now)) \<and>
         may_alert env hb kind areas (no_event\<lparr>mv_gym_id := rw_gym_id w, mv_pokemon_id := rw_pokemon_id w\<rparr>) now m) matched);
      jobs = snd (snd (process_raid env hb w now))
    in recipients (\<lambda>_. True) jobs = mset alerted \<and>
       recipients (\<lambda>j. rj_template_type j = ''rsvpChanges'') jobs = mset (filter (\<lambda>u. \<not> is_edit (mu_clean u) \<and>
         (\<exists>present mt prior. he_templates env = Some present \<and> sv_tracker hb = Some mt \<and>
            lookup_reply_message (se_cache env) mt (''raidlife:'' @ rw_gym_id w @ '':'' @ itoa (rw_end w)) (mu_id u) now = Some prior \<and>
            tm_msg_type prior = kind \<and> present ''rsvpChanges'' (platform_from_type (mu_type u))
              (if mu_template u = [] then he_default_template env else mu_template u) [])) alerted)"
proof -
  define first where "first \<longleftrightarrow> he_raid_get env (hb_raids hb) (rw_gym_id w @ '':'' @ itoa (rw_end w) @ '':'' @ itoa (rw_pokemon_id w)) now = None"
  define repeated where "repeated \<longleftrightarrow> (\<exists>old. he_raid_get env (hb_raids hb)
         (rw_gym_id w @ '':'' @ itoa (rw_end w) @ '':'' @ itoa (rw_pokemon_id w)) now = Some old \<and> length (rw_rsvps w) \<le> length old \<and>
         (\<forall>r \<in> set (rw_rsvps w). \<exists>p. find (\<lambda>p. rv_timeslot p = rv_timeslot r) old = Some p \<and>
            rv_going_count p = rv_going_count r \<and> rv_maybe_count p = rv_maybe_count r))"
  obtain c where chk: "raid_check env hb w now = (c, repeated, first)"
  proof
    show "raid_check env hb w now = (fst (raid_check env hb w now), repeated, first)"
      unfolding repeated_def rsvp_unchanged_eq [symmetric]
      by (auto simp: raid_check_def check_raid_def raid_key_def first_def Let_def split: option.split)
  qed
  obtain matched areas where ma: "raid_matches env w = (matched, areas)" by (cases "raid_matches env w")
  note ma' = ma [unfolded raid_matches_def Let_def]
  have skip: "snd (snd (process_raid env hb w now)) = []"
    if "he_disable_raid env \<or> \<not> se_rendering env \<or> repeated \<or> he_ignore_long_raids env \<and> rw_end w > unix now + 47 * 60"
    using that by (intro raid_skipped) (auto simp: chk long_raid_def)
  show ?thesis
  proof (cases "he_disable_raid env \<or> \<not> se_rendering env \<or> repeated \<or> he_ignore_long_raids env \<and> rw_end w > unix now + 47 * 60")
    case True
    then show ?thesis
      unfolding Let_def repeated_def [symmetric] ma' by (simp add: skip)
  next
    case False
    then have on: "\<not> he_disable_raid env" "raid_check env hb w now = (c, False, first)" "\<not> long_raid env w now" "se_rendering env"
      using chk by (auto simp: long_raid_def)
    have alerted: "raid_alerted env hb w first now = filter (\<lambda>m. (mu_rsvp_changes m = 0 \<longrightarrow> first) \<and>
         (mu_rsvp_changes m = 2 \<longrightarrow> (\<exists>r \<in> set (rw_rsvps w). rv_timeslot r > unix_milli now)) \<and>
         may_alert env hb (raid_msg_type w) areas (no_event\<lparr>mv_gym_id := rw_gym_id w, mv_pokemon_id := rw_pokemon_id w\<rparr>) now m) matched"
      by (simp only: raid_alerted_def ma rsvp_wanted_iff raid_event_def prod.case Let_def conj_assoc)
    show ?thesis
      unfolding Let_def repeated_def [symmetric] first_def [symmetric] raid_msg_type_def [symmetric] raid_reply_key_def [symmetric]
        ma' prod.case if_not_P [OF False] process_raid_jobs [OF on(1,2,3)] raid_jobs_recipients [OF on(4)] alerted raid_lookup_frame short_template_iff
      by (intro conjI refl)
  qed
qed

section \<open>Gyms\<close>

lemma update_keeps_old:
  "fst (snd (update_with_battle_cooldown g i team slots battle now)) = gget g i"
  "snd (snd (update_with_battle_cooldown g i team slots battle now)) =
     (case gget g i of Some s \<Rightarrow> gs_battle_cooldown_until s > now | None \<Rightarrow> False)"
  by (simp_all add: update_with_battle_cooldown_def update_locked_def split_beta Let_def split: option.split)

text \<open>C20: Who is alerted about a gym is exact, against the gym's remembered state: nobody while the battle cooldown of
  an earlier fight runs and neither team nor free slots changed, otherwise the users of the rules matching the change
  from the remembered team and slots (unknown, -1, for a gym not remembered) who pass the three filters. The gym is
  found under its first id, or its second if that is empty, and its team is the first field, or the second if that is 0.\<close>

theorem gym_alert_exact:
  "let i = (if gw_gym_id w = [] then gw_id w else gw_gym_id w);
      team = (if gw_team_id w = 0 then gw_team w else gw_team_id w);
      old = gget (hb_gyms hb) i;
      (matched, areas) = gym_match (se_search env) (he_matcher env)
        \<lparr>gd_gym_id = i, gd_team_id = team, gd_old_team_id = (case old of None \<Rightarrow> - 1 | Some s \<Rightarrow> gs_team_id s),
         gd_slots_available = gw_slots_available w,
         gd_old_slots_available = (case old of None \<Rightarrow> - 1 | Some s \<Rightarrow> gs_slots_available s),
         gd_in_battle = gw_is_in_battle w \<or> gw_in_battle w, gd_latitude = gw_latitude w, gd_longitude = gw_longitude w\<rparr>
        (se_state env)
    in recipients (\<lambda>_. True) (snd (snd (process_gym env hb w now))) =
       (if he_disable_gym env \<or> \<not> se_rendering env \<or>
           (\<exists>s. old = Some s \<and> now < gs_battle_cooldown_until s \<and> gs_team_id s = team \<and>
             gs_slots_available s = gw_slots_available w)
        then {#}
        else mset (filter (may_alert env hb ''gym'' areas (no_event\<lparr>mv_gym_id := i\<rparr>) now) matched))"
proof -
  let ?u = "update_with_battle_cooldown (hb_gyms hb) (gym_id_of w) (gym_team_of w) (gw_slots_available w)
     (gw_is_in_battle w \<or> gw_in_battle w) now"
  let ?old = "gget (hb_gyms hb) (gym_id_of w)"
  let ?quiet = "\<exists>s. ?old = Some s \<and> now < gs_battle_cooldown_until s \<and> gs_team_id s = gym_team_of w \<and>
             gs_slots_available s = gw_slots_available w"
  obtain matched areas where ma: "gym_match (se_search env) (he_matcher env) (gym_data_of w ?old) (se_state env) = (matched, areas)"
    by (cases "gym_match (se_search env) (he_matcher env) (gym_data_of w ?old) (se_state env)")
  obtain g where u: "?u = (g, ?old, case ?old of Some s \<Rightarrow> gs_battle_cooldown_until s > now | None \<Rightarrow> False)"
    by (rule that [of "fst ?u"]) (simp only: prod_eq_iff fst_conv snd_conv update_keeps_old simp_thms)
  have quiet: "(?old \<noteq> None \<and> (case ?old of Some s \<Rightarrow> gs_battle_cooldown_until s > now | None \<Rightarrow> False) \<and>
      gd_old_team_id (gym_data_of w ?old) = gym_team_of w \<and>
      gd_old_slots_available (gym_data_of w ?old) = gw_slots_available w) = ?quiet"
    by (cases ?old) (simp_all add: gym_data_of_def)
  have may: "may_alert env (hb\<lparr>hb_gyms := g\<rparr>) ty ar ev now = may_alert env hb ty ar ev now" for ty ar ev
    by (rule may_alert_cong) simp_all
  have off: "recipients (\<lambda>_. True) (snd (snd (process_gym env hb w now))) = {#}" if "he_disable_gym env \<or> \<not> se_rendering env"
    using that by (auto simp: process_gym_def split_beta Let_def)
  have "recipients (\<lambda>_. True) (snd (snd (process_gym env hb w now))) =
      (if ?quiet then {#} else mset (filter (may_alert env hb ''gym'' areas (no_event\<lparr>mv_gym_id := gym_id_of w\<rparr>) now) matched))"
    if "\<not> he_disable_gym env" "se_rendering env"
    unfolding process_gym_def using that
    by (simp add: u split_beta Let_def quiet ma alert_filters_eq may del: not_None_eq) blast
  with off have "recipients (\<lambda>_. True) (snd (snd (process_gym env hb w now))) =
      (if he_disable_gym env \<or> \<not> se_rendering env \<or> ?quiet then {#}
       else mset (filter (may_alert env hb ''gym'' areas (no_event\<lparr>mv_gym_id := gym_id_of w\<rparr>) now) matched))"
    by metis
  then show ?thesis
    unfolding Let_def gym_id_of_def [symmetric] gym_team_of_def [symmetric] gym_data_of_def [symmetric] ma prod.case .
qed

section \<open>Quests: alerted now or buffered\<close>

lemma quest_buffered_distinct:
  assumes "quest_match search mc d sto = (matched, buffered, areas)"
  shows "distinct (map mu_id buffered)"
  using assms gv.run_distinct
  by (auto simp: quest_match_def validate_humans_generic_def split_beta Let_def split: option.splits)

lemma queued_fold:
  assumes "distinct (map mu_id us)" and "\<And>u. key_of_quest (f u) = k0" and "\<And>u. bq_clean (f u) = mu_clean u"
  shows "queued (foldl (\<lambda>b u. append_quest (mu_id u) a (f u) b) sb us) h a' k =
    (if a' = a \<and> k = k0
     then (case find (\<lambda>u. mu_id u = h) us of None \<Rightarrow> queued sb h a' k
           | Some u \<Rightarrow> Some (case queued sb h a' k of None \<Rightarrow> f u
               | Some old \<Rightarrow> (f u)\<lparr>bq_clean := or (mu_clean u) (bq_clean old)\<rparr>))
     else queued sb h a' k)"
  using assms(1)
proof (induction us arbitrary: sb)
  case (Cons u us)
  have none: "find (\<lambda>v. mu_id v = mu_id u) us = None"
    using Cons.prems by (simp add: find_None_iff) (metis image_eqI)
  show ?case
    using Cons by (cases "mu_id u = h") (auto simp: queued_append assms(2,3) none split: option.split)
qed simp

definition quest_key :: "quest_webhook \<Rightarrow> buffer_key" where
  "quest_key w =
     (let (ty, reward, form) = key_reward (map parse_quest_reward (qw_rewards w))
      in \<lparr>bk_reward_type = ty, bk_reward = reward, bk_form = form, bk_pokestop_id = qw_pokestop_id w, bk_with_ar = qw_with_ar w\<rparr>)"

lemma key_of_entry: "key_of_quest (quest_entry env w (map parse_quest_reward (qw_rewards w)) now u) = quest_key w"
  by (simp add: key_of_quest_def quest_entry_def quest_key_def split_beta Let_def)

definition quest_of :: "quest_webhook \<Rightarrow> quest_data" where
  "quest_of w = \<lparr>qd_pokestop_id = qw_pokestop_id w, qd_latitude = qw_latitude w, qd_longitude = qw_longitude w,
     qd_rewards = map parse_quest_reward (qw_rewards w)\<rparr>"

abbreviation quest_fresh :: "('c, 'r) handler_env \<Rightarrow> ('c, 'r) hub \<Rightarrow> quest_webhook \<Rightarrow> gotime \<Rightarrow> bool" where
  "quest_fresh env hb w now \<equiv> \<not> snd (check_quest (se_hash env) (sv_seen hb) (qw_pokestop_id w)
     (build_quest_rewards_key (qw_with_ar w) (qw_rewards w)) now)"


section \<open>Two consequences\<close>

text \<open>A pokestop payload without lure, showcase or incident is handed to the invasion handler, which then never
  deduplicates it: every repeat alerts the rules on everything again.\<close>

lemma bare_pokestop_repeats:
  assumes "invasion_expiration w = 0" and "invasion_grunt_type w = 0" and "invasion_display_type w = 0"
    and "\<not> he_disable_invasion env" and "se_rendering env" and "se_state env = Some st"
    and "sv_limiter hb = None" and "sv_mutes hb = None" and "se_validator env = None"
  shows "sv_seen (fst (process_invasion env hb w now)) = sv_seen hb"
    and "recipients (\<lambda>_. True) (snd (snd (process_invasion env hb w now))) =
      mset (fst (invasion_match (se_search env) (he_matcher env) (invasion_data_of env w) (Some st)))"
    and "it_grunt_type r = ''everything'' \<Longrightarrow> it_gender r = 0 \<Longrightarrow> invasion_wants (invasion_data_of env w) r"
proof -
  show "sv_seen (fst (process_invasion env hb w now)) = sv_seen hb"
    using assms by (simp add: process_invasion_def split_beta Let_def incident_expired_def showcase_display_type_def)
  show "recipients (\<lambda>_. True) (snd (snd (process_invasion env hb w now))) =
      mset (fst (invasion_match (se_search env) (he_matcher env) (invasion_data_of env w) (Some st)))"
    using assms by (simp add: process_invasion_def split_beta Let_def incident_expired_def showcase_display_type_def
        alert_filters_def filter_blocked_def filter_validation_def filter_muted_def)
  show "it_grunt_type r = ''everything'' \<Longrightarrow> it_gender r = 0 \<Longrightarrow> invasion_wants (invasion_data_of env w) r"
    by (simp add: invasion_wants_def Let_def to_lower_def lower_char_def)
qed

text \<open>With \<open>ignore_long_raids\<close> an egg is dropped when its raid ends in more than 47 minutes, whatever is left until it
  hatches.\<close>

lemma long_egg_dropped:
  assumes "he_ignore_long_raids env" and "rw_end w = hatch + 45 * 60" and "unix now + 2 * 60 < hatch"
  shows "snd (snd (process_raid env hb w now)) = []"
  using assms by (simp add: process_raid_def split_beta Let_def)

section \<open>Concrete runs\<close>

definition sample_handler_env :: "(unit, (string, raid_rsvp list \<times> gotime) gomap) handler_env" where
  "sample_handler_env = service_env.extend sample_env
     \<lparr>he_disable_raid = False, he_disable_gym = False, he_disable_quest = False, he_disable_invasion = False,
      he_disable_lure = False, he_disable_nest = False, he_disable_maxbattle = False, he_disable_fort = False,
      he_disable_showcase = False, he_disable_weather = False, he_ignore_long_raids = False, he_matcher = open_matcher,
      he_game = None, he_raid_get = sample_get, he_raid_set = sample_set, he_templates = None, he_default_template = ''1'',
      he_end_of_day = (\<lambda>_ _ t. unix t + 86400), he_alert_minimum_time = 60, he_max_altered = 3,
      he_boosts = default_weather_type_boost\<rparr>"

definition sample_hub :: "(unit, (string, raid_rsvp list \<times> gotime) gomap) hub" where
  "sample_hub = service.extend sample_service \<lparr>hb_raids = [], hb_gyms = [], hb_summary = Some new_summary_buffer\<rparr>"

lemmas sample_hub_defs = sample_handler_env_def sample_env_def service_env.defs sample_hub_def sample_service_def service.defs

definition sample_raid_webhook :: raid_webhook where
  "sample_raid_webhook = \<lparr>rw_gym_id = ''g'', rw_latitude = 1, rw_longitude = 2, rw_pokemon_id = 150, rw_form = 0,
     rw_costume = 0, rw_evolution = 0, rw_level = 5, rw_team_id = 1, rw_end = 2000, rw_move1 = 1, rw_move2 = 2,
     rw_ex_raid_eligible = False, rw_is_ex_raid_eligible = False, rw_rsvps = []\<rparr>"

definition sample_gym_webhook :: gym_webhook where
  "sample_gym_webhook = \<lparr>gw_gym_id = ''g'', gw_id = [], gw_latitude = 1, gw_longitude = 2, gw_team_id = 1, gw_team = 0,
     gw_slots_available = 3, gw_is_in_battle = False, gw_in_battle = True\<rparr>"

definition sample_quest_webhook :: quest_webhook where
  "sample_quest_webhook = \<lparr>qw_pokestop_id = ''p'', qw_latitude = 1, qw_longitude = 2,
     qw_rewards = [\<lparr>qw_type = 3, qw_info = [(''amount'', InfoNum 1500)]\<rparr>], qw_with_ar = False, qw_raw = ''{}''\<rparr>"

definition sample_raid_env :: "(unit, (string, raid_rsvp list \<times> gotime) gomap) handler_env" where
  "sample_raid_env = sample_handler_env\<lparr>se_state := Some (sample_state\<lparr>st_raids := [sample_raid_rule]\<rparr>),
     se_cache := \<lparr>co_get = (\<lambda>_ k _. if k = ''k'' then Some \<lparr>tm_sent_id = ''m'', tm_target = ''u1'', tm_type = ''discord:user'',
        tm_msg_type = ''raid'', tm_clean = 0, tm_reply_key = [], tm_template = ''1''\<rparr> else None), co_set = (\<lambda>_ _ _ _ _. ())\<rparr>,
     he_templates := Some (\<lambda>_ _ _ _. True)\<rparr>"

definition sample_raid_hub :: "(unit, (string, raid_rsvp list \<times> gotime) gomap) hub" where
  "sample_raid_hub = sample_hub\<lparr>sv_tracker := Some \<lparr>mt_cache = (),
     mt_replies = [(''raidlife:g:'' @ itoa 2000, [(''u1'', ''k'')])]\<rparr>\<rparr>"

lemma raid_alert_exact_witness:
  "image_mset mu_id (recipients (\<lambda>_. True) (snd (snd (process_raid sample_raid_env sample_raid_hub sample_raid_webhook 0)))) = {#''u1''#} \<and>
   image_mset mu_id (recipients (\<lambda>j. rj_template_type j = ''rsvpChanges'')
     (snd (snd (process_raid sample_raid_env sample_raid_hub sample_raid_webhook 0)))) = {#''u1''#}"
proof -
  let ?m = "match_raid (se_search sample_raid_env) (he_matcher sample_raid_env)
                \<lparr>ra_gym_id = ''g'', ra_pokemon_id = 150, ra_form = 0, ra_costume = 0, ra_level = 5, ra_team_id = 1, ra_ex = False,
                 ra_evolution = 0, ra_move1 = 1, ra_move2 = 2, ra_latitude = 1, ra_longitude = 2\<rparr>
                (se_state sample_raid_env)"
  obtain u areas where m: "?m = ([u], areas)" and u: "mu_id u = ''u1''" "mu_clean u = 0" "mu_rsvp_changes u = 0"
    by (simp add: sample_raid_env_def sample_hub_defs match_raid_def raid_wants_def raid_td_def sample_raid_rule_def sample_state_def
        event_at_def point_areas_and_names_def open_matcher_def strict_of_def validate_humans_for_raid_def raid_accepts_def
        raid_user_def resolve_override_def sample_human_def gget_Cons strict_rejects_def split_beta Let_def)
  have may: "may_alert sample_raid_env sample_raid_hub ty ar ev now v" for ty ar ev now v
    by (simp add: may_alert_def throttled_def validated_def muted_for_def sample_raid_env_def sample_raid_hub_def sample_hub_defs)
  have "he_raid_get sample_raid_env (hb_raids sample_raid_hub) k now = None" for k now
    by (simp add: sample_raid_env_def sample_raid_hub_def sample_hub_defs sample_get_def)
  moreover have "\<not> he_disable_raid sample_raid_env" "se_rendering sample_raid_env" "\<not> he_ignore_long_raids sample_raid_env"
    "he_templates sample_raid_env = Some (\<lambda>_ _ _ _. True)"
    by (simp_all add: sample_raid_env_def sample_hub_defs)
  moreover have "\<exists>mt prior. sv_tracker sample_raid_hub = Some mt \<and>
      lookup_reply_message (se_cache sample_raid_env) mt (''raidlife:g:'' @ itoa 2000) ''u1'' 0 = Some prior \<and> tm_msg_type prior = ''raid''"
    by (simp add: sample_raid_env_def sample_raid_hub_def sample_hub_defs lookup_reply_message_def gget_or_def gget_Cons)
  ultimately show ?thesis
    using raid_alert_exact [of sample_raid_env sample_raid_hub sample_raid_webhook 0]
    by (simp add: sample_raid_webhook_def m u may is_edit_def Let_def)
qed

definition sample_gym_env :: "(unit, (string, raid_rsvp list \<times> gotime) gomap) handler_env" where
  "sample_gym_env = sample_handler_env\<lparr>se_state := Some (sample_state\<lparr>st_gyms := [sample_gym_rule]\<rparr>)\<rparr>"

text \<open>The first webhook of the gym alerts the rule, its repeat within the battle cooldown nobody.\<close>

lemma gym_alert_exact_witness:
  "image_mset mu_id (recipients (\<lambda>_. True) (snd (snd (process_gym sample_gym_env sample_hub sample_gym_webhook 0)))) = {#''u1''#} \<and>
   recipients (\<lambda>_. True) (snd (snd (process_gym sample_gym_env
     (fst (process_gym sample_gym_env sample_hub sample_gym_webhook 0)) sample_gym_webhook 1))) = {#}"
proof -
  let ?hb = "fst (process_gym sample_gym_env sample_hub sample_gym_webhook 0)"
  obtain u areas where m: "gym_match (se_search sample_gym_env) (he_matcher sample_gym_env) \<lparr>gd_gym_id = ''g'', gd_team_id = 1,
      gd_old_team_id = - 1, gd_slots_available = 3, gd_old_slots_available = - 1, gd_in_battle = True, gd_latitude = 1,
      gd_longitude = 2\<rparr> (se_state sample_gym_env) = ([u], areas)" and u: "mu_id u = ''u1''"
    by (simp add: sample_gym_env_def sample_hub_defs gym_match_def event_at_def point_areas_and_names_def sample_state_def
        match_gyms_def gym_wants_def gym_td_def sample_gym_rule_def validate_humans_for_gym_def gym_accepts_def gget_Cons
        sample_human_def near_def resolve_override_def strict_rejects_def strict_of_def open_matcher_def Let_def generic_user_def)
  have may: "may_alert sample_gym_env sample_hub ty ar ev now v" for ty ar ev now v
    by (simp add: may_alert_def throttled_def validated_def muted_for_def sample_gym_env_def sample_hub_defs)
  have g0: "gget (hb_gyms sample_hub) ''g'' = None" by (simp add: sample_hub_defs)
  have g1: "gget (hb_gyms ?hb) ''g'' = Some \<lparr>gs_team_id = 1, gs_slots_available = 3, gs_in_battle = True, gs_last_owner_id = 1,
      gs_last_seen = 0, gs_battle_cooldown_until = 5 * ns_minute\<rparr>"
    by (simp add: process_gym_def split_beta Let_def sample_gym_env_def sample_hub_defs sample_gym_webhook_def gym_id_of_def
        gym_team_of_def update_with_battle_cooldown_def update_locked_def set_cooldown_def new_last_owner_def gget_put)
  have on: "\<not> he_disable_gym sample_gym_env" "se_rendering sample_gym_env" by (simp_all add: sample_gym_env_def sample_hub_defs)
  show ?thesis
  proof
    show "image_mset mu_id (recipients (\<lambda>_. True) (snd (snd (process_gym sample_gym_env sample_hub sample_gym_webhook 0)))) = {#''u1''#}"
      using gym_alert_exact [of sample_gym_webhook sample_hub sample_gym_env 0] on
      by (simp add: sample_gym_webhook_def g0 m u may Let_def)
    show "recipients (\<lambda>_. True) (snd (snd (process_gym sample_gym_env ?hb sample_gym_webhook 1))) = {#}"
      using gym_alert_exact [of sample_gym_webhook ?hb sample_gym_env 1] g1
      by (simp add: sample_gym_webhook_def split_beta Let_def)
  qed
qed

definition sample_quest_env :: "(unit, (string, raid_rsvp list \<times> gotime) gomap) handler_env" where
  "sample_quest_env = sample_handler_env\<lparr>se_state := Some (sample_state\<lparr>st_quests := [sample_quest_rule]\<rparr>)\<rparr>"


end
