(* ===== verification/WeatherAlerts.thy ===== *)
theory WeatherAlerts
  imports Handlers
begin

text \<open>
  Weather (\<open>cmd/processor/weather.go\<close>): the handler of weather webhooks, and the consumer of the changes channel, which
  alerts the users that care about a cell. The consumer is one goroutine that takes the changes in order; taking one
  and working it off is one step. The tiles and template variables are left out of the jobs. The snapshot exists
  before the consumer starts, so the areas of a cell are empty without one.
\<close>

section \<open>The webhook\<close>

record weather_webhook =
  ww_s2_cell_id :: string
  ww_latitude :: f64
  ww_longitude :: f64
  ww_polygon :: "(f64 \<times> f64) list"
  ww_condition :: int
  ww_updated :: int

definition weather_cell_of :: "('c, 'r) handler_env \<Rightarrow> weather_webhook \<Rightarrow> string" where
  "weather_cell_of env w =
     (if ww_s2_cell_id w = [] \<or> ww_s2_cell_id w = ''0'' then se_cell_id env (ww_latitude w) (ww_longitude w)
      else ww_s2_cell_id w)"

definition process_weather :: "('c, 'r) handler_env \<Rightarrow> ('c, 'r) hub \<Rightarrow> weather_webhook \<Rightarrow> gotime \<Rightarrow> ('c, 'r) hub" where
  "process_weather env hb w now =
     (if he_disable_weather env then hb
      else hb\<lparr>sv_weather := update_from_webhook (sv_weather hb) (weather_cell_of env w) (ww_condition w) (ww_updated w)
             (ww_latitude w) (ww_longitude w) (ww_polygon w) (unix now)\<rparr>)"

section \<open>The consumer\<close>

record active_entry =
  an_pokemon_id :: int
  an_form :: int
  an_iv :: f64
  an_cp :: int
  an_latitude :: f64
  an_longitude :: f64
  an_disappear_time :: int

text \<open>A matched user with the two fields only this handler sets.\<close>

record weather_user = matched_user +
  wu_active_pokemons :: "active_entry list"
  wu_cares_until :: int

definition active_entry_of :: "active_pokemon \<Rightarrow> active_entry" where
  "active_entry_of p = \<lparr>an_pokemon_id = ap_pokemon_id p, an_form = ap_form p, an_iv = ap_iv p, an_cp = ap_cp p,
     an_latitude = ap_latitude p, an_longitude = ap_longitude p, an_disappear_time = ap_disappear_time p\<rparr>"

definition weather_user_of :: "care_entry \<Rightarrow> active_entry list \<Rightarrow> weather_user" where
  "weather_user_of c entries =
     \<lparr>mu_id = ce_id c, mu_name = ce_name c, mu_type = ce_type c, mu_language = ce_language c, mu_latitude = 0, mu_longitude = 0,
      mu_template = ce_template c, mu_distance = 0, mu_clean = ce_clean c, mu_ping = ce_ping c, mu_bearing = 0,
      mu_cardinal_direction = [], mu_track_distance = 0, mu_pokemon_id = 0, mu_pvp_ranking_cap = 0, mu_pvp_ranking_league = 0,
      mu_pvp_ranking_worst = 0, mu_rsvp_changes = 0, mu_rule_uid = 0,
      wu_active_pokemons = entries, wu_cares_until = ce_cares_until c\<rparr>"

definition too_short :: "int \<Rightarrow> int \<Rightarrow> care_entry \<Rightarrow> bool" where
  "too_short min_alert now_s c \<longleftrightarrow>
     ce_clean c > 0 \<and> (ce_cares_until c = 0 \<or> ce_cares_until c - now_s < min_alert)"

text \<open>The loop over the caring users; looking up the affected pokemon prunes the tracker.\<close>

fun weather_matches ::
  "('c, 'r) handler_env \<Rightarrow> weather_change \<Rightarrow> int \<Rightarrow> active_tracker option \<Rightarrow> care_entry list
   \<Rightarrow> active_tracker option \<times> weather_user list" where
  "weather_matches env ch now_s apt [] = (apt, [])"
| "weather_matches env ch now_s apt (c # cs) =
     (if too_short (he_alert_minimum_time env) now_s c then weather_matches env ch now_s apt cs
      else case apt of
        None \<Rightarrow> (let (a, us) = weather_matches env ch now_s None cs in (a, weather_user_of c [] # us))
      | Some t \<Rightarrow>
          (let (t', affected) = get_affected_pokemon (he_boosts env) t (wc_cell ch) (ce_id c) (wc_condition ch)
                 (he_max_altered env) now_s;
               (a, us) = weather_matches env ch now_s (Some t') cs
           in if affected = [] then (a, us) else (a, weather_user_of c (map active_entry_of affected) # us)))"

definition weather_alert_clean_until :: "weather_user \<Rightarrow> int" where
  "weather_alert_clean_until u =
     (if wu_active_pokemons u = [] then wu_cares_until u
      else foldl (\<lambda>mx p. if an_disappear_time p > mx then an_disappear_time p else mx) 0 (wu_active_pokemons u))"

definition weather_job :: "web_area list \<Rightarrow> string \<Rightarrow> int \<Rightarrow> weather_user \<Rightarrow> render_job" where
  "weather_job areas cell override u =
     (alert_job ''weatherchange'' ''weatherchange'' [matched_user.truncate u] areas cell)\<lparr>rj_override_clean_tth := override\<rparr>"

definition dispatch_weather_change :: "int \<Rightarrow> int \<Rightarrow> web_area list \<Rightarrow> string \<Rightarrow> weather_user list \<Rightarrow> render_job list" where
  "dispatch_weather_change min_alert now_s areas cell us =
     List.map_filter (\<lambda>u.
       let until = weather_alert_clean_until u
       in if mu_clean u > 0 \<and> until > 0
          then if until - now_s < min_alert then None else Some (weather_job areas cell until u)
          else Some (weather_job areas cell 0 u)) us"

definition weather_areas :: "('c, 'r) handler_env \<Rightarrow> weather_change \<Rightarrow> web_area list" where
  "weather_areas env ch =
     (case se_state env of None \<Rightarrow> []
      | Some st \<Rightarrow> convert_areas (point_in_areas (se_search env) (st_geofence st) (wc_latitude ch) (wc_longitude ch)))"

definition weather_alert :: "('c, 'r) handler_env \<Rightarrow> ('c, 'r) hub \<Rightarrow> weather_change \<Rightarrow> gotime \<Rightarrow> ('c, 'r) hub \<times> render_job list" where
  "weather_alert env hb ch now =
     (let (cares, caring) = get_caring_users (sv_cares hb) (wc_cell ch) (unix now);
          hb1 = hb\<lparr>sv_cares := cares\<rparr>
      in if length caring = 0 then (hb1, [])
         else
           let (active, us) = weather_matches env ch (unix now) (sv_active hb1) caring;
               hb2 = hb1\<lparr>sv_active := active\<rparr>;
               allowed = filter_blocked (sv_limiter hb2) us now
           in (hb2,
               if length allowed = 0 \<or> \<not> se_rendering env then []
               else dispatch_weather_change (he_alert_minimum_time env) (unix now) (weather_areas env ch) (wc_cell ch) allowed))"

definition consume_weather_change :: "('c, 'r) handler_env \<Rightarrow> ('c, 'r) hub \<Rightarrow> gotime \<Rightarrow> ('c, 'r) hub \<times> render_job list" where
  "consume_weather_change env hb now =
     (case wt_changes (sv_weather hb) of
        [] \<Rightarrow> (hb, [])
      | ch # rest \<Rightarrow> weather_alert env (hb\<lparr>sv_weather := (sv_weather hb)\<lparr>wt_changes := rest\<rparr>\<rparr>) ch now)"

section \<open>Looking up affected pokemon only forgets expired ones\<close>

lemma affected_loop_keeps:
  "affected_of table now w' (fst (affected_loop table now w mx found m)) = affected_of table now w' m"
proof (induction table now w mx found m rule: affected_loop.induct)
  case (2 table now w mx found eid p m)
  have c: "affected_of table now w' ((e, q) # xs) =
      (if now < ap_disappear_time q \<and> ap_types q \<noteq> [] \<and> ap_boosted q \<noteq> is_boosted_by_weather table (ap_types q) w'
       then q # affected_of table now w' xs else affected_of table now w' xs)" for e q xs
    by (simp add: affected_of_def)
  from 2 show ?case by (auto simp: c split_beta Let_def)
qed simp

lemma affected_frame:
  "affected_of table now w' (user_encounters (fst (get_affected_pokemon table t cell user w mx now)) cell' user') =
   affected_of table now w' (user_encounters t cell' user')"
  by (auto simp: get_affected_pokemon_def user_encounters_def gget_or_def gget_put split_beta Let_def affected_loop_keeps
      split: option.split)

text \<open>The pokemon a user is told of, before the cut.\<close>

definition flipping :: "('c, 'r) handler_env \<Rightarrow> weather_change \<Rightarrow> int \<Rightarrow> active_tracker \<Rightarrow> string \<Rightarrow> active_pokemon list" where
  "flipping env ch now_s t user = affected_of (he_boosts env) now_s (wc_condition ch) (user_encounters t (wc_cell ch) user)"

lemma affected_found:
  "snd (get_affected_pokemon (he_boosts env) t (wc_cell ch) user (wc_condition ch) (he_max_altered env) now_s) =
   take (nat (max 1 (he_max_altered env))) (flipping env ch now_s t user)"
  by (auto simp: flipping_def get_affected_pokemon_def user_encounters_def gget_or_def split_beta Let_def affected_loop_found
      affected_of_def split: option.split)

definition shown :: "('c, 'r) handler_env \<Rightarrow> weather_change \<Rightarrow> int \<Rightarrow> active_tracker option \<Rightarrow> care_entry \<Rightarrow> active_entry list" where
  "shown env ch now_s apt c = (case apt of None \<Rightarrow> []
     | Some t \<Rightarrow> map active_entry_of (take (nat (max 1 (he_max_altered env))) (flipping env ch now_s t (ce_id c))))"

definition concerned :: "('c, 'r) handler_env \<Rightarrow> weather_change \<Rightarrow> int \<Rightarrow> active_tracker option \<Rightarrow> care_entry \<Rightarrow> bool" where
  "concerned env ch now_s apt c \<longleftrightarrow> \<not> too_short (he_alert_minimum_time env) now_s c \<and>
     (case apt of None \<Rightarrow> True | Some t \<Rightarrow> flipping env ch now_s t (ce_id c) \<noteq> [])"

lemma weather_matches_eq:
  "snd (weather_matches env ch now_s apt cs) =
   map (\<lambda>c. weather_user_of c (shown env ch now_s apt c)) (filter (concerned env ch now_s apt) cs)"
proof (induction cs arbitrary: apt)
  case (Cons c cs)
  show ?case
  proof (cases apt)
    case None
    with Cons show ?thesis by (simp add: concerned_def shown_def split_beta Let_def)
  next
    case (Some t)
    let ?g = "get_affected_pokemon (he_boosts env) t (wc_cell ch) (ce_id c) (wc_condition ch) (he_max_altered env) now_s"
    have same: "flipping env ch now_s (fst ?g) = flipping env ch now_s t"
      by (rule ext) (simp add: flipping_def affected_frame)
    have "concerned env ch now_s (Some (fst ?g)) = concerned env ch now_s (Some t)"
      "shown env ch now_s (Some (fst ?g)) = shown env ch now_s (Some t)"
      by (rule ext, simp add: concerned_def shown_def same)+
    with Cons [of "Some (fst ?g)"] Cons [of "Some t"] Some show ?thesis
      by (auto simp: concerned_def shown_def split_beta Let_def affected_found max_def)
  qed
qed simp

lemma weather_matches_tracker:
  "fst (weather_matches env ch now_s None cs) = None"
  by (induction cs) (simp_all add: split_beta Let_def)

definition clean_until :: "care_entry \<Rightarrow> active_entry list \<Rightarrow> int" where
  "clean_until c entries = (if entries = [] then ce_cares_until c else foldl max 0 (map an_disappear_time entries))"

lemma weather_user_simps [simp]:
  "mu_id (weather_user_of c es) = ce_id c" "mu_type (weather_user_of c es) = ce_type c"
  "mu_clean (weather_user_of c es) = ce_clean c" "wu_active_pokemons (weather_user_of c es) = es"
  "wu_cares_until (weather_user_of c es) = ce_cares_until c"
  by (simp_all add: weather_user_of_def)

lemma clean_until_eq: "weather_alert_clean_until (weather_user_of c es) = clean_until c es"
proof -
  have m: "(\<lambda>mx p. if an_disappear_time p > mx then an_disappear_time p else mx) = (\<lambda>mx p. max mx (an_disappear_time p))"
    by (intro ext) (simp add: max_def)
  show ?thesis by (simp add: weather_alert_clean_until_def clean_until_def m foldl_map)
qed

lemma weather_job_user [simp]: "map mu_id (rj_users (weather_job areas cell n (weather_user_of c es))) = [ce_id c]"
  by (simp add: weather_job_def alert_job_def matched_user.truncate_def)

section \<open>Who is alerted\<close>

text \<open>C19: Who is alerted about a weather change is exact: of the users that care about the cell, in the tracker's order,
  those who are not over their rate limit, whose alert would live at least the configured minimum when it
  is to be deleted (both by the care entry and by the pokemon it lists), and, when active pokemon are tracked, who
  have a live pokemon in the cell whose boost flips.\<close>

theorem weather_alert_exact:
  assumes "se_rendering env"
  shows "let now_s = unix now; entries = shown env ch now_s (sv_active hb); shortest = he_alert_minimum_time env
    in map (map mu_id \<circ> rj_users) (snd (weather_alert env hb ch now)) =
       map (\<lambda>c. [ce_id c]) (filter (\<lambda>c.
         (case sv_limiter hb of None \<Rightarrow> True | Some l \<Rightarrow> \<not> is_blocked l (ce_id c) (ce_type c) now) \<and>
         (ce_clean c > 0 \<longrightarrow> ce_cares_until c \<noteq> 0 \<and> shortest \<le> ce_cares_until c - now_s \<and>
            (clean_until c (entries c) > 0 \<longrightarrow> shortest \<le> clean_until c (entries c) - now_s)) \<and>
         (case sv_active hb of None \<Rightarrow> True
          | Some t \<Rightarrow> \<exists>p \<in> set (map snd (user_encounters t (wc_cell ch) (ce_id c))). now_s < ap_disappear_time p \<and>
               ap_types p \<noteq> [] \<and> ap_boosted p \<noteq> is_boosted_by_weather (he_boosts env) (ap_types p) (wc_condition ch)))
         (snd (get_caring_users (sv_cares hb) (wc_cell ch) now_s)))"
proof -
  let ?min = "he_alert_minimum_time env" and ?now = "unix now" and ?a = "sv_active hb"
  let ?cs = "snd (get_caring_users (sv_cares hb) (wc_cell ch) ?now)"
  let ?ok = "\<lambda>c. \<not> (ce_clean c > 0 \<and> clean_until c (shown env ch ?now ?a c) > 0 \<and>
      clean_until c (shown env ch ?now ?a c) - ?now < ?min)"
  let ?free = "\<lambda>c. (case sv_limiter hb of None \<Rightarrow> True | Some l \<Rightarrow> \<not> is_blocked l (ce_id c) (ce_type c) now)"
  have flips: "flipping env ch ?now t u \<noteq> [] \<longleftrightarrow> (\<exists>p \<in> set (map snd (user_encounters t (wc_cell ch) u)). ?now < ap_disappear_time p \<and>
      ap_types p \<noteq> [] \<and> ap_boosted p \<noteq> is_boosted_by_weather (he_boosts env) (ap_types p) (wc_condition ch))" for t u
    by (simp add: flipping_def affected_of_def filter_empty_conv split_beta)
  have dispatch: "map (map mu_id \<circ> rj_users) (dispatch_weather_change ?min ?now areas cell
        (map (\<lambda>c. weather_user_of c (shown env ch ?now ?a c)) xs)) = map (\<lambda>c. [ce_id c]) (filter ?ok xs)" for areas cell xs
    by (induction xs) (auto simp: dispatch_weather_change_def map_filter_simps Let_def clean_until_eq)
  have blocked: "filter_blocked lo (map (\<lambda>c. weather_user_of c (shown env ch ?now ?a c)) xs) now =
      map (\<lambda>c. weather_user_of c (shown env ch ?now ?a c)) (filter (\<lambda>c. case lo of None \<Rightarrow> True
        | Some l \<Rightarrow> \<not> is_blocked l (ce_id c) (ce_type c) now) xs)" for lo xs
    by (cases lo) (simp_all add: filter_blocked_def filter_map comp_def)
  have nil: "dispatch_weather_change ?min ?now areas cell [] = []" for areas cell
    by (simp add: dispatch_weather_change_def map_filter_simps)
  have "map (map mu_id \<circ> rj_users) (snd (weather_alert env hb ch now)) =
      map (\<lambda>c. [ce_id c]) (filter ?ok (filter ?free (filter (concerned env ch ?now ?a) ?cs)))"
  proof (cases "?cs = []")
    case False
    let ?us = "map (\<lambda>c. weather_user_of c (shown env ch ?now ?a c)) (filter ?free (filter (concerned env ch ?now ?a) ?cs))"
    have "snd (weather_alert env hb ch now) = dispatch_weather_change ?min ?now (weather_areas env ch) (wc_cell ch) ?us"
      using False assms by (simp add: weather_alert_def split_beta Let_def weather_matches_eq blocked nil)
    then show ?thesis by (simp only: dispatch)
  qed (simp add: weather_alert_def split_beta Let_def)
  also have "\<dots> = map (\<lambda>c. [ce_id c]) (filter (\<lambda>c. ?free c \<and> (ce_clean c > 0 \<longrightarrow> ce_cares_until c \<noteq> 0 \<and>
            ?min \<le> ce_cares_until c - ?now \<and> (clean_until c (shown env ch ?now ?a c) > 0 \<longrightarrow>
            ?min \<le> clean_until c (shown env ch ?now ?a c) - ?now)) \<and>
         (case ?a of None \<Rightarrow> True | Some t \<Rightarrow> flipping env ch ?now t (ce_id c) \<noteq> [])) ?cs)"
    unfolding filter_filter by (intro arg_cong [where f = "map _"] filter_cong) (auto simp: concerned_def too_short_def)
  finally show ?thesis unfolding Let_def flips .
qed

text \<open>A user whose normal-type pokemon loses its boost, and one without a pokemon in the cell.\<close>

definition sample_change :: weather_change where
  "sample_change = \<lparr>wc_longitude = 2, wc_latitude = 1, wc_cell = ''c'', wc_condition = 1, wc_old_condition = 3, wc_updated = 50,
     wc_source = ''webhook'', wc_coords = []\<rparr>"

definition sample_care :: "string \<Rightarrow> care_entry" where
  "sample_care u = \<lparr>ce_id = u, ce_name = u, ce_type = ''discord:user'', ce_language = ''en'', ce_template = ''1'', ce_clean = 0,
     ce_ping = [], ce_cares_until = 1000\<rparr>"

definition weather_hub :: "(unit, (string, raid_rsvp list \<times> gotime) gomap) hub" where
  "weather_hub = sample_hub
     \<lparr>sv_cares := [(''c'', [(''u1'', sample_care ''u1''), (''u2'', sample_care ''u2'')])],
      sv_active := Some \<lparr>at_cells = [(''c'', [(''u1'', [(''e'', \<lparr>ap_pokemon_id = 16, ap_form = 0, ap_iv = 0, ap_cp = 10,
         ap_latitude = 1, ap_longitude = 2, ap_disappear_time = 900, ap_boosted = True, ap_types = [1]\<rparr>)])])],
         at_max_per_user = 50\<rparr>\<rparr>"

lemma weather_alert_exact_witness:
  "map (map mu_id \<circ> rj_users) (snd (weather_alert sample_handler_env weather_hub sample_change 0)) = [[''u1'']]"
proof -
  have "se_rendering sample_handler_env" by (simp add: sample_hub_defs)
  from weather_alert_exact [OF this, where hb = weather_hub and ch = sample_change and now = 0] show ?thesis
    by (simp add: Let_def weather_hub_def sample_change_def sample_care_def get_caring_users_def gget_Cons gkeep_def
        user_encounters_def gget_or_def unix_def is_boosted_by_weather_def default_weather_type_boost_def sample_hub_defs)
qed

end
