(* ===== verification/Receiver.thy ===== *)
theory Receiver
  imports WeatherAlerts MinuteRing
begin

text \<open>
  The receiver of webhook batches (\<open>webhook/receiver.go\<close>) over all handlers. A message is its parses: every handler
  reads its own view of the same bytes, \<open>None\<close> when they do not parse. The handlers of a batch are started in
  the order of the batch; the model runs them in that order, each as one step. What a theorem says of the
  state before a handler holds for any state, so also for one left by handlers of other batches in between.
\<close>

section \<open>Messages and their routing\<close>

record peek =
  pk_lure_expiration :: int
  pk_incident_expiration :: int
  pk_incident_grunt_type :: int
  pk_showcase_expiry :: int

record message =
  ms_pokemon :: "wild_pokemon option"
  ms_raid :: "raid_webhook option"
  ms_weather :: "weather_webhook option"
  ms_invasion :: "invasion_webhook option"
  ms_peek :: "peek option"
  ms_lure :: "lure_webhook option"
  ms_showcase :: "showcase_webhook option"
  ms_quest :: "quest_webhook option"
  ms_gym :: "gym_webhook option"
  ms_nest :: "nest_webhook option"
  ms_fort :: "fort_webhook option"
  ms_maxbattle :: "maxbattle_webhook option"

type_synonym ('c, 'r) outcome = "('c, 'r) hub \<times> bypass list \<times> render_job list"

definition on_parse :: "('c, 'r) hub \<Rightarrow> 'w option \<Rightarrow> (('c, 'r) hub \<Rightarrow> 'w \<Rightarrow> ('c, 'r) outcome) \<Rightarrow> ('c, 'r) outcome" where
  "on_parse hb wo f = (case wo of None \<Rightarrow> (hb, [], []) | Some w \<Rightarrow> f hb w)"

definition and_then :: "('c, 'r) outcome \<Rightarrow> (('c, 'r) hub \<Rightarrow> ('c, 'r) outcome) \<Rightarrow> ('c, 'r) outcome" where
  "and_then r f = (let (hb1, b1, j1) = r; (hb2, b2, j2) = f hb1 in (hb2, b1 @ b2, j1 @ j2))"

definition run_invasion :: "('c, 'r) handler_env \<Rightarrow> message \<Rightarrow> gotime \<Rightarrow> ('c, 'r) hub \<Rightarrow> ('c, 'r) outcome" where
  "run_invasion env m now hb = on_parse hb (ms_invasion m) (\<lambda>hb w. process_invasion env hb w now)"

definition run_lure :: "('c, 'r) handler_env \<Rightarrow> message \<Rightarrow> gotime \<Rightarrow> ('c, 'r) hub \<Rightarrow> ('c, 'r) outcome" where
  "run_lure env m now hb = on_parse hb (ms_lure m) (\<lambda>hb w. process_lure env hb w now)"

definition run_showcase :: "('c, 'r) handler_env \<Rightarrow> message \<Rightarrow> gotime \<Rightarrow> ('c, 'r) hub \<Rightarrow> ('c, 'r) outcome" where
  "run_showcase env m now hb = on_parse hb (ms_showcase m) (\<lambda>hb w. process_showcase env hb w now)"

definition route_pokestop :: "('c, 'r) handler_env \<Rightarrow> message \<Rightarrow> gotime \<Rightarrow> ('c, 'r) hub \<Rightarrow> ('c, 'r) outcome" where
  "route_pokestop env m now hb =
     (case ms_peek m of None \<Rightarrow> (hb, [], [])
      | Some pk \<Rightarrow>
          and_then (if pk_showcase_expiry pk > 0 then run_showcase env m now hb else (hb, [], [])) (\<lambda>hb.
          and_then (if pk_lure_expiration pk > 0 then run_lure env m now hb else (hb, [], [])) (\<lambda>hb.
            if pk_incident_expiration pk > 0 \<or> pk_incident_grunt_type pk > 0 then run_invasion env m now hb
            else if pk_lure_expiration pk \<le> 0 \<and> pk_showcase_expiry pk \<le> 0 then run_invasion env m now hb
            else (hb, [], []))))"

definition dispatch_hook :: "('c, 'r) handler_env \<Rightarrow> string \<Rightarrow> message \<Rightarrow> gotime \<Rightarrow> ('c, 'r) hub \<Rightarrow> ('c, 'r) outcome" where
  "dispatch_hook env ty m now hb =
     (if ty = ''pokemon'' then on_parse hb (ms_pokemon m) (\<lambda>hb w. process_pokemon env hb w now)
      else if ty = ''raid'' then on_parse hb (ms_raid m) (\<lambda>hb w. process_raid env hb w now)
      else if ty = ''weather'' then on_parse hb (ms_weather m) (\<lambda>hb w. (process_weather env hb w now, [], []))
      else if ty = ''invasion'' then run_invasion env m now hb
      else if ty = ''pokestop'' then route_pokestop env m now hb
      else if ty = ''quest'' then on_parse hb (ms_quest m) (\<lambda>hb w. process_quest env hb w now)
      else if ty = ''gym'' \<or> ty = ''gym_details'' then on_parse hb (ms_gym m) (\<lambda>hb w. process_gym env hb w now)
      else if ty = ''nest'' then on_parse hb (ms_nest m) (\<lambda>hb w. process_nest env hb w now)
      else if ty = ''fort_update'' then on_parse hb (ms_fort m) (\<lambda>hb w. process_fort_update env hb w now)
      else if ty = ''max_battle'' then on_parse hb (ms_maxbattle m) (\<lambda>hb w. process_maxbattle env hb w now)
      else (hb, [], []))"

text \<open>A batch: every entry is counted by its raw type and then handled.\<close>

fun handle_batch ::
  "('c, 'r) handler_env \<Rightarrow> (string \<times> message) list \<Rightarrow> gotime \<Rightarrow> rate_counter \<times> ('c, 'r) hub
   \<Rightarrow> (rate_counter \<times> ('c, 'r) hub) \<times> bypass list \<times> render_job list" where
  "handle_batch env [] now (rc, hb) = ((rc, hb), [], [])"
| "handle_batch env ((ty, m) # hooks) now (rc, hb) =
     (let (hb1, b1, j1) = dispatch_hook env ty m now hb;
          (s, b2, j2) = handle_batch env hooks now (record_webhook rc ty now, hb1)
      in (s, b1 @ b2, j1 @ j2))"

definition list_of :: "'a option \<Rightarrow> 'a list" where
  "list_of x = (case x of None \<Rightarrow> [] | Some a \<Rightarrow> [a])"

lemma list_of_simps [simp]: "list_of None = []" "list_of (Some a) = [a]"
  by (simp_all add: list_of_def)

section \<open>Matches are enabled users of the snapshot\<close>

definition known_user :: "state option \<Rightarrow> matched_user \<Rightarrow> bool" where
  "known_user sto u \<longleftrightarrow> (\<exists>st i h. sto = Some st \<and> gget (st_humans st) i = Some h \<and> mu_id u = h_id h \<and>
     h_enabled h \<and> \<not> h_admin_disable h)"

lemma generic_known:
  "u \<in> set (validate_humans_generic ev (st_humans st) b tds) \<Longrightarrow> known_user (Some st) u"
  by (elim generic_mem) (auto simp: known_user_def generic_user_def case_prod_unfold Let_def
      dest!: generic_deserves_unrestricted)

lemma raid_known:
  "u \<in> set (validate_humans_for_raid ev (st_humans st) b tds) \<Longrightarrow> known_user (Some st) u"
  unfolding raid_validator_mem known_user_def
  by (clarsimp simp: raid_user_def case_prod_unfold Let_def dest!: raid_deserves_unrestricted) blast

lemma monster_known:
  "u \<in> set (validate_humans ev (st_humans st) ms) \<Longrightarrow> known_user (Some st) u"
  unfolding validate_humans_eq
  by (fastforce simp: known_user_def List.map_filter_def monster_user_def monster_deserves_def entitled_def case_prod_unfold
      Let_def split: option.splits if_splits)

lemma matches_known:
  "u \<in> set (fst (pokemon_match search pm p sto)) \<Longrightarrow> known_user sto u"
  "u \<in> set (fst (match_raid search mc raid sto)) \<Longrightarrow> known_user sto u"
  "u \<in> set (fst (match_egg search mc egg sto)) \<Longrightarrow> known_user sto u"
  "u \<in> set (fst (gym_match search mc gym sto)) \<Longrightarrow> known_user sto u"
  "u \<in> set (fst (quest_match search mc quest sto)) \<Longrightarrow> known_user sto u"
  "u \<in> set (fst (maxbattle_match search mc xd sto)) \<Longrightarrow> known_user sto u"
  "u \<in> set (fst (fort_match search mc fd sto)) \<Longrightarrow> known_user sto u"
  "u \<in> set (fst (invasion_match search mc iv sto)) \<Longrightarrow> known_user sto u"
  "u \<in> set (fst (lure_match search mc ld sto)) \<Longrightarrow> known_user sto u"
  "u \<in> set (fst (nest_match search mc nd sto)) \<Longrightarrow> known_user sto u"
  by (cases sto; auto simp: pokemon_match_def match_raid_def match_egg_def gym_match_def quest_match_def maxbattle_match_def
      fort_match_def invasion_match_def lure_match_def nest_match_def gym_validator_raid split_beta Let_def
      intro: generic_known raid_known monster_known split: option.splits)+

lemma raid_matches_known: "u \<in> set (fst (raid_matches env w)) \<Longrightarrow> known_user (se_state env) u"
  by (auto simp: raid_matches_def Let_def intro: matches_known split: if_splits)

section \<open>Nobody is alerted against their settings\<close>

lemma may_alert_updates [simp]:
  "may_alert env (sv\<lparr>sv_seen := x\<rparr>) = may_alert env sv" "may_alert env (sv\<lparr>sv_recent := y\<rparr>) = may_alert env sv"
  "may_alert env (hb\<lparr>hb_gyms := g\<rparr>) = may_alert env hb" "may_alert env (hb\<lparr>hb_raids := c\<rparr>) = may_alert env hb"
  "may_alert env (hb\<lparr>hb_summary := b\<rparr>) = may_alert env hb"
  by (intro ext may_alert_cong; simp)+

definition consented :: "('c, 'r) handler_env \<Rightarrow> ('c, 'r) hub \<Rightarrow> mute_event list \<Rightarrow> gotime \<Rightarrow> render_job \<Rightarrow> matched_user \<Rightarrow> bool" where
  "consented env hb evs now j u \<longleftrightarrow> known_user (se_state env) u \<and>
     (\<exists>ty. \<exists>ev \<in> set evs. may_alert env hb ty (rj_areas j) ev now u)"

definition all_consented :: "('c, 'r) handler_env \<Rightarrow> ('c, 'r) hub \<Rightarrow> mute_event list \<Rightarrow> gotime \<Rightarrow> render_job list \<Rightarrow> bool" where
  "all_consented env hb evs now js \<longleftrightarrow> (\<forall>j \<in> set js. \<not> rj_is_change j \<longrightarrow> (\<forall>u \<in> set (rj_users j). consented env hb evs now j u))"

lemma all_consented_Nil [simp]: "all_consented env hb evs now []"
  by (simp add: all_consented_def)

lemma all_consented_append [simp]:
  "all_consented env hb evs now (js @ ks) \<longleftrightarrow> all_consented env hb evs now js \<and> all_consented env hb evs now ks"
  by (auto simp: all_consented_def)

lemma all_consented_mono: "all_consented env hb evs now js \<Longrightarrow> set evs \<subseteq> set evs' \<Longrightarrow> all_consented env hb evs' now js"
  by (fastforce simp: all_consented_def consented_def)

lemma one_job_consented:
  assumes "rj_users j = filter (may_alert env hb ty (rj_areas j) ev now) matched"
    and "\<And>u. u \<in> set matched \<Longrightarrow> known_user (se_state env) u"
  shows "all_consented env hb [ev] now (one_job r j)"
  using assms by (auto simp: all_consented_def one_job_def consented_def)

lemmas handler_consent = split_beta Let_def alert_filters_eq

lemma lure_consented: "all_consented env hb [no_event\<lparr>mv_pokestop_id := lw_pokestop_id w\<rparr>] now (snd (snd (process_lure env hb w now)))"
  unfolding process_lure_def
  by (auto simp: handler_consent intro!: one_job_consented intro: matches_known)

lemma invasion_consented:
  "all_consented env hb [no_event\<lparr>mv_pokestop_id := iw_pokestop_id w\<rparr>] now (snd (snd (process_invasion env hb w now)))"
  unfolding process_invasion_def
  by (auto simp: handler_consent intro!: one_job_consented intro: matches_known)

lemma showcase_consented:
  "all_consented env hb [no_event\<lparr>mv_pokestop_id := sw_pokestop_id w\<rparr>] now (snd (snd (process_showcase env hb w now)))"
  unfolding process_showcase_def
  by (auto simp: handler_consent intro!: one_job_consented intro: matches_known)

lemma nest_consented: "all_consented env hb [no_event\<lparr>mv_pokemon_id := nw_pokemon_id w\<rparr>] now (snd (snd (process_nest env hb w now)))"
  unfolding process_nest_def
  by (auto simp: handler_consent intro!: one_job_consented intro: matches_known)

lemma maxbattle_consented:
  "all_consented env hb [no_event\<lparr>mv_station_id := xw_id w, mv_pokemon_id := xw_pokemon_id w\<rparr>] now
     (snd (snd (process_maxbattle env hb w now)))"
  unfolding process_maxbattle_def
  by (auto simp: handler_consent intro!: one_job_consented intro: matches_known)

lemma fort_consented:
  "all_consented env hb [no_event\<lparr>mv_pokestop_id := fort_field [] fs_id w\<rparr>] now (snd (snd (process_fort_update env hb w now)))"
  unfolding process_fort_update_def
  by (auto simp: handler_consent intro!: one_job_consented intro: matches_known)

lemma gym_consented:
  "all_consented env hb [no_event\<lparr>mv_gym_id := gym_id_of w\<rparr>] now (snd (snd (process_gym env hb w now)))"
  unfolding process_gym_def
  by (auto simp: handler_consent intro!: one_job_consented intro: matches_known)

lemma quest_consented:
  "all_consented env hb [no_event\<lparr>mv_pokestop_id := qw_pokestop_id w\<rparr>] now (snd (snd (process_quest env hb w now)))"
  unfolding process_quest_def
  by (auto simp: handler_consent intro!: one_job_consented intro: matches_known)

lemma raid_job_users:
  "j \<in> set (raid_jobs env hb w us areas now) \<Longrightarrow> set (rj_users j) \<subseteq> set us \<and> rj_areas j = areas"
  by (auto simp: raid_jobs_def partition_eq Let_def split: if_splits)

lemma raid_consented: "all_consented env hb [raid_event w] now (snd (snd (process_raid env hb w now)))"
proof (cases "he_disable_raid env \<or> long_raid env w now \<or> fst (snd (raid_check env hb w now))")
  case True
  then have "snd (snd (process_raid env hb w now)) = []"
    by (auto simp: process_raid_def long_raid_def raid_check_def split_beta Let_def)
  then show ?thesis by simp
next
  case False
  then obtain c first where "raid_check env hb w now = (c, False, first)" by (metis prod.collapse)
  then have jobs: "snd (snd (process_raid env hb w now)) =
      raid_jobs env (note_raid (hb\<lparr>hb_raids := c\<rparr>) w now) w (raid_alerted env hb w first now) (snd (raid_matches env w)) now"
    using False by (intro process_raid_jobs) auto
  have "consented env hb [raid_event w] now j u"
    if "j \<in> set (snd (snd (process_raid env hb w now)))" "u \<in> set (rj_users j)" for j u
    using raid_job_users [OF that(1) [unfolded jobs]] that(2)
    by (auto simp: consented_def raid_alerted_def split_beta Let_def intro: raid_matches_known)
  then show ?thesis by (simp add: all_consented_def)
qed

lemma group_by_language_users:
  assumes "(l, us) \<in> set (group_by_language matched locale)"
  shows "set us \<subseteq> set matched"
proof -
  have "set (concat (map snd (group_by_language matched locale))) = set matched"
    using group_by_language_props [of matched "locale"] by (metis set_mset_mset)
  with assms show ?thesis by force
qed

lemma dispatch_users:
  "j \<in> set (dispatch_pokemon_alert d loc e change matched prior areas b) \<Longrightarrow> \<not> rj_is_change j \<Longrightarrow>
   set (rj_users j) \<subseteq> set matched \<and> rj_areas j = areas"
  using group_by_language_users
  by (fastforce simp: dispatch_pokemon_alert_def pokemon_job_def split: if_splits option.splits)

lemma pokemon_consented:
  "all_consented env hb [wild_event (pw_pokemon_id w)] now (snd (snd (process_pokemon env hb w now)))"
proof (cases "se_disable_pokemon env \<or> \<not> pokemon_fresh env hb w now")
  case True
  then have "snd (snd (process_pokemon env hb w now)) = []"
    by (auto simp: process_pokemon_def split_beta Let_def)
  then show ?thesis by simp
next
  case False
  let ?areas = "snd (pokemon_match (se_search env) (se_matcher env) (processed_of env hb w now) (se_state env))"
  have jobs: "\<And>j. j \<in> set (snd (snd (process_pokemon env hb w now))) \<Longrightarrow> \<not> rj_is_change j \<Longrightarrow>
      set (rj_users j) \<subseteq> set (alerted_users env hb w now) \<and> rj_areas j = ?areas"
    using False dispatch_users by (subst (asm) process_pokemon_jobs) (auto simp: Let_def pokemon_job_def split: if_splits)
  have "consented env hb [wild_event (pw_pokemon_id w)] now j u"
    if "j \<in> set (snd (snd (process_pokemon env hb w now)))" "\<not> rj_is_change j" "u \<in> set (rj_users j)" for j u
    using jobs [OF that(1,2)] that(3)
    by (auto simp: consented_def alerted_users_def split_beta Let_def intro: matches_known)
  then show ?thesis by (simp add: all_consented_def)
qed

section \<open>What a message is about\<close>

definition events_of :: "string \<Rightarrow> message \<Rightarrow> mute_event list" where
  "events_of ty m =
     (if ty = ''pokemon'' then map (\<lambda>w. no_event\<lparr>mv_pokemon_id := pw_pokemon_id w\<rparr>) (list_of (ms_pokemon m))
      else if ty = ''raid'' then map (\<lambda>w. no_event\<lparr>mv_gym_id := rw_gym_id w, mv_pokemon_id := rw_pokemon_id w\<rparr>) (list_of (ms_raid m))
      else if ty = ''invasion'' then map (\<lambda>w. no_event\<lparr>mv_pokestop_id := iw_pokestop_id w\<rparr>) (list_of (ms_invasion m))
      else if ty = ''pokestop'' then
        map (\<lambda>w. no_event\<lparr>mv_pokestop_id := sw_pokestop_id w\<rparr>) (list_of (ms_showcase m)) @
        map (\<lambda>w. no_event\<lparr>mv_pokestop_id := lw_pokestop_id w\<rparr>) (list_of (ms_lure m)) @
        map (\<lambda>w. no_event\<lparr>mv_pokestop_id := iw_pokestop_id w\<rparr>) (list_of (ms_invasion m))
      else if ty = ''quest'' then map (\<lambda>w. no_event\<lparr>mv_pokestop_id := qw_pokestop_id w\<rparr>) (list_of (ms_quest m))
      else if ty = ''gym'' \<or> ty = ''gym_details'' then map (\<lambda>w. no_event\<lparr>mv_gym_id := gym_id_of w\<rparr>) (list_of (ms_gym m))
      else if ty = ''nest'' then map (\<lambda>w. no_event\<lparr>mv_pokemon_id := nw_pokemon_id w\<rparr>) (list_of (ms_nest m))
      else if ty = ''fort_update'' then map (\<lambda>w. no_event\<lparr>mv_pokestop_id := fort_field [] fs_id w\<rparr>) (list_of (ms_fort m))
      else if ty = ''max_battle'' then
        map (\<lambda>w. no_event\<lparr>mv_station_id := xw_id w, mv_pokemon_id := xw_pokemon_id w\<rparr>) (list_of (ms_maxbattle m))
      else [])"

section \<open>No handler touches the limiter, the mutes or the message tracker\<close>

definition same_gates :: "('c, 'r) hub \<Rightarrow> ('c, 'r) hub \<Rightarrow> bool" where
  "same_gates hb' hb \<longleftrightarrow> sv_limiter hb' = sv_limiter hb \<and> sv_mutes hb' = sv_mutes hb \<and> sv_tracker hb' = sv_tracker hb"

lemma same_gates_refl [simp]: "same_gates hb hb"
  by (simp add: same_gates_def)

lemma same_gates_trans: "same_gates a b \<Longrightarrow> same_gates b c \<Longrightarrow> same_gates a c"
  by (simp add: same_gates_def)

lemma same_gates_may: "same_gates hb' hb \<Longrightarrow> may_alert env hb' = may_alert env hb"
  by (intro ext may_alert_cong) (simp_all add: same_gates_def)

lemma same_gates_consented: "same_gates hb' hb \<Longrightarrow> all_consented env hb' evs now js = all_consented env hb evs now js"
  by (simp add: all_consented_def consented_def same_gates_may)

lemma register_gates [simp]:
  "sv_limiter (register_weather_care env sv w processed matched now) = sv_limiter sv"
  "sv_mutes (register_weather_care env sv w processed matched now) = sv_mutes sv"
  by (simp_all add: register_weather_care_def Let_def)

lemma handler_gates:
  "same_gates (fst (process_pokemon env hb pw now)) hb"
  "same_gates (fst (process_raid env hb rw now)) hb"
  "same_gates (process_weather env hb ww now) hb"
  "same_gates (fst (process_invasion env hb iw now)) hb"
  "same_gates (fst (process_lure env hb lw now)) hb"
  "same_gates (fst (process_showcase env hb sw now)) hb"
  "same_gates (fst (process_quest env hb qw now)) hb"
  "same_gates (fst (process_gym env hb gw now)) hb"
  "same_gates (fst (process_nest env hb nw now)) hb"
  "same_gates (fst (process_fort_update env hb fw now)) hb"
  "same_gates (fst (process_maxbattle env hb xw now)) hb"
  by (simp_all add: same_gates_def process_pokemon_def process_raid_def process_weather_def process_invasion_def process_lure_def
      process_showcase_def process_quest_def process_gym_def process_nest_def process_fort_update_def process_maxbattle_def
      split_beta Let_def)

lemma and_then_consented:
  assumes "all_consented env hb evs now (snd (snd r))" "same_gates (fst r) hb"
    and "\<And>hb'. same_gates hb' hb \<Longrightarrow> all_consented env hb' evs now (snd (snd (f hb'))) \<and> same_gates (fst (f hb')) hb'"
  shows "all_consented env hb evs now (snd (snd (and_then r f))) \<and> same_gates (fst (and_then r f)) hb"
  using assms(3) [OF assms(2)] assms(1,2) same_gates_consented [OF assms(2), of env evs now]
  by (auto simp: and_then_def split_beta Let_def intro: same_gates_trans)

lemma run_consented:
  "all_consented env hb (map (\<lambda>w. no_event\<lparr>mv_pokestop_id := iw_pokestop_id w\<rparr>) (list_of (ms_invasion m))) now
     (snd (snd (run_invasion env m now hb))) \<and> same_gates (fst (run_invasion env m now hb)) hb"
  "all_consented env hb (map (\<lambda>w. no_event\<lparr>mv_pokestop_id := lw_pokestop_id w\<rparr>) (list_of (ms_lure m))) now
     (snd (snd (run_lure env m now hb))) \<and> same_gates (fst (run_lure env m now hb)) hb"
  "all_consented env hb (map (\<lambda>w. no_event\<lparr>mv_pokestop_id := sw_pokestop_id w\<rparr>) (list_of (ms_showcase m))) now
     (snd (snd (run_showcase env m now hb))) \<and> same_gates (fst (run_showcase env m now hb)) hb"
  by (simp_all add: run_invasion_def run_lure_def run_showcase_def on_parse_def invasion_consented lure_consented
      showcase_consented handler_gates split: option.split)

lemma route_consented:
  "all_consented env hb (events_of ''pokestop'' m) now (snd (snd (route_pokestop env m now hb))) \<and>
   same_gates (fst (route_pokestop env m now hb)) hb"
proof (cases "ms_peek m")
  case (Some pk)
  have inv: "all_consented env hb' (events_of ''pokestop'' m) now (snd (snd (run_invasion env m now hb'))) \<and>
      same_gates (fst (run_invasion env m now hb')) hb'" for hb'
    using run_consented(1) [of env hb' m now] by (auto simp: events_of_def elim!: all_consented_mono)
  have lure: "all_consented env hb' (events_of ''pokestop'' m) now (snd (snd (run_lure env m now hb'))) \<and>
      same_gates (fst (run_lure env m now hb')) hb'" for hb'
    using run_consented(2) [of env hb' m now] by (auto simp: events_of_def elim!: all_consented_mono)
  have sc: "all_consented env hb' (events_of ''pokestop'' m) now (snd (snd (run_showcase env m now hb'))) \<and>
      same_gates (fst (run_showcase env m now hb')) hb'" for hb'
    using run_consented(3) [of env hb' m now] by (auto simp: events_of_def elim!: all_consented_mono)
  show ?thesis
    unfolding route_pokestop_def Some option.case
    by (intro and_then_consented) (simp_all add: inv lure sc)
qed (simp add: route_pokestop_def)

lemma hook_consented:
  "all_consented env hb (events_of ty m) now (snd (snd (dispatch_hook env ty m now hb))) \<and>
   same_gates (fst (dispatch_hook env ty m now hb)) hb"
proof -
  have pk: "wild_event k = no_event\<lparr>mv_pokemon_id := k\<rparr>" for k by (simp add: wild_event_def no_event_def)
  note parts = pokemon_consented [unfolded pk] raid_consented [unfolded raid_event_def] quest_consented gym_consented
    nest_consented fort_consented maxbattle_consented
  consider "ty = ''pokestop''" | "ty = ''invasion''" | "ty \<noteq> ''pokestop''" "ty \<noteq> ''invasion''" by blast
  then show ?thesis
  proof cases
    case 1
    then show ?thesis using route_consented [of env hb m now] by (simp add: dispatch_hook_def)
  next
    case 2
    then show ?thesis using run_consented(1) [of env hb m now] by (simp add: dispatch_hook_def events_of_def)
  next
    case 3
    then show ?thesis
      by (simp add: dispatch_hook_def events_of_def on_parse_def parts handler_gates split: option.split)
  qed
qed

lemma batch_consented:
  assumes "j \<in> set (snd (snd (handle_batch env hooks now (rc, hb))))" and "\<not> rj_is_change j" and "u \<in> set (rj_users j)"
  shows "\<exists>pre ty m post. hooks = pre @ (ty, m) # post \<and>
    j \<in> set (snd (snd (dispatch_hook env ty m now (snd (fst (handle_batch env pre now (rc, hb))))))) \<and>
    consented env hb (events_of ty m) now j u"
  using assms(1)
proof (induction hooks arbitrary: rc hb)
  case (Cons x hooks)
  obtain ty m where x: "x = (ty, m)" by (cases x)
  let ?hb = "fst (dispatch_hook env ty m now hb)" and ?rc = "record_webhook rc ty now"
  have gates: "same_gates ?hb hb" using hook_consented by blast
  then have c: "consented env ?hb evs now j u = consented env hb evs now j u" for evs
    by (simp add: consented_def same_gates_may)
  from Cons.prems consider "j \<in> set (snd (snd (dispatch_hook env ty m now hb)))"
    | "j \<in> set (snd (snd (handle_batch env hooks now (?rc, ?hb))))"
    by (auto simp: x split_beta Let_def)
  then show ?case
  proof cases
    case 1
    with hook_consented [of env hb ty m now] assms(2,3) have "consented env hb (events_of ty m) now j u"
      by (simp add: all_consented_def)
    with 1 show ?thesis by (intro exI [of _ "[]"] exI [of _ ty] exI [of _ m] exI [of _ hooks]) (simp add: x)
  next
    case 2
    from Cons.IH [OF this] obtain pre ty' m' post where r: "hooks = pre @ (ty', m') # post"
      "j \<in> set (snd (snd (dispatch_hook env ty' m' now (snd (fst (handle_batch env pre now (?rc, ?hb)))))))"
      "consented env ?hb (events_of ty' m') now j u" by blast
    show ?thesis
      by (intro exI [of _ "(ty, m) # pre"] exI [of _ ty'] exI [of _ m'] exI [of _ post])
        (use r in \<open>simp add: x c split_beta Let_def\<close>)
  qed
qed simp

lemma events_blank: "ev \<in> set (events_of ty m) \<Longrightarrow> mv_area ev = []"
proof -
  have "\<forall>ev \<in> set (events_of ty m). mv_area ev = []"
    unfolding events_of_def if_distrib [of "\<lambda>evs. \<forall>ev \<in> set evs. mv_area ev = []"] by (simp add: no_event_def ball_Un)
  then show "ev \<in> set (events_of ty m) \<Longrightarrow> mv_area ev = []" by blast
qed

section \<open>Notices that a pokemon changed\<close>

lemma one_job_not_change [simp]: "\<not> rj_is_change j \<Longrightarrow> j' \<in> set (one_job r j) \<Longrightarrow> \<not> rj_is_change j'"
  by (auto simp: one_job_def split: if_splits)

lemma raid_jobs_not_change: "j \<in> set (raid_jobs env hb w us areas now) \<Longrightarrow> \<not> rj_is_change j"
  by (auto simp: raid_jobs_def partition_eq alert_job_def Let_def split: if_splits)

lemma handler_not_change:
  "j \<in> set (snd (snd (process_raid env hb rw now))) \<Longrightarrow> \<not> rj_is_change j"
  "j \<in> set (snd (snd (process_invasion env hb iw now))) \<Longrightarrow> \<not> rj_is_change j"
  "j \<in> set (snd (snd (process_lure env hb lw now))) \<Longrightarrow> \<not> rj_is_change j"
  "j \<in> set (snd (snd (process_showcase env hb sw now))) \<Longrightarrow> \<not> rj_is_change j"
  "j \<in> set (snd (snd (process_quest env hb qw now))) \<Longrightarrow> \<not> rj_is_change j"
  "j \<in> set (snd (snd (process_gym env hb gw now))) \<Longrightarrow> \<not> rj_is_change j"
  "j \<in> set (snd (snd (process_nest env hb nw now))) \<Longrightarrow> \<not> rj_is_change j"
  "j \<in> set (snd (snd (process_fort_update env hb fw now))) \<Longrightarrow> \<not> rj_is_change j"
  "j \<in> set (snd (snd (process_maxbattle env hb xw now))) \<Longrightarrow> \<not> rj_is_change j"
  by (auto simp: process_raid_def process_invasion_def process_lure_def process_showcase_def process_quest_def process_gym_def
      process_nest_def process_fort_update_def process_maxbattle_def one_job_def raid_jobs_not_change split_beta Let_def
      split: if_splits)

lemma hook_tracker: "sv_tracker (fst (dispatch_hook env ty m now hb)) = sv_tracker hb"
  using hook_consented [of env hb ty m now] by (simp add: same_gates_def)

lemma and_then_jobs: "snd (snd (and_then r f)) = snd (snd r) @ snd (snd (f (fst r)))"
  by (simp add: and_then_def split_beta Let_def)

lemma run_not_change:
  "j \<in> set (snd (snd (run_invasion env m now hb))) \<Longrightarrow> \<not> rj_is_change j"
  "j \<in> set (snd (snd (run_lure env m now hb))) \<Longrightarrow> \<not> rj_is_change j"
  "j \<in> set (snd (snd (run_showcase env m now hb))) \<Longrightarrow> \<not> rj_is_change j"
  by (auto simp: run_invasion_def run_lure_def run_showcase_def on_parse_def dest: handler_not_change split: option.splits)

lemma route_not_change: "j \<in> set (snd (snd (route_pokestop env m now hb))) \<Longrightarrow> \<not> rj_is_change j"
  by (auto simp: route_pokestop_def and_then_jobs dest: run_not_change split: option.splits if_splits)

definition no_change :: "render_job list \<Rightarrow> bool" where
  "no_change js \<longleftrightarrow> (\<forall>j \<in> set js. \<not> rj_is_change j)"

lemma hook_no_change: "ty \<noteq> ''pokemon'' \<Longrightarrow> no_change (snd (snd (dispatch_hook env ty m now hb)))"
proof -
  assume ty: "ty \<noteq> ''pokemon''"
  have nc: "(\<And>j. j \<in> set js \<Longrightarrow> \<not> rj_is_change j) \<Longrightarrow> no_change js" for js by (simp add: no_change_def)
  have parts: "no_change (snd (snd (process_raid env hb rw now)))" "no_change (snd (snd (run_invasion env m now hb)))"
    "no_change (snd (snd (route_pokestop env m now hb)))" "no_change (snd (snd (process_quest env hb qw now)))"
    "no_change (snd (snd (process_gym env hb gw now)))" "no_change (snd (snd (process_nest env hb nw now)))"
    "no_change (snd (snd (process_fort_update env hb fw now)))" "no_change (snd (snd (process_maxbattle env hb xw now)))" "no_change []"
    for rw qw gw nw fw xw
    by (rule nc, erule handler_not_change run_not_change route_not_change | simp add: no_change_def)+
  show ?thesis
    using ty by (simp add: dispatch_hook_def on_parse_def parts split: option.split)
qed

lemma hook_change:
  assumes "j \<in> set (snd (snd (dispatch_hook env ty m now hb)))" and "rj_is_change j"
  shows "ty = ''pokemon'' \<and> (\<exists>w. ms_pokemon m = Some w \<and> j \<in> set (snd (snd (process_pokemon env hb w now))))"
proof -
  have ty: "ty = ''pokemon''" using hook_no_change assms unfolding no_change_def by blast
  then show ?thesis using assms(1) by (cases "ms_pokemon m") (simp_all add: dispatch_hook_def on_parse_def)
qed

text \<open>Somebody may be told that the pokemon of an encounter changed: a message about it is still remembered, and the row
  is there, enabled, and not disabled by an administrator.\<close>

definition may_tell :: "('c, 'r) handler_env \<Rightarrow> ('c, 'r) hub \<Rightarrow> string \<Rightarrow> gotime \<Rightarrow> matched_user \<Rightarrow> bool" where
  "may_tell env hb encounter now u \<longleftrightarrow> (\<exists>mt target prior get h. sv_tracker hb = Some mt \<and>
     lookup_reply_message (se_cache env) mt encounter target now = Some prior \<and>
     se_humans env = Some get \<and> get target = Some h \<and> mu_id u = lh_id h \<and> lh_enabled h \<and> \<not> lh_admin_disable h)"

lemma pokemon_change_told:
  assumes "j \<in> set (snd (snd (process_pokemon env hb w now)))" and "rj_is_change j" and "u \<in> set (rj_users j)"
  shows "may_tell env hb (wp_encounter_id w) now u"
proof -
  have on: "\<not> se_disable_pokemon env" "pokemon_fresh env hb w now" "se_rendering env"
    using assms(1) by (auto simp: process_pokemon_def split_beta Let_def split: if_splits)
  have "u \<in># recipients rj_is_change (snd (snd (process_pokemon env hb w now)))"
    using assms by (auto simp: recipients_def)
  then obtain mt where mt: "sv_tracker hb = Some mt"
      "u \<in> set (prior_only_users env mt (wp_encounter_id w) (alerted_users env hb w now) now)"
    unfolding change_recipients [OF on(1,3,2)] by (auto split: option.splits if_splits)
  from mt(2) obtain target prior where "lookup_reply_message (se_cache env) mt (wp_encounter_id w) target now = Some prior"
      "rebuild_matched_user env target (tm_clean prior) (tm_template prior) = Some u"
    unfolding prior_only_users_def map_filter_iff by (auto split: if_splits option.splits)
  with mt(1) show ?thesis by (auto simp: may_tell_def rebuild_matched_user_def split: option.splits if_splits)
qed

lemma batch_tracker: "sv_tracker (snd (fst (handle_batch env hooks now (rc, hb)))) = sv_tracker hb"
  by (induction hooks arbitrary: rc hb) (simp_all add: split_beta Let_def hook_tracker split_paired_all)

lemma batch_change:
  assumes "j \<in> set (snd (snd (handle_batch env hooks now (rc, hb))))" and "rj_is_change j" and "u \<in> set (rj_users j)"
  shows "\<exists>m w. (''pokemon'', m) \<in> set hooks \<and> ms_pokemon m = Some w \<and> may_tell env hb (wp_encounter_id w) now u"
  using assms(1)
proof (induction hooks arbitrary: rc hb)
  case (Cons x hooks)
  obtain ty m where x: "x = (ty, m)" by (cases x)
  let ?hb = "fst (dispatch_hook env ty m now hb)"
  have tell: "may_tell env ?hb e now u = may_tell env hb e now u" for e by (simp add: may_tell_def hook_tracker)
  from Cons.prems consider "j \<in> set (snd (snd (dispatch_hook env ty m now hb)))"
    | "j \<in> set (snd (snd (handle_batch env hooks now (record_webhook rc ty now, ?hb))))"
    by (auto simp: x split_beta Let_def)
  then show ?case
  proof cases
    case 1
    from hook_change [OF 1 assms(2)] obtain w where "ty = ''pokemon''" "ms_pokemon m = Some w"
      "j \<in> set (snd (snd (process_pokemon env hb w now)))" by blast
    with pokemon_change_told [OF this(3) assms(2,3)] show ?thesis by (auto simp: x)
  next
    case 2
    from Cons.IH [OF 2] show ?thesis by (auto simp: tell)
  qed
qed simp

lemma batch_match_permitted:
  assumes "j \<in> set (snd (snd (handle_batch env hooks now (rc, hb))))" and "\<not> rj_is_change j" and "u \<in> set (rj_users j)"
  shows "(\<exists>st i h. se_state env = Some st \<and> gget (st_humans st) i = Some h \<and> mu_id u = h_id h \<and> h_enabled h \<and>
        \<not> h_admin_disable h) \<and>
     (case sv_limiter hb of None \<Rightarrow> True | Some l \<Rightarrow> \<not> is_blocked l (mu_id u) (mu_type u) now) \<and>
     (case se_validator env of None \<Rightarrow> True | Some v \<Rightarrow> \<exists>kind. fst (v kind (map wa_name (rj_areas j)) u)) \<and>
     (\<exists>pre ty m post. hooks = pre @ (ty, m) # post \<and>
        j \<in> set (snd (snd (dispatch_hook env ty m now (snd (fst (handle_batch env pre now (rc, hb))))))) \<and>
        (case sv_mutes hb of None \<Rightarrow> True
         | Some s \<Rightarrow> \<exists>ev \<in> set (events_of ty m).
             \<not> match_mute s (mu_id u) (ev\<lparr>mv_area := map wa_name (rj_areas j), mv_matched_rule_uid := mu_rule_uid u\<rparr>) (unix now)))"
proof (intro conjI)
  from batch_consented [OF assms] obtain pre ty m post where hook: "hooks = pre @ (ty, m) # post"
      "j \<in> set (snd (snd (dispatch_hook env ty m now (snd (fst (handle_batch env pre now (rc, hb)))))))"
    and c: "consented env hb (events_of ty m) now j u"
    by (elim exE conjE)
  from c obtain kind ev where e: "ev \<in> set (events_of ty m)" and may: "may_alert env hb kind (rj_areas j) ev now u"
    and known: "known_user (se_state env) u"
    unfolding consented_def by (elim exE conjE bexE)
  show "\<exists>st i h. se_state env = Some st \<and> gget (st_humans st) i = Some h \<and> mu_id u = h_id h \<and> h_enabled h \<and> \<not> h_admin_disable h"
    using known unfolding known_user_def .
  show "case sv_limiter hb of None \<Rightarrow> True | Some l \<Rightarrow> \<not> is_blocked l (mu_id u) (mu_type u) now"
    using may by (cases "sv_limiter hb") (simp_all add: may_alert_def throttled_def)
  show "case se_validator env of None \<Rightarrow> True | Some v \<Rightarrow> \<exists>kind. fst (v kind (map wa_name (rj_areas j)) u)"
    using may by (cases "se_validator env") (auto simp: may_alert_def validated_def)
  have "with_area_names ev (rj_areas j) = ev\<lparr>mv_area := map wa_name (rj_areas j)\<rparr>"
    using events_blank [OF e] by (simp add: with_area_names_def)
  then have "case sv_mutes hb of None \<Rightarrow> True | Some s \<Rightarrow> \<exists>ev \<in> set (events_of ty m).
       \<not> match_mute s (mu_id u) (ev\<lparr>mv_area := map wa_name (rj_areas j), mv_matched_rule_uid := mu_rule_uid u\<rparr>) (unix now)"
    using may e by (cases "sv_mutes hb") (auto simp: may_alert_def muted_for_def)
  with hook show "\<exists>pre ty m post. hooks = pre @ (ty, m) # post \<and>
        j \<in> set (snd (snd (dispatch_hook env ty m now (snd (fst (handle_batch env pre now (rc, hb))))))) \<and>
        (case sv_mutes hb of None \<Rightarrow> True | Some s \<Rightarrow> \<exists>ev \<in> set (events_of ty m). \<not> match_mute s (mu_id u)
           (ev\<lparr>mv_area := map wa_name (rj_areas j), mv_matched_rule_uid := mu_rule_uid u\<rparr>) (unix now))"
    by (intro exI conjI) assumption+
qed

text \<open>C3: Nobody is alerted against their settings, whatever webhooks come in a batch. Every recipient of every alert about a
  match is the id of a human of the snapshot who is enabled and not disabled by an administrator, is not over the rate
  limit, was allowed by the external validator for the areas of the alert, and has no active mute that covers
  the event of the message that caused the alert (its species, gym, pokestop or station, its areas, the rule). The notices
  that a pokemon changed pass none of these filters: they come from a pokemon webhook of the batch and go only to somebody
  who still has a message about that encounter and whose row in the human store is enabled and not disabled by an
  administrator.\<close>

theorem no_unwanted_alert:
  assumes "j \<in> set (snd (snd (handle_batch env hooks now (rc, hb))))" and "u \<in> set (rj_users j)"
  shows "if rj_is_change j
    then \<exists>m w mt target prior get h. (''pokemon'', m) \<in> set hooks \<and> ms_pokemon m = Some w \<and> sv_tracker hb = Some mt \<and>
      lookup_reply_message (se_cache env) mt (wp_encounter_id w) target now = Some prior \<and>
      se_humans env = Some get \<and> get target = Some h \<and> mu_id u = lh_id h \<and> lh_enabled h \<and> \<not> lh_admin_disable h
    else (\<exists>st i h. se_state env = Some st \<and> gget (st_humans st) i = Some h \<and> mu_id u = h_id h \<and> h_enabled h \<and>
        \<not> h_admin_disable h) \<and>
     (case sv_limiter hb of None \<Rightarrow> True | Some l \<Rightarrow> \<not> is_blocked l (mu_id u) (mu_type u) now) \<and>
     (case se_validator env of None \<Rightarrow> True | Some v \<Rightarrow> \<exists>kind. fst (v kind (map wa_name (rj_areas j)) u)) \<and>
     (\<exists>pre ty m post. hooks = pre @ (ty, m) # post \<and>
        j \<in> set (snd (snd (dispatch_hook env ty m now (snd (fst (handle_batch env pre now (rc, hb))))))) \<and>
        (case sv_mutes hb of None \<Rightarrow> True
         | Some s \<Rightarrow> \<exists>ev \<in> set (events_of ty m).
             \<not> match_mute s (mu_id u) (ev\<lparr>mv_area := map wa_name (rj_areas j), mv_matched_rule_uid := mu_rule_uid u\<rparr>) (unix now)))"
proof (cases "rj_is_change j")
  case True
  from batch_change [OF assms(1) this assms(2)] True show ?thesis unfolding may_tell_def by auto
next
  case False
  from batch_match_permitted [OF assms(1) this assms(2)] False show ?thesis by (simp only: if_False)
qed

section \<open>A repeated message is silent\<close>

text \<open>What may happen between two messages: other messages, the consumer of weather changes, the sweep of the
  duplicate set.\<close>

datatype hub_op = HookOp string message gotime | ConsumeOp gotime | SweepOp gotime

fun hub_time :: "hub_op \<Rightarrow> gotime" where
  "hub_time (HookOp ty m t) = t"
| "hub_time (ConsumeOp t) = t"
| "hub_time (SweepOp t) = t"

fun hub_step :: "('c, 'r) handler_env \<Rightarrow> ('c, 'r) hub \<Rightarrow> hub_op \<Rightarrow> ('c, 'r) hub" where
  "hub_step env hb (HookOp ty m t) = fst (dispatch_hook env ty m t hb)"
| "hub_step env hb (ConsumeOp t) = fst (consume_weather_change env hb t)"
| "hub_step env hb (SweepOp t) = hb\<lparr>sv_seen := sweep (sv_seen hb) t\<rparr>"

definition hub_run :: "('c, 'r) handler_env \<Rightarrow> ('c, 'r) hub \<Rightarrow> hub_op list \<Rightarrow> ('c, 'r) hub" where
  "hub_run env hb ops = foldl (hub_step env) hb ops"

text \<open>The one request of a message that is deduplicated as a whole.\<close>

definition request_of :: "string \<Rightarrow> message \<Rightarrow> dedup_req option" where
  "request_of ty m =
     (if ty = ''pokemon'' then map_option (\<lambda>w. DPokemon (wp_encounter_id w) (wp_verified w \<or> wp_disappear_time_verified w)
          (pw_cp w) (pw_disappear_time w)) (ms_pokemon m)
      else if ty = ''quest'' then map_option (\<lambda>w. DQuest (qw_pokestop_id w) (build_quest_rewards_key (qw_with_ar w) (qw_rewards w))) (ms_quest m)
      else if ty = ''nest'' then map_option (\<lambda>w. DNest (nw_nest_id w) (nw_pokemon_id w) (nw_reset_time w)) (ms_nest m)
      else if ty = ''max_battle'' then map_option (\<lambda>w. DMaxbattle (xw_id w) (xw_battle_end w) (xw_pokemon_id w)) (ms_maxbattle m)
      else if ty = ''invasion'' then
        (case ms_invasion m of None \<Rightarrow> None
         | Some w \<Rightarrow> if invasion_expiration w > 0 then Some (DInvasion (iw_pokestop_id w) (invasion_expiration w)) else None)
      else None)"

definition held :: "fingerprint \<Rightarrow> gotime \<Rightarrow> expiring_set \<Rightarrow> bool" where
  "held fp until s \<longleftrightarrow> shards_ok s \<and> (\<exists>e. shard_look s fp = Some e \<and> until \<le> e)"

lemma held_check_and_add: "held fp until s \<Longrightarrow> now < until \<Longrightarrow> held fp until (fst (check_and_add s fp' ttl now))"
  by (auto simp: held_def check_and_add_def es.look_store intro: es.ok_store split: option.split)

lemma held_check:
  assumes "held fp until s" "now < until"
  shows "held fp until (fst (check_pokemon h s e v cp d now))" "held fp until (fst (check_showcase h s p x r now))"
    "held fp until (fst (check_invasion h s p x now))" "held fp until (fst (check_quest h s p r now))"
    "held fp until (fst (check_lure h s p x now))" "held fp until (fst (check_maxbattle h s p x k now))"
    "held fp until (fst (check_nest h s n k x now))"
  using assms by (simp_all add: check_pokemon_def check_showcase_def check_invasion_def check_quest_def check_lure_def
      check_maxbattle_def check_nest_def held_check_and_add Let_def)

lemma held_sweep: "held fp until s \<Longrightarrow> now < until \<Longrightarrow> held fp until (sweep s now)"
  by (auto simp: held_def sweep_def es.look_retain es.ok_retain)

lemma register_seen [simp]: "sv_seen (register_weather_care env sv w processed matched now) = sv_seen sv"
  by (simp add: register_weather_care_def Let_def)

lemma handler_seen:
  assumes h: "held fp until (sv_seen hb)" and n: "now < until"
  shows "held fp until (sv_seen (fst (process_pokemon env hb pw now)))"
    "held fp until (sv_seen (fst (process_raid env hb rw now)))"
    "held fp until (sv_seen (process_weather env hb ww now))"
    "held fp until (sv_seen (fst (process_invasion env hb iw now)))"
    "held fp until (sv_seen (fst (process_lure env hb lw now)))"
    "held fp until (sv_seen (fst (process_showcase env hb sw now)))"
    "held fp until (sv_seen (fst (process_quest env hb qw now)))"
    "held fp until (sv_seen (fst (process_gym env hb gw now)))"
    "held fp until (sv_seen (fst (process_nest env hb nw now)))"
    "held fp until (sv_seen (fst (process_fort_update env hb fw now)))"
    "held fp until (sv_seen (fst (process_maxbattle env hb xw now)))"
  using h held_check [OF h n]
  by (simp_all add: process_pokemon_def process_raid_def process_weather_def process_invasion_def process_lure_def
      process_showcase_def process_quest_def process_gym_def process_nest_def process_fort_update_def process_maxbattle_def
      split_beta Let_def)

lemma weather_seen [simp]: "sv_seen (fst (consume_weather_change env hb now)) = sv_seen hb"
  by (simp add: consume_weather_change_def weather_alert_def split_beta Let_def split: list.split)

lemma run_seen:
  assumes "held fp until (sv_seen hb)" "now < until"
  shows "held fp until (sv_seen (fst (run_invasion env m now hb)))" "held fp until (sv_seen (fst (run_lure env m now hb)))"
    "held fp until (sv_seen (fst (run_showcase env m now hb)))"
  using assms by (simp_all add: run_invasion_def run_lure_def run_showcase_def on_parse_def handler_seen split: option.split)

lemma hook_seen:
  assumes h: "held fp until (sv_seen hb)" and n: "now < until"
  shows "held fp until (sv_seen (fst (dispatch_hook env ty m now hb)))"
proof -
  have route: "held fp until (sv_seen (fst (route_pokestop env m now hb)))"
    using h n by (simp add: route_pokestop_def and_then_def split_beta Let_def run_seen split: option.split)
  consider "ty = ''pokestop''" | "ty = ''invasion''" | "ty \<noteq> ''pokestop''" "ty \<noteq> ''invasion''" by blast
  then show ?thesis
  proof cases
    case 3
    with assms show ?thesis by (simp add: dispatch_hook_def on_parse_def handler_seen split: option.split)
  qed (use assms route in \<open>simp_all add: dispatch_hook_def run_seen\<close>)
qed

lemma hub_run_held:
  assumes "held fp until (sv_seen hb)" and "\<forall>x \<in> set ops. hub_time x < until"
  shows "held fp until (sv_seen (hub_run env hb ops))"
  using assms
proof (induction ops arbitrary: hb)
  case (Cons x ops)
  have "held fp until (sv_seen (hub_step env hb x))"
    using Cons.prems by (cases x) (simp_all add: hook_seen held_sweep)
  from Cons.IH [OF this] Cons.prems(2) show ?case by (simp add: hub_run_def)
qed (simp add: hub_run_def)

text \<open>Messages that are dropped before they are put to the duplicate set.\<close>

definition refused :: "('c, 'r) handler_env \<Rightarrow> string \<Rightarrow> message \<Rightarrow> gotime \<Rightarrow> bool" where
  "refused env ty m now \<longleftrightarrow>
     ty = ''pokemon'' \<and> se_disable_pokemon env \<or> ty = ''quest'' \<and> he_disable_quest env \<or>
     ty = ''nest'' \<and> he_disable_nest env \<or> ty = ''max_battle'' \<and> he_disable_maxbattle env \<or>
     ty = ''invasion'' \<and> (he_disable_invasion env \<or>
        (\<exists>w. ms_invasion m = Some w \<and> incident_expired (invasion_expiration w) (unix now)))"

lemma refused_later: "refused env ty m t0 \<Longrightarrow> t0 \<le> t1 \<Longrightarrow> refused env ty m t1"
  using unix_mono [of t0 t1] unfolding refused_def incident_expired_def by (elim disjE conjE exE) simp_all

lemma refused_silent:
  assumes "refused env ty m now"
  shows "snd (dispatch_hook env ty m now hb) = ([], [])"
proof -
  show ?thesis
    using assms unfolding refused_def
    by (elim disjE conjE exE) (simp_all add: dispatch_hook_def on_parse_def process_pokemon_def process_quest_def process_nest_def
      process_maxbattle_def run_invasion_def process_invasion_def split: option.split)
qed

text \<open>The request is put to the duplicate set, unless the message is dropped before.\<close>

lemma request_cases:
  assumes "request_of ty m = Some r"
  obtains (dropped) "refused env ty m now"
  | (asked) "sv_seen (fst (dispatch_hook env ty m now hb)) = fst (dedup_check (se_hash env) (sv_seen hb) r now)"
      "snd (dedup_check (se_hash env) (sv_seen hb) r now) \<Longrightarrow> snd (dispatch_hook env ty m now hb) = ([], [])"
proof -
  consider (p) w where "ty = ''pokemon''" "ms_pokemon m = Some w" "r = DPokemon (wp_encounter_id w)
      (wp_verified w \<or> wp_disappear_time_verified w) (pw_cp w) (pw_disappear_time w)"
    | (q) w where "ty = ''quest''" "ms_quest m = Some w"
      "r = DQuest (qw_pokestop_id w) (build_quest_rewards_key (qw_with_ar w) (qw_rewards w))"
    | (n) w where "ty = ''nest''" "ms_nest m = Some w" "r = DNest (nw_nest_id w) (nw_pokemon_id w) (nw_reset_time w)"
    | (x) w where "ty = ''max_battle''" "ms_maxbattle m = Some w" "r = DMaxbattle (xw_id w) (xw_battle_end w) (xw_pokemon_id w)"
    | (i) w where "ty = ''invasion''" "ms_invasion m = Some w" "invasion_expiration w > 0"
      "r = DInvasion (iw_pokestop_id w) (invasion_expiration w)"
    using assms by (auto simp: request_of_def split: if_splits option.splits)
  then show thesis
  proof cases
    case p
    show thesis
    proof (cases "se_disable_pokemon env")
      case True
      with p show thesis
        by (intro that(1)) (simp add: refused_def)
    next
      case False
      with p show thesis
        by (intro that(2)) (auto simp: dispatch_hook_def on_parse_def process_pokemon_def track_change_def split_beta Let_def)
    qed
  next
    case q
    show thesis
    proof (cases "he_disable_quest env")
      case True
      with q show thesis
        by (intro that(1)) (simp add: refused_def)
    next
      case False
      with q show thesis
        by (intro that(2)) (auto simp: dispatch_hook_def on_parse_def process_quest_def split_beta Let_def)
    qed
  next
    case n
    show thesis
    proof (cases "he_disable_nest env")
      case True
      with n show thesis
        by (intro that(1)) (simp add: refused_def)
    next
      case False
      with n show thesis
        by (intro that(2)) (auto simp: dispatch_hook_def on_parse_def process_nest_def split_beta Let_def)
    qed
  next
    case x
    show thesis
    proof (cases "he_disable_maxbattle env")
      case True
      with x show thesis
        by (intro that(1)) (simp add: refused_def)
    next
      case False
      with x show thesis
        by (intro that(2)) (auto simp: dispatch_hook_def on_parse_def process_maxbattle_def split_beta Let_def)
    qed
  next
    case i
    show thesis
    proof (cases "he_disable_invasion env \<or> incident_expired (invasion_expiration w) (unix now)")
      case True
      with i show thesis
        by (intro that(1)) (auto simp: refused_def)
    next
      case False
      with i show thesis
        by (intro that(2)) (auto simp: dispatch_hook_def on_parse_def run_invasion_def process_invasion_def split_beta Let_def)
    qed
  qed
qed

text \<open>C17: A message that repeats another within the lifetime of its key is silent: nobody is alerted and nothing
  is sent, whatever other messages, weather changes and sweeps happen in between. This holds for pokemon, quests,
  nests, max battles and invasions with a known end.\<close>

theorem repeated_message_silent:
  assumes "request_of ty m = Some r" and "\<not> snd (dedup_check (se_hash env) (sv_seen hb) r t0)" and "shards_ok (sv_seen hb)"
    and "t0 \<le> t1" and "t1 < t0 + req_ttl r t0" and "\<forall>x \<in> set ops. hub_time x \<le> t1"
  shows "snd (dispatch_hook env ty m t1 (hub_run env (fst (dispatch_hook env ty m t0 hb)) ops)) = ([], [])"
proof -
  let ?hb1 = "fst (dispatch_hook env ty m t0 hb)"
  let ?hb2 = "hub_run env ?hb1 ops"
  let ?fp = "se_hash env (req_key r)"
  from assms(1) show ?thesis
  proof (cases rule: request_cases [where env = env and now = t0 and hb = hb])
    case dropped
    then show ?thesis by (intro refused_silent refused_later [OF _ assms(4)])
  next
    case asked
    have "held ?fp (t0 + req_ttl r t0) (sv_seen ?hb1)"
      using assms(2,3) unfolding asked(1) dedup_check_eq
      by (auto simp: held_def check_and_add_def es.look_store intro: es.ok_store split: option.splits if_splits)
    then have "held ?fp (t0 + req_ttl r t0) (sv_seen ?hb2)"
      by (rule hub_run_held) (use assms(5,6) in auto)
    then obtain e where "shard_look (sv_seen ?hb2) ?fp = Some e" "t1 < e"
      using assms(5) by (auto simp: held_def)
    then have dup: "snd (dedup_check (se_hash env) (sv_seen ?hb2) r t1)"
      by (simp add: dedup_check_eq check_and_add_def)
    from assms(1) show ?thesis
      by (cases rule: request_cases [where env = env and now = t1 and hb = "?hb2"]) (simp_all add: dup refused_silent)
  qed
qed

section \<open>Concrete runs\<close>

definition no_message :: message where
  "no_message = \<lparr>ms_pokemon = None, ms_raid = None, ms_weather = None, ms_invasion = None, ms_peek = None, ms_lure = None,
     ms_showcase = None, ms_quest = None, ms_gym = None, ms_nest = None, ms_fort = None, ms_maxbattle = None\<rparr>"

definition sample_lure_rule :: lure_tracking where
  "sample_lure_rule = \<lparr>lt_uid = 6, lt_id = ''u1'', lt_profile_no = 1, lt_ping = [], lt_clean = 0, lt_distance = 10,
     lt_template = ''1'', lt_lure_id = 0, lt_override_location_label = [], lt_override_areas_raw = [], lt_override_areas = []\<rparr>"

definition sample_lure_message :: message where
  "sample_lure_message = no_message
     \<lparr>ms_peek := Some \<lparr>pk_lure_expiration = 100, pk_incident_expiration = 0, pk_incident_grunt_type = 0, pk_showcase_expiry = 0\<rparr>,
      ms_lure := Some \<lparr>lw_pokestop_id = ''p'', lw_latitude = 1, lw_longitude = 2, lw_lure_expiration = 100, lw_lure_id = 501\<rparr>\<rparr>"

definition sample_lure_env :: "(unit, (string, raid_rsvp list \<times> gotime) gomap) handler_env" where
  "sample_lure_env = sample_handler_env\<lparr>se_state := Some (sample_state\<lparr>st_lures := [sample_lure_rule]\<rparr>)\<rparr>"

lemma sample_lure_users:
  "map mu_id (fst (lure_match (se_search sample_lure_env) (he_matcher sample_lure_env)
     \<lparr>ld_pokestop_id = ''p'', ld_lure_id = 501, ld_latitude = 1, ld_longitude = 2\<rparr> (se_state sample_lure_env))) = [''u1'']"
  by (simp add: sample_lure_env_def sample_hub_defs lure_match_def lure_wants_def lure_td_def sample_lure_rule_def
      sample_state_def event_at_def point_areas_and_names_def open_matcher_def strict_of_def validate_humans_generic_def
      generic_accepts_def generic_user_def resolve_override_def sample_human_def gget_Cons strict_rejects_def split_beta Let_def)

lemma sample_lure_routed:
  "\<exists>j. snd (snd (handle_batch sample_lure_env [(''pokestop'', sample_lure_message)] 0 (rc, sample_hub))) = [j] \<and>
     \<not> rj_is_change j \<and> map mu_id (rj_users j) = [''u1'']"
proof -
  let ?w = "\<lparr>lw_pokestop_id = ''p'', lw_latitude = 1, lw_longitude = 2, lw_lure_expiration = 100, lw_lure_id = 501\<rparr>"
  let ?matched = "fst (lure_match (se_search sample_lure_env) (he_matcher sample_lure_env)
     \<lparr>ld_pokestop_id = ''p'', ld_lure_id = 501, ld_latitude = 1, ld_longitude = 2\<rparr> (se_state sample_lure_env))"
  have route: "dispatch_hook sample_lure_env ''pokestop'' sample_lure_message 0 sample_hub = process_lure sample_lure_env sample_hub ?w 0"
    by (simp add: dispatch_hook_def route_pokestop_def and_then_def run_lure_def on_parse_def sample_lure_message_def
        no_message_def split_beta)
  have fresh: "\<not> snd (check_lure (se_hash sample_lure_env) (sv_seen sample_hub) ''p'' 100 0)"
    by (simp add: sample_lure_env_def sample_hub_defs check_lure_def check_and_add_def new_expiring_set_def shard_look_def)
  have on: "\<not> he_disable_lure sample_lure_env" "se_rendering sample_lure_env"
    by (simp_all add: sample_lure_env_def sample_hub_defs)
  have "filter (may_alert sample_lure_env sample_hub ty ar ev now) us = us" for ty ar ev now us
    by (rule filter_True) (simp add: may_alert_def throttled_def validated_def muted_for_def sample_lure_env_def sample_hub_defs)
  moreover have "?matched \<noteq> []"
    using sample_lure_users by force
  ultimately show ?thesis
    using fresh on sample_lure_users
    by (simp add: route split_beta Let_def process_lure_def has_active_lure_def alert_filters_eq one_job_def alert_job_def unix_def)
qed

lemma no_unwanted_alert_witness:
  "\<exists>st i h. se_state sample_lure_env = Some st \<and> gget (st_humans st) i = Some h \<and> h_id h = ''u1'' \<and> h_enabled h"
proof -
  obtain j where
    jobs: "snd (snd (handle_batch sample_lure_env [(''pokestop'', sample_lure_message)] 0 (new_rate_counter, sample_hub))) = [j]"
    and j: "\<not> rj_is_change j" "map mu_id (rj_users j) = [''u1'']"
    using sample_lure_routed [of new_rate_counter] by (elim exE conjE)
  have "''u1'' \<in> mu_id ` set (rj_users j)"
    by (simp only: set_map [symmetric] j(2) list.set_intros)
  then obtain u where u: "u \<in> set (rj_users j)" "''u1'' = mu_id u" by (rule imageE)
  have "j \<in> set (snd (snd (handle_batch sample_lure_env [(''pokestop'', sample_lure_message)] 0 (new_rate_counter, sample_hub))))"
    by (simp only: jobs list.set_intros)
  from no_unwanted_alert [OF this u(1), unfolded if_not_P [OF j(1)], THEN conjunct1] show ?thesis
    unfolding u(2) [symmetric] by (elim exE conjE) (intro exI conjI; assumption?; simp)
qed

lemma repeated_message_silent_witness:
  "let env = sample_handler_env; m = no_message\<lparr>ms_quest := Some sample_quest_webhook\<rparr>
   in snd (dispatch_hook env ''quest'' m 1 (hub_run env (fst (dispatch_hook env ''quest'' m 0 sample_hub))
        [SweepOp 0, ConsumeOp 1])) = ([], [])"
proof -
  let ?m = "no_message\<lparr>ms_quest := Some sample_quest_webhook\<rparr>"
  let ?r = "DQuest ''p'' (build_quest_rewards_key False (qw_rewards sample_quest_webhook))"
  have "request_of ''quest'' ?m = Some ?r"
    by (simp add: request_of_def sample_quest_webhook_def)
  moreover have "\<not> snd (dedup_check (se_hash sample_handler_env) (sv_seen sample_hub) ?r 0)"
    by (simp add: sample_hub_defs dedup_check_eq check_and_add_def new_expiring_set_def shard_look_def)
  moreover have "shards_ok (sv_seen sample_hub)"
    by (simp add: sample_hub_defs new_expiring_set_def shards_ok_def)
  ultimately show ?thesis
    unfolding Let_def by (rule repeated_message_silent) simp_all
qed

end
