(* ===== verification/Throttle.thy ===== *)
theory Throttle
  imports MinuteRing Float64
begin

text \<open>
  The Discord rate limiter (\<open>delivery/ratelimit.go\<close>): the limits of each destination as the platform last reported
  them, the global bucket of 50 tokens per second in double arithmetic, and \<open>Wait\<close>, which sleeps until the destination may be
  written to and a token is there. The counter of 429 responses is in MinuteRing. Numbers in response headers are
  taken as parsed (\<open>header\<close>), the jitter of \<open>ParseRetryAfter\<close> is an argument, and the count of waiting
  goroutines, shown on the status page only, is left out.
\<close>

abbreviation (input) ns_milli :: int where "ns_milli \<equiv> 1000000"

section \<open>The token bucket\<close>

record token_bucket =
  tb_tokens :: f64
  tb_max :: f64
  tb_last_refill :: gotime
  tb_rate :: f64

definition new_token_bucket :: "f64 \<Rightarrow> f64 \<Rightarrow> gotime \<Rightarrow> token_bucket" where
  "new_token_bucket max_tokens rate now = \<lparr>tb_tokens = max_tokens, tb_max = max_tokens, tb_last_refill = now, tb_rate = rate\<rparr>"

definition refill :: "token_bucket \<Rightarrow> gotime \<Rightarrow> token_bucket" where
  "refill tb now =
     (let elapsed = dur_seconds (now - tb_last_refill tb)
      in if elapsed \<le> 0 then tb
         else let tokens = fadd (tb_tokens tb) (fmul elapsed (tb_rate tb))
              in tb\<lparr>tb_tokens := (if tokens > tb_max tb then tb_max tb else tokens), tb_last_refill := now\<rparr>)"

definition try_consume :: "token_bucket \<Rightarrow> gotime \<Rightarrow> token_bucket \<times> bool" where
  "try_consume tb now =
     (let tb1 = refill tb now
      in if tb_tokens tb1 \<ge> 1 then (tb1\<lparr>tb_tokens := fsub (tb_tokens tb1) 1\<rparr>, True) else (tb1, False))"

definition time_until_available :: "token_bucket \<Rightarrow> gotime \<Rightarrow> token_bucket \<times> duration" where
  "time_until_available tb now =
     (let tb1 = refill tb now
      in if tb_tokens tb1 \<ge> 1 then (tb1, 0)
         else let deficit = fsub 1 (tb_tokens tb1)
              in (tb1, int_of_f64 (fmul (fdiv deficit (tb_rate tb1)) 1000) * ns_milli))"

section \<open>The limiter\<close>

record target_limit =
  tl_remaining :: int
  tl_limit :: int
  tl_reset_at :: gotime

record discord_limiter =
  dl_targets :: "(string, target_limit) gomap"
  dl_global :: token_bucket
  dl_429 :: counter429

definition new_discord_limiter :: "gotime \<Rightarrow> discord_limiter" where
  "new_discord_limiter now = \<lparr>dl_targets = [], dl_global = new_token_bucket 50 50 now, dl_429 = new_counter429\<rparr>"

definition cleanup_targets :: "discord_limiter \<Rightarrow> gotime \<Rightarrow> discord_limiter" where
  "cleanup_targets rl now = rl\<lparr>dl_targets := gkeep (\<lambda>_ l. \<not> tl_reset_at l < now) (dl_targets rl)\<rparr>"

text \<open>The first half of \<open>Wait\<close>: how long to sleep for the destination.\<close>

definition wait_target :: "discord_limiter \<Rightarrow> string \<Rightarrow> gotime \<Rightarrow> discord_limiter \<times> duration" where
  "wait_target rl target now =
     (let rl1 = (if length (dl_targets rl) > 1000 then cleanup_targets rl now else rl)
      in case gget (dl_targets rl1) target of
           Some l \<Rightarrow> (rl1, if tl_remaining l \<le> 0 \<and> tl_reset_at l - now > 0 then tl_reset_at l - now else 0)
         | None \<Rightarrow> (rl1, 0))"

text \<open>The second half: poll the global bucket. Between two readings of the clock any time may pass; the list holds, for
  every round, the delay before the bucket is asked how long to sleep and the one after the sleep, and is the fuel.\<close>

fun wait_global :: "token_bucket \<Rightarrow> gotime \<Rightarrow> (duration \<times> duration) list \<Rightarrow> (token_bucket \<times> gotime) option" where
  "wait_global tb now delays =
     (case try_consume tb now of
        (tb1, True) \<Rightarrow> Some (tb1, now)
      | (tb1, False) \<Rightarrow>
          (case delays of [] \<Rightarrow> None
           | (before, after) # rest \<Rightarrow>
               (let (tb2, wait) = time_until_available tb1 (now + before)
                in wait_global tb2 (now + before + (if wait \<le> 0 then ns_milli else wait) + after) rest)))"

declare wait_global.simps [simp del]

definition wait :: "discord_limiter \<Rightarrow> string \<Rightarrow> gotime \<Rightarrow> duration \<Rightarrow> (duration \<times> duration) list \<Rightarrow> (discord_limiter \<times> gotime) option" where
  "wait rl target now late delays =
     (let (rl1, sleep) = wait_target rl target now
      in map_option (\<lambda>(tb, t). (rl1\<lparr>dl_global := tb\<rparr>, t)) (wait_global (dl_global rl1) (now + sleep + late) delays))"

text \<open>The headers of a response: a number that is absent, unreadable, or read.\<close>

datatype 'a header = Absent | Unreadable | Value 'a

record rate_headers =
  rh_remaining :: "int header"
  rh_limit :: "int header"
  rh_reset_after :: "f64 header"
  rh_global :: string

definition millis_of :: "f64 \<Rightarrow> duration" where
  "millis_of secs = int_of_f64 (fmul secs 1000) * ns_milli"

definition update_limit :: "discord_limiter \<Rightarrow> string \<Rightarrow> rate_headers \<Rightarrow> gotime \<Rightarrow> discord_limiter" where
  "update_limit rl target h now =
     (if equal_fold (rh_global h) ''true'' \<and> rh_reset_after h \<noteq> Absent
      then (case rh_reset_after h of
              Value secs \<Rightarrow> rl\<lparr>dl_global := (dl_global rl)\<lparr>tb_tokens := 0, tb_last_refill := now + millis_of secs\<rparr>\<rparr>
            | _ \<Rightarrow> rl)
      else case rh_remaining h of
        Absent \<Rightarrow> rl
      | Unreadable \<Rightarrow> rl
      | Value remaining \<Rightarrow>
          (let lim = (case rh_limit h of Value v \<Rightarrow> v | _ \<Rightarrow> 0);
               reset_at = (case rh_reset_after h of Value secs \<Rightarrow> now + millis_of secs | _ \<Rightarrow> zero_time);
               old = gget_or \<lparr>tl_remaining = 0, tl_limit = 0, tl_reset_at = zero_time\<rparr> (dl_targets rl) target
           in rl\<lparr>dl_targets := gput target
                  \<lparr>tl_remaining = remaining, tl_limit = (if lim > 0 then lim else tl_limit old), tl_reset_at = reset_at\<rparr>
                  (dl_targets rl)\<rparr>))"

definition parse_retry_after :: "f64 \<Rightarrow> int \<Rightarrow> duration" where
  "parse_retry_after retry_after jitter =
     (if retry_after > 1000 then int_of_f64 retry_after * ns_milli else int_of_f64 (fmul retry_after 1000) * ns_milli) +
     jitter * ns_milli"

record route_state =
  rs_route :: string
  rs_remaining :: int
  rs_limit :: int
  rs_reset_at :: gotime

record rate_limit_snapshot =
  sn_routes :: "route_state list"
  sn_tokens :: int
  sn_capacity :: int
  sn_recent_429 :: int

definition route_hidden :: "target_limit \<Rightarrow> bool" where
  "route_hidden l \<longleftrightarrow> tl_limit l > 0 \<and> tl_remaining l \<ge> tl_limit l \<or> tl_limit l = 0 \<and> tl_remaining l > 0"

definition limiter_snapshot :: "discord_limiter \<Rightarrow> gotime \<Rightarrow> discord_limiter \<times> rate_limit_snapshot" where
  "limiter_snapshot rl now =
     (let routes = map (\<lambda>(k, l). \<lparr>rs_route = k, rs_remaining = tl_remaining l, rs_limit = tl_limit l, rs_reset_at = tl_reset_at l\<rparr>)
             (filter (\<lambda>(k, l). \<not> route_hidden l) (dl_targets rl));
          tb = refill (dl_global rl) now
      in (rl\<lparr>dl_global := tb\<rparr>,
          \<lparr>sn_routes = routes, sn_tokens = int_of_f64 (tb_tokens tb), sn_capacity = int_of_f64 (tb_max tb),
           sn_recent_429 = recent_429_count (dl_429 rl) now\<rparr>))"

section \<open>The bucket stays within its bounds\<close>

definition bucket_ok :: "token_bucket \<Rightarrow> bool" where
  "bucket_ok tb \<longleftrightarrow> tb_rate tb = 50 \<and> tb_max tb = 50 \<and> 0 \<le> tb_tokens tb \<and> tb_tokens tb \<le> 50"

lemma refill_ok:
  assumes "bucket_ok tb"
  shows "bucket_ok (refill tb now)"
proof -
  have "0 \<le> fadd (tb_tokens tb) (fmul (dur_seconds (now - tb_last_refill tb)) 50)" if "0 < dur_seconds (now - tb_last_refill tb)"
    unfolding fadd_def fmul_def using assms that
    by (intro f64_round_nonneg add_nonneg_nonneg) (simp_all add: bucket_ok_def)
  with assms show ?thesis by (auto simp: bucket_ok_def refill_def Let_def)
qed

lemma refill_last: "tb_last_refill (refill tb now) = tb_last_refill tb \<or> tb_last_refill (refill tb now) = now"
  by (simp add: refill_def Let_def)

lemma try_consume_ok:
  assumes "bucket_ok tb"
  shows "bucket_ok (fst (try_consume tb now))"
proof -
  have "0 \<le> fsub (tb_tokens (refill tb now)) 1" "fsub (tb_tokens (refill tb now)) 1 \<le> 50" if "1 \<le> tb_tokens (refill tb now)"
  proof -
    show "0 \<le> fsub (tb_tokens (refill tb now)) 1" using that by (simp add: fsub_def f64_round_nonneg)
    have "fsub (tb_tokens (refill tb now)) 1 \<le> of_int 50"
      unfolding fsub_def using refill_ok [OF assms, of now] by (intro f64_round_le_int) (simp_all add: bucket_ok_def)
    then show "fsub (tb_tokens (refill tb now)) 1 \<le> 50" by simp
  qed
  with refill_ok [OF assms, of now] show ?thesis
    by (auto simp: try_consume_def Let_def bucket_ok_def)
qed

lemma time_until_bucket [simp]: "fst (time_until_available tb now) = refill tb now"
  by (simp add: time_until_available_def Let_def)

section \<open>Rounding errors\<close>

lemma f64_round_error: "\<bar>f64_round x - x\<bar> \<le> fquantum x"
proof (cases "x = 0")
  case False
  have "\<bar>of_int (rhe (x / fquantum x)) - x / fquantum x\<bar> \<le> 1"
    using rhe_floor [of "x / fquantum x"] by linarith
  then have "\<bar>of_int (rhe (x / fquantum x)) - x / fquantum x\<bar> * fquantum x \<le> 1 * fquantum x"
    by (intro mult_right_mono) (simp_all add: less_imp_le)
  moreover have "f64_round x - x = (of_int (rhe (x / fquantum x)) - x / fquantum x) * fquantum x"
    using False fquantum_pos [of x, THEN less_imp_neq] by (simp add: f64_round_def left_diff_distrib)
  ultimately show ?thesis by (simp only: abs_mult abs_of_pos [OF fquantum_pos] mult_1)
qed (simp add: less_imp_le)

lemma f64_round_close:
  assumes "\<bar>x\<bar> < 128"
  shows "\<bar>f64_round x - x\<bar> \<le> 1 / 2 ^ 46"
proof (cases "x = 0")
  case False
  then have "(2::real) powi fexp \<bar>x\<bar> < 2 powi 7"
    using fexp_bounds(1) [of "\<bar>x\<bar>"] assms by simp
  then have "fexp \<bar>x\<bar> < 7" by (rule powi_less_cancel)
  then have "fquantum x \<le> 2 powi (- 46)"
    unfolding fquantum_def by (intro power_int_increasing) simp_all
  also have "(2::real) powi (- 46) = 1 / 2 ^ 46"
    by (simp add: power_int_minus inverse_eq_divide)
  finally show ?thesis using f64_round_error [of x] by linarith
qed simp


lemma f64_round_upper: "\<bar>x\<bar> < 128 \<Longrightarrow> f64_round x \<le> x + 1 / 2 ^ 46"
  using f64_round_close [of x] by linarith

lemma dur_seconds_nonpos: "d < 0 \<Longrightarrow> dur_seconds d \<le> 0"
proof -
  have n: "f64_round x \<le> 0" if "x \<le> 0" for x using f64_round_le_int [of x 0] that by simp
  show "d < 0 \<Longrightarrow> dur_seconds d \<le> 0"
    unfolding dur_seconds_def fadd_def fdiv_def f64_of_int_def
    by (intro n add_nonpos_nonpos divide_nonpos_nonneg) simp_all
qed

lemma dur_seconds_error:
  assumes "0 \<le> d" "d < 1000000000"
  shows "dur_seconds d \<le> of_int d / 1000000000 + 2 * (1 / 2 ^ 46)" and "dur_seconds d \<le> 1"
proof -
  have "dur_seconds d = f64_round (f64_round (of_int d / 1000000000))"
    using assms by (simp add: dur_seconds_def fadd_def fdiv_def sgn_if)
  moreover let ?x = "of_int d / 1000000000 :: real"
  have x: "0 \<le> ?x" "?x \<le> of_int 1" using assms by simp_all
  have y: "0 \<le> f64_round ?x" "f64_round ?x \<le> of_int 1"
    using f64_round_nonneg [OF x(1)] f64_round_le_int [OF x(2)] by simp_all
  have "f64_round (f64_round ?x) \<le> of_int 1" using f64_round_le_int [OF y(2)] by simp
  moreover have "f64_round ?x \<le> ?x + 1 / 2 ^ 46" "f64_round (f64_round ?x) \<le> f64_round ?x + 1 / 2 ^ 46"
    using x y by (intro f64_round_upper; simp)+
  ultimately show "dur_seconds d \<le> ?x + 2 * (1 / 2 ^ 46)" "dur_seconds d \<le> 1" by linarith+
qed

section \<open>How many tokens a window can grant\<close>

lemma error_sum: "m \<le> e * 50 + r \<Longrightarrow> e \<le> d + 2 * r \<Longrightarrow> t \<le> k + m + r \<Longrightarrow> t \<le> k + 50 * d + 102 * (r :: real)"
  by linarith

text \<open>The tokens in the bucket together with those the time since the last refill is worth.\<close>

definition potential :: "token_bucket \<Rightarrow> gotime \<Rightarrow> real" where
  "potential tb now = tb_tokens tb + 50 * (of_int (max 0 (now - tb_last_refill tb)) / 1000000000)"

lemma potential_later:
  "now \<le> later \<Longrightarrow> potential tb later \<le> potential tb now + 50 * (of_int (later - now) / 1000000000)"
  by (auto simp: potential_def max_def field_simps)

lemma refill_potential:
  assumes "bucket_ok tb"
  shows "potential (refill tb now) now \<le> potential tb now + 1 / 2 ^ 39"
proof -
  let ?d = "now - tb_last_refill tb" and ?e = "dur_seconds (now - tb_last_refill tb)"
  let ?t = "fadd (tb_tokens tb) (fmul ?e 50)"
  consider "?e \<le> 0" | "0 < ?e" "?d < 0" | "0 < ?e" "0 \<le> ?d" "?d < 1000000000" | "0 < ?e" "1000000000 \<le> ?d" by linarith
  then show ?thesis
  proof cases
    case 1
    then show ?thesis by (simp add: refill_def)
  next
    case 2
    with dur_seconds_nonpos [of ?d] show ?thesis by simp
  next
    case 3
    from dur_seconds_error [OF 3(2,3)] 3(1) have e: "?e \<le> of_int ?d / 1000000000 + 2 * (1 / 2 ^ 46)" "0 \<le> ?e * 50" "?e * 50 \<le> 50"
      by simp_all
    from f64_round_upper [of "?e * 50"] e have m: "fmul ?e 50 \<le> ?e * 50 + 1 / 2 ^ 46" "0 \<le> fmul ?e 50"
      using f64_round_nonneg [OF e(2)] by (simp_all add: fmul_def)
    have "?e * 50 + 1 / 2 ^ 46 \<le> 51" using e(3) by simp
    with m(1) have "\<bar>tb_tokens tb + fmul ?e 50\<bar> < 128" using m(2) assms unfolding bucket_ok_def by linarith
    from f64_round_upper [OF this] have "?t \<le> tb_tokens tb + fmul ?e 50 + 1 / 2 ^ 46"
      by (simp only: fadd_def)
    with m(1) e(1) have "?t \<le> tb_tokens tb + 50 * (of_int ?d / 1000000000) + 102 * (1 / 2 ^ 46)"
      by (intro error_sum)
    then have "?t \<le> tb_tokens tb + 50 * (of_int ?d / 1000000000) + 1 / 2 ^ 39" by simp
    then show ?thesis using 3 assms by (simp add: refill_def Let_def potential_def bucket_ok_def)
  next
    case 4
    then have "50 \<le> 50 * (of_int ?d / 1000000000 :: real)" by simp
    moreover have "tb_tokens (refill tb now) \<le> 50" "tb_last_refill (refill tb now) = now" "0 \<le> tb_tokens tb"
      using refill_ok [OF assms, of now] 4 assms by (simp_all add: bucket_ok_def refill_def Let_def)
    moreover have "potential tb now = tb_tokens tb + 50 * (of_int ?d / 1000000000)"
      using 4 by (simp add: potential_def max_def)
    moreover have "potential (refill tb now) now = tb_tokens (refill tb now)"
      by (simp add: potential_def \<open>tb_last_refill (refill tb now) = now\<close>)
    moreover have "0 \<le> 1 / (2::real) ^ 39" by simp
    ultimately show ?thesis by linarith
  qed
qed

lemma dur_seconds_lower:
  assumes "0 < d"
  shows "2 powi (- 30) \<le> dur_seconds d" and "1000000 \<le> d \<Longrightarrow> 2 powi (- 10) \<le> dur_seconds d"
proof -
  have low: "2 powi e \<le> dur_seconds d" if e: "- 30 \<le> e" "e \<le> 0" "2 powi e \<le> (of_int d / 1000000000 :: real)" for e
  proof (cases "d < 1000000000")
    case True
    have r: "2 powi e \<le> f64_round x" if "2 powi e \<le> x" for x
      using f64_round_mono [OF that] f64_round_pow2 [of e] e(1,2) by simp
    from True assms have "dur_seconds d = f64_round (f64_round (of_int d / 1000000000))"
      by (simp add: dur_seconds_def fadd_def fdiv_def sgn_if)
    with r [OF r [OF e(3)]] show ?thesis by simp
  next
    case False
    have "f64_of_int 1 \<le> f64_of_int (d div 1000000000)" by (rule f64_of_int_mono) (use False in simp)
    moreover have "0 \<le> fdiv (f64_of_int (d mod 1000000000)) 1000000000"
      unfolding fdiv_def f64_of_int_def by (intro f64_round_nonneg divide_nonneg_nonneg) simp_all
    ultimately have "of_int 1 \<le> f64_of_int (d div 1000000000) + fdiv (f64_of_int (d mod 1000000000)) 1000000000" by simp
    then have "of_int 1 \<le> dur_seconds d"
      using False unfolding dur_seconds_def fadd_def by (intro f64_round_ge_int) (simp_all add: sgn_if)
    moreover have "(2::real) powi e \<le> 2 powi 0" by (intro power_int_increasing) (use e in simp_all)
    ultimately show ?thesis by simp
  qed
  show "2 powi (- 30) \<le> dur_seconds d"
    by (rule low) (use assms in \<open>simp_all add: power_int_minus field_simps\<close>)
  show "1000000 \<le> d \<Longrightarrow> 2 powi (- 10) \<le> dur_seconds d"
    by (rule low) (simp_all add: power_int_minus field_simps)
qed

lemma refill_full:
  assumes "bucket_ok tb"
  shows "potential (refill tb now) now \<le> 50"
proof (cases "now \<le> tb_last_refill tb")
  case True
  moreover from True have "tb_last_refill (refill tb now) = tb_last_refill tb \<or> tb_last_refill (refill tb now) = now"
    by (intro refill_last)
  ultimately show ?thesis using refill_ok [OF assms, of now] by (auto simp: potential_def bucket_ok_def max_def)
next
  case False
  have "(0::real) < 2 powi (- 30)" by simp
  then have "0 < dur_seconds (now - tb_last_refill tb)"
    using dur_seconds_lower(1) [of "now - tb_last_refill tb"] False by linarith
  then have "tb_last_refill (refill tb now) = now" by (simp add: refill_def Let_def)
  with refill_ok [OF assms, of now] show ?thesis by (simp add: potential_def bucket_ok_def)
qed

text \<open>The bucket is never worth more than its capacity.\<close>

definition worth :: "token_bucket \<Rightarrow> gotime \<Rightarrow> real" where
  "worth tb now = min 50 (potential tb now)"

lemma worth_later:
  assumes "now \<le> later"
  shows "worth tb later \<le> worth tb now + 50 * (of_int (later - now) / 1000000000)"
proof -
  have "0 \<le> 50 * (of_int (later - now) / 1000000000 :: real)" using assms by simp
  with potential_later [OF assms, of tb] show ?thesis unfolding worth_def by linarith
qed

lemma refill_worth: "bucket_ok tb \<Longrightarrow> worth (refill tb now) now \<le> worth tb now + 1 / 2 ^ 38"
  using refill_potential [of tb now] by (auto simp: worth_def min_def)

lemma try_consume_worth:
  assumes "bucket_ok tb"
  shows "worth (fst (try_consume tb now)) now + (if snd (try_consume tb now) then 1 else 0) \<le> worth tb now + 1 / 2 ^ 38"
proof (cases "1 \<le> tb_tokens (refill tb now)")
  case True
  have "\<bar>tb_tokens (refill tb now) - 1\<bar> < 128" using True refill_ok [OF assms, of now] by (simp add: bucket_ok_def)
  from f64_round_upper [OF this] have "fsub (tb_tokens (refill tb now)) 1 \<le> tb_tokens (refill tb now) - 1 + 1 / 2 ^ 46"
    by (simp only: fsub_def)
  then have "potential (fst (try_consume tb now)) now \<le> potential (refill tb now) now - 1 + 1 / 2 ^ 46"
    using True by (simp add: try_consume_def Let_def potential_def)
  with refill_full [OF assms, of now] refill_potential [OF assms, of now]
  have "potential (fst (try_consume tb now)) now + 1 \<le> worth tb now + 1 / 2 ^ 38"
    by (auto simp: worth_def min_def)
  moreover have "worth (fst (try_consume tb now)) now \<le> potential (fst (try_consume tb now)) now" by (simp add: worth_def)
  moreover have "snd (try_consume tb now)" using True by (simp add: try_consume_def Let_def)
  ultimately show ?thesis by simp
next
  case False
  with refill_worth [OF assms, of now] show ?thesis by (simp add: try_consume_def Let_def)
qed

text \<open>What the clients of the limiter do, in the order in which the bucket's lock serialises them: ask for a token, ask how long
  to sleep, report the headers of a response, read the status.\<close>

datatype limiter_op = TryOp gotime | QueryOp gotime | HeadersOp string rate_headers gotime | StatusOp gotime | CleanOp gotime

fun limiter_time :: "limiter_op \<Rightarrow> gotime" where
  "limiter_time (TryOp t) = t"
| "limiter_time (QueryOp t) = t"
| "limiter_time (HeadersOp k h t) = t"
| "limiter_time (StatusOp t) = t"
| "limiter_time (CleanOp t) = t"

fun limiter_step :: "discord_limiter \<Rightarrow> limiter_op \<Rightarrow> discord_limiter \<times> nat" where
  "limiter_step rl (TryOp t) = (let (tb, ok) = try_consume (dl_global rl) t in (rl\<lparr>dl_global := tb\<rparr>, if ok then 1 else 0))"
| "limiter_step rl (QueryOp t) = (rl\<lparr>dl_global := fst (time_until_available (dl_global rl) t)\<rparr>, 0)"
| "limiter_step rl (HeadersOp k h t) = (update_limit rl k h t, 0)"
| "limiter_step rl (StatusOp t) = (fst (limiter_snapshot rl t), 0)"
| "limiter_step rl (CleanOp t) = (cleanup_targets rl t, 0)"

fun granted :: "discord_limiter \<Rightarrow> limiter_op list \<Rightarrow> nat" where
  "granted rl [] = 0"
| "granted rl (x # xs) = snd (limiter_step rl x) + granted (fst (limiter_step rl x)) xs"

definition limiter_run :: "discord_limiter \<Rightarrow> limiter_op list \<Rightarrow> discord_limiter" where
  "limiter_run rl xs = foldl (\<lambda>rl x. fst (limiter_step rl x)) rl xs"

text \<open>The platform never reports a reset in the past.\<close>

fun sane_headers :: "limiter_op \<Rightarrow> bool" where
  "sane_headers (HeadersOp k h t) = (case rh_reset_after h of Value s \<Rightarrow> 0 \<le> s | _ \<Rightarrow> True)"
| "sane_headers _ = True"

lemma millis_nonneg: "0 \<le> s \<Longrightarrow> 0 \<le> millis_of s"
  using f64_round_nonneg [of "s * 1000"] by (simp add: millis_of_def int_of_f64_def fmul_def)

lemma update_limit_global:
  "dl_global (update_limit rl k h t) = dl_global rl \<or>
   (\<exists>s. rh_reset_after h = Value s \<and> dl_global (update_limit rl k h t) = (dl_global rl)\<lparr>tb_tokens := 0, tb_last_refill := t + millis_of s\<rparr>)"
  by (auto simp: update_limit_def Let_def split: header.splits)

lemma limiter_step_ok:
  assumes "bucket_ok (dl_global rl)"
  shows "bucket_ok (dl_global (fst (limiter_step rl x)))"
proof (cases x)
  case (HeadersOp k h t)
  with update_limit_global [of rl k h t] assms show ?thesis by (auto simp: bucket_ok_def)
qed (simp_all add: assms split_beta try_consume_ok refill_ok limiter_snapshot_def cleanup_targets_def Let_def)

lemma limiter_step_worth:
  assumes "bucket_ok (dl_global rl)" "sane_headers x"
  shows "worth (dl_global (fst (limiter_step rl x))) (limiter_time x) + snd (limiter_step rl x) \<le>
    worth (dl_global rl) (limiter_time x) + 1 / 2 ^ 38"
proof (cases x)
  case (TryOp t)
  with try_consume_worth [OF assms(1), of t] show ?thesis by (simp add: split_beta split: if_splits)
next
  case (QueryOp t)
  with refill_worth [OF assms(1), of t] show ?thesis by simp
next
  case (StatusOp t)
  with refill_worth [OF assms(1), of t] show ?thesis by (simp add: limiter_snapshot_def Let_def)
next
  case (CleanOp t)
  then show ?thesis by (simp add: cleanup_targets_def)
next
  case (HeadersOp k h t)
  have p: "0 \<le> worth (dl_global rl) t" using assms(1) by (simp add: worth_def potential_def bucket_ok_def)
  from update_limit_global [of rl k h t] show ?thesis
  proof (elim disjE exE conjE)
    fix s
    assume s: "rh_reset_after h = Value s" "dl_global (update_limit rl k h t) = (dl_global rl)\<lparr>tb_tokens := 0, tb_last_refill := t + millis_of s\<rparr>"
    then have "0 \<le> millis_of s" using assms(2) HeadersOp by (simp add: millis_nonneg)
    with s p HeadersOp show ?thesis by (simp add: worth_def potential_def)
  qed (simp add: HeadersOp)
qed

lemma granted_worth:
  assumes "bucket_ok (dl_global rl)" "\<forall>x \<in> set xs. sane_headers x"
    and "sorted (map limiter_time xs)" "\<forall>x \<in> set xs. t0 \<le> limiter_time x \<and> limiter_time x \<le> t1" "t0 \<le> t1"
  shows "granted rl xs \<le> worth (dl_global rl) t0 + 50 * (of_int (t1 - t0) / 1000000000) + length xs / 2 ^ 38"
  using assms
proof (induction xs arbitrary: rl t0)
  case Nil
  then show ?case by (simp add: worth_def potential_def bucket_ok_def)
next
  case (Cons x xs)
  let ?t = "limiter_time x" and ?rl = "fst (limiter_step rl x)"
  have IH: "granted ?rl xs \<le> worth (dl_global ?rl) ?t + 50 * (of_int (t1 - ?t) / 1000000000) + length xs / 2 ^ 38"
    by (rule Cons.IH) (use Cons.prems in \<open>simp_all add: limiter_step_ok\<close>)
  have "worth (dl_global ?rl) ?t + snd (limiter_step rl x) \<le> worth (dl_global rl) ?t + 1 / 2 ^ 38"
    using Cons.prems by (intro limiter_step_worth) simp_all
  moreover have "worth (dl_global rl) ?t \<le> worth (dl_global rl) t0 + 50 * (of_int (?t - t0) / 1000000000)"
    using Cons.prems by (intro worth_later) simp
  ultimately show ?case using IH by (simp add: field_simps)
qed


lemma limiter_run_ok: "bucket_ok (dl_global rl) \<Longrightarrow> bucket_ok (dl_global (limiter_run rl xs))"
  by (induction xs arbitrary: rl) (simp_all add: limiter_run_def limiter_step_ok)

lemma new_limiter_ok: "bucket_ok (dl_global (new_discord_limiter t))"
  by (simp add: new_discord_limiter_def new_token_bucket_def bucket_ok_def)

lemma granted_append: "granted rl (xs @ ys) = granted rl xs + granted (limiter_run rl xs) ys"
  by (induction xs arbitrary: rl) (simp_all add: limiter_run_def)


text \<open>C27: However the goroutines of the lanes interleave with responses, status reads and clean-ups, and whatever the rounding of
  the token arithmetic does, in any window of time the global bucket grants at most its capacity of 50 tokens plus 50 per second of
  the window; the error is below one token in 2 to the 38 operations.\<close>

theorem token_rate_bounded:
  assumes "\<forall>x \<in> set pre. sane_headers x" and "\<forall>x \<in> set win. sane_headers x"
    and "sorted (map limiter_time win)" and "\<forall>x \<in> set win. t0 \<le> limiter_time x \<and> limiter_time x \<le> t1" and "t0 \<le> t1"
  shows "granted (new_discord_limiter s) (pre @ win) - granted (new_discord_limiter s) pre \<le>
    50 + 50 * (real_of_int (t1 - t0) / 1000000000) + length win / 2 ^ 38"
proof -
  let ?rl = "limiter_run (new_discord_limiter s) pre"
  have "granted ?rl win \<le> worth (dl_global ?rl) t0 + 50 * (of_int (t1 - t0) / 1000000000) + length win / 2 ^ 38"
    by (intro granted_worth limiter_run_ok new_limiter_ok assms)
  moreover have "worth (dl_global ?rl) t0 \<le> 50" by (simp add: worth_def)
  ultimately show ?thesis by (simp add: granted_append)
qed


section \<open>A lone waiter gets its token\<close>

lemma f64_round_32nds:
  assumes "k \<le> 32" "of_nat k / 32 \<le> x"
  shows "of_nat k / 32 \<le> f64_round x"
proof -
  have "f64_round (of_int (int k) * 2 powi (- 5)) = of_int (int k) * 2 powi (- 5)"
    by (rule f64_round_exact) (use assms(1) in simp_all)
  moreover have "of_int (int k) * 2 powi (- 5) = (of_nat k / 32 :: real)"
    by (simp add: power_int_minus inverse_eq_divide)
  ultimately have "f64_round (of_nat k / 32) = (of_nat k / 32 :: real)"
    by (simp only:)
  with f64_round_mono [OF assms(2)] show ?thesis by simp
qed

text \<open>Tokens are counted in 32nds: a refill loses none, and one after a millisecond adds one.\<close>

lemma refill_keeps:
  assumes "bucket_ok tb" "k \<le> 32" "of_nat k / 32 \<le> tb_tokens tb"
  shows "of_nat k / 32 \<le> tb_tokens (refill tb now)"
proof -
  let ?e = "dur_seconds (now - tb_last_refill tb)"
  have "of_nat k / 32 \<le> fadd (tb_tokens tb) (fmul ?e 50)" if "0 < ?e"
  proof -
    have "0 \<le> fmul ?e 50" using that by (simp add: fmul_def f64_round_nonneg)
    with assms show ?thesis unfolding fadd_def by (intro f64_round_32nds) simp_all
  qed
  with assms show ?thesis by (auto simp: refill_def Let_def bucket_ok_def)
qed

lemma refill_adds:
  assumes "bucket_ok tb" "k < 32" "of_nat k / 32 \<le> tb_tokens tb" "tb_last_refill tb + ns_milli \<le> now"
  shows "of_nat (Suc k) / 32 \<le> tb_tokens (refill tb now)"
proof -
  let ?e = "dur_seconds (now - tb_last_refill tb)"
  have e: "1 / 1024 \<le> ?e" using dur_seconds_lower(2) [of "now - tb_last_refill tb"] assms(4) by (simp add: power_int_minus)
  have "of_nat 1 / 32 \<le> fmul ?e 50" unfolding fmul_def by (intro f64_round_32nds) (use e in simp_all)
  then have "of_nat (Suc k) / 32 \<le> fadd (tb_tokens tb) (fmul ?e 50)"
    unfolding fadd_def by (intro f64_round_32nds) (use assms in simp_all)
  moreover have "of_nat (Suc k) / 32 \<le> (50 :: real)" using assms(2) by simp
  ultimately show ?thesis using e assms(1) by (simp add: refill_def Let_def bucket_ok_def)
qed

lemma wait_global_returns:
  assumes "bucket_ok tb" "k \<le> 32" "of_nat k / 32 \<le> tb_tokens tb" "tb_last_refill tb \<le> now + (int b - 1) * ns_milli"
    and "32 - k + b \<le> length delays" "\<forall>(x, y) \<in> set delays. 0 \<le> x \<and> 0 \<le> y"
  shows "\<exists>tb' t. wait_global tb now delays = Some (tb', t) \<and> now \<le> t"
  using assms
proof (induction delays arbitrary: tb now k b)
  case Nil
  then have "1 \<le> tb_tokens (refill tb now)" using refill_keeps [of tb k now] by simp
  then show ?case by (subst wait_global.simps) (simp add: try_consume_def Let_def)
next
  case (Cons d ds)
  obtain x y where d: "d = (x, y)" by (cases d)
  show ?case
  proof (cases "1 \<le> tb_tokens (refill tb now)")
    case True
    then show ?thesis by (subst wait_global.simps) (simp add: try_consume_def Let_def)
  next
    case False
    let ?tb1 = "refill tb now" and ?tb2 = "refill (refill tb now) (now + x)"
    let ?wait = "snd (time_until_available ?tb1 (now + x))"
    let ?next = "now + x + (if ?wait \<le> 0 then ns_milli else ?wait) + y"
    have ok: "bucket_ok ?tb1" "bucket_ok ?tb2" using Cons.prems(1) by (simp_all add: refill_ok)
    have loop: "wait_global tb now (d # ds) = wait_global ?tb2 ?next ds"
      using False by (subst wait_global.simps) (simp add: d try_consume_def split_beta Let_def)
    have "ns_milli \<le> ?wait \<or> ?wait \<le> 0"
      by (auto simp: time_until_available_def Let_def)
    then have later: "now + x + ns_milli \<le> ?next" "now + x \<le> ?next" "now \<le> now + x"
      using Cons.prems(6) by (auto simp: d)
    have last2: "tb_last_refill ?tb2 = tb_last_refill tb \<or> tb_last_refill ?tb2 = now \<or> tb_last_refill ?tb2 = now + x"
      using refill_last [of tb now] refill_last [of ?tb1 "now + x"] by auto
    have "\<exists>tb' t. wait_global ?tb2 ?next ds = Some (tb', t) \<and> ?next \<le> t"
    proof (cases b)
      case 0
      have "k < 32"
        using False refill_keeps [OF Cons.prems(1,2,3), of now] Cons.prems(2) by (cases "k = 32") simp_all
      have one: "of_nat (Suc k) / 32 \<le> tb_tokens ?tb1"
        by (rule refill_adds [OF Cons.prems(1) \<open>k < 32\<close> Cons.prems(3)]) (use Cons.prems(4) 0 in simp)
      then have "Suc k < 32" using False \<open>k < 32\<close> by (cases "Suc k = 32") simp_all
      show ?thesis
      proof (rule Cons.IH [where k = "Suc k" and b = 0])
        show "real (Suc k) / 32 \<le> tb_tokens ?tb2"
          by (rule refill_keeps [OF ok(1)]) (use one \<open>Suc k < 32\<close> in simp_all)
        show "tb_last_refill ?tb2 \<le> ?next + (int 0 - 1) * ns_milli"
          using last2 later Cons.prems(4) 0 by auto
      qed (use ok \<open>Suc k < 32\<close> Cons.prems 0 in simp_all)
    next
      case (Suc n)
      show ?thesis
      proof (rule Cons.IH [where k = k and b = n])
        show "real k / 32 \<le> tb_tokens ?tb2"
          by (intro refill_keeps ok Cons.prems)
        show "tb_last_refill ?tb2 \<le> ?next + (int n - 1) * ns_milli"
          using last2 later Cons.prems(4) Suc by (auto simp: algebra_simps)
      qed (use ok Cons.prems Suc in simp_all)
    qed
    with later loop show ?thesis by (metis order_trans)
  qed
qed


lemma wait_target_sleep:
  assumes "gget (dl_targets rl) target = Some l" "tl_remaining l \<le> 0" "gok (dl_targets rl)"
  shows "tl_reset_at l \<le> now + snd (wait_target rl target now)"
  using assms by (auto simp: wait_target_def Let_def cleanup_targets_def gget_keep)

lemma wait_target_frame:
  "dl_global (fst (wait_target rl target now)) = dl_global rl" "0 \<le> snd (wait_target rl target now)"
  by (auto simp: wait_target_def cleanup_targets_def Let_def split: option.split)

text \<open>C28: \<open>Wait\<close> returns, and not before the destination may be written to: in any state of the limiter, whatever delays the
  scheduler adds, a waiter that nobody competes with has its token after at most 33 polls and one more for each
  millisecond for which a global limit was announced; an exhausted destination is left alone until its reset.\<close>

theorem wait_returns:
  assumes "bucket_ok (dl_global rl)" and "gok (dl_targets rl)" and "0 \<le> late" and "\<forall>(x, y) \<in> set delays. 0 \<le> x \<and> 0 \<le> y"
    and "tb_last_refill (dl_global rl) \<le> now + int blocked * 1000000" and "33 + blocked \<le> length delays"
  shows "\<exists>rl' t. wait rl target now late delays = Some (rl', t) \<and> now \<le> t \<and>
    (\<forall>l. gget (dl_targets rl) target = Some l \<longrightarrow> tl_remaining l \<le> 0 \<longrightarrow> tl_reset_at l \<le> t)"
proof -
  let ?rl = "fst (wait_target rl target now)" and ?start = "now + snd (wait_target rl target now) + late"
  have start: "now \<le> ?start" using wait_target_frame(2) [of rl target now] assms(3) by simp
  obtain tb t where t: "wait_global (dl_global rl) ?start delays = Some (tb, t)" "?start \<le> t"
    using wait_global_returns [of "dl_global rl" 0 ?start "Suc blocked" delays] assms start
    by (auto simp: bucket_ok_def)
  then have "wait rl target now late delays = Some (?rl\<lparr>dl_global := tb\<rparr>, t)"
    by (simp add: wait_def split_beta Let_def wait_target_frame)
  moreover have "tl_reset_at l \<le> t" if "gget (dl_targets rl) target = Some l" "tl_remaining l \<le> 0" for l
    using wait_target_sleep [OF that assms(2), of now] t(2) assms(3) by simp
  ultimately show ?thesis using t(2) start by auto
qed

definition sample_headers :: rate_headers where
  "sample_headers = \<lparr>rh_remaining = Value 0, rh_limit = Value 5, rh_reset_after = Value 2, rh_global = []\<rparr>"

lemma token_rate_bounded_witness:
  "granted (new_discord_limiter 0) ([] @ [TryOp 1, HeadersOp ''c'' sample_headers 2, TryOp 3]) -
     granted (new_discord_limiter 0) [] \<le>
   50 + 50 * (real_of_int (1000000000 - 0) / 1000000000) + length [TryOp 1, HeadersOp ''c'' sample_headers 2, TryOp 3] / 2 ^ 38"
  by (rule token_rate_bounded) (simp_all add: sample_headers_def)

lemma wait_returns_witness:
  "\<exists>rl' t. wait (update_limit (new_discord_limiter 0) ''c'' sample_headers 0) ''c'' 1 0 (replicate 33 (0, 0)) = Some (rl', t) \<and>
     2000000000 \<le> t"
proof -
  let ?rl = "update_limit (new_discord_limiter 0) ''c'' sample_headers 0"
  have rl: "dl_global ?rl = dl_global (new_discord_limiter 0)"
    "dl_targets ?rl = [(''c'', \<lparr>tl_remaining = 0, tl_limit = 5, tl_reset_at = millis_of 2\<rparr>)]"
    by (simp_all add: update_limit_def sample_headers_def equal_fold_def to_lower_def lower_char_def new_discord_limiter_def
        gget_or_def gput_def)
  have "f64_round (of_int 2000) = of_int 2000" by (rule f64_round_int) simp
  then have ms: "millis_of 2 = 2000000000" by (simp add: millis_of_def fmul_def int_of_f64_def)
  have "\<exists>rl' t. wait ?rl ''c'' 1 0 (replicate 33 (0, 0)) = Some (rl', t) \<and> 1 \<le> t \<and>
    (\<forall>l. gget (dl_targets ?rl) ''c'' = Some l \<longrightarrow> tl_remaining l \<le> 0 \<longrightarrow> tl_reset_at l \<le> t)"
    by (rule wait_returns [where blocked = 0])
      (simp_all add: rl new_limiter_ok gok_def, simp add: new_discord_limiter_def new_token_bucket_def)
  then show ?thesis by (auto simp: rl gget_Cons ms)
qed

end
