(* ===== verification/Schedule.thy ===== *)
theory Schedule
  imports Json Float64 Pipeline
begin

text \<open>
  Active hours and the two schedulers that read them: the entries and their fire points (\<open>db/profiles.go\<close>), the fixed
  minute marks and the ten-minute window (\<open>cmd/processor/profiles.go\<close>), the switch of profiles, and the tick of the
  summary scheduler (\<open>cmd/processor/summary_scheduler.go\<close>) with the load of its schedules (\<open>state/loader.go\<close>). The time zone database
  is a parameter: \<open>sc_clock\<close> gives weekday, hour and minute of an instant in a zone.
\<close>

section \<open>Integers of Go, numbers in text\<close>

text \<open>Division and remainder truncate towards zero.\<close>

definition go_div :: "int \<Rightarrow> int \<Rightarrow> int" where
  "go_div a b = sgn a * sgn b * (\<bar>a\<bar> div \<bar>b\<bar>)"

definition go_mod :: "int \<Rightarrow> int \<Rightarrow> int" where
  "go_mod a b = a - b * go_div a b"

lemma go_div_pos [simp]: "0 \<le> a \<Longrightarrow> 0 < b \<Longrightarrow> go_div a b = a div b" "0 \<le> a \<Longrightarrow> 0 < b \<Longrightarrow> go_mod a b = a mod b"
  by (cases "a = 0"; simp add: go_div_def go_mod_def minus_mult_div_eq_mod)+

text \<open>\<open>strconv.Atoi\<close>: a sign and decimal digits, in the range of an int64.\<close>

definition atoi :: "string \<Rightarrow> int option" where
  "atoi s =
     (let (neg, ds) = (case s of c # cs \<Rightarrow> if c = CHR ''-'' then (True, cs) else if c = CHR ''+'' then (False, cs) else (False, s)
                       | [] \<Rightarrow> (False, []));
          n = (if neg then - int (undigits ds) else int (undigits ds))
      in if ds = [] \<or> \<not> list_all is_digit ds then None
         else if - (2 ^ 63) \<le> n \<and> n < 2 ^ 63 then Some n else None)"

text \<open>The value of a JSON number, rounded to a double.\<close>

definition json_number :: "string \<Rightarrow> f64" where
  "json_number s =
     (let (neg, s1) = (case s of c # cs \<Rightarrow> if c = CHR ''-'' then (True, cs) else (False, s) | [] \<Rightarrow> (False, []));
          (d, s2) = span_digits s1;
          (f, s3) = (case s2 of c # cs \<Rightarrow> if c = CHR ''.'' then span_digits cs else ([], s2) | [] \<Rightarrow> ([], []));
          e = (case s3 of [] \<Rightarrow> 0
               | _ # x \<Rightarrow> (case x of [] \<Rightarrow> 0
                  | c # cs \<Rightarrow> if c = CHR ''-'' then - int (undigits cs) else if c = CHR ''+'' then int (undigits cs)
                             else int (undigits x)));
          v = of_nat (undigits (d @ f)) * 10 powi (e - int (length f))
      in f64_round (if neg then - v else v))"

section \<open>Active hours\<close>

record active_hour =
  ah_day :: int
  ah_hours :: int
  ah_mins :: int
  ah_end_hours :: int
  ah_end_mins :: int
  ah_step :: int

definition flex_to_int :: "json option \<Rightarrow> int option" where
  "flex_to_int v = (case v of
      None \<Rightarrow> Some 0
    | Some (JNum s) \<Rightarrow> Some (int_of_f64 (json_number s))
    | Some (JStr s) \<Rightarrow> atoi s
    | Some JNull \<Rightarrow> Some 0
    | Some _ \<Rightarrow> None)"

text \<open>Of a key that is repeated in an object the last value counts.\<close>

definition unmarshal_active_hour :: "json \<Rightarrow> active_hour option" where
  "unmarshal_active_hour j =
     (case (case j of JObj kvs \<Rightarrow> Some (rev kvs) | JNull \<Rightarrow> Some [] | _ \<Rightarrow> None) of
        None \<Rightarrow> None
      | Some raw \<Rightarrow>
          (case (flex_to_int (gget raw ''day''), flex_to_int (gget raw ''hours''), flex_to_int (gget raw ''mins''),
                 flex_to_int (gget raw ''end_hours''), flex_to_int (gget raw ''end_mins''), flex_to_int (gget raw ''step'')) of
             (Some d, Some h, Some m, Some eh, Some em, Some st) \<Rightarrow>
               Some \<lparr>ah_day = d, ah_hours = h, ah_mins = m, ah_end_hours = eh, ah_end_mins = em, ah_step = st\<rparr>
           | _ \<Rightarrow> None))"

definition is_space :: "char \<Rightarrow> bool" where
  "is_space c \<longleftrightarrow> (of_char c :: nat) \<in> {9, 10, 11, 12, 13, 32}"

definition trim_space :: "string \<Rightarrow> string" where
  "trim_space s = rev (dropWhile is_space (rev (dropWhile is_space s)))"

definition parse_active_hours :: "string \<Rightarrow> active_hour list option" where
  "parse_active_hours raw =
     (let trimmed = trim_space raw
      in if trimmed = [] \<or> trimmed = ''[]'' \<or> trimmed = ''{}'' then Some []
         else case parse_json raw of
           Some (JArr vs) \<Rightarrow> those (map unmarshal_active_hour vs)
         | Some JNull \<Rightarrow> Some []
         | _ \<Rightarrow> None)"

definition is_range :: "active_hour \<Rightarrow> bool" where
  "is_range e \<longleftrightarrow> ah_step e > 0"

function fires_from :: "int \<Rightarrow> int \<Rightarrow> int \<Rightarrow> (int \<times> int) list" where
  "fires_from m final step =
     (if m \<le> final \<and> step > 0 then (go_div m 60, go_mod m 60) # fires_from (m + step) final step else [])"
  by pat_completeness auto
termination
  by (relation "measure (\<lambda>(m, final, step). nat (final + 1 - m))") auto

declare fires_from.simps [simp del]

definition fires :: "active_hour \<Rightarrow> (int \<times> int) list" where
  "fires e =
     (if \<not> is_range e then [(ah_hours e, ah_mins e)]
      else
        let start = ah_hours e * 60 + ah_mins e; final = ah_end_hours e * 60 + ah_end_mins e; step = ah_step e * 60
        in if step \<le> 0 \<or> final < start then [(ah_hours e, ah_mins e)] else fires_from start final step)"

section \<open>Profiles\<close>

record profile =
  pf_id :: string
  pf_profile_no :: int
  pf_name :: string
  pf_area :: string
  pf_latitude :: f64
  pf_longitude :: f64
  pf_active_hours :: string
  pf_parsed :: "active_hour list"

type_synonym profiles = "(string \<times> int, profile) gomap"

definition load_profiles :: "profile list \<Rightarrow> profiles" where
  "load_profiles rows =
     foldl (\<lambda>m p. gput (pf_id p, pf_profile_no p)
        (case parse_active_hours (pf_active_hours p) of None \<Rightarrow> p\<lparr>pf_parsed := []\<rparr> | Some es \<Rightarrow> p\<lparr>pf_parsed := es\<rparr>) m) [] rows"

section \<open>The marks and the window\<close>

definition profile_schedule_minutes :: "int list" where
  "profile_schedule_minutes = [0, 10, 15, 20, 30, 40, 45, 50]"

text \<open>The next mark. The server's zone is \<open>offset\<close> nanoseconds ahead of UTC, without a change of the clocks in between.\<close>

definition next_schedule_time :: "duration \<Rightarrow> gotime \<Rightarrow> int list \<Rightarrow> gotime" where
  "next_schedule_time offset now minutes =
     (let local = now + offset;
          hour_start = local - local mod ns_hour;
          now_min = local mod ns_hour div ns_minute;
          now_ns = local mod ns_minute
      in (case find (\<lambda>m. m > now_min \<or> m = now_min \<and> now_ns = 0) minutes of
            Some m \<Rightarrow> hour_start + m * ns_minute
          | None \<Rightarrow> hour_start + ns_hour + hd minutes * ns_minute) - offset)"

definition iso_dow :: "int \<Rightarrow> int" where
  "iso_dow wd = (if wd = 0 then 7 else wd)"

definition matches_time_window :: "active_hour \<Rightarrow> int \<Rightarrow> int \<Rightarrow> int \<Rightarrow> int \<Rightarrow> bool" where
  "matches_time_window e now_dow yesterday_dow now_hour now_min \<longleftrightarrow>
     list_ex (\<lambda>(fire_hour, fire_min).
         (ah_day e = now_dow \<and> fire_hour = now_hour \<and> now_min \<ge> fire_min \<and> now_min - fire_min < 10) \<or>
         (now_min < 10 \<and> ah_day e = now_dow \<and> fire_hour = now_hour - 1 \<and> fire_min > 50) \<or>
         (now_hour = 0 \<and> now_min < 10 \<and> ah_day e = yesterday_dow \<and> fire_hour = 23 \<and> fire_min > 50)) (fires e)"

text \<open>The zone of a position: from the map of zones, else the configured one, else the server's.\<close>

datatype timezone_source = FromLocation | FromDefault | FromServerLocal

record 'z schedule_env =
  sc_zone_name :: "f64 \<Rightarrow> f64 \<Rightarrow> string"
  sc_load_location :: "string \<Rightarrow> 'z option"
  sc_local :: 'z
  sc_clock :: "'z \<Rightarrow> gotime \<Rightarrow> int \<times> int \<times> int"
  sc_default_tz :: string

definition resolve_timezone :: "('z, 'e) schedule_env_scheme \<Rightarrow> f64 \<Rightarrow> f64 \<Rightarrow> 'z \<times> timezone_source" where
  "resolve_timezone env lat lon =
     (let by_position = (if lat \<noteq> 0 \<or> lon \<noteq> 0
             then (let tz = sc_zone_name env lon lat in if tz \<noteq> [] then sc_load_location env tz else None) else None);
          by_default = (if sc_default_tz env \<noteq> [] then sc_load_location env (sc_default_tz env) else None)
      in case by_position of Some l \<Rightarrow> (l, FromLocation)
         | None \<Rightarrow> (case by_default of Some l \<Rightarrow> (l, FromDefault) | None \<Rightarrow> (sc_local env, FromServerLocal)))"

definition is_schedule_active :: "('z, 'e) schedule_env_scheme \<Rightarrow> active_hour list \<Rightarrow> f64 \<Rightarrow> f64 \<Rightarrow> gotime \<Rightarrow> bool" where
  "is_schedule_active env entries lat lon now =
     (let (weekday, hour, minute) = sc_clock env (fst (resolve_timezone env lat lon)) now;
          now_dow = iso_dow weekday;
          yesterday = (if now_dow - 1 < 1 then 7 else now_dow - 1)
      in list_ex (\<lambda>e. matches_time_window e now_dow yesterday hour minute) entries)"

section \<open>The profile scheduler\<close>

text \<open>A switch: the row update that succeeded and the user it is announced to. \<open>exec\<close> says for which users the update succeeds.\<close>

record profile_switch =
  ps_human :: human
  ps_profile :: profile

fun switch_loop ::
  "('z, 'e) schedule_env_scheme \<Rightarrow> humans \<Rightarrow> (string \<Rightarrow> bool) \<Rightarrow> gotime \<Rightarrow> string set \<Rightarrow> profile list \<Rightarrow> profile_switch list" where
  "switch_loop env humans exec now activated [] = []"
| "switch_loop env humans exec now activated (p # ps) =
     (if pf_id p \<in> activated then switch_loop env humans exec now activated ps
      else case gget humans (pf_id p) of
        None \<Rightarrow> switch_loop env humans exec now activated ps
      | Some human \<Rightarrow>
          if \<not> is_schedule_active env (pf_parsed p) (h_latitude human) (h_longitude human) now
          then switch_loop env humans exec now activated ps
          else
            let activated' = insert (pf_id p) activated
            in if h_current_profile_no human = pf_profile_no p then switch_loop env humans exec now activated' ps
               else if \<not> exec (pf_id p) then switch_loop env humans exec now activated' ps
               else \<lparr>ps_human = human, ps_profile = p\<rparr> # switch_loop env humans exec now activated' ps)"

text \<open>The switches of one check, in the iteration order of the map of profiles, and whether a reload is asked for.\<close>

definition check_profile_switches ::
  "('z, 'e) schedule_env_scheme \<Rightarrow> (humans \<times> profiles) option \<Rightarrow> (string \<Rightarrow> bool) \<Rightarrow> gotime \<Rightarrow> profile_switch list \<times> bool" where
  "check_profile_switches env st exec now =
     (case st of None \<Rightarrow> ([], False)
      | Some (humans, profiles) \<Rightarrow>
          let candidates = filter (\<lambda>p. length (pf_parsed p) > 0) (map snd profiles);
              switches = switch_loop env humans exec now {} candidates
          in (switches, switches \<noteq> []))"

section \<open>The schedules of summaries\<close>

record summary_schedule =
  ss_id :: string
  ss_alert_type :: string
  ss_parsed :: "active_hour list"

type_synonym schedules = "(string, (string, active_hour list) gomap) gomap"

definition summary_schedule_alert_types :: "string list" where
  "summary_schedule_alert_types = [''quest'']"

text \<open>\<open>None\<close> is a nil store, and per type a failed query, which skips the type.\<close>

definition load_summary_schedules :: "(string \<Rightarrow> summary_schedule list option) option \<Rightarrow> schedules" where
  "load_summary_schedules store =
     (case store of None \<Rightarrow> []
      | Some list_by_type \<Rightarrow>
          foldl (\<lambda>out ty. case list_by_type ty of None \<Rightarrow> out
             | Some ss \<Rightarrow> foldl (\<lambda>out s. gput (ss_id s) (gput (ss_alert_type s) (ss_parsed s) (gget_or [] out (ss_id s))) out) out ss)
            [] summary_schedule_alert_types)"

definition count_summary_schedule_entries :: "schedules \<Rightarrow> nat" where
  "count_summary_schedule_entries schedules = sum_list (map (\<lambda>(_, by_type). length by_type) schedules)"

text \<open>The users and types a tick dispatches, in iteration order.\<close>

definition summary_tick :: "('z, 'e) schedule_env_scheme \<Rightarrow> (humans \<times> schedules) option \<Rightarrow> gotime \<Rightarrow> (string \<times> string) list" where
  "summary_tick env snap now =
     (case snap of None \<Rightarrow> []
      | Some (humans, schedules) \<Rightarrow>
          concat (map (\<lambda>(human_id, by_type). List.map_filter (\<lambda>(alert_type, entries).
             if entries = [] then None
             else case gget humans human_id of
                 None \<Rightarrow> None
               | Some human \<Rightarrow>
                   if is_schedule_active env entries (h_latitude human) (h_longitude human) now
                   then Some (human_id, alert_type) else None) by_type) schedules))"

section \<open>Fire points\<close>

definition hour_ok :: "active_hour \<Rightarrow> bool" where
  "hour_ok e \<longleftrightarrow> ah_day e \<in> {1..7} \<and> ah_hours e \<in> {0..23} \<and> ah_mins e \<in> {0..59} \<and>
     ah_end_hours e \<in> {0..23} \<and> ah_end_mins e \<in> {0..59}"

lemma fires_from_mem:
  assumes "0 \<le> m" "hm \<in> set (fires_from m final step)"
  shows "\<exists>x. m \<le> x \<and> x \<le> final \<and> hm = (x div 60, x mod 60)"
  using assms
proof (induction m final step rule: fires_from.induct)
  case (1 m final step)
  show ?case
  proof (cases "m \<le> final \<and> step > 0")
    case True
    then have "fires_from m final step = (go_div m 60, go_mod m 60) # fires_from (m + step) final step"
      by (subst fires_from.simps) simp
    with 1(2,3) consider "hm = (m div 60, m mod 60)" | "hm \<in> set (fires_from (m + step) final step)" by auto
    then show ?thesis
    proof cases
      case 1
      with True show ?thesis by (intro exI [of _ m]) simp
    next
      case 2
      from "1.IH" [OF True _ 2] "1.prems"(1) True obtain x where "m + step \<le> x" "x \<le> final" "hm = (x div 60, x mod 60)" by auto
      with True show ?thesis by (intro exI [of _ x]) simp
    qed
  next
    case False
    then have "fires_from m final step = []" by (subst fires_from.simps) auto
    with 1(3) show ?thesis by simp
  qed
qed

lemma fires_range:
  assumes "hour_ok e" "(h, m) \<in> set (fires e)"
  shows "0 \<le> h" "h < 24" "0 \<le> m" "m < 60"
proof -
  let ?start = "ah_hours e * 60 + ah_mins e" and ?final = "ah_end_hours e * 60 + ah_end_mins e"
  have "0 \<le> h \<and> h < 24 \<and> 0 \<le> m \<and> m < 60"
  proof (cases "(h, m) = (ah_hours e, ah_mins e)")
    case True
    with assms(1) show ?thesis by (simp add: hour_ok_def)
  next
    case False
    with assms(2) have "(h, m) \<in> set (fires_from ?start ?final (ah_step e * 60))"
      by (simp add: fires_def Let_def split: if_splits)
    then obtain x where x: "?start \<le> x" "x \<le> ?final" "(h, m) = (x div 60, x mod 60)"
      using fires_from_mem [of ?start "(h, m)"] assms(1) unfolding hour_ok_def atLeastAtMost_iff by fastforce
    then have "0 \<le> x" "x < 1440" using assms(1) by (auto simp: hour_ok_def)
    with x(3) show ?thesis by auto
  qed
  then show "0 \<le> h" "h < 24" "0 \<le> m" "m < 60" by simp_all
qed

section \<open>The window is ten minutes\<close>

text \<open>Local time in minutes since a Monday 0:00, and the minute of the week a fire point stands for.\<close>

definition clock_of_minute :: "int \<Rightarrow> int \<times> int \<times> int" where
  "clock_of_minute t = ((t div 1440 + 1) mod 7, t mod 1440 div 60, t mod 60)"

definition fire_minute :: "active_hour \<Rightarrow> int \<times> int \<Rightarrow> int" where
  "fire_minute e hm = (ah_day e - 1) * 1440 + fst hm * 60 + snd hm"

lemma near_points:
  assumes "(0 \<le> 1440 * a + 60 * b + c \<and> 1440 * a + 60 * b + c < 10) \<or> 1440 * a + 60 * b + c < - (10070::int)"
    and "- 6 \<le> a" "a \<le> 6" "- 23 \<le> b" "b \<le> 23" "- 59 \<le> c" "c \<le> 59"
  shows "a = 0 \<and> b = 0 \<or> a = 0 \<and> b = 1 \<or> a = 1 \<and> b = - 23 \<or> a = - 6 \<and> b = - 23"
  using assms(1)
proof (elim disjE conjE)
  assume near: "0 \<le> 1440 * a + 60 * b + c" "1440 * a + 60 * b + c < 10"
  with assms(2-) have "0 \<le> a" "a \<le> 1" by linarith+
  then consider "a = 0" | "a = 1" by linarith
  then show ?thesis
  proof cases
    case 1
    with near assms(2-) have "0 \<le> b" "b \<le> 1" by linarith+
    with 1 show ?thesis by auto
  next
    case 2
    with near assms(2-) have "b \<le> - 23" by linarith
    with 2 assms(4) show ?thesis by auto
  qed
next
  assume far: "1440 * a + 60 * b + c < - 10070"
  with assms(2-) have "a \<le> - 6" by linarith
  with assms(2) have a: "a = - 6" by simp
  with far assms(2-) have "b \<le> - 23" by linarith
  with a assms(4) show ?thesis by auto
qed

lemma window_near:
  assumes "d \<in> {1..7}" "D \<in> {1..7}" "H \<in> {0..23}" "h \<in> {0..23}" "M \<in> {0..59}" "m \<in> {0..59}"
    and near: "(0 \<le> (d - 1) * 1440 + H * 60 + M - ((D - 1) * 1440 + h * 60 + m) \<and>
        (d - 1) * 1440 + H * 60 + M - ((D - 1) * 1440 + h * 60 + m) < (10::int)) \<or>
      (d - 1) * 1440 + H * 60 + M - ((D - 1) * 1440 + h * 60 + m) < - 10070" (is "(0 \<le> ?g \<and> _) \<or> _")
  shows "(D = d \<and> h = H \<and> M \<ge> m \<and> M - m < 10) \<or> (M < 10 \<and> D = d \<and> h = H - 1 \<and> m > 50) \<or>
     (H = 0 \<and> M < 10 \<and> D = (if d - 1 < 1 then 7 else d - 1) \<and> h = 23 \<and> m > 50)" (is ?L)
proof -
  have "?g = 1440 * (d - D) + 60 * (H - h) + (M - m)" by simp
  from near [unfolded this] have near': "(0 \<le> 1440 * (d - D) + 60 * (H - h) + (M - m) \<and> 1440 * (d - D) + 60 * (H - h) + (M - m) < 10) \<or>
      1440 * (d - D) + 60 * (H - h) + (M - m) < - 10070" .
  have "d - D = 0 \<and> H - h = 0 \<or> d - D = 0 \<and> H - h = 1 \<or> d - D = 1 \<and> H - h = - 23 \<or> d - D = - 6 \<and> H - h = - 23"
    by (rule near_points [OF near']) (use assms(1-6) in simp_all)
  then consider "d = D" "H = h" | "d = D" "H = h + 1" | "d = D + 1" "H = 0" "h = 23" | "d = 1" "D = 7" "H = 0" "h = 23"
    using assms(1-4) by auto
  then show ?L
  proof cases
    case 1
    with near assms(1-6) show ?thesis by auto
  next
    case 2
    with near assms(1-6) have "m > M + 50" by auto
    with 2 assms(5,6) show ?thesis by auto
  next
    case 3
    with near assms(1-6) have "m > M + 50" by auto
    with 3 assms show ?thesis by auto
  next
    case 4
    with near assms(1-6) have "m > M + 50" by auto
    with 4 assms(5,6) show ?thesis by auto
  qed
qed

lemma window_cases:
  assumes "d \<in> {1..7}" "D \<in> {1..7}" "H \<in> {0..23}" "h \<in> {0..23}" "M \<in> {0..59}" "m \<in> {0..59}"
    and mark: "M < 10 \<longrightarrow> M = (0::int)"
  shows "(D = d \<and> h = H \<and> M \<ge> m \<and> M - m < 10) \<or> (M < 10 \<and> D = d \<and> h = H - 1 \<and> m > 50) \<or>
     (H = 0 \<and> M < 10 \<and> D = (if d - 1 < 1 then 7 else d - 1) \<and> h = 23 \<and> m > 50) \<longleftrightarrow>
     ((d - 1) * 1440 + H * 60 + M - ((D - 1) * 1440 + h * 60 + m)) mod 10080 < (10::int)" (is "?L \<longleftrightarrow> ?g mod 10080 < 10")
proof -
  have g: "- 10080 < ?g" "?g < 10080" using assms(1-6) by auto
  have "?g mod 10080 = (if ?g < 0 then ?g + 10080 else ?g)"
    using g mod_pos_pos_trivial [of "?g + 10080" 10080] by auto
  then have "?g mod 10080 < 10 \<longleftrightarrow> (0 \<le> ?g \<and> ?g < 10) \<or> ?g < - 10070" using g by auto
  also have "\<dots> \<longleftrightarrow> ?L"
  proof
    assume ?L
    then consider "D = d" "h = H" "M \<ge> m" "M - m < 10" | "M < 10" "D = d" "h = H - 1" "m > 50"
      | "H = 0" "M < 10" "D = 7" "d = 1" "h = 23" "m > 50" | "H = 0" "M < 10" "D = d - 1" "h = 23" "m > 50"
    proof (elim disjE conjE)
      assume "H = 0" "M < 10" "D = (if d - 1 < 1 then 7 else d - 1)" "h = 23" "50 < m"
      then show thesis using assms(1) that(3,4) by (cases "d = 1") simp_all
    qed
    then show "(0 \<le> ?g \<and> ?g < 10) \<or> ?g < - 10070"
    proof cases
      case 1
      then show ?thesis by simp
    next
      case 2
      with mark assms(6) show ?thesis by simp
    next
      case 3
      with mark assms(6) show ?thesis by simp
    next
      case 4
      with mark assms(6) show ?thesis by simp
    qed
  next
    assume near: "(0 \<le> ?g \<and> ?g < 10) \<or> ?g < - 10070"
    show ?L by (rule window_near [OF assms(1-6) near])
  qed
  finally show ?thesis by blast
qed

lemma iso_dow_clock: "iso_dow ((t div 1440 + 1) mod 7) = (t div 1440) mod 7 + 1"
proof -
  define w where "w = t div 1440"
  show ?thesis unfolding iso_dow_def w_def [symmetric] by presburger
qed

lemma minute_of_week: "(t::int) mod 10080 = (t div 1440 mod 7) * 1440 + (t mod 1440 div 60) * 60 + t mod 60"
proof -
  have "t mod 10080 = 1440 * (t div 1440 mod 7) + t mod 1440"
    using zmod_zmult2_eq [of 7 t 1440] by simp
  moreover have "t mod 1440 = (t mod 1440 div 60) * 60 + t mod 1440 mod 60" by (rule div_mult_mod_eq [symmetric])
  moreover have "t mod 1440 mod 60 = t mod 60" by (rule mod_mod_cancel) simp
  ultimately show ?thesis by simp
qed

lemma matches_window:
  assumes e: "hour_ok e" and t: "t mod 60 \<in> set profile_schedule_minutes"
    and d: "d = t div 1440 mod 7 + 1" and H: "H = t mod 1440 div 60" and M: "M = t mod 60"
  shows "matches_time_window e d (if d - 1 < 1 then 7 else d - 1) H M \<longleftrightarrow>
    (\<exists>hm \<in> set (fires e). (t - fire_minute e hm) mod 10080 < 10)"
proof -
  have rng: "d \<in> {1..7}" "H \<in> {0..23}" "M \<in> {0..59}" "ah_day e \<in> {1..7}"
    using e zdiv_mono1 [of "t mod 1440" 1439 60] by (simp_all add: d H M hour_ok_def)
  have mark: "M < 10 \<longrightarrow> M = 0" using t by (auto simp: M profile_schedule_minutes_def)
  have week: "t mod 10080 = (d - 1) * 1440 + H * 60 + M"
    using minute_of_week [of t] by (simp add: d H M)
  have one: "(case hm of (h, m) \<Rightarrow>
         (ah_day e = d \<and> h = H \<and> M \<ge> m \<and> M - m < 10) \<or> (M < 10 \<and> ah_day e = d \<and> h = H - 1 \<and> m > 50) \<or>
         (H = 0 \<and> M < 10 \<and> ah_day e = (if d - 1 < 1 then 7 else d - 1) \<and> h = 23 \<and> m > 50)) \<longleftrightarrow>
      (t - fire_minute e hm) mod 10080 < 10"
    if "hm \<in> set (fires e)" for hm
  proof -
    obtain h m where hm: "hm = (h, m)" by (cases hm)
    have hm_rng: "h \<in> {0..23}" "m \<in> {0..59}" using fires_range [OF e that [unfolded hm]] by auto
    have "(t - fire_minute e hm) mod 10080 = (t mod 10080 - fire_minute e hm) mod 10080" by (simp add: mod_diff_left_eq)
    also have "\<dots> = ((d - 1) * 1440 + H * 60 + M - ((ah_day e - 1) * 1440 + h * 60 + m)) mod 10080"
      by (simp only: week fire_minute_def hm fst_conv snd_conv)
    finally show ?thesis
      unfolding hm prod.case by (simp only: window_cases [OF rng(1,4,2) hm_rng(1) rng(3) hm_rng(2) mark])
  qed
  show ?thesis
    unfolding matches_time_window_def list_ex_iff by (rule bex_cong [OF refl one])
qed

text \<open>The scheduler wakes at minute \<open>t\<close> of the zone's local time.\<close>

definition wakes_at :: "('z, 'e) schedule_env_scheme \<Rightarrow> f64 \<Rightarrow> f64 \<Rightarrow> gotime \<Rightarrow> int \<Rightarrow> bool" where
  "wakes_at env lat lon now t \<longleftrightarrow> sc_clock env (fst (resolve_timezone env lat lon)) now = clock_of_minute t \<and>
     t mod 60 \<in> set profile_schedule_minutes"

lemma active_window:
  assumes "\<forall>e \<in> set entries. hour_ok e" "wakes_at env lat lon now t"
  shows "is_schedule_active env entries lat lon now \<longleftrightarrow>
    (\<exists>e \<in> set entries. \<exists>hm \<in> set (fires e). (t - fire_minute e hm) mod 10080 < 10)"
proof -
  have "is_schedule_active env entries lat lon now \<longleftrightarrow>
      (\<exists>e \<in> set entries. matches_time_window e (t div 1440 mod 7 + 1)
        (if t div 1440 mod 7 + 1 - 1 < 1 then 7 else t div 1440 mod 7 + 1 - 1) (t mod 1440 div 60) (t mod 60))"
    using assms(2) by (simp add: is_schedule_active_def wakes_at_def clock_of_minute_def iso_dow_clock list_ex_iff Let_def)
  also have "\<dots> \<longleftrightarrow> (\<exists>e \<in> set entries. \<exists>hm \<in> set (fires e). (t - fire_minute e hm) mod 10080 < 10)"
    by (rule bex_cong [OF refl], rule matches_window) (use assms in \<open>simp_all add: wakes_at_def\<close>)
  finally show ?thesis .
qed

text \<open>At any minute of the user's clock, mark or not, a schedule is active that fired less than ten minutes ago.\<close>

lemma active_near:
  assumes "hour_ok e" "e \<in> set entries" "(h, m) \<in> set (fires e)" "(t - fire_minute e (h, m)) mod 10080 < 10"
    and clock: "sc_clock env (fst (resolve_timezone env lat lon)) now = clock_of_minute t"
  shows "is_schedule_active env entries lat lon now"
proof -
  define d H M where "d = t div 1440 mod 7 + 1" and "H = t mod 1440 div 60" and "M = t mod 60"
  have rng: "d \<in> {1..7}" "H \<in> {0..23}" "M \<in> {0..59}" "ah_day e \<in> {1..7}"
    using assms(1) zdiv_mono1 [of "t mod 1440" 1439 60] by (simp_all add: d_def H_def M_def hour_ok_def)
  have hm: "h \<in> {0..23}" "m \<in> {0..59}" using fires_range [OF assms(1,3)] by auto
  define g where "g = (d - 1) * 1440 + H * 60 + M - ((ah_day e - 1) * 1440 + h * 60 + m)"
  have "t mod 10080 = (d - 1) * 1440 + H * 60 + M"
    using minute_of_week [of t] by (simp add: d_def H_def M_def)
  then have "(t - fire_minute e (h, m)) mod 10080 = g mod 10080"
    unfolding g_def by (metis fire_minute_def fst_conv mod_diff_left_eq snd_conv)
  with assms(4) have near: "g mod 10080 < 10" by simp
  have "- 10080 < g" "g < 10080" using rng hm by (auto simp: g_def)
  then have "g mod 10080 = (if g < 0 then g + 10080 else g)"
    using mod_pos_pos_trivial [of "g + 10080" 10080] by auto
  with near have "(0 \<le> g \<and> g < 10) \<or> g < - 10070" by (cases "g < 0") simp_all
  from window_near [OF rng(1,4,2) hm(1) rng(3) hm(2) this [unfolded g_def]]
  have "matches_time_window e d (if d - 1 < 1 then 7 else d - 1) H M"
    unfolding matches_time_window_def list_ex_iff by (intro bexI [OF _ assms(3)]) (simp only: prod.case)
  then show ?thesis
    using assms(2) by (auto simp: is_schedule_active_def clock clock_of_minute_def iso_dow_clock list_ex_iff Let_def
        d_def H_def M_def)
qed

text \<open>C29: The ten-minute window is exact: when the scheduler wakes at one of its marks (in the user's zone), a schedule is found
  active if and only if one of its fire points, over the whole week and across midnight and the turn of the week, lies
  less than ten minutes back.\<close>

theorem schedule_window_exact:
  assumes "\<forall>e \<in> set entries. hour_ok e"
    and "sc_clock env (fst (resolve_timezone env lat lon)) now = clock_of_minute t" and "t mod 60 \<in> set profile_schedule_minutes"
  shows "is_schedule_active env entries lat lon now \<longleftrightarrow>
    (\<exists>e \<in> set entries. \<exists>(h, m) \<in> set (fires e). (t - ((ah_day e - 1) * 1440 + h * 60 + m)) mod 10080 < 10)"
  using active_window [of entries env lat lon now t] assms
  by (simp add: wakes_at_def fire_minute_def case_prod_unfold)

section \<open>The next mark\<close>

lemma find_first_ge:
  assumes "sorted (xs :: int list)" "find P xs = Some m" "m' \<in> set xs" "m' < m"
  shows "\<not> P m'"
  using assms by (induction xs) (auto split: if_splits)

lemma mark_test:
  assumes "0 \<le> r" "r < (3600000000000 :: int)"
  shows "(m > r div 60000000000 \<or> m = r div 60000000000 \<and> r mod 60000000000 = 0) \<longleftrightarrow> r \<le> m * 60000000000"
proof -
  define q s where "q = r div 60000000000" and "s = r mod 60000000000"
  have r: "r = q * 60000000000 + s" "0 \<le> s" "s < 60000000000" by (simp_all add: q_def s_def)
  consider "m < q" | "m = q" | "q < m" by linarith
  then have "(m > q \<or> m = q \<and> s = 0) \<longleftrightarrow> r \<le> m * 60000000000"
    by cases (use r in auto)
  then show ?thesis by (simp only: q_def s_def)
qed

text \<open>The schedulers sleep until the next mark and over none: the time they wake at is not before now, is a mark of the
  server's local clock, and no instant from now until then is one.\<close>

theorem next_mark_exact:
  assumes "minutes \<noteq> []" and "sorted minutes" and "set minutes \<subseteq> {0..59}"
  shows "now \<le> next_schedule_time offset now minutes \<and>
    (\<exists>m \<in> set minutes. (next_schedule_time offset now minutes + offset) mod 3600000000000 = m * 60000000000) \<and>
    (\<forall>u. now \<le> u \<and> u < next_schedule_time offset now minutes \<longrightarrow>
       \<not> (\<exists>m \<in> set minutes. (u + offset) mod 3600000000000 = m * 60000000000))"
proof -
  let ?H = "3600000000000 :: int" and ?M = "60000000000 :: int"
  define r where "r = (now + offset) mod ?H"
  define base where "base = now + offset - r"
  have r: "0 \<le> r" "r < ?H" by (simp_all add: r_def)
  have base: "base mod ?H = 0" "now + offset = base + r" by (simp_all add: base_def r_def)
  have min: "(now + offset) mod ?M = r mod ?M" unfolding r_def by (simp add: mod_mod_cancel)
  have rest: "(base + x) mod ?H = x" if "0 \<le> x" "x < ?H" for x
    using that base(1) mod_add_eq [of base ?H x] by simp
  have small: "0 \<le> m" "m * ?M < ?H" if "m \<in> set minutes" for m using assms(3) that by auto
  let ?found = "find (\<lambda>m. r \<le> m * ?M) minutes"
  have nxt: "next_schedule_time offset now minutes =
      (case ?found of Some m \<Rightarrow> base + m * ?M | None \<Rightarrow> base + ?H + hd minutes * ?M) - offset"
    by (simp only: next_schedule_time_def Let_def r_def [symmetric] base_def [symmetric] min mark_test [OF r])
  have shift: "u + offset = base + (u + offset - base)" for u by simp
  show ?thesis
  proof (cases ?found)
    case (Some m)
    then have m: "m \<in> set minutes" "r \<le> m * ?M" by (auto simp: find_Some_iff)
    have none: "\<not> (\<exists>m' \<in> set minutes. (u + offset) mod ?H = m' * ?M)" if u: "now \<le> u" "u < base + m * ?M - offset" for u
    proof
      assume "\<exists>m' \<in> set minutes. (u + offset) mod ?H = m' * ?M"
      moreover have "0 \<le> u + offset - base" "u + offset - base < ?H" "r \<le> u + offset - base" "u + offset - base < m * ?M"
        using u base(2) r(1) small(2) [OF m(1)] by linarith+
      ultimately obtain m' where m': "m' \<in> set minutes" "u + offset - base = m' * ?M"
        using rest shift by metis
      with find_first_ge [OF assms(2) Some m'(1)] \<open>u + offset - base < m * ?M\<close> \<open>r \<le> u + offset - base\<close> show False by simp
    qed
    have "(base + m * ?M) mod ?H = m * ?M" by (rule rest) (use small [OF m(1)] in simp_all)
    with m none show ?thesis unfolding nxt Some using base(2) by auto
  next
    case None
    let ?m = "hd minutes"
    have m: "?m \<in> set minutes" using assms(1) by simp
    have least: "?m \<le> m'" if "m' \<in> set minutes" for m' using assms(1,2) that by (cases minutes) auto
    have below: "m' * ?M < r" if "m' \<in> set minutes" for m' using None that by (auto simp: find_None_iff not_le)
    have none: "\<not> (\<exists>m' \<in> set minutes. (u + offset) mod ?H = m' * ?M)" if u: "now \<le> u" "u < base + ?H + ?m * ?M - offset" for u
    proof
      assume "\<exists>m' \<in> set minutes. (u + offset) mod ?H = m' * ?M"
      then obtain m' where m': "m' \<in> set minutes" "(u + offset) mod ?H = m' * ?M" by blast
      show False
      proof (cases "u + offset - base < ?H")
        case True
        moreover have "0 \<le> u + offset - base" "r \<le> u + offset - base" using u(1) base(2) r(1) by linarith+
        ultimately have "r \<le> m' * ?M" using rest [of "u + offset - base"] m'(2) by simp
        with below [OF m'(1)] show False by simp
      next
        case False
        moreover have "u + offset - base - ?H < ?m * ?M" using u(2) by linarith
        moreover have "(u + offset) mod ?H = (base + (u + offset - base - ?H)) mod ?H"
          using mod_add_self2 [of "base + (u + offset - base - ?H)" ?H] by simp
        ultimately have "m' * ?M < ?m * ?M"
          using rest [of "u + offset - base - ?H"] m'(2) small(2) [OF m] by simp
        with least [OF m'(1)] show False by simp
      qed
    qed
    have "(base + ?H + ?m * ?M) mod ?H = ?m * ?M"
      using rest [of "?m * ?M"] small [OF m] mod_add_self2 [of "base + ?m * ?M" ?H] by (simp add: ac_simps)
    moreover have "0 \<le> ?m * ?M" using small(1) [OF m] by simp
    then have "now \<le> base + ?H + ?m * ?M - offset" using base(2) r(2) by linarith
    ultimately show ?thesis unfolding nxt None using m none by auto
  qed
qed

text \<open>From any instant the next mark of any zone is less than ten minutes away.\<close>

lemma mark_gap:
  assumes "0 \<le> r" "r < (3600000000000 :: int)"
  shows "\<exists>m \<in> {0, 10, 15, 20, 30, 40, 45, 50, 60}. r \<le> m * 60000000000 \<and> m * 60000000000 < r + 600000000000"
proof -
  consider "r = 0" | "0 < r" "r \<le> 600000000000" | "600000000000 < r" "r \<le> 900000000000" | "900000000000 < r" "r \<le> 1200000000000"
    | "1200000000000 < r" "r \<le> 1800000000000" | "1800000000000 < r" "r \<le> 2400000000000"
    | "2400000000000 < r" "r \<le> 2700000000000" | "2700000000000 < r" "r \<le> 3000000000000" | "3000000000000 < r" using assms(1) by linarith
  then show ?thesis
  proof cases
    case 1 then show ?thesis using assms(2) by (intro bexI [of _ 0]) simp_all
  next
    case 2 then show ?thesis using assms(2) by (intro bexI [of _ 10]) simp_all
  next
    case 3 then show ?thesis using assms(2) by (intro bexI [of _ 15]) simp_all
  next
    case 4 then show ?thesis using assms(2) by (intro bexI [of _ 20]) simp_all
  next
    case 5 then show ?thesis using assms(2) by (intro bexI [of _ 30]) simp_all
  next
    case 6 then show ?thesis using assms(2) by (intro bexI [of _ 40]) simp_all
  next
    case 7 then show ?thesis using assms(2) by (intro bexI [of _ 45]) simp_all
  next
    case 8 then show ?thesis using assms(2) by (intro bexI [of _ 50]) simp_all
  next
    case 9 then show ?thesis using assms(2) by (intro bexI [of _ 60]) simp_all
  qed
qed

lemma mark_ahead:
  "\<exists>u. start \<le> u \<and> u < start + 10 * 60000000000 \<and>
     (\<exists>m \<in> set profile_schedule_minutes. (u + offset) mod 3600000000000 = m * 60000000000)"
proof -
  define r where "r = (start + offset) mod 3600000000000"
  have "0 \<le> r" "r < 3600000000000" by (simp_all add: r_def)
  from mark_gap [OF this] obtain m where m: "m \<in> {0, 10, 15, 20, 30, 40, 45, 50, 60}" "r \<le> m * 60000000000"
    "m * 60000000000 < r + 600000000000" by blast
  have "start + (m * 60000000000 - r) + offset = (start + offset - r) + m * 60000000000" by simp
  moreover have "(start + offset - r) mod 3600000000000 = 0" by (simp only: r_def minus_mod_eq_mult_div mod_mult_self1_is_0)
  ultimately have "(start + (m * 60000000000 - r) + offset) mod 3600000000000 = (m * 60000000000) mod 3600000000000"
    by (metis add_0 mod_add_left_eq)
  moreover from m(1) have "m = 60 \<or> m \<in> set profile_schedule_minutes \<and> (m * 60000000000) mod 3600000000000 = m * 60000000000"
    unfolding profile_schedule_minutes_def by (elim insertE emptyE) simp_all
  moreover have "0 \<in> set profile_schedule_minutes" by (simp add: profile_schedule_minutes_def)
  moreover have "(60 * 60000000000) mod 3600000000000 = 0 * (60000000000 :: int)" by simp
  ultimately have "\<exists>k \<in> set profile_schedule_minutes. (start + (m * 60000000000 - r) + offset) mod 3600000000000 = k * 60000000000"
    by metis
  with m(2,3) show ?thesis by (intro exI [of _ "start + (m * 60000000000 - r)"]) simp
qed

text \<open>C30: A scheduler that is asleep when a fire point comes does not miss it. Let \<open>start\<close> be the instant at which the user's clock,
  in whatever zone, reaches a fire point of a schedule, in any week, and let neither clock be changed in the next ten
  minutes (a time the clocks skip is never reached, and so not fired). If the scheduler fell asleep before and its next mark,
  reckoned on the server's clock, has not passed, then it wakes less than ten minutes after \<open>start\<close>, and from then until the ten
  minutes are over it finds the schedule active.\<close>

theorem every_fire_noticed:
  assumes "\<forall>e \<in> set entries. hour_ok e" and "e \<in> set entries" and "(h, m) \<in> set (fires e)"
    and clock: "\<And>d. 0 \<le> d \<Longrightarrow> d < 10 * ns_minute \<Longrightarrow> sc_clock env (fst (resolve_timezone env lat lon)) (start + d) =
       clock_of_minute (week * 10080 + (ah_day e - 1) * 1440 + h * 60 + m + d div ns_minute)"
    and "asleep \<le> start" and "start \<le> next_schedule_time offset asleep profile_schedule_minutes"
  shows "next_schedule_time offset asleep profile_schedule_minutes < start + 10 * ns_minute \<and>
    (\<forall>t. next_schedule_time offset asleep profile_schedule_minutes \<le> t \<and> t < start + 10 * ns_minute \<longrightarrow>
       is_schedule_active env entries lat lon t)"
proof
  let ?wake = "next_schedule_time offset asleep profile_schedule_minutes"
  obtain u where u: "start \<le> u" "u < start + 10 * 60000000000"
    "\<exists>m \<in> set profile_schedule_minutes. (u + offset) mod 3600000000000 = m * 60000000000"
    using mark_ahead by blast
  have marks: "profile_schedule_minutes \<noteq> []" "sorted profile_schedule_minutes" "set profile_schedule_minutes \<subseteq> {0..59}"
    by (simp_all add: profile_schedule_minutes_def)
  have "\<not> u < ?wake" using next_mark_exact [OF marks, of asleep offset] u(1,3) assms(5) by auto
  with u(2) show "?wake < start + 10 * ns_minute" by linarith
  show "\<forall>t. ?wake \<le> t \<and> t < start + 10 * ns_minute \<longrightarrow> is_schedule_active env entries lat lon t"
  proof (intro allI impI, elim conjE)
    fix t assume t: "?wake \<le> t" "t < start + 10 * ns_minute"
    let ?d = "(t - start) div ns_minute"
    have d: "0 \<le> t - start" "t - start < 10 * ns_minute" using t assms(6) by linarith+
    have "?d \<le> (10 * ns_minute - 1) div ns_minute" by (rule zdiv_mono1) (use d in simp_all)
    then have k: "0 \<le> ?d" "?d < 10" using d(1) by (simp_all add: pos_imp_zdiv_nonneg_iff)
    have "sc_clock env (fst (resolve_timezone env lat lon)) t =
        clock_of_minute (week * 10080 + (ah_day e - 1) * 1440 + h * 60 + m + ?d)"
      using clock [OF d] by simp
    moreover have "(week * 10080 + (ah_day e - 1) * 1440 + h * 60 + m + ?d - fire_minute e (h, m)) mod 10080 < 10"
      using k by (simp add: fire_minute_def algebra_simps)
    moreover have "hour_ok e" using assms(1,2) by blast
    ultimately show "is_schedule_active env entries lat lon t" by (intro active_near [OF _ assms(2,3)])
  qed
qed

section \<open>Who is switched\<close>

definition active_profile :: "('z, 'e) schedule_env_scheme \<Rightarrow> humans \<Rightarrow> gotime \<Rightarrow> profile \<Rightarrow> bool" where
  "active_profile env humans now p \<longleftrightarrow> (\<exists>h. gget humans (pf_id p) = Some h \<and>
     is_schedule_active env (pf_parsed p) (h_latitude h) (h_longitude h) now)"

definition due :: "('z, 'e) schedule_env_scheme \<Rightarrow> humans \<Rightarrow> (string \<Rightarrow> bool) \<Rightarrow> gotime \<Rightarrow> string set \<Rightarrow> profile list \<Rightarrow> human \<Rightarrow> profile \<Rightarrow> bool" where
  "due env humans exec now A ps h p \<longleftrightarrow> gget humans (pf_id p) = Some h \<and> pf_id p \<notin> A \<and>
       find (\<lambda>q. pf_id q = pf_id p \<and> active_profile env humans now q) ps = Some p \<and>
       h_current_profile_no h \<noteq> pf_profile_no p \<and> exec (pf_id p)"

lemma switch_loop_mem:
  "s \<in> set (switch_loop env humans exec now A ps) \<longleftrightarrow> due env humans exec now A ps (ps_human s) (ps_profile s)"
proof (induction ps arbitrary: A)
  case (Cons q ps)
  consider (known) "pf_id q \<in> A" | (idle) "pf_id q \<notin> A" "\<not> active_profile env humans now q"
    | (fire) h where "pf_id q \<notin> A" "gget humans (pf_id q) = Some h" "active_profile env humans now q"
    by (auto simp: active_profile_def)
  then show ?case
  proof cases
    case known
    then show ?thesis by (auto simp: Cons.IH due_def split: if_splits)
  next
    case idle
    then have "switch_loop env humans exec now A (q # ps) = switch_loop env humans exec now A ps"
      by (auto simp: active_profile_def split: option.split)
    with idle show ?thesis by (simp add: Cons.IH due_def)
  next
    case fire
    let ?sw = "h_current_profile_no h \<noteq> pf_profile_no q \<and> exec (pf_id q)"
    have "switch_loop env humans exec now A (q # ps) =
        (if ?sw then [\<lparr>ps_human = h, ps_profile = q\<rparr>] else []) @ switch_loop env humans exec now (insert (pf_id q) A) ps"
      using fire by (auto simp: active_profile_def Let_def)
    then have "s \<in> set (switch_loop env humans exec now A (q # ps)) \<longleftrightarrow>
        (?sw \<and> ps_human s = h \<and> ps_profile s = q) \<or> s \<in> set (switch_loop env humans exec now (insert (pf_id q) A) ps)"
      by (cases s) auto
    also have "\<dots> \<longleftrightarrow> (?sw \<and> ps_human s = h \<and> ps_profile s = q) \<or>
        due env humans exec now (insert (pf_id q) A) ps (ps_human s) (ps_profile s)"
      by (simp only: Cons.IH)
    also have "\<dots> \<longleftrightarrow> due env humans exec now A (q # ps) (ps_human s) (ps_profile s)"
      using fire by (cases "pf_id (ps_profile s) = pf_id q") (auto simp: due_def)
    finally show ?thesis .
  qed
qed (simp add: due_def)

lemma switch_loop_fresh: "s \<in> set (switch_loop env humans exec now A ps) \<Longrightarrow> pf_id (ps_profile s) \<notin> A"
  by (simp add: switch_loop_mem due_def)

lemma switch_loop_distinct: "distinct (map (pf_id \<circ> ps_profile) (switch_loop env humans exec now A ps))"
proof (induction env humans exec now A ps rule: switch_loop.induct)
  case (2 env humans exec now A p ps)
  then show ?case by (auto simp: Let_def split: option.split dest: switch_loop_fresh)
qed simp

text \<open>C31: A check of the profiles switches a user exactly when the first of the user's profiles, in the iteration order
  of the map, whose schedule is active now is not the current one and the row can be updated; it switches to that
  profile, and no user twice.\<close>

theorem profile_switch_exact:
  "let candidates = filter (\<lambda>p. pf_parsed p \<noteq> []) (map snd profiles);
       active = (\<lambda>p. \<exists>h. gget humans (pf_id p) = Some h \<and> is_schedule_active env (pf_parsed p) (h_latitude h) (h_longitude h) now);
       switches = fst (check_profile_switches env (Some (humans, profiles)) exec now)
   in distinct (map (pf_id \<circ> ps_profile) switches) \<and>
      (\<forall>h p. \<lparr>ps_human = h, ps_profile = p\<rparr> \<in> set switches \<longleftrightarrow>
         gget humans (pf_id p) = Some h \<and> find (\<lambda>q. pf_id q = pf_id p \<and> active q) candidates = Some p \<and>
         h_current_profile_no h \<noteq> pf_profile_no p \<and> exec (pf_id p))"
proof -
  have cands: "filter (\<lambda>p. length (pf_parsed p) > 0) xs = filter (\<lambda>p. pf_parsed p \<noteq> []) xs" for xs by simp
  show ?thesis
    unfolding Let_def check_profile_switches_def option.case prod.case fst_conv cands
    by (simp add: switch_loop_distinct switch_loop_mem active_profile_def due_def)
qed

text \<open>Two profiles that are active at once: which of them wins depends on the iteration order alone.\<close>

lemma overlap_depends_on_order:
  assumes "gget humans i = Some h" "pf_id p = i" "pf_id q = i" "pf_profile_no p = h_current_profile_no h"
    "pf_profile_no q \<noteq> h_current_profile_no h" "exec i" "pf_parsed p \<noteq> []" "pf_parsed q \<noteq> []"
    "is_schedule_active env (pf_parsed p) (h_latitude h) (h_longitude h) now"
    "is_schedule_active env (pf_parsed q) (h_latitude h) (h_longitude h) now"
  shows "fst (check_profile_switches env (Some (humans, [(k, p), (l, q)])) exec now) = []"
    and "fst (check_profile_switches env (Some (humans, [(l, q), (k, p)])) exec now) = [\<lparr>ps_human = h, ps_profile = q\<rparr>]"
  using assms by (simp_all add: check_profile_switches_def)

section \<open>Who gets a summary\<close>

lemma summary_tick_mem:
  assumes "gok schedules" "\<forall>(i, by_type) \<in> set schedules. gok by_type"
  shows "(i, ty) \<in> set (summary_tick env (Some (humans, schedules)) now) \<longleftrightarrow>
    (\<exists>by_type entries h. gget schedules i = Some by_type \<and> gget by_type ty = Some entries \<and> entries \<noteq> [] \<and>
       gget humans i = Some h \<and> is_schedule_active env entries (h_latitude h) (h_longitude h) now)"
proof -
  have step: "(if es = [] then None else case gget humans j of None \<Rightarrow> None
      | Some h \<Rightarrow> if is_schedule_active env es (h_latitude h) (h_longitude h) now then Some (j, a) else None) = Some (i, ty) \<longleftrightarrow>
      es \<noteq> [] \<and> j = i \<and> a = ty \<and> (\<exists>h. gget humans i = Some h \<and> is_schedule_active env es (h_latitude h) (h_longitude h) now)"
    for es j a by (auto split: option.splits)
  have "(i, ty) \<in> set (summary_tick env (Some (humans, schedules)) now) \<longleftrightarrow>
      (\<exists>by_type entries h. (i, by_type) \<in> set schedules \<and> (ty, entries) \<in> set by_type \<and> entries \<noteq> [] \<and>
       gget humans i = Some h \<and> is_schedule_active env entries (h_latitude h) (h_longitude h) now)"
    (is "_ \<longleftrightarrow> ?R")
  proof -
    have "(i, ty) \<in> set (summary_tick env (Some (humans, schedules)) now) \<longleftrightarrow>
        (\<exists>x \<in> set schedules. \<exists>y \<in> set (snd x). snd y \<noteq> [] \<and> fst x = i \<and> fst y = ty \<and>
          (\<exists>h. gget humans i = Some h \<and> is_schedule_active env (snd y) (h_latitude h) (h_longitude h) now))"
      unfolding summary_tick_def option.case prod.case set_concat set_map UN_iff bex_simps case_prod_unfold map_filter_mem fst_conv snd_conv step ..
    also have "\<dots> \<longleftrightarrow> ?R"
    proof
      assume ?R
      then obtain by_type entries h where r: "(i, by_type) \<in> set schedules" "(ty, entries) \<in> set by_type" "entries \<noteq> []"
        "gget humans i = Some h" "is_schedule_active env entries (h_latitude h) (h_longitude h) now" by blast
      show "\<exists>x \<in> set schedules. \<exists>y \<in> set (snd x). snd y \<noteq> [] \<and> fst x = i \<and> fst y = ty \<and>
          (\<exists>h. gget humans i = Some h \<and> is_schedule_active env (snd y) (h_latitude h) (h_longitude h) now)"
        by (rule bexI [OF _ r(1)], simp only: snd_conv fst_conv, rule bexI [OF _ r(2)]) (use r(3-) in simp)
    qed (auto, blast)
    finally show ?thesis .
  qed
  also have "\<dots> \<longleftrightarrow> (\<exists>by_type entries h. gget schedules i = Some by_type \<and> gget by_type ty = Some entries \<and> entries \<noteq> [] \<and>
       gget humans i = Some h \<and> is_schedule_active env entries (h_latitude h) (h_longitude h) now)"
    using assms gmem_iff by (metis (no_types, lifting) case_prodD)
  finally show ?thesis .
qed


section \<open>Concrete runs\<close>

definition sample_schedule_env :: "unit schedule_env" where
  "sample_schedule_env = \<lparr>sc_zone_name = (\<lambda>_ _. []), sc_load_location = (\<lambda>_. None), sc_local = (),
     sc_clock = (\<lambda>_ t. clock_of_minute (t div ns_minute)), sc_default_tz = []\<rparr>"

text \<open>Sundays from 9:57 to 21:57, every six hours.\<close>

definition sample_hour :: active_hour where
  "sample_hour = \<lparr>ah_day = 7, ah_hours = 9, ah_mins = 57, ah_end_hours = 21, ah_end_mins = 57, ah_step = 6\<rparr>"

lemma sample_hour_ok: "\<forall>e \<in> set [sample_hour]. hour_ok e"
  by (simp add: sample_hour_def hour_ok_def)

lemma sample_fires: "fires sample_hour = [(9, 57), (15, 57), (21, 57)]"
  by (simp add: fires_def is_range_def sample_hour_def fires_from.simps)

lemma schedule_window_exact_witness:
  "is_schedule_active sample_schedule_env [sample_hour] 0 0 ((6 * 1440 + 16 * 60) * 60000000000)"
  using schedule_window_exact [OF sample_hour_ok, of sample_schedule_env 0 0 "(6 * 1440 + 16 * 60) * 60000000000" "6 * 1440 + 16 * 60"]
  by (simp add: sample_schedule_env_def sample_fires profile_schedule_minutes_def) (simp add: sample_hour_def)

text \<open>A server 5 hours 45 minutes ahead of the user, who is due at 21:57: it falls asleep at 21:55:00.000000001 of the user's clock
  and wakes at 22:00 of it, 3:45 of its own.\<close>

lemma every_fire_noticed_witness:
  "let start = (6 * 1440 + 21 * 60 + 57) * 60000000000; offset = 345 * 60000000000
   in is_schedule_active sample_schedule_env [sample_hour] 0 0 (next_schedule_time offset (start - 119999999999) profile_schedule_minutes)"
proof -
  let ?start = "(6 * 1440 + 21 * 60 + 57) * 60000000000 :: int" and ?offset = "345 * 60000000000 :: int"
  have wake: "next_schedule_time ?offset (?start - 119999999999) profile_schedule_minutes = ?start + 180000000000"
    by (simp add: next_schedule_time_def profile_schedule_minutes_def)
  have fire: "(21, 57) \<in> set (fires sample_hour)" by (simp add: sample_fires)
  have clock: "sc_clock sample_schedule_env (fst (resolve_timezone sample_schedule_env 0 0)) (?start + d) =
      clock_of_minute (0 * 10080 + (ah_day sample_hour - 1) * 1440 + 21 * 60 + 57 + d div ns_minute)" for d
    using div_mult_self1 [of 60000000000 d 9957] by (simp add: sample_schedule_env_def sample_hour_def add.commute)
  from every_fire_noticed [OF sample_hour_ok _ fire clock, of "?start - 119999999999" ?offset] wake
  show ?thesis by simp
qed

lemma next_mark_exact_witness:
  "3300000000001 \<le> next_schedule_time 0 3300000000001 profile_schedule_minutes \<and>
    (\<exists>m \<in> set profile_schedule_minutes. next_schedule_time 0 3300000000001 profile_schedule_minutes mod 3600000000000 = m * 60000000000)"
  using next_mark_exact [of profile_schedule_minutes 3300000000001 0] by (simp add: profile_schedule_minutes_def)

end
