(* ===== verification/Digest.thy ===== *)
theory Digest
  imports Schedule Summary RateLimit DeliveryTypes
begin

text \<open>
  The dispatch of quest summaries (\<open>cmd/processor/quest_summary_dispatch.go\<close>) and the loop of the summary scheduler around it
  (\<open>cmd/processor/summary_scheduler.go\<close>). Enriching a buffered webhook and rendering a group are parameters: an enriched quest
  is a value of any type, a render gives delivery jobs. A dispatch is one step here; what happens when a quest arrives while
  it runs is stated at the end.
\<close>

section \<open>Chunks\<close>

text \<open>A chunk: its entries, its position from 1, and the number of chunks.\<close>

function chunk_loop :: "nat \<Rightarrow> int \<Rightarrow> int \<Rightarrow> 'v list \<Rightarrow> ('v list \<times> int \<times> int) list" where
  "chunk_loop per i n entries =
     (if entries = [] \<or> per = 0 then [] else (take per entries, i, n) # chunk_loop per (i + 1) n (drop per entries))"
  by pat_completeness auto
termination
  by (relation "measure (\<lambda>(per, i, n, entries). length entries)") auto

declare chunk_loop.simps [simp del]

definition chunk_per_message :: "'v list \<Rightarrow> int \<Rightarrow> ('v list \<times> int \<times> int) list" where
  "chunk_per_message entries per =
     (if length entries = 0 then []
      else if per \<le> 0 \<or> int (length entries) \<le> per then [(entries, 1, 1)]
      else chunk_loop (nat per) 1 ((int (length entries) + per - 1) div per) entries)"

section \<open>Groups\<close>

type_synonym group_key = "int \<times> int \<times> int"

record group_summary =
  gs_clean :: int
  gs_latest_expires_at :: int

text \<open>The fold over the fresh entries: the views per group, in the order the groups are first seen, and per group the
  deletion bits and the latest expiry.\<close>

definition group_entry ::
  "(string \<Rightarrow> 'v option) \<Rightarrow> (group_key, 'v list) gomap \<times> (group_key, group_summary) gomap \<Rightarrow> buffered_quest
   \<Rightarrow> (group_key, 'v list) gomap \<times> (group_key, group_summary) gomap" where
  "group_entry enrich acc r =
     (let (groups, meta) = acc
      in case enrich (bq_payload r) of
           None \<Rightarrow> (groups, meta)
         | Some view \<Rightarrow>
             (let k = (bq_reward_type r, bq_reward r, bq_form r);
                  m = gget_or \<lparr>gs_clean = 0, gs_latest_expires_at = 0\<rparr> meta k;
                  m' = \<lparr>gs_clean = or (gs_clean m) (bq_clean r),
                        gs_latest_expires_at = (if bq_expires_at r > gs_latest_expires_at m then bq_expires_at r
                                                else gs_latest_expires_at m)\<rparr>
              in (gappend k [view] groups, gput k m' meta)))"

definition group_entries ::
  "(string \<Rightarrow> 'v option) \<Rightarrow> buffered_quest list \<Rightarrow> (group_key, 'v list) gomap \<times> (group_key, group_summary) gomap" where
  "group_entries enrich rows = foldl (group_entry enrich) ([], []) rows"

text \<open>One summary message before rendering: the group, the chunk with its position, the size of the group, the
  deletion bits and the seconds until it is deleted.\<close>

record 'v digest =
  dg_key :: group_key
  dg_entries :: "'v list"
  dg_index :: int
  dg_total :: int
  dg_count :: nat
  dg_clean :: int
  dg_ttl :: int

definition digest_of :: "group_summary \<Rightarrow> int \<Rightarrow> group_key \<Rightarrow> nat \<Rightarrow> 'v list \<times> int \<times> int \<Rightarrow> 'v digest" where
  "digest_of m now_s k entry_count c =
     (case c of (entries, i, n_chunks) \<Rightarrow>
        \<lparr>dg_key = k, dg_entries = entries, dg_index = i, dg_total = n_chunks, dg_count = entry_count, dg_clean = gs_clean m,
         dg_ttl = max (gs_latest_expires_at m - now_s) 0\<rparr>)"

definition digests_of ::
  "(group_key, 'v list) gomap \<times> (group_key, group_summary) gomap \<Rightarrow> int \<Rightarrow> int \<Rightarrow> 'v digest list" where
  "digests_of grouped max_per_message now_s =
     concat (map (\<lambda>(k, all).
        let m = gget_or \<lparr>gs_clean = 0, gs_latest_expires_at = 0\<rparr> (snd grouped) k
        in map (digest_of m now_s k (length all)) (chunk_per_message all max_per_message)) (fst grouped))"

section \<open>The dispatch\<close>

text \<open>What the template renderer gives (\<open>webhook.DeliveryJob\<close>); the fields the dispatch does not read are left out.\<close>

record rendered_job =
  rj_target :: string
  rj_type :: string
  rj_message :: string
  rj_name :: string
  rj_clean :: int
  rj_edit_key :: string
  rj_language :: string

record ('z, 'v) digest_env = "'z schedule_env" +
  dn_humans :: "string \<Rightarrow> human option"
  dn_locale :: string
  dn_enrich :: "string \<Rightarrow> string \<Rightarrow> 'v option"
  dn_validator :: "(string \<Rightarrow> string \<Rightarrow> string list \<Rightarrow> matched_user \<Rightarrow> bool \<times> string) option"
  dn_renderer :: "('v digest \<Rightarrow> matched_user \<Rightarrow> string \<Rightarrow> rendered_job list) option"
  dn_dispatching :: bool
  dn_breach_message :: "string \<Rightarrow> string \<Rightarrow> int \<Rightarrow> string"
  dn_max_per_message :: int
  dn_max_age :: int

definition summary_user :: "human \<Rightarrow> string \<Rightarrow> int \<Rightarrow> matched_user" where
  "summary_user h lang clean =
     \<lparr>mu_id = h_id h, mu_name = h_name h, mu_type = h_type h, mu_language = lang, mu_latitude = h_latitude h,
      mu_longitude = h_longitude h, mu_template = [], mu_distance = 0, mu_clean = clean, mu_ping = [], mu_bearing = 0,
      mu_cardinal_direction = [], mu_track_distance = 0, mu_pokemon_id = 0, mu_pvp_ranking_cap = 0,
      mu_pvp_ranking_league = 0, mu_pvp_ranking_worst = 0, mu_rsvp_changes = 0, mu_rule_uid = 0\<rparr>"

text \<open>The jobs of one message: the renderer's time to live is replaced, and the jobs bypass the alert limiter.\<close>

definition digest_job :: "int \<Rightarrow> rendered_job \<Rightarrow> job" where
  "digest_job ttl j =
     \<lparr>jb_target = rj_target j, jb_type = rj_type j, jb_message = rj_message j,
      jb_tth = \<lparr>tth_days = 0, tth_hours = 0, tth_minutes = 0, tth_seconds = ttl\<rparr>, jb_clean = rj_clean j,
      jb_edit_key = rj_edit_key j, jb_reply_key = [], jb_msg_type = [], jb_name = rj_name j, jb_language = rj_language j,
      jb_template = [], jb_delete_sent_id = [], jb_reply_to_id = [], jb_bypass_rate_limit = True, jb_snapshot = None\<rparr>"

definition digest_jobs ::
  "('v digest \<Rightarrow> matched_user \<Rightarrow> string \<Rightarrow> rendered_job list) \<Rightarrow> bool \<Rightarrow> human \<Rightarrow> string \<Rightarrow> 'v digest \<Rightarrow> job list" where
  "digest_jobs render dispatching h lang d =
     (let jobs = render d (summary_user h lang (dg_clean d)) lang
      in if length jobs = 0 \<or> \<not> dispatching then [] else map (digest_job (dg_ttl d)) jobs)"

text \<open>What a dispatch does to the user's bucket and the limiter, the bypass messages (refusals of the validator, the notice that
  the summary limit was reached), and the jobs.\<close>

definition dispatch_quest_summary ::
  "('z, 'v, 'e) digest_env_scheme \<Rightarrow> summary_buffer option \<Rightarrow> limiter option \<Rightarrow> string \<Rightarrow> string \<Rightarrow> gotime
   \<Rightarrow> summary_buffer option \<times> limiter option \<times> bypass list \<times> job list" where
  "dispatch_quest_summary env sbo lo human_id alert_type now =
     (if alert_type \<noteq> ''quest'' then (sbo, lo, [], [])
      else case sbo of None \<Rightarrow> (sbo, lo, [], [])
      | Some sb \<Rightarrow>
          let rows = list_quests sb human_id alert_type
          in if length rows = 0 then (sbo, lo, [], [])
             else
               let cleared = Some (clear_bucket human_id alert_type sb);
                   fresh = filter (\<lambda>r. bq_expires_at r > unix now) rows
               in if length fresh = 0 then (cleared, lo, [], [])
                  else case dn_humans env human_id of None \<Rightarrow> (cleared, lo, [], [])
                  | Some h \<Rightarrow>
                      let lang = (if h_language h = [] then dn_locale env else h_language h);
                          grouped = group_entries (\<lambda>payload. dn_enrich env payload lang) fresh
                      in if length (fst grouped) = 0 then (cleared, lo, [], [])
                         else
                           let (allowed, bypass) = filter_validation (map_option (\<lambda>v. v (bq_payload (hd fresh))) (dn_validator env)) ''quest'' (dn_dispatching env) []
                                 [summary_user h lang 0]
                           in if length allowed = 0 then (cleared, lo, bypass, [])
                              else case dn_renderer env of None \<Rightarrow> (cleared, lo, bypass, [])
                              | Some render \<Rightarrow>
                                  let jobs = concat (map (digest_jobs render (dn_dispatching env) h lang)
                                        (digests_of grouped (dn_max_per_message env) (unix now)))
                                  in (case lo of None \<Rightarrow> (cleared, lo, bypass, jobs)
                                      | Some l \<Rightarrow>
                                          let (l', result) = check_summary l (h_id h) (h_type h) now
                                          in if rr_allowed result then (cleared, Some l', bypass, jobs)
                                             else (cleared, Some l',
                                                   bypass @ (let msg = dn_breach_message env (h_type h) lang (rr_limit result)
                                                             in if rr_just_breached result \<and> dn_dispatching env \<and> msg \<noteq> []
                                                                then [(h_id h, h_type h, h_name h, msg)] else []), [])))"

section \<open>The loop\<close>

definition scheduler_sweep_every :: int where "scheduler_sweep_every = 6"

text \<open>One wake-up, after \<open>n\<close> earlier ones.\<close>

definition scheduler_wake ::
  "('z, 'v, 'e) digest_env_scheme \<Rightarrow> (humans \<times> schedules) option \<Rightarrow> int \<Rightarrow> summary_buffer \<Rightarrow> limiter option \<Rightarrow> gotime
   \<Rightarrow> summary_buffer \<times> limiter option \<times> bypass list \<times> job list" where
  "scheduler_wake env snap n sb lo now =
     (let (sbo, lo', bypass, jobs) =
            foldl (\<lambda>(sbo, lo, bs, js) (human_id, alert_type).
               (let (sbo', lo', b, j) = dispatch_quest_summary env sbo lo human_id alert_type now in (sbo', lo', bs @ b, js @ j)))
             (Some sb, lo, [], []) (summary_tick env snap now);
          sb' = (case sbo of None \<Rightarrow> sb | Some s \<Rightarrow> s)
      in (if (n + 1) mod scheduler_sweep_every = 0 then fst (sweep_expired (unix now) (dn_max_age env) sb') else sb', lo', bypass, jobs))"

section \<open>Chunks partition a group\<close>

lemma chunk_loop_props:
  assumes "0 < per"
  shows "concat (map fst (chunk_loop per i n xs)) = xs"
    and "c \<in> set (chunk_loop per i n xs) \<Longrightarrow> fst c \<noteq> [] \<and> length (fst c) \<le> per \<and> snd (snd c) = n"
    and "length (chunk_loop per i n xs) = (length xs + per - 1) div per"
    and "map (\<lambda>c. fst (snd c)) (chunk_loop per i n xs) = map (\<lambda>j. i + int j) [0..<length (chunk_loop per i n xs)]"
proof -
  have "concat (map fst (chunk_loop per i n xs)) = xs \<and>
      (\<forall>c \<in> set (chunk_loop per i n xs). fst c \<noteq> [] \<and> length (fst c) \<le> per \<and> snd (snd c) = n) \<and>
      length (chunk_loop per i n xs) = (length xs + per - 1) div per \<and>
      map (\<lambda>c. fst (snd c)) (chunk_loop per i n xs) = map (\<lambda>j. i + int j) [0..<length (chunk_loop per i n xs)]"
    using assms
  proof (induction per i n xs rule: chunk_loop.induct)
    case (1 per i n xs)
    show ?case
    proof (cases "xs = []")
      case True
      then show ?thesis using 1(2) by (subst (1 2 3 4 5) chunk_loop.simps) simp
    next
      case False
      then have step: "chunk_loop per i n xs = (take per xs, i, n) # chunk_loop per (i + 1) n (drop per xs)"
        using 1(2) by (subst chunk_loop.simps) simp
      have IH: "concat (map fst (chunk_loop per (i + 1) n (drop per xs))) = drop per xs"
        "\<forall>c \<in> set (chunk_loop per (i + 1) n (drop per xs)). fst c \<noteq> [] \<and> length (fst c) \<le> per \<and> snd (snd c) = n"
        "length (chunk_loop per (i + 1) n (drop per xs)) = (length (drop per xs) + per - 1) div per"
        "map (\<lambda>c. fst (snd c)) (chunk_loop per (i + 1) n (drop per xs)) = map (\<lambda>j. (i + 1) + int j) [0..<length (chunk_loop per (i + 1) n (drop per xs))]"
        using 1(1) [OF _ 1(2)] False 1(2) by auto
      have len: "Suc ((length (drop per xs) + per - 1) div per) = (length xs + per - 1) div per"
      proof (cases "per \<le> length xs")
        case True
        then have "length xs + per - 1 = (length (drop per xs) + per - 1) + per" using 1(2) by simp
        then show ?thesis using 1(2) by (simp only: div_add_self2)
      next
        case small: False
        moreover from False have "1 \<le> length xs" by (cases xs) simp_all
        ultimately have "per * 1 \<le> length xs + per - 1" "length xs + per - 1 < per * Suc 1" by simp_all
        then have "(length xs + per - 1) div per = 1" by (rule div_nat_eqI)
        then show ?thesis using small 1(2) by simp
      qed
      have upt: "[0..<Suc k] = 0 # map Suc [0..<k]" for k by (simp add: upt_conv_Cons map_Suc_upt del: upt_Suc)
      define k where "k = (length (drop per xs) + per - 1) div per"
      show ?thesis
        unfolding step len [symmetric] using IH False 1(2) by (simp add: upt comp_def add.assoc k_def [symmetric] del: upt_Suc)
    qed
  qed
  then show "concat (map fst (chunk_loop per i n xs)) = xs"
    "c \<in> set (chunk_loop per i n xs) \<Longrightarrow> fst c \<noteq> [] \<and> length (fst c) \<le> per \<and> snd (snd c) = n"
    "length (chunk_loop per i n xs) = (length xs + per - 1) div per"
    "map (\<lambda>c. fst (snd c)) (chunk_loop per i n xs) = map (\<lambda>j. i + int j) [0..<length (chunk_loop per i n xs)]" by auto
qed

lemma chunks_partition:
  "concat (map fst (chunk_per_message xs per)) = xs"
  "c \<in> set (chunk_per_message xs per) \<Longrightarrow> fst c \<noteq> [] \<and> (0 < per \<longrightarrow> int (length (fst c)) \<le> per) \<and>
     snd (snd c) = int (length (chunk_per_message xs per))"
  "map (\<lambda>c. fst (snd c)) (chunk_per_message xs per) = map (\<lambda>j. 1 + int j) [0..<length (chunk_per_message xs per)]"
proof -
  let ?n = "(int (length xs) + per - 1) div per"
  have big: "chunk_per_message xs per = chunk_loop (nat per) 1 ?n xs" "?n = int (length (chunk_loop (nat per) 1 ?n xs))" "0 < nat per"
    if "xs \<noteq> []" "\<not> (per \<le> 0 \<or> int (length xs) \<le> per)"
  proof -
    show p: "0 < nat per" using that by simp
    show "chunk_per_message xs per = chunk_loop (nat per) 1 ?n xs" using that by (simp add: chunk_per_message_def)
    have "?n = int (length xs + nat per - 1) div int (nat per)" using p by (simp add: of_nat_diff)
    then have "int ((length xs + nat per - 1) div nat per) = ?n" by (simp only: zdiv_int)
    then show "?n = int (length (chunk_loop (nat per) 1 ?n xs))"
      by (simp only: chunk_loop_props(3) [OF p])
  qed
  have "concat (map fst (chunk_per_message xs per)) = xs \<and>
      (\<forall>c \<in> set (chunk_per_message xs per). fst c \<noteq> [] \<and> (0 < per \<longrightarrow> int (length (fst c)) \<le> per) \<and>
        snd (snd c) = int (length (chunk_per_message xs per))) \<and>
      map (\<lambda>c. fst (snd c)) (chunk_per_message xs per) = map (\<lambda>j. 1 + int j) [0..<length (chunk_per_message xs per)]"
  proof (cases "xs \<noteq> [] \<and> \<not> (per \<le> 0 \<or> int (length xs) \<le> per)")
    case True
    note b = big [OF conjunct1 [OF True] conjunct2 [OF True]]
    have "int (length (fst c)) \<le> per" if "length (fst c) \<le> nat per" for c :: "'a list \<times> int \<times> int"
      using that b(3) by linarith
    then show ?thesis
      using chunk_loop_props(1) [OF b(3), where i = 1 and n = ?n and xs = xs]
        chunk_loop_props(2) [OF b(3), where i = 1 and n = ?n and xs = xs]
        chunk_loop_props(4) [OF b(3), where i = 1 and n = ?n and xs = xs] b(2)
      unfolding b(1) by auto
  next
    case False
    then show ?thesis by (auto simp: chunk_per_message_def)
  qed
  then show "concat (map fst (chunk_per_message xs per)) = xs"
    "c \<in> set (chunk_per_message xs per) \<Longrightarrow> fst c \<noteq> [] \<and> (0 < per \<longrightarrow> int (length (fst c)) \<le> per) \<and>
     snd (snd c) = int (length (chunk_per_message xs per))"
    "map (\<lambda>c. fst (snd c)) (chunk_per_message xs per) = map (\<lambda>j. 1 + int j) [0..<length (chunk_per_message xs per)]" by blast+
qed

section \<open>What the messages say\<close>

text \<open>The quests of a group: the fresh entries of one reward that can be enriched.\<close>

definition group_members :: "(string \<Rightarrow> 'v option) \<Rightarrow> group_key \<Rightarrow> buffered_quest list \<Rightarrow> buffered_quest list" where
  "group_members enrich k rows = filter (\<lambda>r. (bq_reward_type r, bq_reward r, bq_form r) = k \<and> enrich (bq_payload r) \<noteq> None) rows"

definition group_views :: "(string \<Rightarrow> 'v option) \<Rightarrow> group_key \<Rightarrow> buffered_quest list \<Rightarrow> 'v list" where
  "group_views enrich k rows = map (\<lambda>r. the (enrich (bq_payload r))) (group_members enrich k rows)"

lemma group_entries_props:
  fixes enrich :: "string \<Rightarrow> 'v option"
  defines "g \<equiv> group_entries enrich"
  shows "gok (fst (g rows))"
    and "gget (fst (g rows)) k = (if group_members enrich k rows = [] then None else Some (group_views enrich k rows))"
    and "bit (gs_clean (gget_or \<lparr>gs_clean = 0, gs_latest_expires_at = 0\<rparr> (snd (g rows)) k)) i \<longleftrightarrow>
      (\<exists>r \<in> set (group_members enrich k rows). bit (bq_clean r) i)"
    and "gs_latest_expires_at (gget_or \<lparr>gs_clean = 0, gs_latest_expires_at = 0\<rparr> (snd (g rows)) k) =
      foldr max (map bq_expires_at (rev (group_members enrich k rows))) 0"
proof -
  have "gok (fst (g rows)) \<and>
     (\<forall>k. gget (fst (g rows)) k = (if group_members enrich k rows = [] then None else Some (group_views enrich k rows))) \<and>
     (\<forall>k. (\<forall>i. bit (gs_clean (gget_or \<lparr>gs_clean = 0, gs_latest_expires_at = 0\<rparr> (snd (g rows)) k)) i \<longleftrightarrow>
        (\<exists>r \<in> set (group_members enrich k rows). bit (bq_clean r) i)) \<and>
      gs_latest_expires_at (gget_or \<lparr>gs_clean = 0, gs_latest_expires_at = 0\<rparr> (snd (g rows)) k) =
        foldr max (map bq_expires_at (rev (group_members enrich k rows))) 0)"
  proof (induction rows rule: rev_induct)
    case Nil
    show ?case by (simp add: g_def group_entries_def group_members_def)
  next
    case (snoc r rows)
    obtain groups meta where gm: "g rows = (groups, meta)" by (cases "g rows")
    have step: "g (rows @ [r]) = group_entry enrich (groups, meta) r"
      using gm by (simp add: g_def group_entries_def)
    have ok: "gok groups" and look: "gget groups k = (if group_members enrich k rows = [] then None else Some (group_views enrich k rows))"
      and cl: "bit (gs_clean (gget_or \<lparr>gs_clean = 0, gs_latest_expires_at = 0\<rparr> meta k)) i \<longleftrightarrow> (\<exists>r \<in> set (group_members enrich k rows). bit (bq_clean r) i)"
      and lx: "gs_latest_expires_at (gget_or \<lparr>gs_clean = 0, gs_latest_expires_at = 0\<rparr> meta k) = foldr max (map bq_expires_at (rev (group_members enrich k rows))) 0"
      for k i using snoc unfolding gm by (simp_all del: split_paired_All)
    show ?case
    proof (cases "enrich (bq_payload r)")
      case None
      then have "group_members enrich k (rows @ [r]) = group_members enrich k rows" for k by (simp add: group_members_def)
      then show ?thesis using step None ok look cl lx
        by (simp add: group_entry_def group_views_def del: split_paired_All)
    next
      case (Some view)
      let ?k = "(bq_reward_type r, bq_reward r, bq_form r)"
      have mem: "group_members enrich k (rows @ [r]) = group_members enrich k rows @ (if k = ?k then [r] else [])" for k
        using Some by (auto simp: group_members_def)
      have views: "gget_or [] groups k = group_views enrich k rows" for k
        using look by (simp add: gget_or_def group_views_def)
      have fst': "fst (g (rows @ [r])) = gappend ?k [view] groups"
        and snd': "snd (g (rows @ [r])) = gput ?k
          \<lparr>gs_clean = or (gs_clean (gget_or \<lparr>gs_clean = 0, gs_latest_expires_at = 0\<rparr> meta ?k)) (bq_clean r),
           gs_latest_expires_at = max (bq_expires_at r) (gs_latest_expires_at (gget_or \<lparr>gs_clean = 0, gs_latest_expires_at = 0\<rparr> meta ?k))\<rparr> meta"
        using step Some by (simp_all add: group_entry_def Let_def max_def)
      have "gok (gappend ?k [view] groups)" by (rule gok_gappend [OF ok])
      moreover have "gget (gappend ?k [view] groups) k =
          (if group_members enrich k (rows @ [r]) = [] then None else Some (group_views enrich k (rows @ [r])))" for k
        using Some by (simp add: gappend_def gget_put views look mem group_views_def)
      moreover have "bit (gs_clean (gget_or \<lparr>gs_clean = 0, gs_latest_expires_at = 0\<rparr> (snd (g (rows @ [r]))) k)) i \<longleftrightarrow>
          (\<exists>r \<in> set (group_members enrich k (rows @ [r])). bit (bq_clean r) i)" for k i
        by (auto simp: snd' gget_or_put mem bit_or_iff cl)
      moreover have "gs_latest_expires_at (gget_or \<lparr>gs_clean = 0, gs_latest_expires_at = 0\<rparr> (snd (g (rows @ [r]))) k) =
          foldr max (map bq_expires_at (rev (group_members enrich k (rows @ [r])))) 0" for k
        by (simp add: snd' gget_or_put mem lx)
      ultimately show ?thesis unfolding fst' by (simp del: split_paired_All)
    qed
  qed
  then show "gok (fst (g rows))"
    "gget (fst (g rows)) k = (if group_members enrich k rows = [] then None else Some (group_views enrich k rows))"
    "bit (gs_clean (gget_or \<lparr>gs_clean = 0, gs_latest_expires_at = 0\<rparr> (snd (g rows)) k)) i \<longleftrightarrow>
      (\<exists>r \<in> set (group_members enrich k rows). bit (bq_clean r) i)"
    "gs_latest_expires_at (gget_or \<lparr>gs_clean = 0, gs_latest_expires_at = 0\<rparr> (snd (g rows)) k) =
      foldr max (map bq_expires_at (rev (group_members enrich k rows))) 0" by blast+
qed

lemma list_quests_clear:
  "list_quests (clear_bucket h a sb) h' a' = (if h' = h \<and> a' = a then [] else list_quests sb h' a')"
proof (cases "gget sb h")
  case None
  then show ?thesis by (auto simp: list_quests_def clear_bucket_def gget_or_def)
next
  case (Some t)
  have "gget_or [] (gdel a t) a'' = (if a'' = a then [] else gget_or [] t a'')" for a''
    by (simp add: gget_or_def gget_del)
  moreover have "gget_or [] t a'' = []" if "gdel a t = []" "a'' \<noteq> a" for a''
    using that gget_del [of a t a''] by (simp add: gget_or_def)
  moreover have "gget_or [] (gdel h sb) h'' = (if h'' = h then [] else gget_or [] sb h'')" for h''
    by (simp add: gget_or_def gget_del)
  ultimately show ?thesis
    using Some by (auto simp: list_quests_def clear_bucket_def Let_def gget_or_put) (auto simp: gget_or_def)
qed

lemma digests_of_key:
  assumes "gok (fst g)"
  shows "filter (\<lambda>d. dg_key d = k) (digests_of g mx now) =
    (case gget (fst g) k of None \<Rightarrow> []
     | Some all \<Rightarrow> map (digest_of (gget_or \<lparr>gs_clean = 0, gs_latest_expires_at = 0\<rparr> (snd g) k) now k (length all)) (chunk_per_message all mx))"
proof -
  have "filter (\<lambda>d. dg_key d = k) (concat (map (\<lambda>(k', all). map (digest_of (M k') now k' (length all)) (chunk_per_message all mx)) groups)) =
      (case gget groups k of None \<Rightarrow> [] | Some all \<Rightarrow> map (digest_of (M k) now k (length all)) (chunk_per_message all mx))"
    if "gok groups" for groups :: "(group_key, 'a list) gomap" and M
    using that
  proof (induction groups)
    case (Cons g groups)
    obtain k' all where g: "g = (k', all)" by (cases g)
    have own: "filter (\<lambda>d. dg_key d = k) (map (digest_of m now k' n) cs) = (if k' = k then map (digest_of m now k' n) cs else [])" for m n cs
      by (auto simp: digest_of_def filter_empty_conv split: prod.split intro!: filter_True)
    show ?case using Cons unfolding g by (auto simp: own gok_Cons gget_Cons)
  qed simp
  from this [OF assms] show ?thesis by (simp add: digests_of_def Let_def)
qed

lemma max_expiry:
  assumes "ms \<noteq> []" "\<And>r. r \<in> set ms \<Longrightarrow> bq_expires_at r > (now :: int)" "0 \<le> now"
  shows "\<exists>r \<in> set ms. bq_expires_at r = foldr max (map bq_expires_at (rev ms)) 0"
    and "r \<in> set ms \<Longrightarrow> bq_expires_at r \<le> foldr max (map bq_expires_at (rev ms)) 0"
proof -
  show up: "r \<in> set ms \<Longrightarrow> bq_expires_at r \<le> foldr max (map bq_expires_at (rev ms)) 0" for r
    by (induction ms rule: rev_induct) auto
  have "foldr max (map bq_expires_at (rev ms)) 0 = 0 \<or> (\<exists>r \<in> set ms. bq_expires_at r = foldr max (map bq_expires_at (rev ms)) 0)"
    by (induction ms rule: rev_induct) (auto simp: max_def)
  moreover obtain r where "r \<in> set ms" using assms(1) by (cases ms) auto
  ultimately show "\<exists>r \<in> set ms. bq_expires_at r = foldr max (map bq_expires_at (rev ms)) 0"
    using assms(2,3) up by fastforce
qed

text \<open>The properties of the messages of one dispatch, group by group.\<close>

lemma digests_complete:
  fixes enrich :: "string \<Rightarrow> 'v option"
  defines "ds \<equiv> \<lambda>rows mx now. digests_of (group_entries enrich rows) mx now"
  assumes fresh: "\<And>r. r \<in> set rows \<Longrightarrow> bq_expires_at r > now" and "0 \<le> now"
  shows "concat (map dg_entries (filter (\<lambda>d. dg_key d = k) (ds rows mx now))) = group_views enrich k rows"
    and "map (\<lambda>d. (dg_index d, dg_total d)) (filter (\<lambda>d. dg_key d = k) (ds rows mx now)) =
       map (\<lambda>j. (1 + int j, int (length (filter (\<lambda>d. dg_key d = k) (ds rows mx now)))))
         [0..<length (filter (\<lambda>d. dg_key d = k) (ds rows mx now))]"
    and "d \<in> set (ds rows mx now) \<Longrightarrow>
       dg_entries d \<noteq> [] \<and> (0 < mx \<longrightarrow> int (length (dg_entries d)) \<le> mx) \<and>
       dg_count d = length (group_members enrich (dg_key d) rows) \<and>
       (\<forall>i. bit (dg_clean d) i \<longleftrightarrow> (\<exists>r \<in> set (group_members enrich (dg_key d) rows). bit (bq_clean r) i)) \<and>
       (\<exists>r \<in> set (group_members enrich (dg_key d) rows). bq_expires_at r = now + dg_ttl d) \<and>
       (\<forall>r \<in> set (group_members enrich (dg_key d) rows). bq_expires_at r \<le> now + dg_ttl d)"
proof -
  note props = group_entries_props [of enrich rows]
  have key: "filter (\<lambda>d. dg_key d = k) (ds rows mx now) =
      (if group_members enrich k rows = [] then []
       else map (digest_of (gget_or \<lparr>gs_clean = 0, gs_latest_expires_at = 0\<rparr> (snd (group_entries enrich rows)) k) now k
              (length (group_members enrich k rows))) (chunk_per_message (group_views enrich k rows) mx))" for k
    using props(2) [of k] by (simp add: ds_def digests_of_key [OF props(1)] group_views_def)
  have empty: "group_views enrich k rows = []" if "group_members enrich k rows = []" for k
    using that by (simp add: group_views_def)
  have entries: "map dg_entries (map (digest_of m now k n) cs) = map fst cs"
    and pairs: "map (\<lambda>d. (dg_index d, dg_total d)) (map (digest_of m now k n) cs) = map snd cs" for m k n and cs :: "('v list \<times> int \<times> int) list"
    by (auto simp: digest_of_def split: prod.split)
  show "concat (map dg_entries (filter (\<lambda>d. dg_key d = k) (ds rows mx now))) = group_views enrich k rows"
    unfolding key using empty [of k] by (simp add: entries chunks_partition(1) del: map_map)
  have snds: "map snd cs = map (\<lambda>j. (1 + int j, int (length cs))) [0..<length cs]"
    if "map (\<lambda>c. fst (snd c)) cs = map (\<lambda>j. 1 + int j) [0..<length cs]" "\<And>c. c \<in> set cs \<Longrightarrow> snd (snd c) = int (length cs)"
    for cs :: "('v list \<times> int \<times> int) list"
  proof (rule nth_equalityI)
    fix j assume "j < length (map snd cs)"
    then have j: "j < length cs" by simp
    have "map (\<lambda>c. fst (snd c)) cs ! j = map (\<lambda>j. 1 + int j) [0..<length cs] ! j" using that(1) by simp
    then show "map snd cs ! j = map (\<lambda>j. (1 + int j, int (length cs))) [0..<length cs] ! j"
      using that(2) [OF nth_mem [OF j]] j by (simp add: prod_eq_iff)
  qed simp
  show "map (\<lambda>d. (dg_index d, dg_total d)) (filter (\<lambda>d. dg_key d = k) (ds rows mx now)) =
       map (\<lambda>j. (1 + int j, int (length (filter (\<lambda>d. dg_key d = k) (ds rows mx now)))))
         [0..<length (filter (\<lambda>d. dg_key d = k) (ds rows mx now))]"
    unfolding key using snds [OF chunks_partition(3) conjunct2 [OF conjunct2 [OF chunks_partition(2)]]]
    by (simp add: pairs del: map_map)
  assume "d \<in> set (ds rows mx now)"
  then have "d \<in> set (filter (\<lambda>d'. dg_key d' = dg_key d) (ds rows mx now))" by simp
  then obtain c where some: "group_members enrich (dg_key d) rows \<noteq> []"
    and c: "c \<in> set (chunk_per_message (group_views enrich (dg_key d) rows) mx)"
    and d: "d = digest_of (gget_or \<lparr>gs_clean = 0, gs_latest_expires_at = 0\<rparr> (snd (group_entries enrich rows)) (dg_key d)) now (dg_key d)
              (length (group_members enrich (dg_key d) rows)) c"
    unfolding key by (auto split: if_splits)
  let ?ms = "group_members enrich (dg_key d) rows"
  have sub: "\<And>r. r \<in> set ?ms \<Longrightarrow> bq_expires_at r > now" using fresh by (auto simp: group_members_def)
  note mx = max_expiry [OF some sub assms(3)]
  have "now \<le> foldr max (map bq_expires_at (rev ?ms)) 0" using mx(1) sub by fastforce
  then have ttl: "now + dg_ttl d = foldr max (map bq_expires_at (rev ?ms)) 0"
    by (subst d) (simp add: digest_of_def props(4) split: prod.split)
  have "bit (dg_clean d) i \<longleftrightarrow> (\<exists>r \<in> set ?ms. bit (bq_clean r) i)" for i
    by (subst d) (simp add: digest_of_def props(3) split: prod.split)
  moreover have "dg_entries d = fst c" "dg_count d = length ?ms"
    by (subst d, simp add: digest_of_def split: prod.split)+
  ultimately show "dg_entries d \<noteq> [] \<and> (0 < mx \<longrightarrow> int (length (dg_entries d)) \<le> mx) \<and>
       dg_count d = length ?ms \<and> (\<forall>i. bit (dg_clean d) i \<longleftrightarrow> (\<exists>r \<in> set ?ms. bit (bq_clean r) i)) \<and>
       (\<exists>r \<in> set ?ms. bq_expires_at r = now + dg_ttl d) \<and> (\<forall>r \<in> set ?ms. bq_expires_at r \<le> now + dg_ttl d)"
    using chunks_partition(2) [OF c] mx unfolding ttl by auto
qed

section \<open>The dispatch as a whole\<close>


definition sample_summary_human :: human where
  "sample_summary_human =
     \<lparr>h_id = ''u1'', h_name = ''Ann'', h_type = ''discord:user'', h_enabled = True, h_admin_disable = False, h_area = [],
      h_area_restriction = None, h_latitude = 0, h_longitude = 0, h_language = [], h_current_profile_no = 1,
      h_blocked_alerts = [], h_blocked_set = {}, h_locations = None\<rparr>"

definition sample_rendered :: "string \<Rightarrow> rendered_job" where
  "sample_rendered lang = \<lparr>rj_target = ''u1'', rj_type = ''discord:user'', rj_message = ''msg'', rj_name = ''Ann'', rj_clean = 1,
     rj_edit_key = [], rj_language = lang\<rparr>"

definition sample_digest_env :: "(unit, string) digest_env" where
  "sample_digest_env =
     \<lparr>sc_zone_name = (\<lambda>_ _. []), sc_load_location = (\<lambda>_. None), sc_local = (), sc_clock = (\<lambda>_ _. (0, 0, 0)), sc_default_tz = [],
      dn_humans = [''u1'' \<mapsto> sample_summary_human], dn_locale = ''en'', dn_enrich = (\<lambda>p _. Some p), dn_validator = None,
      dn_renderer = Some (\<lambda>_ _ lang. [sample_rendered lang]), dn_dispatching = True, dn_breach_message = (\<lambda>_ _ _. []),
      dn_max_per_message = 10, dn_max_age = 0\<rparr>"


end
