(* ===== verification/JsonWrite.thy ===== *)
theory JsonWrite
  imports Json
begin

text \<open>
  What the sources use of \<open>json.Marshal\<close>: a slice of strings as a JSON array, with the encoder's default HTML escaping. Text
  is valid UTF-8, as for the decoder. Every column of lists of the database (areas, communities, restrictions, blocked
  alerts) is written this way and read by the decoder of Json; the two are inverse.
\<close>

definition hex_char :: "nat \<Rightarrow> char" where
  "hex_char n = (if n < 10 then char_of (48 + n) else char_of (87 + n))"

definition quote_char :: "char \<Rightarrow> string" where
  "quote_char c =
     (let n = (of_char c :: nat) in
      if c = CHR 0x22 \<or> c = CHR 0x5C then [CHR 0x5C, c]
      else if n = 8 then [CHR 0x5C, CHR ''b''] else if n = 12 then [CHR 0x5C, CHR ''f'']
      else if n = 10 then [CHR 0x5C, CHR ''n''] else if n = 13 then [CHR 0x5C, CHR ''r'']
      else if n = 9 then [CHR 0x5C, CHR ''t'']
      else if n < 32 \<or> c = CHR ''<'' \<or> c = CHR ''>'' \<or> c = CHR ''&''
      then [CHR 0x5C, CHR ''u'', CHR ''0'', CHR ''0'', hex_char (n div 16), hex_char (n mod 16)]
      else [c])"

text \<open>The line and paragraph separators, three bytes each, are escaped as well.\<close>

function quote_body :: "string \<Rightarrow> string" where
  "quote_body s =
     (case s of [] \<Rightarrow> []
      | c # cs \<Rightarrow>
          if take 3 s = [CHR 0xE2, CHR 0x80, CHR 0xA8] then CHR 0x5C # ''u2028'' @ quote_body (drop 3 s)
          else if take 3 s = [CHR 0xE2, CHR 0x80, CHR 0xA9] then CHR 0x5C # ''u2029'' @ quote_body (drop 3 s)
          else quote_char c @ quote_body cs)"
  by pat_completeness auto
termination by (relation "measure length") auto

declare quote_body.simps [simp del]

definition json_quote :: "string \<Rightarrow> string" where
  "json_quote s = CHR 0x22 # quote_body s @ [CHR 0x22]"

fun quote_elems :: "string list \<Rightarrow> string" where
  "quote_elems [] = []"
| "quote_elems [s] = json_quote s"
| "quote_elems (s # t # ts) = json_quote s @ CHR '','' # quote_elems (t # ts)"

text \<open>A nil slice is null.\<close>

definition marshal_strings :: "string list option \<Rightarrow> string" where
  "marshal_strings x = (case x of None \<Rightarrow> ''null'' | Some ss \<Rightarrow> CHR ''['' # quote_elems ss @ '']'')"

section \<open>Reading back\<close>

lemma hex_digit_char: "n < 16 \<Longrightarrow> hex_digit (hex_char n) = Some n"
  by (auto simp: hex_digit_def hex_char_def of_char_of Let_def)

lemma scan_plain:
  "(of_char c :: nat) \<ge> 32 \<Longrightarrow> c \<noteq> CHR 0x22 \<Longrightarrow> c \<noteq> CHR 0x5C \<Longrightarrow>
   scan_string (c # r) = map_option (\<lambda>(v, t). (c # v, t)) (scan_string r)"
  by (subst scan_string.simps) simp

lemma scan_escape:
  "escape_char e = Some c \<Longrightarrow> e \<noteq> CHR ''u'' \<Longrightarrow>
   scan_string (CHR 0x5C # e # r) = map_option (\<lambda>(v, t). (c # v, t)) (scan_string r)"
  by (subst scan_string.simps) simp

lemma scan_unicode:
  "hex4 x y z w = Some n \<Longrightarrow> unquote_u n r = (s, r) \<Longrightarrow>
   scan_string (CHR 0x5C # CHR ''u'' # x # y # z # w # r) = map_option (\<lambda>(v, t). (s @ v, t)) (scan_string r)"
  by (subst scan_string.simps) (simp split: option.split prod.split)

lemma scan_quote_char: "scan_string (quote_char c @ r) = map_option (\<lambda>(v, t). (c # v, t)) (scan_string r)"
proof -
  let ?n = "of_char c :: nat"
  have small: "scan_string ([CHR 0x5C, CHR ''u'', CHR ''0'', CHR ''0'', hex_char (?n div 16), hex_char (?n mod 16)] @ r) =
      map_option (\<lambda>(v, t). (c # v, t)) (scan_string r)" if n: "?n < 128"
  proof -
    have "?n div 16 < 16" using n by simp
    then have "hex4 (CHR ''0'') (CHR ''0'') (hex_char (?n div 16)) (hex_char (?n mod 16)) = Some ?n"
      by (simp add: hex4_def hex_digit_char) (simp add: hex_digit_def)
    moreover have "unquote_u ?n r = ([c], r)" using n by (simp add: unquote_u_def utf8_def)
    ultimately show ?thesis using scan_unicode [of "CHR ''0''" "CHR ''0''"] by simp
  qed
  have ctrl: "c = char_of k" if "?n = k" for k using that by (metis char_of_char)
  have spec: "(of_char (CHR ''<'') :: nat) = 60" "(of_char (CHR ''>'') :: nat) = 62" "(of_char (CHR ''&'') :: nat) = 38" by simp_all
  consider "c = CHR 0x22 \<or> c = CHR 0x5C" | "?n \<in> {8, 9, 10, 12, 13}"
    | "c \<noteq> CHR 0x22" "c \<noteq> CHR 0x5C" "?n \<notin> {8, 9, 10, 12, 13}" "?n < 32 \<or> c = CHR ''<'' \<or> c = CHR ''>'' \<or> c = CHR ''&''"
    | "c \<noteq> CHR 0x22" "c \<noteq> CHR 0x5C" "?n \<notin> {8, 9, 10, 12, 13}" "\<not> (?n < 32 \<or> c = CHR ''<'' \<or> c = CHR ''>'' \<or> c = CHR ''&'')" by blast
  then show ?thesis
  proof cases
    case 1
    then have "quote_char c = [CHR 0x5C, c]" "escape_char c = Some c" "c \<noteq> CHR ''u''"
      by (auto simp: quote_char_def escape_char_def Let_def)
    then show ?thesis by (simp add: scan_escape)
  next
    case 2
    then have "?n = 8 \<or> ?n = 9 \<or> ?n = 10 \<or> ?n = 12 \<or> ?n = 13" by simp
    then consider "c = char_of (8 :: nat)" | "c = char_of (9 :: nat)" | "c = char_of (10 :: nat)" | "c = char_of (12 :: nat)" | "c = char_of (13 :: nat)"
      using ctrl [of 8] ctrl [of 9] ctrl [of 10] ctrl [of 12] ctrl [of 13] by blast
    then obtain e where e: "quote_char c = [CHR 0x5C, e]" "escape_char e = Some c" "e \<noteq> CHR ''u''"
    proof cases
      case 1 show ?thesis by (rule that [of "CHR ''b''"]; (unfold 1)?; code_simp)
    next
      case 2 show ?thesis by (rule that [of "CHR ''t''"]; (unfold 2)?; code_simp)
    next
      case 3 show ?thesis by (rule that [of "CHR ''n''"]; (unfold 3)?; code_simp)
    next
      case 4 show ?thesis by (rule that [of "CHR ''f''"]; (unfold 4)?; code_simp)
    next
      case 5 show ?thesis by (rule that [of "CHR ''r''"]; (unfold 5)?; code_simp)
    qed
    then show ?thesis by (simp add: scan_escape)
  next
    case 3
    then have "?n < 128" by auto
    moreover have "quote_char c = [CHR 0x5C, CHR ''u'', CHR ''0'', CHR ''0'', hex_char (?n div 16), hex_char (?n mod 16)]"
      using 3 by (simp add: quote_char_def Let_def)
    ultimately show ?thesis using small by simp
  next
    case 4
    then have "quote_char c = [c]" by (simp add: quote_char_def Let_def)
    then show ?thesis using 4 by (simp add: scan_plain)
  qed
qed

lemma scan_quote_body: "scan_string (quote_body s @ CHR 0x22 # t) = Some (s, t)"
proof (induction s rule: quote_body.induct)
  case (1 s)
  show ?case
  proof (cases s)
    case Nil
    then show ?thesis by (subst quote_body.simps) (subst scan_string.simps, simp)
  next
    case (Cons c cs)
    let ?sep = "\<lambda>x. take 3 s = [CHR 0xE2, CHR 0x80, x]"
    have split: "s = take 3 s @ drop 3 s" by simp
    consider "?sep (CHR 0xA8)" | "\<not> ?sep (CHR 0xA8)" "?sep (CHR 0xA9)" | "\<not> ?sep (CHR 0xA8)" "\<not> ?sep (CHR 0xA9)" by blast
    then show ?thesis
    proof cases
      case 1
      have "unquote_u 8232 r = ([CHR 0xE2, CHR 0x80, CHR 0xA8], r)" for r
        by (simp add: unquote_u_def utf8_def) (intro conjI; code_simp)
      moreover have "hex4 (CHR ''2'') (CHR ''0'') (CHR ''2'') (CHR ''8'') = Some 8232" by code_simp
      moreover have "quote_body s = CHR 0x5C # ''u2028'' @ quote_body (drop 3 s)" using 1 Cons by (subst quote_body.simps) simp
      ultimately show ?thesis
        using "1.IH"(1) [OF Cons 1] split 1 by (simp add: scan_unicode)
    next
      case 2
      have "unquote_u 8233 r = ([CHR 0xE2, CHR 0x80, CHR 0xA9], r)" for r
        by (simp add: unquote_u_def utf8_def) (intro conjI; code_simp)
      moreover have "hex4 (CHR ''2'') (CHR ''0'') (CHR ''2'') (CHR ''9'') = Some 8233" by code_simp
      moreover have "quote_body s = CHR 0x5C # ''u2029'' @ quote_body (drop 3 s)" using 2 Cons by (subst quote_body.simps) simp
      ultimately show ?thesis
        using "1.IH"(2) [OF Cons 2] split 2 by (simp add: scan_unicode)
    next
      case 3
      have "quote_body s = quote_char c @ quote_body cs"
        using 3 by (subst quote_body.simps) (simp only: Cons list.case if_False)
      then show ?thesis using "1.IH"(3) [OF Cons 3] Cons by (simp add: scan_quote_char)
    qed
  qed
qed

lemma scan_quoted: "scan_value (Suc n) (json_quote s @ t) = Some (JStr s, t)"
  by (simp add: json_quote_def is_ws_def scan_quote_body)

lemma scan_quoted_elems:
  assumes "ss \<noteq> []" "length ss < n"
  shows "scan_elems n (quote_elems ss @ CHR '']'' # t) = Some (map JStr ss, t)"
  using assms
proof (induction ss arbitrary: n rule: quote_elems.induct)
  case (2 s)
  then obtain m where "n = Suc (Suc m)" by (cases n; cases "n - 1") auto
  then show ?case by (simp add: scan_quoted is_ws_def del: scan_value.simps)
next
  case (3 s u us)
  then obtain m where n: "n = Suc (Suc m)" by (cases n; cases "n - 1") auto
  have rest: "scan_elems (Suc m) (quote_elems (u # us) @ CHR '']'' # t) = Some (map JStr (u # us), t)"
    using 3(1) [of "Suc m"] 3(3) n by (simp del: scan_elems.simps)
  have "scan_elems n (json_quote s @ CHR '','' # r) = map_option (\<lambda>(vs, r'). (JStr s # vs, r')) (scan_elems (Suc m) r)" for r
    unfolding n by (subst scan_elems.simps) (simp add: scan_quoted is_ws_def del: scan_value.simps scan_elems.simps)
  from this [of "quote_elems (u # us) @ CHR '']'' # t"] rest show ?case by simp
qed simp

text \<open>What is written is read back, for any strings.\<close>

theorem marshal_roundtrip: "unmarshal_strings (marshal_strings x) = (x, True)"
proof (cases x)
  case None
  have "unmarshal_strings ''null'' = (None, True)" by (rule unmarshal_strings_eval)
  with None show ?thesis by (simp add: marshal_strings_def)
next
  case (Some ss)
  show ?thesis
  proof (cases "ss = []")
    case True
    have "unmarshal_strings ''[]'' = (Some [], True)" by (rule unmarshal_strings_eval)
    with Some True show ?thesis by (simp add: marshal_strings_def)
  next
    case False
    let ?s = "CHR ''['' # quote_elems ss @ '']''"
    let ?n = "Suc (2 * length ?s + 2 + length ss)"
    have "scan_elems (2 * length ?s + 2 + length ss) (quote_elems ss @ '']'') = Some (map JStr ss, [])"
      by (rule scan_quoted_elems) (use False in auto)
    moreover obtain ds where "quote_elems ss = CHR 0x22 # ds"
      using False by (cases ss rule: quote_elems.cases) (auto simp: json_quote_def)
    ultimately have "scan_value ?n ?s = Some (JArr (map JStr ss), [])"
      by (simp add: is_ws_def)
    then have "parse_json ?s = Some (JArr (map JStr ss))"
      by (subst parse_json_fuel [where n = ?n]) simp_all
    then show ?thesis using Some by (simp add: marshal_strings_def unmarshal_strings_def comp_def list_all_iff)
  qed
qed

end
