(* ===== verification/Community.thy ===== *)
theory Community
  imports JsonWrite Geofence Tracking Validate
begin

text \<open>
  Area security: communities, the areas their members may choose and the fences that bound their alerts. The code has it
  twice, in package \<open>community\<close> (used by the API and the reconciliation) and in package \<open>bot\<close> (\<open>community_logic.go\<close>,
  \<open>area_logic.go\<close>, used by the chat commands); names of the second carry the suffix \<open>_bot\<close>. A nil slice is \<open>None\<close> where the code
  tells it from an empty one: a nil restriction means none at all.
\<close>

record community_config =
  cc_name :: string
  cc_allowed_areas :: "string list"
  cc_location_fence :: "string list"
  cc_discord_channels :: "string list"
  cc_discord_user_role :: "string list"
  cc_telegram_channels :: "string list"
  cc_telegram_admins :: "string list"

record area_config =
  ac_enabled :: bool
  ac_communities :: "community_config list"

section \<open>Package \<open>community\<close>\<close>

definition find_community :: "community_config list \<Rightarrow> string \<Rightarrow> community_config option" where
  "find_community communities name = find (\<lambda>c. to_lower (cc_name c) = to_lower name) communities"

definition filter_areas :: "community_config list \<Rightarrow> string list \<Rightarrow> string list \<Rightarrow> string list" where
  "filter_areas communities membership areas =
     (let allowed = foldl (\<lambda>s m. case find_community communities m of None \<Rightarrow> s
                             | Some c \<Rightarrow> foldl (\<lambda>s a. insert (to_lower a) s) s (cc_allowed_areas c)) {} membership
      in filter (\<lambda>a. to_lower a \<in> allowed) areas)"

definition slice_or_nil :: "'a list \<Rightarrow> 'a list option" where
  "slice_or_nil xs = (if xs = [] then None else Some xs)"

definition calculate_location_restrictions :: "community_config list \<Rightarrow> string list \<Rightarrow> string list option" where
  "calculate_location_restrictions communities membership =
     slice_or_nil (fst (foldl (\<lambda>acc m. case find_community communities m of None \<Rightarrow> acc
        | Some c \<Rightarrow> foldl (\<lambda>(result, seen) f. if to_lower f \<in> seen then (result, seen)
                                           else (result @ [to_lower f], insert (to_lower f) seen)) acc (cc_location_fence c))
        ([], {}) membership))"

text \<open>\<open>sortStrings\<close>: insertion by swapping neighbours.\<close>

definition swap :: "'a list \<Rightarrow> nat \<Rightarrow> nat \<Rightarrow> 'a list" where
  "swap s i j = s[i := s ! j, j := s ! i]"

fun sift_down :: "string list \<Rightarrow> nat \<Rightarrow> string list" where
  "sift_down s 0 = s"
| "sift_down s (Suc j) = (if s ! Suc j < s ! j then sift_down (swap s (Suc j) j) j else s)"

definition sort_strings :: "string list \<Rightarrow> string list" where
  "sort_strings s = foldl sift_down s [1..<length s]"

definition validate_communities :: "community_config list \<Rightarrow> string list \<Rightarrow> string list" where
  "validate_communities communities membership =
     sort_strings (filter (\<lambda>m. m \<in> set (map (to_lower \<circ> cc_name) communities)) membership)"

definition add_community :: "community_config list \<Rightarrow> string list \<Rightarrow> string \<Rightarrow> string list" where
  "add_community communities existing to_add =
     validate_communities communities (if to_lower to_add \<in> set existing then existing else existing @ [to_lower to_add])"

definition remove_community :: "community_config list \<Rightarrow> string list \<Rightarrow> string \<Rightarrow> string list" where
  "remove_community communities existing to_remove =
     validate_communities communities (filter (\<lambda>e. e \<noteq> to_lower to_remove) existing)"

definition is_telegram_community_admin :: "community_config list \<Rightarrow> string \<Rightarrow> string list" where
  "is_telegram_community_admin communities telegram_id =
     map (to_lower \<circ> cc_name) (filter (\<lambda>c. telegram_id \<in> set (cc_telegram_admins c)) communities)"

section \<open>Package \<open>bot\<close>: communities\<close>

text \<open>Its \<open>sortStrings\<close> exchanges every pair out of order.\<close>

definition exchange_pass :: "string list \<Rightarrow> nat \<Rightarrow> string list" where
  "exchange_pass s i = foldl (\<lambda>s j. if s ! j < s ! i then swap s i j else s) s [i + 1..<length s]"

definition sort_strings_bot :: "string list \<Rightarrow> string list" where
  "sort_strings_bot s = (if length s = 0 then s else foldl exchange_pass s [0..<length s])"

definition community_keys_lower :: "area_config \<Rightarrow> string set" where
  "community_keys_lower cfg = set (map (\<lambda>c. to_lower (cc_name c)) (ac_communities cfg))"

definition add_community_bot :: "area_config \<Rightarrow> string list \<Rightarrow> string \<Rightarrow> string list" where
  "add_community_bot cfg existing to_add =
     (let result = (if to_lower to_add \<in> set existing then existing else existing @ [to_lower to_add])
      in sort_strings_bot (filter (\<lambda>c. c \<in> community_keys_lower cfg) result))"

definition remove_community_bot :: "area_config \<Rightarrow> string list \<Rightarrow> string \<Rightarrow> string list" where
  "remove_community_bot cfg existing to_remove =
     sort_strings_bot (filter (\<lambda>c. c \<noteq> to_lower to_remove \<and> c \<in> community_keys_lower cfg) existing)"

text \<open>The fences are collected in a Go map; before the sort its order is any. The model lists first occurrences.\<close>

definition calculate_location_restrictions_bot :: "area_config \<Rightarrow> string list \<Rightarrow> string list option" where
  "calculate_location_restrictions_bot cfg communities =
     slice_or_nil (sort_strings_bot (remdups (concat (map (\<lambda>m. concat (map (\<lambda>c.
        if equal_fold (cc_name c) m then map to_lower (cc_location_fence c) else []) (ac_communities cfg))) communities))))"

definition find_community_for_channel :: "area_config \<Rightarrow> string \<Rightarrow> string \<Rightarrow> string" where
  "find_community_for_channel cfg platform channel =
     (case find (\<lambda>c. channel \<in> set (if platform = ''discord'' then cc_discord_channels c
                             else if platform = ''telegram'' then cc_telegram_channels c else [])) (ac_communities cfg) of
        None \<Rightarrow> [] | Some c \<Rightarrow> cc_name c)"

definition is_registration_channel :: "area_config \<Rightarrow> (string \<Rightarrow> string list) \<Rightarrow> string \<Rightarrow> string \<Rightarrow> bool" where
  "is_registration_channel cfg channels platform channel =
     (if ac_enabled cfg then find_community_for_channel cfg platform channel \<noteq> []
      else channel \<in> set (if platform = ''discord'' \<or> platform = ''telegram'' then channels platform else []))"

definition community_names :: "area_config \<Rightarrow> string list" where
  "community_names cfg = sort_strings_bot (map cc_name (ac_communities cfg))"

definition parse_community_membership :: "string \<Rightarrow> string list" where
  "parse_community_membership s =
     (if s = [] \<or> s = ''[]'' then [] else case unmarshal_strings s of (x, True) \<Rightarrow> slice_of x | _ \<Rightarrow> [])"

section \<open>Package \<open>bot\<close>: areas\<close>

record area_fence = fence +
  af_user_selectable :: bool

record area_info =
  ai_name :: string
  ai_group :: string
  ai_user_selectable :: bool
  ai_is_active :: bool

definition build_permitted_set :: "community_config list \<Rightarrow> string list \<Rightarrow> string set" where
  "build_permitted_set communities member_of =
     foldl (\<lambda>s c. foldl (\<lambda>s m. if equal_fold (cc_name c) m then foldl (\<lambda>s a. insert (to_lower a) s) s (cc_allowed_areas c) else s)
        s member_of) {} communities"

definition area_info_of :: "area_fence \<Rightarrow> bool \<Rightarrow> area_info" where
  "area_info_of f selectable = \<lparr>ai_name = fc_name f, ai_group = fc_group f, ai_user_selectable = selectable, ai_is_active = False\<rparr>"

definition get_available_areas :: "area_fence list \<Rightarrow> area_config \<Rightarrow> string list \<Rightarrow> bool \<Rightarrow> area_info list" where
  "get_available_areas fences cfg communities is_admin =
     (if is_admin then map (\<lambda>f. area_info_of f (af_user_selectable f)) fences
      else if \<not> ac_enabled cfg then map (\<lambda>f. area_info_of f True) (filter af_user_selectable fences)
      else let allowed = build_permitted_set (ac_communities cfg) communities
           in map (\<lambda>f. area_info_of f True) (filter (\<lambda>f. af_user_selectable f \<and> to_lower (fc_name f) \<in> allowed) fences))"

definition get_available_areas_marked ::
  "area_fence list \<Rightarrow> area_config \<Rightarrow> string list \<Rightarrow> string list \<Rightarrow> bool \<Rightarrow> area_info list" where
  "get_available_areas_marked fences cfg communities current is_admin =
     map (\<lambda>a. if to_lower (ai_name a) \<in> set (map to_lower current) then a\<lparr>ai_is_active := True\<rparr> else a)
       (get_available_areas fences cfg communities is_admin)"

definition available_map :: "area_info list \<Rightarrow> (string, string) gomap" where
  "available_map available = foldl (\<lambda>m a. gput (to_lower (ai_name a)) (ai_name a) m) [] available"

definition match_available_area :: "(string, string) gomap \<Rightarrow> string \<Rightarrow> (string \<times> string) option" where
  "match_available_area m name =
     (let lower = to_lower name; under = replace_char (CHR '' '') (CHR ''_'') lower
      in case gget m lower of Some dn \<Rightarrow> Some (lower, dn)
         | None \<Rightarrow> if under \<noteq> lower then map_option (\<lambda>dn. (under, dn)) (gget m under) else None)"

fun add_loop :: "(string, string) gomap \<Rightarrow> string set \<Rightarrow> string list \<Rightarrow> string list \<times> string list \<times> string list" where
  "add_loop m cur [] = ([], [], [])"
| "add_loop m cur (name # names) =
     (case match_available_area m name of
        None \<Rightarrow> (let (added, not_found, new) = add_loop m cur names in (added, name # not_found, new))
      | Some (canonical, display) \<Rightarrow>
          if canonical \<in> cur then add_loop m cur names
          else (let (added, not_found, new) = add_loop m (insert canonical cur) names
                in (display # added, not_found, canonical # new)))"

text \<open>The names added, the names not found, and the new list.\<close>

definition add_areas ::
  "area_fence list \<Rightarrow> area_config \<Rightarrow> string list \<Rightarrow> string list \<Rightarrow> string list \<Rightarrow> bool \<Rightarrow> string list \<times> string list \<times> string list" where
  "add_areas fences cfg current communities to_add is_admin =
     (let (added, not_found, new) = add_loop (available_map (get_available_areas fences cfg communities is_admin))
            (set (map to_lower current)) to_add
      in (added, not_found, current @ new))"

definition resolve_available_area :: "area_fence list \<Rightarrow> area_config \<Rightarrow> string \<Rightarrow> string list \<Rightarrow> bool \<Rightarrow> string option" where
  "resolve_available_area fences cfg name communities is_admin =
     map_option snd (match_available_area (available_map (get_available_areas fences cfg communities is_admin)) name)"

definition remove_areas :: "string list \<Rightarrow> string list \<Rightarrow> string list \<times> string list" where
  "remove_areas current to_remove =
     (let gone = concat (map (\<lambda>n. [to_lower n, replace_char (CHR '' '') (CHR ''_'') (to_lower n)]) to_remove)
      in (filter (\<lambda>a. to_lower a \<in> set gone) current, filter (\<lambda>a. to_lower a \<notin> set gone) current))"

definition resolve_display_names :: "area_fence list \<Rightarrow> string list \<Rightarrow> string list" where
  "resolve_display_names fences areas =
     map (\<lambda>name. case find (\<lambda>f. equal_fold (fc_name f) name) fences of Some f \<Rightarrow> fc_name f | None \<Rightarrow> name) areas"

definition find_fence :: "area_fence list \<Rightarrow> string \<Rightarrow> area_fence option" where
  "find_fence fences name =
     (let lower = to_lower name; under = replace_char (CHR '' '') (CHR ''_'') lower
      in find (\<lambda>f. to_lower (fc_name f) = lower \<or> to_lower (fc_name f) = under) fences)"

definition validate_and_prune :: "area_config \<Rightarrow> string list \<Rightarrow> string list \<Rightarrow> string list \<times> string list" where
  "validate_and_prune cfg current communities =
     (if \<not> ac_enabled cfg then (current, [])
      else let allowed = build_permitted_set (ac_communities cfg) communities
           in if allowed = {} then ([], current)
              else (filter (\<lambda>a. to_lower a \<in> allowed) current, filter (\<lambda>a. to_lower a \<notin> allowed) current))"

section \<open>The API\<close>

text \<open>\<open>HandleSetAreas\<close>, from the decoded request to the list it stores; what \<open>HandleGetAreas\<close> offers.\<close>

definition offered_areas :: "area_fence list \<Rightarrow> area_config \<Rightarrow> bool \<Rightarrow> string list \<Rightarrow> string list option \<Rightarrow> area_fence list" where
  "offered_areas fences cfg is_admin membership restriction =
     (let all = map (\<lambda>f. to_lower (fc_name f)) fences;
          allowed = (if ac_enabled cfg \<and> \<not> is_admin \<and> restriction \<noteq> None
                     then filter_areas (ac_communities cfg) membership all else all)
      in filter (\<lambda>f. to_lower (fc_name f) \<in> set (map to_lower allowed)) fences)"

definition set_areas ::
  "area_fence list \<Rightarrow> area_config \<Rightarrow> bool \<Rightarrow> string list \<Rightarrow> string list option \<Rightarrow> string list \<Rightarrow> string list" where
  "set_areas fences cfg is_admin membership restriction requested =
     (let selectable = map (\<lambda>f. to_lower (fc_name f)) (filter (\<lambda>f. is_admin \<or> af_user_selectable f) fences);
          allowed = (if ac_enabled cfg \<and> \<not> is_admin \<and> restriction \<noteq> None
                     then filter_areas (ac_communities cfg) membership selectable else selectable)
      in dedup_by id {} (filter (\<lambda>a. a \<in> set (map to_lower allowed)) (map to_lower requested)))"

section \<open>The columns\<close>

text \<open>\<open>nullStringSlice\<close>, \<open>marshalStringSlice\<close>, \<open>unmarshalStringSlice\<close> (\<open>store/human_sql.go\<close>), the update of a user's communities, and the
  body of the community command.\<close>

definition null_string_slice :: "string list option \<Rightarrow> string option" where
  "null_string_slice s = (case s of None \<Rightarrow> None | Some xs \<Rightarrow> Some (marshal_strings (Some xs)))"

definition marshal_string_slice :: "string list option \<Rightarrow> string" where
  "marshal_string_slice s = (case s of None \<Rightarrow> ''[]'' | Some xs \<Rightarrow> marshal_strings (Some xs))"

definition unmarshal_string_slice :: "string \<Rightarrow> string list option" where
  "unmarshal_string_slice s = (if s = [] then None else case unmarshal_strings s of (x, True) \<Rightarrow> x | _ \<Rightarrow> None)"

definition set_community :: "string list option \<Rightarrow> string list option \<Rightarrow> human_row \<Rightarrow> string \<times> human_row" where
  "set_community communities restrictions row =
     (marshal_string_slice communities, row\<lparr>hr_area_restriction := null_string_slice restrictions\<rparr>)"

definition community_command :: "area_config \<Rightarrow> bool \<Rightarrow> string \<Rightarrow> string \<Rightarrow> human_row \<Rightarrow> string \<times> human_row" where
  "community_command cfg is_add name membership_column row =
     (let membership = slice_of (unmarshal_string_slice membership_column);
          new = (if is_add then add_community_bot cfg membership (to_lower name)
                 else remove_community_bot cfg membership (to_lower name))
      in set_community (slice_or_nil new) (calculate_location_restrictions_bot cfg new) row)"

section \<open>The two sorts\<close>

lemma swap_mset: "i < length s \<Longrightarrow> j < length s \<Longrightarrow> mset (swap s i j) = mset s"
  unfolding swap_def by (rule mset_swap)

lemma length_swap [simp]: "length (swap s i j) = length s"
  by (simp add: swap_def)

lemma insort_below: "y < x \<Longrightarrow> insort y (xs @ [x]) = insort y xs @ [x :: 'a :: linorder]"
  by (induction xs) auto

lemma sift_down_insort:
  assumes "sorted xs"
  shows "sift_down (xs @ y # zs) (length xs) = insort y xs @ zs"
  using assms
proof (induction xs arbitrary: zs rule: rev_induct)
  case (snoc x xs)
  have srt: "sorted xs" "\<forall>a \<in> set xs. a \<le> x" using snoc.prems by (auto simp: sorted_append)
  have swapped: "swap ((xs @ [x]) @ y # zs) (Suc (length xs)) (length xs) = xs @ y # x # zs"
    by (simp add: swap_def list_update_append nth_append)
  show ?case
  proof (cases "y < x")
    case True
    then have "insort y (xs @ [x]) = insort y xs @ [x]" by (rule insort_below)
    then show ?thesis using snoc.IH [OF srt(1), of "x # zs"] True swapped by (simp add: nth_append)
  next
    case False
    then have "insort y (xs @ [x]) = (xs @ [x]) @ [y]"
      using snoc.prems srt by (intro sorted_insort_is_snoc) (auto dest: order_trans)
    then show ?thesis using False by (simp add: nth_append)
  qed
qed simp

lemma sort_strings_sort: "sort_strings s = sort s"
proof -
  have "foldl sift_down s [1..<Suc n] = sort (take (Suc n) s) @ drop (Suc n) s" if "n < length s" for n
    using that
  proof (induction n)
    case 0
    then show ?case by (cases s) simp_all
  next
    case (Suc n)
    have s: "drop (Suc n) s = s ! Suc n # drop (Suc (Suc n)) s" using Suc.prems by (simp add: Cons_nth_drop_Suc)
    have "foldl sift_down s [1..<Suc (Suc n)] = sift_down (sort (take (Suc n) s) @ s ! Suc n # drop (Suc (Suc n)) s) (length (sort (take (Suc n) s)))"
      using Suc s by (simp add: upt_Suc_append)
    also have "\<dots> = insort (s ! Suc n) (sort (take (Suc n) s)) @ drop (Suc (Suc n)) s" by (rule sift_down_insort) simp
    also have "insort (s ! Suc n) (sort (take (Suc n) s)) = sort (take (Suc (Suc n)) s)"
      using Suc.prems by (intro properties_for_sort [symmetric]) (simp_all add: sorted_insort take_Suc_conv_app_nth)
    finally show ?case .
  qed
  from this [of "length s - 1"] show ?thesis by (cases s) (simp_all add: sort_strings_def)
qed

lemma exchange_inner:
  fixes pre :: "string list"
  assumes "i = length pre" and "\<forall>a \<in> set d. x \<le> a"
  shows "\<exists>m r. foldl (\<lambda>s j. if s ! j < s ! i then swap s i j else s) (pre @ x # d @ todo)
      [i + 1 + length d..<i + 1 + length d + length todo] = pre @ m # r \<and> mset (m # r) = mset (x # d @ todo) \<and> (\<forall>a \<in> set r. m \<le> a)"
  using assms(2)
proof (induction todo arbitrary: x d)
  case (Cons y todo)
  let ?F = "\<lambda>s j. if s ! j < s ! i then swap s i j else s"
  let ?s = "pre @ x # d @ y # todo" and ?j = "i + 1 + length d"
  have upt: "[?j..<?j + length (y # todo)] = ?j # [i + 1 + length (d @ [z])..<i + 1 + length (d @ [z]) + length todo]" for z
    by (subst upt_conv_Cons) simp_all
  have nths: "?s ! ?j = y" "?s ! i = x" using assms(1) by (simp_all add: nth_append)
  have sw: "swap ?s i ?j = pre @ y # (d @ [x]) @ todo"
    using assms(1) nths by (simp add: swap_def list_update_append)
  show ?case
  proof (cases "y < x")
    case True
    then have "y \<le> x" by (rule order.strict_implies_order)
    then have "\<forall>a \<in> set (d @ [x]). y \<le> a" using Cons.prems by (auto intro: order_trans [of y x])
    from Cons.IH [OF this] obtain m r where mr: "foldl ?F (pre @ y # (d @ [x]) @ todo)
        [i + 1 + length (d @ [x])..<i + 1 + length (d @ [x]) + length todo] = pre @ m # r"
      "mset (m # r) = mset (y # (d @ [x]) @ todo)" "\<forall>a \<in> set r. m \<le> a" by blast
    have "foldl ?F ?s [?j..<?j + length (y # todo)] = pre @ m # r"
      unfolding upt [of x] foldl_Cons nths using True by (simp only: sw if_True mr(1))
    moreover have "mset (m # r) = mset (x # d @ y # todo)" unfolding mr(2) by simp
    ultimately show ?thesis using mr(3) by blast
  next
    case False
    have "\<forall>a \<in> set (d @ [y]). x \<le> a" using False Cons.prems by auto
    from Cons.IH [OF this] obtain m r where mr: "foldl ?F (pre @ x # (d @ [y]) @ todo)
        [i + 1 + length (d @ [y])..<i + 1 + length (d @ [y]) + length todo] = pre @ m # r"
      "mset (m # r) = mset (x # (d @ [y]) @ todo)" "\<forall>a \<in> set r. m \<le> a" by blast
    have "?s = pre @ x # (d @ [y]) @ todo" by simp
    then have "foldl ?F ?s [?j..<?j + length (y # todo)] = pre @ m # r"
      unfolding upt [of y] foldl_Cons nths using False mr(1) by (simp only: if_False)
    moreover have "mset (m # r) = mset (x # d @ y # todo)" unfolding mr(2) by simp
    ultimately show ?thesis using mr(3) by blast
  qed
qed simp

lemma exchange_outer:
  "k \<le> length s \<Longrightarrow> \<exists>pre rest. foldl exchange_pass s [0..<k] = pre @ rest \<and> length pre = k \<and> mset (pre @ rest) = mset s \<and>
     sorted pre \<and> (\<forall>a \<in> set pre. \<forall>b \<in> set rest. a \<le> b)"
proof (induction k)
  case (Suc k)
  then obtain pre rest where IH: "foldl exchange_pass s [0..<k] = pre @ rest" "length pre = k" "mset (pre @ rest) = mset s"
    "sorted pre" "\<forall>a \<in> set pre. \<forall>b \<in> set rest. a \<le> b" by auto
  from IH(2,3) have "length rest = length s - k" by (metis add_diff_cancel_left' length_append size_mset)
  with Suc.prems obtain x todo where rest: "rest = x # todo" by (cases rest) auto
  obtain m r where mr: "exchange_pass (pre @ rest) k = pre @ m # r" "mset (m # r) = mset rest" "\<forall>a \<in> set r. m \<le> a"
    using exchange_inner [of k pre "[]" x todo] IH(2) rest by (auto simp: exchange_pass_def)
  have "set (m # r) = set rest" by (metis mr(2) set_mset_mset)
  then have "sorted (pre @ [m])" "\<forall>a \<in> set (pre @ [m]). \<forall>b \<in> set r. a \<le> b"
    using IH(4,5) mr(3) by (auto simp: sorted_append)
  moreover have "mset ((pre @ [m]) @ r) = mset s" using IH(3) mr(2) by simp
  ultimately show ?case using IH(1,2) mr(1) by (intro exI [of _ "pre @ [m]"] exI [of _ r]) simp
qed (auto intro: exI [of _ "[]"])

lemma sort_strings_bot_sort: "sort_strings_bot s = sort s"
proof -
  obtain pre rest where o: "foldl exchange_pass s [0..<length s] = pre @ rest" "length pre = length s" "mset (pre @ rest) = mset s" "sorted pre"
    using exchange_outer [of "length s" s] by auto
  have "rest = []" using o(2,3) by (metis add_cancel_right_right length_0_conv length_append size_mset)
  with o have "sort s = foldl exchange_pass s [0..<length s]" by (intro properties_for_sort) simp_all
  then show ?thesis by (simp add: sort_strings_bot_def)
qed

section \<open>The two implementations agree\<close>

lemma find_equal_fold:
  assumes "distinct (map (to_lower \<circ> cc_name) communities)"
  shows "find (\<lambda>c. to_lower (cc_name c) = to_lower m) communities = Some c \<longleftrightarrow> c \<in> set communities \<and> equal_fold (cc_name c) m"
  using assms by (induction communities) (auto simp: equal_fold_def rev_image_eqI)

lemma fold_insert: "foldl (\<lambda>s a. insert (f a) s) s as = s \<union> f ` set as"
  by (induction as arbitrary: s) auto

lemma fold_union: "foldl (\<lambda>s x. s \<union> f x) s xs = s \<union> (\<Union>x \<in> set xs. f x)"
  by (induction xs arbitrary: s) auto

lemma build_permitted_set_eq:
  "build_permitted_set communities membership =
     {to_lower a | a c m. c \<in> set communities \<and> m \<in> set membership \<and> equal_fold (cc_name c) m \<and> a \<in> set (cc_allowed_areas c)}"
proof -
  have inner: "foldl (\<lambda>s m. if equal_fold (cc_name c) m then foldl (\<lambda>s a. insert (to_lower a) s) s (cc_allowed_areas c) else s) s ms =
      s \<union> (\<Union>m \<in> set ms. if equal_fold (cc_name c) m then to_lower ` set (cc_allowed_areas c) else {})" for c s ms
    by (induction ms arbitrary: s) (auto simp: fold_insert)
  show ?thesis unfolding build_permitted_set_def by (simp only: inner fold_union) (auto split: if_splits)
qed

lemma filter_areas_eq:
  "filter_areas communities membership areas =
     filter (\<lambda>a. \<exists>m \<in> set membership. \<exists>c. find_community communities m = Some c \<and> to_lower a \<in> to_lower ` set (cc_allowed_areas c)) areas"
proof -
  have "foldl (\<lambda>s m. case find_community communities m of None \<Rightarrow> s
          | Some c \<Rightarrow> foldl (\<lambda>s a. insert (to_lower a) s) s (cc_allowed_areas c)) s ms =
      s \<union> (\<Union>m \<in> set ms. case find_community communities m of None \<Rightarrow> {} | Some c \<Rightarrow> to_lower ` set (cc_allowed_areas c))" for s ms
    by (induction ms arbitrary: s) (auto simp: fold_insert split: option.splits)
  then show ?thesis unfolding filter_areas_def Let_def by (intro filter_cong refl) (auto split: option.splits, metis image_eqI)
qed

lemma community_fences_seen:
  "foldl (\<lambda>(result, seen) f. if to_lower f \<in> seen then (result, seen) else (result @ [to_lower f], insert (to_lower f) seen)) (rs, ss) fs =
     (rs', ss') \<Longrightarrow> set rs = ss \<Longrightarrow> set rs' = ss' \<and> ss' = ss \<union> to_lower ` set fs \<and> (distinct rs \<longrightarrow> distinct rs')"
proof (induction fs arbitrary: rs ss)
  case (Cons f fs)
  show ?case
  proof (cases "to_lower f \<in> ss")
    case True
    then show ?thesis using Cons.IH [of rs ss] Cons.prems by (simp add: insert_absorb)
  next
    case False
    then show ?thesis using Cons.IH [of "rs @ [to_lower f]" "insert (to_lower f) ss"] Cons.prems by simp
  qed
qed simp

lemma location_restrictions_eq:
  "\<exists>fs. calculate_location_restrictions communities membership = slice_or_nil fs \<and> distinct fs \<and>
     set fs = {to_lower f | f m c. m \<in> set membership \<and> find_community communities m = Some c \<and> f \<in> set (cc_location_fence c)}"
proof -
  let ?step = "\<lambda>acc m. case find_community communities m of None \<Rightarrow> acc
        | Some c \<Rightarrow> foldl (\<lambda>(result, seen) f. if to_lower f \<in> seen then (result, seen)
                                           else (result @ [to_lower f], insert (to_lower f) seen)) acc (cc_location_fence c)"
  have "set (fst (foldl ?step ([], {}) ms)) = snd (foldl ?step ([], {}) ms) \<and> distinct (fst (foldl ?step ([], {}) ms)) \<and>
      snd (foldl ?step ([], {}) ms) = {to_lower f | f m c. m \<in> set ms \<and> find_community communities m = Some c \<and> f \<in> set (cc_location_fence c)}" for ms
  proof (induction ms rule: rev_induct)
    case (snoc m ms)
    obtain rs ss where st: "foldl ?step ([], {}) ms = (rs, ss)" by fastforce
    show ?case
    proof (cases "find_community communities m")
      case None
      then show ?thesis using snoc by auto
    next
      case (Some c)
      obtain rs' ss' where st': "?step (rs, ss) m = (rs', ss')" by fastforce
      then have "set rs' = ss' \<and> ss' = ss \<union> to_lower ` set (cc_location_fence c) \<and> (distinct rs \<longrightarrow> distinct rs')"
        using snoc st Some by (intro community_fences_seen) auto
      then show ?thesis using snoc st st' Some by (auto 4 4)
    qed
  qed simp
  then show ?thesis unfolding calculate_location_restrictions_def by blast
qed

lemma slice_or_nil_simps [simp]:
  "slice_or_nil xs = None \<longleftrightarrow> xs = []" "slice_or_nil xs = Some ys \<longleftrightarrow> xs = ys \<and> xs \<noteq> []" "slice_of (slice_or_nil xs) = xs"
  by (auto simp: slice_or_nil_def slice_of_def)

lemma restrictions_bot_eq:
  "\<exists>fs. calculate_location_restrictions_bot cfg membership = slice_or_nil fs \<and> sorted fs \<and> distinct fs \<and>
     set fs = {to_lower f | f m c. m \<in> set membership \<and> c \<in> set (ac_communities cfg) \<and> equal_fold (cc_name c) m \<and> f \<in> set (cc_location_fence c)}"
proof -
  let ?g = "\<lambda>m c. if equal_fold (cc_name c) m then map to_lower (cc_location_fence c) else []"
  have "set (?g m c) = {to_lower f | f. equal_fold (cc_name c) m \<and> f \<in> set (cc_location_fence c)}" for m c by auto
  then have "set (concat (map (\<lambda>m. concat (map (?g m) (ac_communities cfg))) membership)) =
      {to_lower f | f m c. m \<in> set membership \<and> c \<in> set (ac_communities cfg) \<and> equal_fold (cc_name c) m \<and> f \<in> set (cc_location_fence c)}"
    by (simp del: if_split) blast
  moreover define fs where "fs = sort (remdups (concat (map (\<lambda>m. concat (map (?g m) (ac_communities cfg))) membership)))"
  moreover have "calculate_location_restrictions_bot cfg membership = slice_or_nil fs"
    by (simp only: calculate_location_restrictions_bot_def sort_strings_bot_sort fs_def)
  ultimately show ?thesis by (intro exI [of _ fs]) (simp only: sorted_sort distinct_sort distinct_remdups set_sort set_remdups simp_thms)
qed

lemma find_community_some:
  "find_community communities m = Some c \<Longrightarrow> c \<in> set communities \<and> equal_fold (cc_name c) m"
  by (induction communities) (auto simp: find_community_def equal_fold_def split: if_splits)

section \<open>What a restriction does\<close>

lemma restriction_column:
  "h_area_restriction (human_of_row (row\<lparr>hr_area_restriction := null_string_slice x\<rparr>)) = map_option (map normalize_area) x"
  by (cases x) (simp_all add: human_of_row_def null_string_slice_def parse_and_normalize_areas_def marshal_roundtrip)

lemma membership_column: "slice_of (unmarshal_string_slice (marshal_string_slice (slice_or_nil x))) = x"
proof (cases x)
  case Nil
  have "unmarshal_strings ''[]'' = (Some [], True)" by (rule unmarshal_strings_eval)
  with Nil show ?thesis by (simp add: marshal_string_slice_def unmarshal_string_slice_def slice_or_nil_def slice_of_def)
next
  case (Cons a as)
  have "marshal_strings (Some x) \<noteq> []" by (simp add: marshal_strings_def)
  with Cons show ?thesis
    by (simp add: marshal_string_slice_def unmarshal_string_slice_def slice_or_nil_def slice_of_def marshal_roundtrip)
qed

text \<open>C24: After the community command the user is in exactly the communities meant, and the matcher, once it has loaded the row
  the command wrote, bounds the user's alerts (with strict locations) by the fences of these communities and by nothing else. Without
  any fence, in particular for a user who has left the last community, nothing is bounded.\<close>

theorem community_restriction_exact:
  "let (column', row') = community_command cfg is_add name column row;
       members = slice_of (unmarshal_string_slice column); members' = slice_of (unmarshal_string_slice column');
       fences = {to_lower f | f m c. m \<in> set members' \<and> c \<in> set (ac_communities cfg) \<and> equal_fold (cc_name c) m \<and> f \<in> set (cc_location_fence c)}
   in sorted members' \<and>
      set members' = {m. (if is_add then m \<in> set members \<or> m = to_lower name else m \<in> set members \<and> m \<noteq> to_lower name) \<and>
                         (\<exists>c \<in> set (ac_communities cfg). m = to_lower (cc_name c))} \<and>
      (strict_rejects ev (human_of_row row') \<longleftrightarrow> ec_strict ev \<and> fences \<noteq> {} \<and> normalize_area ` fences \<inter> ec_areas ev = {})"
proof -
  let ?ms = "slice_of (unmarshal_string_slice column)"
  define new where "new = (if is_add then add_community_bot cfg ?ms (to_lower name) else remove_community_bot cfg ?ms (to_lower name))"
  obtain fs where fs: "calculate_location_restrictions_bot cfg new = slice_or_nil fs"
    "set fs = {to_lower f | f m c. m \<in> set new \<and> c \<in> set (ac_communities cfg) \<and> equal_fold (cc_name c) m \<and> f \<in> set (cc_location_fence c)}"
    using restrictions_bot_eq [of cfg new] by blast
  have cmd: "community_command cfg is_add name column row =
      (marshal_string_slice (slice_or_nil new), row\<lparr>hr_area_restriction := null_string_slice (slice_or_nil fs)\<rparr>)"
    by (simp add: community_command_def set_community_def Let_def new_def fs(1) [unfolded new_def])
  have "sorted new" by (simp add: new_def add_community_bot_def remove_community_bot_def sort_strings_bot_sort Let_def)
  moreover have "set new = {m. (if is_add then m \<in> set ?ms \<or> m = to_lower name else m \<in> set ?ms \<and> m \<noteq> to_lower name) \<and>
      (\<exists>c \<in> set (ac_communities cfg). m = to_lower (cc_name c))}"
    by (auto simp: new_def add_community_bot_def remove_community_bot_def sort_strings_bot_sort Let_def community_keys_lower_def)
  moreover have "strict_rejects ev (human_of_row (row\<lparr>hr_area_restriction := null_string_slice (slice_or_nil fs)\<rparr>)) \<longleftrightarrow>
      ec_strict ev \<and> set fs \<noteq> {} \<and> normalize_area ` set fs \<inter> ec_areas ev = {}"
    by (auto simp: strict_rejects_def restriction_column area_overlap_iff slice_or_nil_def)
  ultimately show ?thesis unfolding cmd by (simp add: membership_column fs(2) Let_def)
qed

section \<open>Which areas a user can choose\<close>

lemma gget_available_map:
  "gget (available_map available) k = Some d \<Longrightarrow> \<exists>a \<in> set available. to_lower (ai_name a) = k \<and> d = ai_name a"
proof -
  have "gget (foldl (\<lambda>m a. gput (to_lower (ai_name a)) (ai_name a) m) m as) k = Some d \<Longrightarrow>
      (\<exists>a \<in> set as. to_lower (ai_name a) = k \<and> d = ai_name a) \<or> gget m k = Some d" for m as
    by (induction as arbitrary: m) (fastforce simp: gget_put split: if_splits)+
  from this [of "[]" available] show "gget (available_map available) k = Some d \<Longrightarrow> ?thesis" by (simp add: available_map_def)
qed

lemma gget_available_map_none:
  "gget (available_map available) k = None \<longleftrightarrow> k \<notin> (to_lower \<circ> ai_name) ` set available"
proof -
  have "gget (foldl (\<lambda>m a. gput (to_lower (ai_name a)) (ai_name a) m) m as) k = None \<longleftrightarrow>
      k \<notin> (to_lower \<circ> ai_name) ` set as \<and> gget m k = None" for m as
    by (induction as arbitrary: m) (auto simp: gget_put)
  from this [of "[]" available] show ?thesis by (simp add: available_map_def)
qed

definition canonical_area :: "string set \<Rightarrow> string \<Rightarrow> string option" where
  "canonical_area offered name =
     (if to_lower name \<in> offered then Some (to_lower name)
      else if replace_char (CHR '' '') (CHR ''_'') (to_lower name) \<in> offered
      then Some (replace_char (CHR '' '') (CHR ''_'') (to_lower name)) else None)"

lemma match_canonical:
  "map_option fst (match_available_area (available_map available) name) = canonical_area ((to_lower \<circ> ai_name) ` set available) name"
  using gget_available_map_none [of available "to_lower name"]
    gget_available_map_none [of available "replace_char (CHR '' '') (CHR ''_'') (to_lower name)"]
  by (auto simp: match_available_area_def canonical_area_def Let_def split: option.splits)

lemma add_loop_props:
  assumes "add_loop m cur names = (added, not_found, new)"
  shows "set new = {c. (\<exists>n \<in> set names. map_option fst (match_available_area m n) = Some c) \<and> c \<notin> cur} \<and> distinct new \<and>
    not_found = filter (\<lambda>n. map_option fst (match_available_area m n) = None) names"
  using assms
proof (induction m cur names arbitrary: added not_found new rule: add_loop.induct)
  case (2 m cur name names)
  show ?case
  proof (cases "match_available_area m name")
    case None
    obtain a n w where r: "add_loop m cur names = (a, n, w)" by (cases "add_loop m cur names")
    from "2.prems" None r have "new = w" "not_found = name # n" by simp_all
    with "2.IH"(1) [OF None r] None show ?thesis by auto
  next
    case (Some p)
    obtain c d where p: "p = (c, d)" by (cases p)
    show ?thesis
    proof (cases "c \<in> cur")
      case True
      with "2.prems" Some p have "add_loop m cur names = (added, not_found, new)" by simp
      with "2.IH"(2) [OF Some p [symmetric] True] Some p True show ?thesis by auto
    next
      case False
      obtain a n w where r: "add_loop m (insert c cur) names = (a, n, w)" by (cases "add_loop m (insert c cur) names")
      from "2.prems" Some p False r have "new = c # w" "not_found = n" by simp_all
      with "2.IH"(3) [OF Some p [symmetric] False r] Some p False show ?thesis by auto
    qed
  qed
qed auto

lemma available_names:
  "(to_lower \<circ> ai_name) ` set (get_available_areas fences cfg communities is_admin) =
     {to_lower (fc_name f) | f. f \<in> set fences \<and> (is_admin \<or> af_user_selectable f \<and>
        (ac_enabled cfg \<longrightarrow> to_lower (fc_name f) \<in> build_permitted_set (ac_communities cfg) communities))}"
  by (auto simp: get_available_areas_def area_info_of_def Let_def image_image)

text \<open>What is offered to a user who is not an admin.\<close>

definition may_choose :: "area_fence list \<Rightarrow> area_config \<Rightarrow> string list \<Rightarrow> string \<Rightarrow> bool" where
  "may_choose fences cfg membership a \<longleftrightarrow>
     (\<exists>f \<in> set fences. af_user_selectable f \<and> to_lower (fc_name f) = a) \<and>
     (ac_enabled cfg \<longrightarrow> (\<exists>c \<in> set (ac_communities cfg). \<exists>m \<in> set membership. equal_fold (cc_name c) m \<and>
        (\<exists>x \<in> set (cc_allowed_areas c). to_lower x = a)))"

lemma permitted_iff:
  "a \<in> build_permitted_set communities membership \<longleftrightarrow>
     (\<exists>c \<in> set communities. \<exists>m \<in> set membership. equal_fold (cc_name c) m \<and> (\<exists>x \<in> set (cc_allowed_areas c). to_lower x = a))"
  unfolding build_permitted_set_eq by blast

lemma offered_iff:
  "a \<in> (to_lower \<circ> ai_name) ` set (get_available_areas fences cfg communities False) \<longleftrightarrow> may_choose fences cfg communities a"
  unfolding available_names may_choose_def permitted_iff [symmetric] by auto

lemma set_dedup: "set (dedup_by id {} xs) = set xs"
  using dedup_by_keys [of id "{}" xs] by simp

lemma lower_image:
  "to_lower ` {x \<in> (\<lambda>f. to_lower (fc_name f)) ` S. to_lower x \<in> P} = (\<lambda>f. to_lower (fc_name f)) ` {f \<in> S. to_lower (fc_name f) \<in> P}"
proof -
  have "{x \<in> (\<lambda>f. to_lower (fc_name f)) ` S. to_lower x \<in> P} = (\<lambda>f. to_lower (fc_name f)) ` {f \<in> S. to_lower (fc_name f) \<in> P}"
    by auto
  then show ?thesis by (simp add: image_image)
qed

lemma set_areas_set:
  "set (set_areas fences cfg False membership restriction names) = {a \<in> to_lower ` set names. a \<in> to_lower ` set
     (if ac_enabled cfg \<and> restriction \<noteq> None
      then filter_areas (ac_communities cfg) membership (map (\<lambda>f. to_lower (fc_name f)) (filter af_user_selectable fences))
      else map (\<lambda>f. to_lower (fc_name f)) (filter af_user_selectable fences))}"
  by (auto simp: set_areas_def Let_def set_dedup)

lemma lower_spaceless: "CHR '' '' \<notin> set n \<Longrightarrow> replace_char (CHR '' '') c (to_lower n) = to_lower n"
proof -
  assume n: "CHR '' '' \<notin> set n"
  have "lower_char x \<noteq> CHR '' ''" if "x \<in> set n" for x
  proof
    assume x: "lower_char x = CHR '' ''"
    show False
    proof (cases "65 \<le> (of_char x :: nat) \<and> (of_char x :: nat) \<le> 90")
      case True
      then have "(of_char (lower_char x) :: nat) = of_char x + 32" by (simp add: lower_char_def)
      with x True show False by simp
    next
      case False
      then have "lower_char x = x" by (auto simp: lower_char_def)
      with x that n show False by simp
    qed
  qed
  then show ?thesis by (auto simp: replace_char_def to_lower_def intro: map_idI)
qed

lemma add_areas_spaceless:
  assumes "\<forall>n \<in> set names. CHR '' '' \<notin> set n"
  shows "set (snd (snd (add_areas fences cfg [] membership names False))) = {a \<in> to_lower ` set names. may_choose fences cfg membership a}"
proof -
  let ?m = "available_map (get_available_areas fences cfg membership False)"
  obtain added nf new where l: "add_loop ?m {} names = (added, nf, new)" by (cases "add_loop ?m {} names") blast
  have one: "canonical_area offered n = Some a \<longleftrightarrow> a = to_lower n \<and> a \<in> offered" if "n \<in> set names" for n a offered
    using assms that by (auto simp: canonical_area_def lower_spaceless)
  have "set new = {a \<in> to_lower ` set names. may_choose fences cfg membership a}"
    using add_loop_props [OF l] one unfolding match_canonical by (auto simp flip: offered_iff)
  then show ?thesis by (simp add: add_areas_def l)
qed

lemma choices_agree:
  assumes "distinct (map (to_lower \<circ> cc_name) (ac_communities cfg))"
  shows "if restriction \<noteq> None \<or> \<not> ac_enabled cfg
      then map fc_name (filter af_user_selectable (offered_areas fences cfg False membership restriction)) =
             map ai_name (get_available_areas fences cfg membership False) \<and>
           ((\<forall>n \<in> set names. CHR '' '' \<notin> set n) \<longrightarrow>
             set (set_areas fences cfg False membership restriction names) =
             set (snd (snd (add_areas fences cfg [] membership names False))))
      else map fc_name (filter af_user_selectable (offered_areas fences cfg False membership restriction)) =
             map fc_name (filter af_user_selectable fences) \<and>
           set (set_areas fences cfg False membership restriction names) =
             {a \<in> to_lower ` set names. \<exists>f \<in> set fences. af_user_selectable f \<and> to_lower (fc_name f) = a}"
proof -
  let ?cs = "ac_communities cfg"
  have found: "find_community ?cs m = Some c \<longleftrightarrow> c \<in> set ?cs \<and> equal_fold (cc_name c) m" for m c
    unfolding find_community_def by (rule find_equal_fold [OF assms])
  have filt: "filter_areas ?cs membership areas = filter (\<lambda>a. to_lower a \<in> build_permitted_set ?cs membership) areas" for areas
    unfolding filter_areas_eq build_permitted_set_eq found by (intro filter_cong refl) auto
  have offer: "map fc_name (filter af_user_selectable (offered_areas fences cfg False membership restriction)) =
      map fc_name (filter (\<lambda>f. af_user_selectable f \<and> (ac_enabled cfg \<and> restriction \<noteq> None \<longrightarrow>
        to_lower (fc_name f) \<in> build_permitted_set ?cs membership)) fences)"
    by (auto simp: offered_areas_def filt lower_image image_image Let_def intro!: arg_cong [where f = "map fc_name"] filter_cong)
  have avail: "map ai_name (get_available_areas fences cfg membership False) =
      map fc_name (filter (\<lambda>f. af_user_selectable f \<and> (ac_enabled cfg \<longrightarrow>
        to_lower (fc_name f) \<in> build_permitted_set ?cs membership)) fences)"
    by (simp add: get_available_areas_def area_info_of_def comp_def Let_def)
  have api: "set (set_areas fences cfg False membership restriction names) = {a \<in> to_lower ` set names.
      (\<exists>f \<in> set fences. af_user_selectable f \<and> to_lower (fc_name f) = a) \<and>
      (ac_enabled cfg \<and> restriction \<noteq> None \<longrightarrow> a \<in> build_permitted_set ?cs membership)}"
    unfolding set_areas_set filt by (auto simp: lower_image image_image intro: rev_image_eqI)
  have chat: "may_choose fences cfg membership a \<longleftrightarrow> (\<exists>f \<in> set fences. af_user_selectable f \<and> to_lower (fc_name f) = a) \<and>
      (ac_enabled cfg \<longrightarrow> a \<in> build_permitted_set ?cs membership)" for a
    by (simp only: may_choose_def permitted_iff)
  show ?thesis
    unfolding offer avail api using add_areas_spaceless [of names fences cfg membership] chat by (cases "ac_enabled cfg") auto
qed


datatype area_op = BotAdd "string list" | BotRemove "string list" | ApiSet "string list"

fun area_step :: "area_fence list \<Rightarrow> area_config \<Rightarrow> string list \<Rightarrow> string list option \<Rightarrow> string list \<Rightarrow> area_op \<Rightarrow> string list" where
  "area_step fences cfg membership restriction areas (BotAdd names) =
     (let (added, not_found, new) = add_areas fences cfg areas membership names False in if added \<noteq> [] then new else areas)"
| "area_step fences cfg membership restriction areas (BotRemove names) =
     (let (removed, rest) = remove_areas areas names in if removed \<noteq> [] then rest else areas)"
| "area_step fences cfg membership restriction areas (ApiSet names) = set_areas fences cfg False membership restriction names"

text \<open>C23: Whatever areas a user without admin rights asks for, in any sequence of the chat commands that add and remove areas and
  of the API call that replaces them, every area the user ends up with was there before or is a selectable fence that, while
  area security is on, one of the user's communities allows. The only exception is a user without an area restriction (a null
  column, as after leaving the last community): the API call then takes any selectable fence it names.\<close>

theorem chosen_areas_permitted:
  assumes "a \<in> set (foldl (area_step fences cfg membership restriction) areas ops)"
  shows "a \<in> set areas \<or>
     (\<exists>f \<in> set fences. af_user_selectable f \<and> to_lower (fc_name f) = a) \<and>
     (ac_enabled cfg \<longrightarrow> (\<exists>c \<in> set (ac_communities cfg). \<exists>m \<in> set membership. equal_fold (cc_name c) m \<and>
          (\<exists>x \<in> set (cc_allowed_areas c). to_lower x = a)) \<or>
        restriction = None \<and> (\<exists>names. ApiSet names \<in> set ops \<and> a \<in> to_lower ` set names))"
proof -
  define waived where "waived op b \<longleftrightarrow> restriction = None \<and> (\<exists>names. op = ApiSet names \<and> b \<in> to_lower ` set names) \<and>
      (\<exists>f \<in> set fences. af_user_selectable f \<and> to_lower (fc_name f) = b)" for op b
  have step: "b \<in> set areas \<or> may_choose fences cfg membership b \<or> waived op b"
    if b: "b \<in> set (area_step fences cfg membership restriction areas op)" for areas op b
  proof (cases op)
    case (BotAdd names)
    let ?m = "available_map (get_available_areas fences cfg membership False)"
    obtain added nf new where l: "add_loop ?m (set (map to_lower areas)) names = (added, nf, new)"
      by (cases "add_loop ?m (set (map to_lower areas)) names") blast
    have "c \<in> set new \<Longrightarrow> may_choose fences cfg membership c" for c
      using add_loop_props [OF l] unfolding match_canonical
      by (auto simp: canonical_area_def offered_iff [symmetric] split: if_splits)
    then show ?thesis using b BotAdd l by (auto simp: add_areas_def split: if_splits)
  next
    case (BotRemove names)
    then show ?thesis using b by (auto simp: remove_areas_def Let_def split: if_splits)
  next
    case (ApiSet names)
    let ?sel = "map (\<lambda>f. to_lower (fc_name f)) (filter af_user_selectable fences)"
    have b': "b \<in> to_lower ` set names" "b \<in> to_lower ` set (if ac_enabled cfg \<and> restriction \<noteq> None
        then filter_areas (ac_communities cfg) membership ?sel else ?sel)"
      using b ApiSet by (auto simp: set_areas_set)
    show ?thesis
    proof (cases "restriction = None")
      case True
      with b' ApiSet show ?thesis by (auto simp: waived_def)
    next
      case False
      with b'(2) have "may_choose fences cfg membership b"
        by (auto simp: may_choose_def filter_areas_eq dest!: find_community_some split: if_splits) blast+
      then show ?thesis by blast
    qed
  qed
  have "a \<in> set areas \<or> may_choose fences cfg membership a \<or> (\<exists>op \<in> set ops. waived op a)"
    using assms
  proof (induction ops arbitrary: areas)
    case (Cons op ops)
    then show ?case using step [of a areas op] by auto
  qed simp
  then show ?thesis unfolding may_choose_def waived_def by blast
qed

definition sample_area_cfg :: area_config where
  "sample_area_cfg = \<lparr>ac_enabled = True, ac_communities =
     [\<lparr>cc_name = ''North'', cc_allowed_areas = [''Old_Park''], cc_location_fence = [''Harbour''], cc_discord_channels = [],
       cc_discord_user_role = [''r1''], cc_telegram_channels = [], cc_telegram_admins = []\<rparr>]\<rparr>"

definition sample_area_fences :: "area_fence list" where
  "sample_area_fences =
     [\<lparr>fc_name = ''Old_Park'', fc_normalized_name = [], fc_description = [], fc_group = [], fc_display_in_matches = True,
       fc_path = [], fc_multipath = [], af_user_selectable = True\<rparr>]"

lemma sample_area_cfg_distinct: "distinct (map (to_lower \<circ> cc_name) (ac_communities sample_area_cfg))"
  by (simp add: sample_area_cfg_def)


lemma chosen_areas_permitted_witness:
  "\<exists>c \<in> set (ac_communities sample_area_cfg). \<exists>x \<in> set (cc_allowed_areas c). to_lower x = ''old_park''"
proof -
  have "''old_park'' \<in> set (foldl (area_step sample_area_fences sample_area_cfg [''north''] (Some [])) []
      [BotAdd [''old park''], ApiSet [''OLD_PARK'', ''Pier'']])"
    by code_simp
  from chosen_areas_permitted [OF this] show ?thesis by (simp add: sample_area_cfg_def)
qed

end
