(* ===== verification/Access.thy ===== *)
theory Access
  imports Community Pipeline
begin

text \<open>
  Who may do what (\<open>bot/permissions.go\<close>) and on whose behalf a chat command runs (\<open>bot/target.go\<close>), with the contexts the two bots
  build for it. The user store is two functions: \<open>Get\<close> (\<open>None\<close>: an error; \<open>Some None\<close>: no such row) and
  \<open>LookupWebhookByName\<close>. Replies are constructors instead of texts.
\<close>

record access_config =
  xc_discord_admins :: "string list"
  xc_telegram_admins :: "string list"
  xc_command_security :: "(string, string list) gomap"
  xc_channel_tracking :: "(string, string list) gomap"
  xc_webhook_tracking :: "(string, string list) gomap"
  xc_discord_user_tracking :: "string list"
  xc_telegram_user_tracking :: "string list"

section \<open>Permissions\<close>

definition is_admin :: "access_config \<Rightarrow> string \<Rightarrow> string \<Rightarrow> bool" where
  "is_admin cfg platform user \<longleftrightarrow>
     user \<in> set (if platform = ''discord'' then xc_discord_admins cfg else if platform = ''telegram'' then xc_telegram_admins cfg else [])"

text \<open>The test all restrictions share: the user or one of the roles is listed.\<close>

definition listed :: "string list \<Rightarrow> string \<Rightarrow> string list \<Rightarrow> bool" where
  "listed allowed user roles \<longleftrightarrow> (if user \<in> set allowed then True else list_ex (\<lambda>r. r \<in> set allowed) roles)"

definition command_security_name :: "string \<Rightarrow> string" where
  "command_security_name key =
     (if key = ''cmd.track'' then ''monster'' else if key = ''cmd.raid'' then ''raid'' else if key = ''cmd.egg'' then ''egg''
      else if key = ''cmd.quest'' then ''quest'' else if key = ''cmd.gym'' then ''gym'' else if key = ''cmd.lure'' then ''lure''
      else if key = ''cmd.invasion'' \<or> key = ''cmd.incident'' then ''invasion'' else if key = ''cmd.nest'' then ''nest''
      else if key = ''cmd.maxbattle'' then ''maxbattle'' else if key = ''cmd.poracle_admin'' then ''poracle_admin'' else [])"

definition check_feature_permission :: "access_config \<Rightarrow> string \<Rightarrow> string \<Rightarrow> string \<Rightarrow> string list \<Rightarrow> bool" where
  "check_feature_permission cfg platform feature user roles =
     (if platform \<noteq> ''discord'' then True
      else case gget (xc_command_security cfg) feature of None \<Rightarrow> True
           | Some allowed \<Rightarrow> if allowed = [] then True else listed allowed user roles)"

definition command_allowed :: "access_config \<Rightarrow> string \<Rightarrow> string \<Rightarrow> string \<Rightarrow> string list \<Rightarrow> bool" where
  "command_allowed cfg platform key user roles =
     (if platform \<noteq> ''discord'' then True
      else if command_security_name key = [] then True
      else case gget (xc_command_security cfg) (command_security_name key) of None \<Rightarrow> True
           | Some allowed \<Rightarrow> if allowed = [] then True else listed allowed user roles)"

definition calculate_channel_permissions ::
  "access_config \<Rightarrow> string \<Rightarrow> string list \<Rightarrow> string \<Rightarrow> string \<Rightarrow> string \<Rightarrow> bool" where
  "calculate_channel_permissions cfg user roles channel guild category =
     (if xc_channel_tracking cfg = [] then False
      else list_ex (\<lambda>t. t \<noteq> [] \<and> (case gget (xc_channel_tracking cfg) t of None \<Rightarrow> False | Some allowed \<Rightarrow> listed allowed user roles))
             [channel, guild, category])"

definition can_admin_webhook :: "access_config \<Rightarrow> string \<Rightarrow> string \<Rightarrow> bool" where
  "can_admin_webhook cfg user webhook =
     (if xc_webhook_tracking cfg = [] then False
      else case gget (xc_webhook_tracking cfg) webhook of None \<Rightarrow> False | Some allowed \<Rightarrow> user \<in> set allowed)"

definition can_track_users :: "access_config \<Rightarrow> string \<Rightarrow> string \<Rightarrow> string list \<Rightarrow> bool" where
  "can_track_users cfg platform user roles =
     (let allowed = (if platform = ''discord'' then xc_discord_user_tracking cfg
                     else if platform = ''telegram'' then xc_telegram_user_tracking cfg else [])
      in if allowed = [] then False else listed allowed user roles)"

definition alert_commands :: "string list" where
  "alert_commands = [''raid'', ''monster'', ''gym'', ''specificgym'', ''lure'', ''nest'', ''egg'', ''invasion'', ''pvp'', ''maxbattle'']"

text \<open>The text of the column \<open>blocked_alerts\<close>.\<close>

definition alerts_blocked_for :: "access_config \<Rightarrow> string \<Rightarrow> string list \<Rightarrow> string option" where
  "alerts_blocked_for cfg user roles =
     (if xc_command_security cfg = [] then None
      else let blocked = filter (\<lambda>cmd. case gget (xc_command_security cfg) cmd of None \<Rightarrow> False
                   | Some allowed \<Rightarrow> if allowed = [] then False else \<not> listed allowed user roles) alert_commands
           in if blocked = [] then None else Some (marshal_strings (Some blocked)))"

section \<open>Targets\<close>

record store_human =
  sh_id :: string
  sh_type :: string
  sh_name :: string
  sh_area :: "string list"
  sh_latitude :: f64
  sh_longitude :: f64
  sh_language :: string
  sh_current_profile_no :: int

record target =
  tg_id :: string
  tg_name :: string
  tg_type :: string
  tg_language :: string
  tg_profile_no :: int
  tg_has_location :: bool
  tg_has_area :: bool
  tg_is_admin :: bool
  tg_execution_message :: string

record command_context =
  cx_platform :: string
  cx_user_id :: string
  cx_target_id :: string
  cx_channel_id :: string
  cx_is_dm :: bool
  cx_is_admin :: bool
  cx_channel_tracking :: bool
  cx_user_tracking :: bool
  cx_get :: "string \<Rightarrow> store_human option option"
  cx_lookup_webhook :: "string \<Rightarrow> string option"

datatype target_error =
    StoreError
  | UserNotFound string
  | ChannelNotRegistered string
  | ChannelAdminOnly
  | OnlyAdminsTargetUsers
  | OverrideUserNotFound string
  | WebhookNotFound string
  | NoWebhookPermission string

definition human_to_target :: "store_human \<Rightarrow> target" where
  "human_to_target h =
     \<lparr>tg_id = sh_id h, tg_name = sh_name h, tg_type = sh_type h, tg_language = sh_language h, tg_profile_no = sh_current_profile_no h,
      tg_has_location = (sh_latitude h \<noteq> 0 \<or> sh_longitude h \<noteq> 0), tg_has_area = (sh_area h \<noteq> []), tg_is_admin = False,
      tg_execution_message = []\<rparr>"

definition lookup_target :: "command_context \<Rightarrow> string \<Rightarrow> target option option" where
  "lookup_target ctx i = map_option (map_option human_to_target) (cx_get ctx i)"

text \<open>The loop over the arguments: the last override of each kind, and the arguments left.\<close>

definition override_arg :: "string \<times> string \<times> string list \<Rightarrow> string \<Rightarrow> string \<times> string \<times> string list" where
  "override_arg acc arg =
     (let (name, user, rest) = acc in
      if has_prefix arg ''name:'' \<and> length arg > 5 then (drop 5 arg, user, rest)
      else if has_prefix arg ''name'' \<and> length arg > 4 then (drop 4 arg, user, rest)
      else if has_prefix arg ''user:'' \<and> length arg > 5 then (name, drop 5 arg, rest)
      else if has_prefix arg ''user'' \<and> length arg > 4 then (name, drop 4 arg, rest)
      else (name, user, rest @ [arg]))"

definition default_target :: "command_context \<Rightarrow> target_error + target" where
  "default_target ctx =
     (if cx_is_dm ctx
      then (case lookup_target ctx (cx_target_id ctx) of None \<Rightarrow> Inl StoreError
            | Some None \<Rightarrow> Inl (UserNotFound (cx_target_id ctx))
            | Some (Some t) \<Rightarrow> Inr (t\<lparr>tg_is_admin := cx_is_admin ctx\<rparr>))
      else case lookup_target ctx (cx_channel_id ctx) of
           Some (Some t) \<Rightarrow>
             if cx_is_admin ctx \<or> cx_channel_tracking ctx then Inr (t\<lparr>tg_is_admin := cx_is_admin ctx\<rparr>) else Inl ChannelAdminOnly
         | _ \<Rightarrow> Inl (ChannelNotRegistered (cx_channel_id ctx)))"

definition user_target :: "command_context \<Rightarrow> string \<Rightarrow> target_error + target" where
  "user_target ctx user =
     (if \<not> cx_is_admin ctx \<and> \<not> cx_user_tracking ctx then Inl OnlyAdminsTargetUsers
      else case lookup_target ctx user of
           Some (Some t) \<Rightarrow> Inr (t\<lparr>tg_execution_message := ''This command is being executed as '' @ tg_id t @ '' '' @ tg_name t\<rparr>)
         | _ \<Rightarrow> Inl (OverrideUserNotFound user))"

definition webhook_target :: "access_config \<Rightarrow> command_context \<Rightarrow> string \<Rightarrow> target_error + target" where
  "webhook_target cfg ctx name =
     (case cx_lookup_webhook ctx name of None \<Rightarrow> Inl (WebhookNotFound name)
      | Some i \<Rightarrow>
          if i = [] then Inl (WebhookNotFound name)
          else case lookup_target ctx i of
               Some (Some t) \<Rightarrow>
                 if \<not> cx_is_admin ctx \<and> \<not> can_admin_webhook cfg (cx_user_id ctx) name then Inl (NoWebhookPermission name)
                 else Inr (t\<lparr>tg_execution_message := ''This command is being executed as '' @ tg_type t @ '' '' @ tg_name t\<rparr>)
             | _ \<Rightarrow> Inl (WebhookNotFound name))"

definition build_target :: "access_config \<Rightarrow> command_context \<Rightarrow> string list \<Rightarrow> (target_error + target) \<times> string list" where
  "build_target cfg ctx args =
     (let (name, user, rest) = foldl override_arg ([], [], []) args
      in (if name = [] \<and> user = [] then default_target ctx
          else if user \<noteq> [] then user_target ctx user
          else webhook_target cfg ctx name, rest))"

text \<open>The context of a Discord message, and of a Telegram one, as far as targets depend on it.\<close>

definition discord_context ::
  "access_config \<Rightarrow> string \<Rightarrow> string list \<Rightarrow> string \<Rightarrow> string \<Rightarrow> bool \<Rightarrow> (string \<Rightarrow> store_human option option) \<Rightarrow> (string \<Rightarrow> string option) \<Rightarrow> command_context" where
  "discord_context cfg author roles channel guild is_dm get webhook =
     \<lparr>cx_platform = ''discord'', cx_user_id = author, cx_target_id = author, cx_channel_id = channel, cx_is_dm = is_dm,
      cx_is_admin = is_admin cfg ''discord'' author,
      cx_channel_tracking = calculate_channel_permissions cfg author roles channel guild [],
      cx_user_tracking = can_track_users cfg ''discord'' author roles, cx_get = get, cx_lookup_webhook = webhook\<rparr>"

definition telegram_context ::
  "access_config \<Rightarrow> string \<Rightarrow> string \<Rightarrow> bool \<Rightarrow> (string \<Rightarrow> store_human option option) \<Rightarrow> (string \<Rightarrow> string option) \<Rightarrow> command_context" where
  "telegram_context cfg author chat is_dm get webhook =
     \<lparr>cx_platform = ''telegram'', cx_user_id = author, cx_target_id = author, cx_channel_id = chat, cx_is_dm = is_dm,
      cx_is_admin = is_admin cfg ''telegram'' author, cx_channel_tracking = False,
      cx_user_tracking = can_track_users cfg ''telegram'' author [], cx_get = get, cx_lookup_webhook = webhook\<rparr>"

section \<open>The matcher blocks what the commands refuse\<close>

lemma listed_iff: "listed allowed user roles \<longleftrightarrow> user \<in> set allowed \<or> (\<exists>r \<in> set roles. r \<in> set allowed)"
  by (auto simp: listed_def list_ex_iff)

text \<open>C25: The alerts the matcher blocks for a user, once it has loaded the column the reconciliation writes, are exactly those
  of the ten kinds of alerts whose command or feature the user, by id and roles, is refused; a command of the chat is refused
  exactly when its kind is.\<close>

theorem blocked_alerts_exact:
  "parse_blocked_alerts (null_string (alerts_blocked_for cfg user roles)) =
     {w \<in> set alert_commands. \<not> check_feature_permission cfg ''discord'' w user roles} \<and>
   (command_allowed cfg ''discord'' key user roles \<longleftrightarrow>
      command_security_name key = [] \<or> check_feature_permission cfg ''discord'' (command_security_name key) user roles)"
proof
  let ?P = "\<lambda>cmd. case gget (xc_command_security cfg) cmd of None \<Rightarrow> False
                   | Some allowed \<Rightarrow> if allowed = [] then False else \<not> listed allowed user roles"
  have P: "?P w \<longleftrightarrow> \<not> check_feature_permission cfg ''discord'' w user roles" for w
    by (cases "gget (xc_command_security cfg) w") (auto simp: check_feature_permission_def)
  have lower: "w \<in> set alert_commands \<Longrightarrow> to_lower w = w" for w
  proof -
    have "list_all (\<lambda>w. to_lower w = w) alert_commands" by code_simp
    then show "w \<in> set alert_commands \<Longrightarrow> to_lower w = w" by (simp add: list_all_iff)
  qed
  have parse: "parse_blocked_alerts (marshal_strings (Some ws)) = to_lower ` set ws" for ws
  proof -
    have "marshal_strings (Some ws) \<noteq> []" by (simp add: marshal_strings_def)
    then show ?thesis by (simp add: parse_blocked_alerts_def marshal_roundtrip)
  qed
  have PP: "?P = (\<lambda>w. \<not> check_feature_permission cfg ''discord'' w user roles)" by (intro ext P)
  let ?ws = "filter (\<lambda>w. \<not> check_feature_permission cfg ''discord'' w user roles) alert_commands"
  have ba: "alerts_blocked_for cfg user roles =
      (if xc_command_security cfg = [] \<or> ?ws = [] then None else Some (marshal_strings (Some ?ws)))"
    unfolding alerts_blocked_for_def PP Let_def by simp
  have unrestricted: "?ws = []" if "xc_command_security cfg = []" using that by (simp add: check_feature_permission_def)
  have low: "to_lower ` set ?ws = set ?ws" using lower by (force simp: image_iff)
  have "parse_blocked_alerts (null_string (alerts_blocked_for cfg user roles)) = set ?ws"
  proof (cases "?ws = []")
    case True
    then show ?thesis by (simp add: ba null_string_def parse_blocked_alerts_def)
  next
    case False
    with unrestricted have "alerts_blocked_for cfg user roles = Some (marshal_strings (Some ?ws))" by (auto simp: ba)
    then show ?thesis by (simp only: null_string_def option.case parse low)
  qed
  then show "parse_blocked_alerts (null_string (alerts_blocked_for cfg user roles)) =
     {w \<in> set alert_commands. \<not> check_feature_permission cfg ''discord'' w user roles}" by simp
  show "command_allowed cfg ''discord'' key user roles \<longleftrightarrow>
      command_security_name key = [] \<or> check_feature_permission cfg ''discord'' (command_security_name key) user roles"
    by (simp add: command_allowed_def check_feature_permission_def)
qed

section \<open>Nobody acts for another without leave\<close>

lemma has_prefix_drop: "has_prefix arg p \<Longrightarrow> p @ drop (length p) arg = arg"
  by (metis append_take_drop_id has_prefix_def)

lemma override_prefix:
  "has_prefix a ''name:'' \<Longrightarrow> ''name:'' @ drop 5 a = a" "has_prefix a ''name'' \<Longrightarrow> ''name'' @ drop 4 a = a"
  "has_prefix a ''user:'' \<Longrightarrow> ''user:'' @ drop 5 a = a" "has_prefix a ''user'' \<Longrightarrow> ''user'' @ drop 4 a = a"
  using has_prefix_drop [of a "''name:''"] has_prefix_drop [of a "''name''"] has_prefix_drop [of a "''user:''"]
    has_prefix_drop [of a "''user''"]
  by (simp_all add: eval_nat_numeral)

text \<open>An override comes from an argument, and without one no argument is taken away.\<close>

definition names_override :: "string \<Rightarrow> string list \<Rightarrow> string \<Rightarrow> bool" where
  "names_override word args x \<longleftrightarrow> (\<exists>a \<in> set args. a = word @ x \<or> a = word @ '':'' @ x)"

lemma override_step:
  assumes "override_arg (name, user, rest) a = (name', user', rest')"
  shows "name' = name \<or> (name' \<noteq> [] \<and> (a = ''name'' @ name' \<or> a = ''name'' @ '':'' @ name'))"
    and "user' = user \<or> (user' \<noteq> [] \<and> (a = ''user'' @ user' \<or> a = ''user'' @ '':'' @ user'))"
    and "name' = name \<and> user' = user \<and> rest' = rest @ [a] \<or> name' \<noteq> [] \<or> user' \<noteq> []"
  using assms override_prefix [of a]
  by (auto simp: override_arg_def Let_def split: if_splits)

lemma override_args:
  assumes "foldl override_arg (n0, u0, r0) args = (name, user, rest)"
  shows "(name = n0 \<or> names_override ''name'' args name) \<and> (user = u0 \<or> names_override ''user'' args user) \<and>
    (n0 \<noteq> [] \<longrightarrow> name \<noteq> []) \<and> (u0 \<noteq> [] \<longrightarrow> user \<noteq> []) \<and> (name = [] \<and> user = [] \<longrightarrow> rest = r0 @ args)"
  using assms
proof (induction args arbitrary: n0 u0 r0)
  case (Cons a args)
  obtain n1 u1 r1 where st: "override_arg (n0, u0, r0) a = (n1, u1, r1)" by (cases "override_arg (n0, u0, r0) a") blast
  note IH = Cons.IH [of n1 u1 r1]
  from Cons.prems have "foldl override_arg (n1, u1, r1) args = (name, user, rest)" by (simp add: st)
  note IH = IH [OF this]
  note step = override_step [OF st]
  have "name = n0 \<or> names_override ''name'' (a # args) name" "user = u0 \<or> names_override ''user'' (a # args) user"
    using IH step(1,2) by (auto simp: names_override_def)
  moreover have "n0 \<noteq> [] \<longrightarrow> name \<noteq> []" "u0 \<noteq> [] \<longrightarrow> user \<noteq> []" using IH step(1,2) by auto
  moreover have "name = [] \<and> user = [] \<longrightarrow> rest = r0 @ a # args" using IH step(3) by auto
  ultimately show ?case by blast
qed simp

lemma target_origin:
  assumes "fst (build_target cfg ctx args) = Inr t"
    and "\<forall>i h. cx_get ctx i = Some (Some h) \<longrightarrow> sh_id h = i"
  shows "(cx_is_dm ctx \<and> tg_id t = cx_target_id ctx \<and> snd (build_target cfg ctx args) = args) \<or>
     (\<not> cx_is_dm ctx \<and> tg_id t = cx_channel_id ctx \<and> snd (build_target cfg ctx args) = args \<and>
        (cx_is_admin ctx \<or> cx_channel_tracking ctx)) \<or>
     (names_override ''user'' args (tg_id t) \<and> (cx_is_admin ctx \<or> cx_user_tracking ctx)) \<or>
     (\<exists>name. names_override ''name'' args name \<and> cx_lookup_webhook ctx name = Some (tg_id t) \<and>
        (cx_is_admin ctx \<or> can_admin_webhook cfg (cx_user_id ctx) name))"
proof -
  obtain name user rest where ov: "foldl override_arg ([], [], []) args = (name, user, rest)"
    by (cases "foldl override_arg ([], [], []) args") blast
  note origin = override_args [OF ov]
  have look: "tg_id t' = i" if "lookup_target ctx i = Some (Some t')" for i t'
    using that assms(2) by (auto simp: lookup_target_def human_to_target_def)
  have rest: "snd (build_target cfg ctx args) = rest" by (simp add: build_target_def ov)
  consider (dflt) "name = []" "user = []" "default_target ctx = Inr t" | (user) "user \<noteq> []" "user_target ctx user = Inr t"
    | (webhook) "name \<noteq> []" "webhook_target cfg ctx name = Inr t"
    using assms(1) ov by (auto simp: build_target_def split: if_splits)
  then show ?thesis
  proof cases
    case dflt
    then have "rest = args" using origin by simp
    with dflt(3) rest look show ?thesis by (auto simp: default_target_def split: if_splits option.splits)
  next
    case user
    then have "names_override ''user'' args user" using origin by blast
    with user look show ?thesis by (auto simp: user_target_def split: if_splits option.splits)
  next
    case webhook
    then have "names_override ''name'' args name" using origin by blast
    with webhook look show ?thesis by (auto simp: webhook_target_def split: if_splits option.splits)
  qed
qed

lemma delegated_webhook:
  "can_admin_webhook cfg author name \<Longrightarrow> \<exists>allowed. gget (xc_webhook_tracking cfg) name = Some allowed \<and> author \<in> set allowed"
  by (simp add: can_admin_webhook_def split: if_splits option.splits)

lemma discord_rights:
  fixes cfg author roles channel guild is_dm get webhook
  defines "ctx \<equiv> discord_context cfg author roles channel guild is_dm get webhook"
  shows "cx_is_dm ctx = is_dm" "cx_target_id ctx = author" "cx_channel_id ctx = channel" "cx_lookup_webhook ctx = webhook"
    "cx_get ctx = get" "cx_user_id ctx = author" "cx_is_admin ctx \<longleftrightarrow> author \<in> set (xc_discord_admins cfg)"
    "cx_user_tracking ctx \<Longrightarrow> author \<in> set (xc_discord_user_tracking cfg) \<or> (\<exists>r \<in> set roles. r \<in> set (xc_discord_user_tracking cfg))"
    "cx_channel_tracking ctx \<Longrightarrow> \<exists>place \<in> {channel, guild}. \<exists>allowed. gget (xc_channel_tracking cfg) place = Some allowed \<and>
       (author \<in> set allowed \<or> (\<exists>r \<in> set roles. r \<in> set allowed))"
  by (auto simp: ctx_def discord_context_def is_admin_def can_track_users_def calculate_channel_permissions_def listed_iff Let_def
      split: if_splits option.splits)

lemma telegram_rights:
  fixes cfg author chat is_dm get webhook
  defines "ctx \<equiv> telegram_context cfg author chat is_dm get webhook"
  shows "cx_is_dm ctx = is_dm" "cx_target_id ctx = author" "cx_channel_id ctx = chat" "cx_lookup_webhook ctx = webhook"
    "cx_get ctx = get" "cx_user_id ctx = author" "cx_is_admin ctx \<longleftrightarrow> author \<in> set (xc_telegram_admins cfg)"
    "cx_user_tracking ctx \<Longrightarrow> author \<in> set (xc_telegram_user_tracking cfg)" "\<not> cx_channel_tracking ctx"
  by (auto simp: ctx_def telegram_context_def is_admin_def can_track_users_def listed_iff Let_def split: if_splits)


definition sample_access :: access_config where
  "sample_access = \<lparr>xc_discord_admins = [], xc_telegram_admins = [], xc_command_security = [], xc_channel_tracking = [],
     xc_webhook_tracking = [(''feed'', [''u1''])], xc_discord_user_tracking = [], xc_telegram_user_tracking = []\<rparr>"

definition sample_store :: "string \<Rightarrow> store_human option option" where
  "sample_store i = Some (if i = ''w1'' then Some \<lparr>sh_id = ''w1'', sh_type = ''webhook'', sh_name = ''feed'', sh_area = [], sh_latitude = 0,
     sh_longitude = 0, sh_language = [], sh_current_profile_no = 1\<rparr> else None)"


end
