(* ===== verification/Spec2Isabelle.thy ===== *)
theory Spec2Isabelle
  imports Prelude Float64 Json GeoMath Geofence Pvp Tracking Validate PokemonMatch EventMatch RateLimit Dedup Encounter Summary Mute MinuteRing Rarity Lanes Deliver Weather
    RecentActivity GymTracker Care Pipeline Handlers WeatherAlerts Receiver Throttle Schedule Digest JsonWrite
    Community Access
begin

text \<open>
  PoracleNG, the alert processor (the Go module under \<open>src/processor\<close>). It receives webhooks about events of a
  game world (a pokemon appears, a raid starts, a gym changes hands), finds the users whose tracking rules match,
  and delivers one message to each over Discord or Telegram.

  \<^bold>\<open>The way of an event.\<close> A webhook is first compared with what was seen before: the duplicate cache
  (\<open>tracker/duplicate.go\<close>, theory Dedup) drops repeats, the encounter tracker (\<open>tracker/encounter.go\<close>, Encounter)
  notices that a known spawn changed. Its position is looked up in the geofence index (\<open>geofence\<close>, Geofence), a
  pokemon's PVP rankings are condensed per league (\<open>pvp\<close>, Pvp). The matcher of the event's kind (\<open>matching\<close>:
  PokemonMatch, EventMatch) runs over an immutable snapshot of rules and users (\<open>state\<close>, \<open>db\<close>: Tracking), tests the
  rules' conditions and leaves the users to the validators (\<open>matching/generic.go\<close>, \<open>human.go\<close>, \<open>gym.go\<close>: Validate):
  blocked alerts, profile, area or distance, area restriction. Matches that a user muted are dropped (\<open>mute\<close>, Mute);
  quests of users who asked for a summary are buffered (\<open>tracker/summary_buffer.go\<close>, Summary). Every message is
  charged to a per-destination limiter (\<open>ratelimit\<close>, RateLimit) and put on the lane of its destination
  (\<open>delivery/queue.go\<close>: Lanes), whose drainer edits, replies to or sends the platform message (Deliver). Counters over a
  sliding window feed the status pages and the rarity groups (\<open>webhook/rate.go\<close>, \<open>delivery/ratelimit.go\<close>,
  \<open>tracker/rarity.go\<close>: MinuteRing, Rarity). The remaining trackers remember the weather of every cell and vote on it from
  boosted pokemon (Weather), the state of every gym (GymTracker), what was seen lately (RecentActivity), and which users
  have a live match in a cell (Care). Pipeline composes all of these into the handler of pokemon webhooks
  (\<open>cmd/processor/pokemon.go\<close>), Handlers into those of raids, gyms, quests, lures, invasions, showcases, nests, max
  battles and forts, and WeatherAlerts into those of weather (\<open>cmd/processor/weather.go\<close>), each from the parsed payload to
  the render jobs. Receiver routes the entries of a batch to them (\<open>webhook/receiver.go\<close>).
  The schedulers wake at fixed minutes, switch profiles and pick the users whose summary is due (\<open>cmd/processor/profiles.go\<close>,
  \<open>summary_scheduler.go\<close>: Schedule), whose buffered quests are then grouped and sent (\<open>quest_summary_dispatch.go\<close>: Digest).
  Who may choose which areas, and act for whom, is decided by area security and the permissions (Community, Access).
  Before a message goes to Discord its lane waits for the destination and for a global token (\<open>delivery/ratelimit.go\<close>: Throttle).

  \<^bold>\<open>Conventions.\<close> Times (\<open>time.Time\<close>) and durations are integers, in nanoseconds; \<open>unix\<close> is the second. The clock is an
  argument of the operations that read it. A Go map is an association list (\<open>gomap\<close>): its order stands for the
  iteration order Go leaves open, \<open>gok\<close> says no key is twice, and the theorems hold for every order. A mutex held for
  a whole method makes the method one step; concurrency that the code does not serialise is an inductive step
  relation (Lanes). Go's \<open>int\<close> is unbounded here; where an overflow could matter (the sightings' int32 keys) the
  code's own range check is modelled. \<open>float64\<close> is the rounded real of Float64. Code outside \<open>src\<close> (the R-tree, ttlcache, hash function, JSON
  codec, HTTP senders) is a parameter of the definitions that use it.

  \<^bold>\<open>Theories, definitions and lemmas.\<close>

  \<^item> Prelude: clock, strings, \<open>itoa\<close>, first-occurrence deduplication, Go maps. The locale \<open>go_map\<close> states the laws of a
    map with a retention operation and proves when two maps agree on their live entries; it is interpreted on
    \<open>gomap\<close> here and on the sharded set in Dedup.
  \<^item> Float64: IEEE binary64 rounding, to nearest and ties to even, over the reals, with monotonicity and exactness
    lemmas; overflow, NaN and infinities do not occur in the modelled code and are left out. Json: \<open>json.Unmarshal\<close>
    into \<open>[]string\<close>, with fuel the length of the text plus one, which the lemma \<open>parse_json_fuel\<close> shows to be enough.
  \<^item> GeoMath (\<open>matching/haversine.go\<close>): distance and bearing; the distance is symmetric and zero on the diagonal, the
    bearing is in range and the compass label is that of its sector.
  \<^item> Geofence (\<open>pip.go\<close>, \<open>rtree.go\<close>, the comment stripper of \<open>geofence.go\<close>): the index finds exactly the fences whose
    polygon contains the point, for any R-tree that returns every box overlapping the query; the three queries agree.
  \<^item> Pvp (\<open>rankcalculator.go\<close>): the ranks kept per league, cap and evolution are the best of the entries, ties broken by
    combat power.
  \<^item> Tracking (\<open>db/*.go\<close>, \<open>state\<close>): the rows, their loading and normalisation, the index of monster rules (a rule is in
    the buckets that its species and form select), orphan filtering, the swap of the snapshot.
  \<^item> Validate: the four validators, each the fold of the source with its deduplication. The locale \<open>dedup_validator\<close>
    is the contract of such a fold and is interpreted for three of them; the theorems say exactly which users
    pass, that nobody is alerted twice, and that with strict area restriction nobody outside the allowed areas is alerted.
  \<^item> PokemonMatch, EventMatch: the webhook values, each rule's guards and the matchers as the code composes them,
    with the exact condition under which a rule fires, the reduction of orphan filtering, and monotonicity of the rule ranges.
  \<^item> RateLimit: counters, bans and clean-up. A message is let through exactly up to the limit of its window, the
    clean-up goroutine cannot be observed, bans start and end at the stated times, the read-only queries predict the next check.
  \<^item> Dedup: keys with separators are injective, so a message is a duplicate exactly when the same one was heard within
    its lifetime, for a hash without collisions on the keys in play; the raid RSVP cache.
  \<^item> Encounter: the change detection over a trace; the original state of a change is the one last heard and an unencountered
    spawn is reported encountered at most once.
  \<^item> Summary: the buffer, its sweep and the snapshot file; save then load gives the buffer back.
  \<^item> Mute: the store refines the abstract set of muted scopes with deadlines, through any trace of operations.
  \<^item> MinuteRing: the locale \<open>minute_ring\<close>, the contract of a ring of per-minute slots that are recycled in place. It counts
    exactly the events of any window that fits the ring; interpreted on the webhook rate counter, the 429 counter
    and (Rarity) the sighting buckets.
  \<^item> Rarity (\<open>tracker/rarity.go\<close>): groups and shiny rates after any run of sightings, recalculations, exports, resets.
  \<^item> DeliveryTypes, Lanes: jobs, and the fair queue as a step relation over enqueuers, drainers, the idle timer and
    shutdown. Rule induction over reachable states gives exactly-once, in-order processing per destination and at
    most one drainer per destination; after Stop every schedule drains within the measure \<open>work\<close>.
  \<^item> Deliver: one job through \<open>processJob\<close>: exactly when a message is sent, edited, replaced, charged or dropped, and
    how consecutive failures block a target, for new messages only.
  \<^item> Weather (\<open>tracker/weather.go\<close>): webhooks, forecasts, the vote of boosted pokemon, the readers, the eviction sweep. The
    sweep reports exactly the cells whose two halves are gone and no reader can tell whether it ran, for clocks within
    the stated horizon; a change inferred from pokemon has at least five votes since the counters were last cleared.
  \<^item> RecentActivity, GymTracker (\<open>recent_activity.go\<close>, \<open>gymstate.go\<close>): over any run of operations the answer is the
    one the history of recordings determines, clean-ups and restarts included.
  \<^item> Care (\<open>weathercare.go\<close>, \<open>activepokemon.go\<close>, \<open>gamedata/types.go\<close>): who cares about the weather of a cell and until when, and
    which of a user's pokemon a weather change affects, under the caps.
  \<^item> Pipeline (\<open>pokemon.go\<close>, \<open>helpers.go\<close>): the handler as one function of the service state; the recipients of its jobs,
    as multisets, are exactly the matched users that pass the three filters, and the earlier recipients to tell of a
    change. Enrichment and translation are left out of the jobs, no decision depends on them.
  \<^item> Handlers: the other handlers over the same service state, extended by the RSVP cache, the gym states and the summary
    buffer (\<open>hub\<close>). The recipients of raids (and which of the two templates they get), gyms and quests are stated
    exactly, from the fields of the payload and the remembered state, and for quests also what is left in the buffer.
  \<^item> WeatherAlerts: the weather handler and the consumer of weather changes; who is alerted of a change, of which pokemon, and
    when the message is deleted.
  \<^item> Receiver: the dispatch on the webhook type and the pokestop snapshot. Over any batch no match alerts a user who
    is disabled, unknown, throttled, refused by the validator or has muted the event; the notices that a pokemon changed, which the
    code does not filter, go only to enabled users who have a message about it. A message repeated within the lifetime of
    its key is silent, whatever happened in between.
  \<^item> Throttle (\<open>delivery/ratelimit.go\<close>): the token bucket in floating point, the limits per destination, \<open>Wait\<close> and \<open>Update\<close>.
    Over any interleaving of its operations the bucket grants no more than its rate, up to an explicit rounding error;
    a waiter is served, with the list of scheduler delays as fuel and 33 polls (and one per announced millisecond) enough.
  \<^item> Schedule (\<open>db/profiles.go\<close>, \<open>cmd/processor/profiles.go\<close>, \<open>summary_scheduler.go\<close>): active hours and their fire points. Read at
    the marks the ten-minute window is exact over the whole week; in any zone a scheduler asleep at a fire point wakes within ten
    minutes of it, at the next mark of the server's clock, and finds the schedule active, unless a clock is changed meanwhile; which users change profile, and how overlapping profiles depend on the order of the map.
  \<^item> Digest (\<open>quest_summary_dispatch.go\<close>): grouping, chunking, limits and the jobs of a summary; no buffered quest is lost
    or sent twice by a dispatch that runs alone.
  \<^item> JsonWrite: \<open>json.Marshal\<close> of a list of strings, inverse to the decoder of Json for all strings.
  \<^item> Community (\<open>community\<close>, \<open>bot/community_logic.go\<close>, \<open>bot/area_logic.go\<close>, parts of \<open>api/humans.go\<close>, \<open>store/human_sql.go\<close> and the community
    command): area security. Its two implementations agree but for users without an area restriction, whom only the chat filters;
    but for these no sequence of commands and API calls gives a user an area the communities do not allow; and the restriction
    the matcher enforces after a change of communities.
  \<^item> Access (\<open>bot/permissions.go\<close>, \<open>bot/target.go\<close>): who may run a command and on whose record: the sender's, the channel's, or one
    an argument names that the sender may administer; the alerts the matcher
    blocks are exactly those whose command is refused, for the kinds the code lists.

  \<^bold>\<open>Not modelled.\<close> Start-up, HTTP endpoints, SQL writes, the bodies of chat-bot commands, templates, enrichment, geocoding and static
  maps: they are I/O, string formatting or calls of third-party libraries. The circuit breaker is a third-party state
  machine. Metrics and log lines are dropped everywhere. Goroutines that run an operation on a ticker (clean-up, sweep,
  recalculation) are operations of a trace. The GeoJSON decoding of fences, the senders and
  the persistence of the message tracker are not modelled.
\<close>

end
